(* ===== verification/Routery_Prelude.thy ===== *)
theory Routery_Prelude
  imports Main "HOL-Library.Word" Complex_Main
begin

text \<open>
  Shared vocabulary of the development: the Go values every package of the repository uses.

  \<^item> \<open>gerror\<close> models Go's \<open>error\<close> values. \<open>Sentinel\<close> is an \<open>errors.New\<close> variable (the repository
    gives each of them a text of its own, so the text is its identity), \<open>Wrapf\<close> the result of
    \<open>fmt.Errorf("%w: %s", err, detail)\<close>, \<open>Joined\<close> the result of \<open>errors.Join\<close>, \<open>Typed\<close> an error
    struct with its dynamic type name, a payload and what its \<open>Unwrap\<close> returns, and \<open>HostError\<close> an error
    of the caller with what it unwraps to. A Go \<open>error\<close> result is an \<open>gerror option\<close> (\<open>None\<close> is \<open>nil\<close>).
  \<^item> \<open>float64\<close> keeps the IEEE special values apart from the finite ones: comparisons are the only
    operations the modelled code applies to them, so a finite float is its exact rational value
    (negative zero is identified with zero, which no comparison distinguishes).
  \<^item> \<open>gval\<close> is a comparable value behind Go's \<open>any\<close>: a shape together with its dynamic type name.
  \<^item> Time is an \<open>int\<close>: nanoseconds since Go's zero \<open>time.Time\<close> (January 1 of year 1, UTC);
    \<open>IsZero\<close> is \<open>= 0\<close>. A \<open>time.Duration\<close> is an \<open>int\<close> of nanoseconds.
  \<^item> \<open>outcome\<close> is what a Go call does: return a value or panic.
\<close>

section \<open>Fact collections\<close>

named_theorems routery_defs \<open>definitions of operations that component proofs unfold\<close>
named_theorems outcome_simps \<open>evaluation of procedures\<close>
named_theorems frame_intros \<open>introduction rules for relations every procedure keeps\<close>

section \<open>Numbers and dynamic values\<close>

datatype float64 = NaN | PosInf | NegInf | Fin rat

fun flt_less :: "float64 \<Rightarrow> float64 \<Rightarrow> bool" where
  "flt_less NaN _ = False"
| "flt_less _ NaN = False"
| "flt_less PosInf _ = False"
| "flt_less _ NegInf = False"
| "flt_less NegInf _ = True"
| "flt_less _ PosInf = True"
| "flt_less (Fin a) (Fin b) = (a < b)"

definition flt_le :: "float64 \<Rightarrow> float64 \<Rightarrow> bool" where
  "flt_le a b \<longleftrightarrow> flt_less a b \<or> (a = b \<and> a \<noteq> NaN)"

definition is_finite :: "float64 \<Rightarrow> bool" where
  "is_finite a \<longleftrightarrow> a \<noteq> NaN \<and> a \<noteq> PosInf \<and> a \<noteq> NegInf"

datatype gval =
    VNil
  | VBool string bool
  | VInt string int
  | VString string string
  | VFloat string float64
  | VComposite string "gval list"
  | VRef string nat

fun type_of :: "gval \<Rightarrow> string option" where
  "type_of VNil = None"
| "type_of (VBool t _) = Some t"
| "type_of (VInt t _) = Some t"
| "type_of (VString t _) = Some t"
| "type_of (VFloat t _) = Some t"
| "type_of (VComposite t _) = Some t"
| "type_of (VRef t _) = Some t"

text \<open>Go's \<open>==\<close> on interface values: dynamic types agree and contents compare equal (\<open>NaN\<close> never does).\<close>

fun go_eq :: "gval \<Rightarrow> gval \<Rightarrow> bool"
  and go_eq_list :: "gval list \<Rightarrow> gval list \<Rightarrow> bool" where
  "go_eq (VFloat t a) (VFloat u b) = (t = u \<and> a = b \<and> a \<noteq> NaN)"
| "go_eq (VComposite t xs) (VComposite u ys) = (t = u \<and> go_eq_list xs ys)"
| "go_eq x y = (x = y)"
| "go_eq_list [] [] = True"
| "go_eq_list (x # xs) (y # ys) = (go_eq x y \<and> go_eq_list xs ys)"
| "go_eq_list _ _ = False"

section \<open>Errors\<close>

datatype gerror =
    Sentinel string
  | Wrapf gerror string
  | Joined "gerror list"
  | Typed string gval "gerror list"
  | HostError nat "gerror list"

type_synonym err = "gerror option"

fun error_is :: "gerror \<Rightarrow> gerror \<Rightarrow> bool" where
  "error_is (Sentinel s) t = (t = Sentinel s)"
| "error_is (Wrapf e d) t = (t = Wrapf e d \<or> error_is e t)"
| "error_is (Joined es) t = (t = Joined es \<or> list_ex (\<lambda>e. error_is e t) es)"
| "error_is (Typed n v es) t = (t = Typed n v es \<or> list_ex (\<lambda>e. error_is e t) es)"
| "error_is (HostError n es) t = (t = HostError n es \<or> list_ex (\<lambda>e. error_is e t) es)"

definition errors_Is :: "err \<Rightarrow> gerror \<Rightarrow> bool" where
  "errors_Is e t = (case e of None \<Rightarrow> False | Some e' \<Rightarrow> error_is e' t)"

text \<open>\<open>errors.Join\<close> drops nil arguments and is nil when nothing remains.\<close>

definition errors_Join :: "err list \<Rightarrow> err" where
  "errors_Join es = (let es' = map the (filter (\<lambda>e. e \<noteq> None) es) in
     if es' = [] then None else Some (Joined es'))"

text \<open>\<open>errors.As\<close> for an error struct: the first one of that dynamic type in the tree.\<close>

fun first_some :: "'a option list \<Rightarrow> 'a option" where
  "first_some [] = None"
| "first_some (Some x # _) = Some x"
| "first_some (None # xs) = first_some xs"

fun error_as :: "string \<Rightarrow> gerror \<Rightarrow> (gval \<times> gerror list) option" where
  "error_as n (Sentinel s) = None"
| "error_as n (Wrapf e d) = error_as n e"
| "error_as n (Joined es) = first_some (map (error_as n) es)"
| "error_as n (Typed m v es) = (if m = n then Some (v, es) else first_some (map (error_as n) es))"
| "error_as n (HostError k es) = first_some (map (error_as n) es)"

definition ContextCanceled :: gerror where
  "ContextCanceled = Sentinel ''context canceled''"

definition DeadlineExceeded :: gerror where
  "DeadlineExceeded = Sentinel ''context deadline exceeded''"

lemma errors_Is_None [simp]: "\<not> errors_Is None t"
  by (simp add: errors_Is_def)

lemma errors_Is_Some [simp]: "errors_Is (Some e) t = error_is e t"
  by (simp add: errors_Is_def)

lemma error_is_refl [simp]: "error_is e e"
  by (cases e) auto

lemma errors_Join_eq_None [simp]: "errors_Join es = None \<longleftrightarrow> list_all (\<lambda>e. e = None) es"
  by (induction es) (auto simp: errors_Join_def Let_def list_all_iff filter_empty_conv split: if_splits)

lemma errors_Join_two [simp]: "errors_Join [Some a, Some b] = Some (Joined [a, b])"
  by (simp add: errors_Join_def)

lemma errors_Is_Join: "errors_Is (errors_Join es) (Sentinel s) \<longleftrightarrow> (\<exists>e \<in> set es. errors_Is e (Sentinel s))"
  by (force simp: errors_Join_def Let_def list_ex_iff errors_Is_def filter_empty_conv split: option.splits)

section \<open>Procedures that may panic\<close>

datatype 'a outcome = Ret 'a | Panic

type_synonym ('w, 'a) proc = "'w \<Rightarrow> 'a outcome \<times> 'w"

definition ret :: "'a \<Rightarrow> ('w, 'a) proc" where
  "ret a w = (Ret a, w)"

definition seq :: "('w, 'a) proc \<Rightarrow> ('a \<Rightarrow> ('w, 'b) proc) \<Rightarrow> ('w, 'b) proc" where
  "seq m f w = (case m w of (Ret a, w1) \<Rightarrow> f a w1 | (Panic, w1) \<Rightarrow> (Panic, w1))"

lemma ret_apply [simp, outcome_simps]: "ret a w = (Ret a, w)"
  by (simp add: ret_def)

lemma seq_Ret [simp, outcome_simps]: "m w = (Ret a, w1) \<Longrightarrow> seq m f w = f a w1"
  by (simp add: seq_def)

lemma seq_Panic [simp, outcome_simps]: "m w = (Panic, w1) \<Longrightarrow> seq m f w = (Panic, w1)"
  by (simp add: seq_def)

lemma seq_ret [simp]: "seq (ret a) f w = f a w"
  by (simp add: seq_def)

lemma seq_ret_fun: "seq (ret a) f = f a"
  by (rule ext) simp

lemma seq_eq_Ret:
  "seq m f w = (Ret b, w2) \<longleftrightarrow> (\<exists>a w1. m w = (Ret a, w1) \<and> f a w1 = (Ret b, w2))"
  by (auto simp: seq_def split: prod.splits outcome.splits)

lemma seq_RetE:
  assumes "seq m f w = (Ret b, w2)"
  obtains a w1 where "m w = (Ret a, w1)" "f a w1 = (Ret b, w2)"
  using assms seq_eq_Ret by metis

lemma seq_eq_Panic:
  "seq m f w = (Panic, w2) \<longleftrightarrow>
     m w = (Panic, w2) \<or> (\<exists>a w1. m w = (Ret a, w1) \<and> f a w1 = (Panic, w2))"
  by (auto simp: seq_def split: prod.splits outcome.splits)

lemma seq_cases:
  assumes "seq m f w = (o2, w2)"
  obtains (panic) "m w = (Panic, w2)" "o2 = Panic"
    | (ret) a w1 where "m w = (Ret a, w1)" "f a w1 = (o2, w2)"
  using assms by (auto simp: seq_def split: prod.splits outcome.splits)

section \<open>Relations every step of a procedure keeps\<close>

text \<open>
  A procedure that only ever moves the state along a reflexive and transitive relation does so when
  it is composed of procedures that do. The interface is the relation; clients are the handlers.
\<close>

locale frame_relation =
  fixes R :: "'w \<Rightarrow> 'w \<Rightarrow> bool"
  assumes frame_refl: "R w w"
    and frame_trans: "R w1 w2 \<Longrightarrow> R w2 w3 \<Longrightarrow> R w1 w3"
begin

definition keeps :: "('w, 'a) proc \<Rightarrow> bool" where
  "keeps m \<longleftrightarrow> (\<forall>w. R w (snd (m w)))"

lemma keepsI: "(\<And>w. R w (snd (m w))) \<Longrightarrow> keeps m"
  by (simp add: keeps_def)

lemma keepsD: "keeps m \<Longrightarrow> m w = (r, w') \<Longrightarrow> R w w'"
  unfolding keeps_def by (metis snd_conv)

lemma keeps_ret: "keeps (ret a)"
  by (simp add: keeps_def frame_refl)

lemma keeps_seq:
  assumes m: "keeps m" and f: "\<And>a. keeps (f a)"
  shows "keeps (seq m f)"
proof (rule keepsI)
  fix w
  obtain r w1 where mw: "m w = (r, w1)" by fastforce
  have first: "R w w1" using keepsD [OF m mw] .
  show "R w (snd (seq m f w))"
  proof (cases r)
    case (Ret a)
    then have "R w1 (snd (seq m f w))" using f mw by (simp add: keeps_def)
    with first show ?thesis by (rule frame_trans)
  next
    case Panic
    with mw first show ?thesis by simp
  qed
qed

lemma keeps_if: "(b \<Longrightarrow> keeps m) \<Longrightarrow> (\<not> b \<Longrightarrow> keeps n) \<Longrightarrow> keeps (if b then m else n)"
  by simp

lemma keeps_option:
  "(x = None \<Longrightarrow> keeps m) \<Longrightarrow> (\<And>a. x = Some a \<Longrightarrow> keeps (f a)) \<Longrightarrow>
   keeps (case x of None \<Rightarrow> m | Some a \<Rightarrow> f a)"
  by (cases x) auto

lemma keeps_prod: "(\<And>a b. x = (a, b) \<Longrightarrow> keeps (f a b)) \<Longrightarrow> keeps (case x of (a, b) \<Rightarrow> f a b)"
  by (cases x) auto

end

section \<open>Reachable states\<close>

text \<open>
  The interface of every state machine below: an initial-state predicate, a step relation and an
  invariant that the first establishes and the second keeps. Reachability and the lift of the
  invariant to it are proved once.
\<close>

inductive reaches :: "('s \<Rightarrow> 's \<Rightarrow> bool) \<Rightarrow> 's \<Rightarrow> 's \<Rightarrow> bool" for step where
  reaches_refl: "reaches step s s"
| reaches_step: "reaches step s t \<Longrightarrow> step t u \<Longrightarrow> reaches step s u"

lemma reaches_trans: "reaches step t u \<Longrightarrow> reaches step s t \<Longrightarrow> reaches step s u"
  by (induction rule: reaches.induct) (auto intro: reaches.intros)

locale invariant_system =
  fixes start :: "'s \<Rightarrow> bool"
    and step :: "'s \<Rightarrow> 's \<Rightarrow> bool"
    and inv :: "'s \<Rightarrow> bool"
  assumes start_inv: "start s \<Longrightarrow> inv s"
    and step_inv: "inv s \<Longrightarrow> step s t \<Longrightarrow> inv t"
begin

lemma reaches_inv: "reaches step s t \<Longrightarrow> inv s \<Longrightarrow> inv t"
  by (induction rule: reaches.induct) (auto intro: step_inv)

lemma reachable_inv: "start s \<Longrightarrow> reaches step s t \<Longrightarrow> inv t"
  using reaches_inv start_inv by blast

end

end
