(* ===== verification/Outcome.thy ===== *)
theory Outcome
  imports Routery_Prelude
begin

text \<open>
  \<open>outcome.go\<close> and \<open>route_match.go\<close>: the typed result of a dispatch, its constructors, and the canonical validation of
  action against error; the error sentinels of \<open>routery.go\<close>.

  \<open>RouteAction\<close> is a string type in Go: \<open>OtherAction s\<close> stands for any other string \<open>s\<close> (the zero
  value is \<open>OtherAction []\<close>). Go's zero value of a caller type is the constant \<open>0\<close> of HOL's class
  \<open>zero\<close>, of which lists (and so strings), options (for nil) and \<open>unit\<close> are made instances. A \<open>*Lifetime\<close> is an address in the
  lifetime heap, \<open>None\<close> for nil.
\<close>

section \<open>Zero values\<close>

instantiation list :: (type) zero
begin

definition zero_list :: "'a list" where
  "zero_list = []"

instance ..

end

instantiation unit :: zero
begin

definition zero_unit :: unit where
  "zero_unit = ()"

instance ..

end

instantiation option :: (type) zero
begin

definition zero_option :: "'a option" where
  "zero_option = None"

instance ..

end

section \<open>Sentinels\<close>

definition ErrNoHandlers :: gerror where
  "ErrNoHandlers = Sentinel ''routery: no handlers provided''"

definition ErrInvalidConfig :: gerror where
  "ErrInvalidConfig = Sentinel ''routery: invalid configuration''"

definition ErrCircuitOpen :: gerror where
  "ErrCircuitOpen = Sentinel ''routery: circuit breaker open''"

definition ErrBulkheadFull :: gerror where
  "ErrBulkheadFull = Sentinel ''routery: too many concurrent requests''"

definition ErrNoSuccessfulOutcome :: gerror where
  "ErrNoSuccessfulOutcome = Sentinel ''routery: no successful outcome''"

definition ErrDuplicateRoute :: gerror where
  "ErrDuplicateRoute = Sentinel ''routery: duplicate route''"

definition ErrRouteNotFound :: gerror where
  "ErrRouteNotFound = Sentinel ''routery: route not found''"

definition ErrInvalidRouteID :: gerror where
  "ErrInvalidRouteID = Sentinel ''routery: invalid route id''"

definition ErrConflictingPrefixPolicy :: gerror where
  "ErrConflictingPrefixPolicy = Sentinel ''routery: conflicting prefix policy''"

definition ErrStaleSnapshot :: gerror where
  "ErrStaleSnapshot = Sentinel ''routery: stale snapshot''"

definition configError :: "string \<Rightarrow> gerror" where
  "configError detail = Wrapf ErrInvalidConfig detail"

section \<open>Route metadata\<close>

definition MatchKindPredicate :: string where "MatchKindPredicate = ''predicate''"
definition MatchKindExact :: string where "MatchKindExact = ''exact''"
definition MatchKindPrefix :: string where "MatchKindPrefix = ''prefix''"
definition MatchKindDecision :: string where "MatchKindDecision = ''decision''"
definition MatchKindTable :: string where "MatchKindTable = ''decision_table''"
definition MatchKindFallback :: string where "MatchKindFallback = ''fallback''"

record route_match =
  rm_RouteID :: string
  rm_Path :: "string list"
  rm_Priority :: int
  rm_Depth :: int
  rm_Kind :: string
  rm_Key :: string
  rm_Prefix :: string
  rm_Remainder :: string
  rm_DecisionReason :: gval
  rm_HasDecisionReason :: bool

definition zeroRouteMatch :: route_match where
  "zeroRouteMatch = \<lparr>rm_RouteID = '''', rm_Path = [], rm_Priority = 0, rm_Depth = 0, rm_Kind = '''',
     rm_Key = '''', rm_Prefix = '''', rm_Remainder = '''', rm_DecisionReason = VNil, rm_HasDecisionReason = False\<rparr>"

text \<open>The type assertion \<open>match.DecisionReason.(Reason)\<close> compares dynamic types; \<open>ty\<close> names \<open>Reason\<close>.\<close>

definition MatchDecisionReason :: "string \<Rightarrow> gval \<Rightarrow> route_match \<Rightarrow> gval \<times> bool" where
  "MatchDecisionReason ty zero_reason match =
     (if \<not> rm_HasDecisionReason match then (zero_reason, False)
      else if type_of (rm_DecisionReason match) = Some ty then (rm_DecisionReason match, True)
      else (zero_reason, False))"

section \<open>Results\<close>

datatype route_action = ActionNext | ActionStop | ActionAbort | OtherAction string

record ('k, 'r, 'p) route_result =
  res_Action :: route_action
  res_Kind :: 'k
  res_Reason :: 'r
  res_Payload :: 'p
  res_HasPayload :: bool
  res_Match :: route_match
  res_Lifetime :: "nat option"

definition Handled :: "'k \<Rightarrow> 'r \<Rightarrow> 'p \<Rightarrow> ('k, 'r, 'p) route_result" where
  "Handled kind reason payload = \<lparr>res_Action = ActionStop, res_Kind = kind, res_Reason = reason, res_Payload = payload,
     res_HasPayload = True, res_Match = zeroRouteMatch, res_Lifetime = None\<rparr>"

definition Ignored :: "'k \<Rightarrow> 'r \<Rightarrow> ('k, 'r, 'p :: zero) route_result" where
  "Ignored kind reason = \<lparr>res_Action = ActionStop, res_Kind = kind, res_Reason = reason, res_Payload = 0,
     res_HasPayload = False, res_Match = zeroRouteMatch, res_Lifetime = None\<rparr>"

definition Next :: "'r \<Rightarrow> ('k :: zero, 'r, 'p :: zero) route_result" where
  "Next reason = \<lparr>res_Action = ActionNext, res_Kind = 0, res_Reason = reason, res_Payload = 0,
     res_HasPayload = False, res_Match = zeroRouteMatch, res_Lifetime = None\<rparr>"

definition AbortResult :: "('k :: zero, 'r :: zero, 'p :: zero) route_result" where
  "AbortResult = \<lparr>res_Action = ActionAbort, res_Kind = 0, res_Reason = 0, res_Payload = 0,
     res_HasPayload = False, res_Match = zeroRouteMatch, res_Lifetime = None\<rparr>"

text \<open>The zero value of the struct, what \<open>var result RouteResult\<close> declares.\<close>

definition zeroResult :: "('k :: zero, 'r :: zero, 'p :: zero) route_result" where
  "zeroResult = \<lparr>res_Action = OtherAction '''', res_Kind = 0, res_Reason = 0, res_Payload = 0,
     res_HasPayload = False, res_Match = zeroRouteMatch, res_Lifetime = None\<rparr>"

definition validateReturnedResult ::
  "('k, 'r, 'p) route_result \<Rightarrow> ('k, 'r, 'p) route_result \<times> err" where
  "validateReturnedResult result =
     (case res_Action result of
        ActionNext \<Rightarrow> (result, None)
      | ActionStop \<Rightarrow> (result, None)
      | ActionAbort \<Rightarrow> (result, Some (configError ''route returned abort action without error''))
      | OtherAction _ \<Rightarrow> (result\<lparr>res_Action := ActionAbort\<rparr>, Some (configError ''unexpected route action'')))"

definition ValidateRouteResult ::
  "('k, 'r, 'p) route_result \<Rightarrow> err \<Rightarrow> ('k, 'r, 'p) route_result \<times> err" where
  "ValidateRouteResult result e =
     (case e of
        Some x \<Rightarrow> (result\<lparr>res_Action := ActionAbort\<rparr>, Some x)
      | None \<Rightarrow> validateReturnedResult result)"

definition WithMatch :: "('k, 'r, 'p) route_result \<Rightarrow> route_match \<Rightarrow> ('k, 'r, 'p) route_result" where
  "WithMatch result match = result\<lparr>res_Match := match\<rparr>"

section \<open>Basic kinds and reasons\<close>

definition BasicKindHandled :: string where "BasicKindHandled = ''handled''"
definition BasicKindIgnored :: string where "BasicKindIgnored = ''ignored''"
definition BasicKindAsync :: string where "BasicKindAsync = ''async''"
definition BasicReasonNone :: string where "BasicReasonNone = ''''"
definition BasicReasonNoMatch :: string where "BasicReasonNoMatch = ''no_match''"

type_synonym 'p basic_result = "(string, string, 'p) route_result"

definition BasicHandled :: "'p \<Rightarrow> 'p basic_result" where
  "BasicHandled payload = Handled BasicKindHandled BasicReasonNone payload"

definition BasicIgnored :: "string \<Rightarrow> ('p :: zero) basic_result" where
  "BasicIgnored reason = Ignored BasicKindIgnored reason"

definition BasicNext :: "string \<Rightarrow> ('p :: zero) basic_result" where
  "BasicNext reason = Next reason"

section \<open>The canonical action/error contract\<close>

definition canonical :: "('k, 'r, 'p) route_result \<times> err \<Rightarrow> bool" where
  "canonical re \<longleftrightarrow> (if snd re = None then res_Action (fst re) = ActionNext \<or> res_Action (fst re) = ActionStop
     else res_Action (fst re) = ActionAbort)"

lemma canonical_simps [simp]:
  "canonical (r, None) \<longleftrightarrow> res_Action r = ActionNext \<or> res_Action r = ActionStop"
  "canonical (r, Some e) \<longleftrightarrow> res_Action r = ActionAbort"
  by (simp_all add: canonical_def)

lemma validateReturnedResult_canonical [simp]: "canonical (validateReturnedResult r)"
  by (cases "res_Action r") (simp_all add: validateReturnedResult_def)

lemma ValidateRouteResult_canonical [simp]: "canonical (ValidateRouteResult r e)"
  by (cases e) (simp_all add: ValidateRouteResult_def)

lemma validate_keeps [simp]:
  "res_Lifetime (fst (validateReturnedResult r)) = res_Lifetime r"
  "res_Payload (fst (validateReturnedResult r)) = res_Payload r"
  "res_HasPayload (fst (validateReturnedResult r)) = res_HasPayload r"
  "res_Match (fst (validateReturnedResult r)) = res_Match r"
  by (simp_all add: validateReturnedResult_def split: route_action.split)

lemma validate_ok_iff: "snd (validateReturnedResult r) = None \<longleftrightarrow> res_Action r = ActionNext \<or> res_Action r = ActionStop"
  by (simp add: validateReturnedResult_def split: route_action.split)

lemma validate_ok_same: "snd (validateReturnedResult r) = None \<Longrightarrow> fst (validateReturnedResult r) = r"
  by (simp add: validateReturnedResult_def split: route_action.splits)

section \<open>Validation\<close>

text \<open>
  \<open>ValidateRouteResult\<close> makes every result canonical (Abort exactly with an error, otherwise Next or
  Stop), keeps the error it was given, and never touches payload, match or the owner of the resource; on a valid
  result without error it is the identity.
\<close>

lemma ValidateRouteResult_contract:
  "canonical (ValidateRouteResult r e) \<and>
   (snd (ValidateRouteResult r e) = None \<longleftrightarrow> e = None \<and> (res_Action r = ActionNext \<or> res_Action r = ActionStop)) \<and>
   (if e = None then True else snd (ValidateRouteResult r e) = e) \<and>
   (fst (ValidateRouteResult r e))\<lparr>res_Action := res_Action r\<rparr> = r"
  by (cases e) (auto simp: ValidateRouteResult_def validateReturnedResult_def split: route_action.split)

end
