(* ===== verification/Attempt.thy ===== *)
theory Attempt
  imports Outcome "HOL-Library.AList"
begin

text \<open>
  Package \<open>policy/attempt\<close>, the lifecycle part: the coordinator of one logical operation
  (\<open>coordinator.go\<close>), the replay decision (\<open>decision.go\<close>) and the retry predicate bridge
  (\<open>predicate.go\<close>).

  Go's \<open>uint8\<close> enumerations become datatypes with one constructor per constant and one
  (\<open>PhaseOther\<close>, \<open>OutcomeOther\<close>) for the values beyond them, which callers can pass and
  \<open>validEvent\<close> rejects. The events map is an association list with distinct keys, so that
  \<open>len\<close> is its length. Every method of the coordinator runs under its mutex: an operation is one
  atomic step, and any concurrent use is a sequence of such steps (\<open>coord_step\<close>).
\<close>

section \<open>Data\<close>

datatype phase = BeforeDispatch | Dispatched | StreamOpened | Terminal | PhaseOther nat

datatype remote_outcome = Unknown | NotExecuted | Completed | OutcomeOther nat

fun phase_code :: "phase \<Rightarrow> nat" where
  "phase_code BeforeDispatch = 0"
| "phase_code Dispatched = 1"
| "phase_code StreamOpened = 2"
| "phase_code Terminal = 3"
| "phase_code (PhaseOther n) = 4 + n"

fun outcome_code :: "remote_outcome \<Rightarrow> nat" where
  "outcome_code Unknown = 0"
| "outcome_code NotExecuted = 1"
| "outcome_code Completed = 2"
| "outcome_code (OutcomeOther n) = 3 + n"

lemma phase_code_inj: "phase_code a = phase_code b \<longleftrightarrow> a = b"
  by (cases a; cases b) auto

instantiation phase :: linorder
begin

definition less_eq_phase :: "phase \<Rightarrow> phase \<Rightarrow> bool" where
  "less_eq_phase a b \<longleftrightarrow> phase_code a \<le> phase_code b"

definition less_phase :: "phase \<Rightarrow> phase \<Rightarrow> bool" where
  "less_phase a b \<longleftrightarrow> phase_code a < phase_code b"

instance
  by standard (auto simp: less_eq_phase_def less_phase_def phase_code_inj)

end

record identity =
  id_Operation :: string
  id_Attempt :: string

record event =
  ev_Identity :: identity
  ev_Phase :: phase
  ev_Committed :: bool
  ev_Outcome :: remote_outcome

record start_result =
  sr_Started :: bool
  sr_Event :: event
  sr_Remaining :: int

record coordinator =
  co_operation :: string
  co_limit :: int
  co_events :: "(string \<times> event) list"

datatype action = Stop | Retry | Fallback | Reconcile | Defer | ActionOther nat

datatype reason = NotRetryable | VisibleOutput | UnsafeReplay | UnknownOutcome | BudgetExhausted
  | DeadlineExhausted | RetryAllowed | HintIgnored | ExecutionReturned | AdmissionDenied
  | AdmissionDeferred | Cancelled

record replay =
  rp_Retryable :: bool
  rp_Replayable :: bool
  rp_SafeDuplicate :: bool
  rp_ResetProtocol :: bool
  rp_CanReconcile :: bool
  rp_UseFallback :: bool

record decision =
  de_Action :: action
  de_Reason :: reason
  de_Event :: event
  de_NotBefore :: int
  de_Deadline :: int

definition ErrInvalidEvent :: gerror where
  "ErrInvalidEvent = Sentinel ''routery/attempt: invalid event''"

definition ErrEventChanged :: gerror where
  "ErrEventChanged = Sentinel ''routery/attempt: event changed''"

definition ErrAuthorizationCancelled :: gerror where
  "ErrAuthorizationCancelled = Sentinel ''routery/attempt: authorization cancelled''"

definition ErrInvalidHint :: gerror where
  "ErrInvalidHint = Sentinel ''routery/attempt: invalid scheduling hint''"

definition zero_identity :: identity where
  "zero_identity = \<lparr>id_Operation = '''', id_Attempt = ''''\<rparr>"

definition zero_event :: event where
  "zero_event = \<lparr>ev_Identity = zero_identity, ev_Phase = BeforeDispatch, ev_Committed = False,
     ev_Outcome = Unknown\<rparr>"

definition zero_start :: start_result where
  "zero_start = \<lparr>sr_Started = False, sr_Event = zero_event, sr_Remaining = 0\<rparr>"

definition zero_decision :: decision where
  "zero_decision = \<lparr>de_Action = Stop, de_Reason = NotRetryable, de_Event = zero_event,
     de_NotBefore = 0, de_Deadline = 0\<rparr>"

section \<open>Event validity and the replay decision\<close>

definition validEvent :: "event \<Rightarrow> bool" where
  "validEvent e =
     (if ev_Phase e > Terminal \<or> outcome_code (ev_Outcome e) > outcome_code Completed then False
      else if ev_Committed e \<and> (ev_Phase e < Dispatched \<or> ev_Outcome e = NotExecuted) then False
      else if ev_Outcome e = Completed \<and> ev_Phase e \<noteq> Terminal then False
      else ev_Outcome e \<noteq> NotExecuted \<or> ev_Phase e = Terminal)"

definition decide :: "event \<Rightarrow> int \<Rightarrow> replay \<Rightarrow> decision \<times> err" where
  "decide e remaining r =
     (let d = zero_decision\<lparr>de_Event := e\<rparr> in
      if \<not> validEvent e \<or> id_Operation (ev_Identity e) = '''' \<or> id_Attempt (ev_Identity e) = ''''
      then (d, Some ErrInvalidEvent)
      else if ev_Committed e \<and> \<not> rp_ResetProtocol r then (d\<lparr>de_Reason := VisibleOutput\<rparr>, None)
      else if ev_Outcome e = Unknown \<and> \<not> rp_SafeDuplicate r then
        (if rp_CanReconcile r then (d\<lparr>de_Reason := UnknownOutcome, de_Action := Reconcile\<rparr>, None)
         else (d\<lparr>de_Reason := UnknownOutcome\<rparr>, None))
      else if \<not> rp_Retryable r then (d, None)
      else if \<not> rp_Replayable r \<or> (ev_Outcome e = Completed \<and> \<not> rp_SafeDuplicate r)
      then (d\<lparr>de_Reason := UnsafeReplay\<rparr>, None)
      else if remaining < 1 then (d\<lparr>de_Reason := BudgetExhausted\<rparr>, None)
      else (d\<lparr>de_Action := (if rp_UseFallback r then Fallback else Retry), de_Reason := RetryAllowed\<rparr>, None))"

text \<open>\<open>ctxErr\<close> is what the call's \<open>ctx.Err()\<close> returned.\<close>

definition Decide :: "err \<Rightarrow> event \<Rightarrow> int \<Rightarrow> replay \<Rightarrow> decision \<times> err" where
  "Decide ctxErr e remaining r =
     (case ctxErr of
        Some x \<Rightarrow> (zero_decision\<lparr>de_Event := e\<rparr>, Some x)
      | None \<Rightarrow> decide e remaining r)"

definition repeats :: "action \<Rightarrow> bool" where
  "repeats a \<longleftrightarrow> a = Retry \<or> a = Fallback"

section \<open>The coordinator\<close>

definition NewCoordinator :: "string \<Rightarrow> int \<Rightarrow> coordinator option \<times> err" where
  "NewCoordinator operation limit =
     (if operation = '''' \<or> limit < 1 then (None, Some ErrInvalidEvent)
      else (Some \<lparr>co_operation = operation, co_limit = limit, co_events = []\<rparr>, None))"

definition Begin :: "coordinator \<Rightarrow> identity \<Rightarrow> (start_result \<times> err) \<times> coordinator" where
  "Begin c i =
     (if id_Operation i \<noteq> co_operation c \<or> id_Attempt i = '''' then ((zero_start, Some ErrInvalidEvent), c)
      else if map_of (co_events c) (id_Attempt i) \<noteq> None then ((zero_start, Some ErrInvalidEvent), c)
      else
        let e = \<lparr>ev_Identity = i, ev_Phase = BeforeDispatch, ev_Committed = False, ev_Outcome = Unknown\<rparr> in
        if int (length (co_events c)) \<ge> co_limit c
        then ((\<lparr>sr_Started = False, sr_Event = e, sr_Remaining = 0\<rparr>, None), c)
        else
          let c' = c\<lparr>co_events := AList.update (id_Attempt i) e (co_events c)\<rparr> in
          ((\<lparr>sr_Started = True, sr_Event = e,
             sr_Remaining = co_limit c - int (length (co_events c'))\<rparr>, None), c'))"

definition Update :: "coordinator \<Rightarrow> event \<Rightarrow> err \<times> coordinator" where
  "Update c e =
     (case map_of (co_events c) (id_Attempt (ev_Identity e)) of
        None \<Rightarrow> (Some ErrInvalidEvent, c)
      | Some p \<Rightarrow>
          if ev_Identity e \<noteq> ev_Identity p \<or> \<not> validEvent e then (Some ErrInvalidEvent, c)
          else if ev_Phase e < ev_Phase p \<or> (ev_Committed p \<and> \<not> ev_Committed e) then (Some ErrInvalidEvent, c)
          else if ev_Outcome p \<noteq> Unknown \<and> ev_Outcome e \<noteq> ev_Outcome p then (Some ErrInvalidEvent, c)
          else (None, c\<lparr>co_events := AList.update (id_Attempt (ev_Identity e)) e (co_events c)\<rparr>))"

definition Snapshot :: "coordinator \<Rightarrow> identity \<Rightarrow> event \<times> int \<times> err" where
  "Snapshot c i =
     (case map_of (co_events c) (id_Attempt i) of
        None \<Rightarrow> (zero_event, 0, Some ErrInvalidEvent)
      | Some e \<Rightarrow>
          if ev_Identity e \<noteq> i then (zero_event, 0, Some ErrInvalidEvent)
          else (e, co_limit c - int (length (co_events c)), None))"

text \<open>\<open>cancelled\<close> is whether the cancellation channel is closed when the select looks at it.\<close>

definition AuthorizeRepeat ::
  "coordinator \<Rightarrow> event \<Rightarrow> identity \<Rightarrow> replay \<Rightarrow> bool \<Rightarrow> (decision \<times> err) \<times> coordinator" where
  "AuthorizeRepeat c expected next r cancelled =
     (if cancelled then ((zero_decision, Some ErrAuthorizationCancelled), c)
      else case (map_of (co_events c) (id_Attempt (ev_Identity expected)), map_of (co_events c) (id_Attempt next)) of
        (Some previous, Some current) \<Rightarrow>
          if ev_Identity previous \<noteq> ev_Identity expected \<or> ev_Identity current \<noteq> next \<or>
             ev_Phase previous \<noteq> Terminal \<or> ev_Phase current \<noteq> BeforeDispatch \<or> ev_Committed current \<or>
             ev_Outcome current \<noteq> Unknown \<or> next = ev_Identity expected
          then ((zero_decision, Some ErrInvalidEvent), c)
          else if previous \<noteq> expected then ((zero_decision, Some ErrEventChanged), c)
          else
            (case decide previous (co_limit c - int (length (co_events c)) + 1) r of (d, e) \<Rightarrow>
               if e \<noteq> None \<or> \<not> repeats (de_Action d) then ((d, e), c)
               else ((d, None),
                 c\<lparr>co_events := AList.update (id_Attempt next) (current\<lparr>ev_Phase := Dispatched\<rparr>) (co_events c)\<rparr>))
      | _ \<Rightarrow> ((zero_decision, Some ErrInvalidEvent), c))"

text \<open>Any concurrent use of a coordinator is a sequence of these atomic steps.\<close>

inductive coord_step :: "coordinator \<Rightarrow> coordinator \<Rightarrow> bool" where
  step_begin: "Begin c i = (r, c') \<Longrightarrow> coord_step c c'"
| step_update: "Update c e = (r, c') \<Longrightarrow> coord_step c c'"
| step_authorize: "AuthorizeRepeat c expected next rp cancelled = (r, c') \<Longrightarrow> coord_step c c'"

definition fresh_coordinator :: "coordinator \<Rightarrow> bool" where
  "fresh_coordinator c \<longleftrightarrow> (\<exists>operation limit. NewCoordinator operation limit = (Some c, None))"

section \<open>The retry predicate bridge\<close>

text \<open>
  \<open>classify\<close> and \<open>evidence\<close> are host callbacks (\<open>None\<close> for a nil function). \<open>ctxErr1\<close> is what the guard's \<open>ctx.Err()\<close> returns and \<open>ctxErr2\<close>
  what the one inside \<open>Decide\<close> does.
\<close>

definition RetryPredicate ::
  "(gerror \<Rightarrow> bool) option \<Rightarrow> ('req \<Rightarrow> gerror \<Rightarrow> event \<times> replay \<times> err) option \<Rightarrow> err \<Rightarrow> err \<Rightarrow> 'req \<Rightarrow> err \<Rightarrow> bool" where
  "RetryPredicate classify evidence ctxErr1 ctxErr2 req e =
     (case (ctxErr1, e, classify, evidence) of
        (None, Some x, Some cl, Some ev) \<Rightarrow>
          if error_is x ErrInvalidConfig \<or> error_is x ErrInvalidEvent \<or> error_is x ErrInvalidHint \<or>
             error_is x ContextCanceled \<or> error_is x DeadlineExceeded \<or> \<not> cl x
          then False
          else (case ev req x of (event, rp, evErr) \<Rightarrow>
            if evErr \<noteq> None then False
            else (case Decide ctxErr2 event 1 rp of (d, dErr) \<Rightarrow> dErr = None \<and> de_Action d = Retry))
      | _ \<Rightarrow> False)"

section \<open>Facts about single operations\<close>

definition event_le :: "event \<Rightarrow> event \<Rightarrow> bool" where
  "event_le e f \<longleftrightarrow> ev_Identity f = ev_Identity e \<and> ev_Phase e \<le> ev_Phase f \<and>
     (ev_Committed e \<longrightarrow> ev_Committed f) \<and> (ev_Outcome e \<noteq> Unknown \<longrightarrow> ev_Outcome f = ev_Outcome e)"

definition coord_le :: "coordinator \<Rightarrow> coordinator \<Rightarrow> bool" where
  "coord_le c d \<longleftrightarrow> co_operation d = co_operation c \<and> co_limit d = co_limit c \<and>
     (\<forall>k e. map_of (co_events c) k = Some e \<longrightarrow> (\<exists>f. map_of (co_events d) k = Some f \<and> event_le e f))"

definition coord_inv :: "coordinator \<Rightarrow> bool" where
  "coord_inv c \<longleftrightarrow> co_operation c \<noteq> '''' \<and> distinct (map fst (co_events c)) \<and>
     int (length (co_events c)) \<le> co_limit c \<and>
     (\<forall>k e. map_of (co_events c) k = Some e \<longrightarrow>
        k \<noteq> '''' \<and> ev_Identity e = \<lparr>id_Operation = co_operation c, id_Attempt = k\<rparr> \<and> validEvent e)"

lemma phase_le_code [simp]: "(a \<le> b) = (phase_code a \<le> phase_code b)" for a b :: phase
  by (simp add: less_eq_phase_def)

lemma phase_less_code [simp]: "(a < b) = (phase_code a < phase_code b)" for a b :: phase
  by (simp add: less_phase_def)

lemma event_le_refl [simp]: "event_le e e"
  by (simp add: event_le_def)

lemma event_le_trans: "event_le a b \<Longrightarrow> event_le b c \<Longrightarrow> event_le a c"
  by (auto simp: event_le_def)

interpretation coord_frame: frame_relation coord_le
proof
  show "coord_le c c" for c
    by (auto simp: coord_le_def)
next
  fix a b c
  assume ab: "coord_le a b" and bc: "coord_le b c"
  show "coord_le a c"
    unfolding coord_le_def
  proof (intro conjI allI impI)
    fix k e assume "map_of (co_events a) k = Some e"
    then obtain f where f: "map_of (co_events b) k = Some f" "event_le e f"
      using ab by (auto simp: coord_le_def)
    then obtain g where "map_of (co_events c) k = Some g" "event_le f g"
      using bc by (auto simp: coord_le_def)
    with f show "\<exists>g. map_of (co_events c) k = Some g \<and> event_le e g"
      by (blast intro: event_le_trans)
  qed (use ab bc in \<open>auto simp: coord_le_def\<close>)
qed

text \<open>Storing a later version of an event, or a new one, moves the coordinator along the order.\<close>

lemma coord_le_update:
  assumes "\<And>p. map_of (co_events c) k = Some p \<Longrightarrow> event_le p e"
  shows "coord_le c (c\<lparr>co_events := AList.update k e (co_events c)\<rparr>)"
  using assms by (auto simp: coord_le_def update_conv')

lemma length_update_old:
  "map_of al k = Some v \<Longrightarrow> length (AList.update k w al) = length al"
  by (induction al) auto

lemma length_update_new:
  "map_of al k = None \<Longrightarrow> length (AList.update k w al) = Suc (length al)"
  by (induction al) (auto split: if_splits)

lemma coord_inv_update_old:
  assumes "coord_inv c" and "map_of (co_events c) k = Some p"
    and "ev_Identity e = ev_Identity p" and "validEvent e"
  shows "coord_inv (c\<lparr>co_events := AList.update k e (co_events c)\<rparr>)"
  using assms by (auto simp: coord_inv_def update_conv' distinct_update length_update_old)

lemma coord_inv_insert:
  assumes "coord_inv c" and "map_of (co_events c) k = None" and "k \<noteq> ''''"
    and "int (length (co_events c)) < co_limit c"
    and "ev_Identity e = \<lparr>id_Operation = co_operation c, id_Attempt = k\<rparr>" and "validEvent e"
  shows "coord_inv (c\<lparr>co_events := AList.update k e (co_events c)\<rparr>)"
  using assms by (auto simp: coord_inv_def update_conv' distinct_update length_update_new)

lemma identity_eqI: "id_Operation i = a \<Longrightarrow> id_Attempt i = b \<Longrightarrow> i = \<lparr>id_Operation = a, id_Attempt = b\<rparr>"
  by (cases i) auto

lemma Begin_cases:
  assumes "Begin c i = ((r, e), c')"
  obtains (invalid) "e = Some ErrInvalidEvent" "c' = c" "\<not> sr_Started r"
    | (exhausted) "e = None" "c' = c" "\<not> sr_Started r" "co_limit c \<le> int (length (co_events c))"
    | (started) ev where "e = None" "sr_Started r" "sr_Event r = ev" "id_Operation i = co_operation c"
        "id_Attempt i \<noteq> ''''" "map_of (co_events c) (id_Attempt i) = None"
        "int (length (co_events c)) < co_limit c"
        "ev = \<lparr>ev_Identity = i, ev_Phase = BeforeDispatch, ev_Committed = False, ev_Outcome = Unknown\<rparr>"
        "c' = c\<lparr>co_events := AList.update (id_Attempt i) ev (co_events c)\<rparr>"
        "sr_Remaining r = co_limit c - int (length (co_events c'))"
  using assms by (auto simp: Begin_def Let_def zero_start_def split: if_splits)

lemma Update_cases:
  assumes "Update c e = (r, c')"
  obtains (rejected) "r = Some ErrInvalidEvent" "c' = c"
    | (stored) p where "r = None" "map_of (co_events c) (id_Attempt (ev_Identity e)) = Some p"
        "validEvent e" "event_le p e"
        "c' = c\<lparr>co_events := AList.update (id_Attempt (ev_Identity e)) e (co_events c)\<rparr>"
proof (cases "map_of (co_events c) (id_Attempt (ev_Identity e))")
  case None
  with assms show thesis by (intro rejected) (simp_all add: Update_def)
next
  case (Some p)
  show thesis
  proof (cases "r = None")
    case True
    with assms Some have "validEvent e" "event_le p e"
      "c' = c\<lparr>co_events := AList.update (id_Attempt (ev_Identity e)) e (co_events c)\<rparr>"
      by (simp_all add: Update_def event_le_def split: if_splits) blast+
    with True Some show thesis by (intro stored)
  next
    case False
    with assms Some show thesis by (intro rejected) (simp_all add: Update_def split: if_splits)
  qed
qed

lemma AuthorizeRepeat_cases:
  assumes "AuthorizeRepeat c expected next rp cancelled = ((d, e), c')"
  obtains (denied) "c' = c" "e \<noteq> None \<or> \<not> repeats (de_Action d)"
    | (authorized) cur where "e = None" "\<not> cancelled" "repeats (de_Action d)"
        "map_of (co_events c) (id_Attempt (ev_Identity expected)) = Some expected"
        "map_of (co_events c) (id_Attempt next) = Some cur" "ev_Identity cur = next"
        "ev_Phase expected = Terminal" "ev_Phase cur = BeforeDispatch" "\<not> ev_Committed cur"
        "ev_Outcome cur = Unknown" "next \<noteq> ev_Identity expected"
        "decide expected (co_limit c - int (length (co_events c)) + 1) rp = (d, None)"
        "c' = c\<lparr>co_events := AList.update (id_Attempt next) (cur\<lparr>ev_Phase := Dispatched\<rparr>) (co_events c)\<rparr>"
proof (cases "e \<noteq> None \<or> \<not> repeats (de_Action d)")
  case True
  with assms have "c' = c"
    by (simp add: AuthorizeRepeat_def split: if_splits option.splits prod.splits)
  then show thesis using True by (rule denied)
next
  case False
  note F = False
  with assms obtain p cur where pc: "map_of (co_events c) (id_Attempt (ev_Identity expected)) = Some p"
      "map_of (co_events c) (id_Attempt next) = Some cur"
    by (simp add: AuthorizeRepeat_def split: if_splits option.splits)
  have "\<not> cancelled" using assms F by (simp add: AuthorizeRepeat_def split: if_splits)
  moreover have "p = expected" using assms F pc
    by (simp add: AuthorizeRepeat_def split: if_splits)
  ultimately show thesis using assms F pc
    by (intro authorized [of cur]) (simp_all add: AuthorizeRepeat_def split: if_splits prod.splits)
qed

lemma validEvent_initial [simp]:
  "validEvent \<lparr>ev_Identity = i, ev_Phase = BeforeDispatch, ev_Committed = False, ev_Outcome = Unknown\<rparr>"
  by (simp add: validEvent_def)

lemma validEvent_dispatched [simp]:
  "\<not> ev_Committed e \<Longrightarrow> ev_Outcome e = Unknown \<Longrightarrow> validEvent (e\<lparr>ev_Phase := Dispatched\<rparr>)"
  by (simp add: validEvent_def)

lemma event_le_dispatched:
  "ev_Phase e = BeforeDispatch \<Longrightarrow> event_le e (e\<lparr>ev_Phase := Dispatched\<rparr>)"
  by (simp add: event_le_def)

lemma coord_step_inv: "coord_step c c' \<Longrightarrow> coord_inv c \<Longrightarrow> coord_inv c'"
proof (induction rule: coord_step.induct)
  case (step_begin c i r c')
  then show ?case
    by (cases r) (auto elim!: Begin_cases intro!: coord_inv_insert identity_eqI)
next
  case (step_update c e r c')
  then show ?case
    by (auto elim!: Update_cases intro!: coord_inv_update_old simp: event_le_def)
next
  case (step_authorize c expected "next" rp cancelled r c')
  then show ?case
    by (cases r) (auto elim!: AuthorizeRepeat_cases intro!: coord_inv_update_old)
qed

lemma coord_step_le: "coord_step c c' \<Longrightarrow> coord_le c c'"
proof (induction rule: coord_step.induct)
  case (step_begin c i r c')
  then show ?case
    by (cases r) (auto elim!: Begin_cases intro!: coord_le_update coord_frame.frame_refl)
next
  case (step_update c e r c')
  then show ?case
    by (auto elim!: Update_cases intro!: coord_le_update coord_frame.frame_refl)
next
  case (step_authorize c expected "next" rp cancelled r c')
  then show ?case
    by (cases r) (auto elim!: AuthorizeRepeat_cases intro!: coord_le_update event_le_dispatched coord_frame.frame_refl)
qed

lemma fresh_coordinator_inv: "fresh_coordinator c \<Longrightarrow> coord_inv c"
  by (auto simp: fresh_coordinator_def NewCoordinator_def coord_inv_def split: if_splits)

interpretation coord_machine: invariant_system fresh_coordinator coord_step coord_inv
  by unfold_locales (auto intro: fresh_coordinator_inv coord_step_inv)

lemma reaches_coord_le: "reaches coord_step c c' \<Longrightarrow> coord_le c c'"
  by (induction rule: reaches.induct) (blast intro: coord_frame.frame_refl coord_frame.frame_trans coord_step_le)+

lemma decide_repeats:
  "decide e n r = (d, x) \<Longrightarrow> x = None \<and> repeats (de_Action d) \<longleftrightarrow>
     validEvent e \<and> id_Operation (ev_Identity e) \<noteq> '''' \<and> id_Attempt (ev_Identity e) \<noteq> '''' \<and>
     (ev_Committed e \<longrightarrow> rp_ResetProtocol r) \<and> (ev_Outcome e = NotExecuted \<or> rp_SafeDuplicate r) \<and>
     rp_Retryable r \<and> rp_Replayable r \<and> 1 \<le> n"
  by (cases "ev_Outcome e")
     (auto simp: decide_def Let_def repeats_def zero_decision_def validEvent_def split: if_splits)

lemma coord_le_lookup:
  "coord_le c d \<Longrightarrow> map_of (co_events c) k = Some e \<Longrightarrow> \<exists>f. map_of (co_events d) k = Some f \<and> event_le e f"
  by (simp add: coord_le_def)

lemma authorized_phase:
  assumes "AuthorizeRepeat c expected next rp cancelled = ((d, None), c')" and "repeats (de_Action d)"
  shows "\<exists>e. map_of (co_events c') (id_Attempt next) = Some e \<and> ev_Phase e = Dispatched"
  using assms by (auto elim!: AuthorizeRepeat_cases simp: update_conv')

lemma not_authorized_again:
  assumes "map_of (co_events c) (id_Attempt next) = Some e" and "ev_Phase e \<noteq> BeforeDispatch"
    and "AuthorizeRepeat c expected next rp cancelled = ((d, x), c')"
  shows "x \<noteq> None \<and> c' = c"
  using assms(3)
proof (cases rule: AuthorizeRepeat_cases)
  case denied
  with assms show ?thesis
    by (auto simp: AuthorizeRepeat_def split: if_splits option.splits prod.splits)
next
  case (authorized cur)
  with assms(1,2) show ?thesis by simp
qed

section \<open>Properties\<close>

text \<open>
  C11 (invariant). However an operation's coordinator is used, its recorded attempts stay within the
  declared budget, are filed under distinct nonempty attempt ids of that operation, and every
  recorded event is one that \<open>validEvent\<close> accepts.
\<close>

theorem coordinator_reachable_invariant:
  assumes "fresh_coordinator c" and "reaches coord_step c c'"
  shows "int (length (co_events c')) \<le> co_limit c' \<and> distinct (map fst (co_events c')) \<and>
    (\<forall>k e. map_of (co_events c') k = Some e \<longrightarrow>
       k \<noteq> '''' \<and> ev_Identity e = \<lparr>id_Operation = co_operation c', id_Attempt = k\<rparr> \<and> validEvent e)"
  using coord_machine.reachable_inv [OF assms] by (simp add: coord_inv_def)

definition demo_start :: coordinator where
  "demo_start = \<lparr>co_operation = ''op'', co_limit = 2, co_events = []\<rparr>"

definition demo_id :: "string \<Rightarrow> identity" where
  "demo_id a = \<lparr>id_Operation = ''op'', id_Attempt = a\<rparr>"

definition demo_begun :: coordinator where
  "demo_begun = snd (Begin demo_start (demo_id ''a''))"

definition demo_terminal :: event where
  "demo_terminal = \<lparr>ev_Identity = demo_id ''a'', ev_Phase = Terminal, ev_Committed = False, ev_Outcome = NotExecuted\<rparr>"

definition demo_failed :: coordinator where
  "demo_failed = snd (Update demo_begun demo_terminal)"

definition demo_second :: coordinator where
  "demo_second = snd (Begin demo_failed (demo_id ''b''))"

definition demo_replay :: replay where
  "demo_replay = \<lparr>rp_Retryable = True, rp_Replayable = True, rp_SafeDuplicate = False,
     rp_ResetProtocol = False, rp_CanReconcile = False, rp_UseFallback = False\<rparr>"

definition demo_authorized :: coordinator where
  "demo_authorized = snd (AuthorizeRepeat demo_second demo_terminal (demo_id ''b'') demo_replay False)"

lemmas demo_defs = demo_start_def demo_id_def demo_begun_def demo_terminal_def demo_failed_def
  demo_second_def demo_replay_def demo_authorized_def

lemma demo_fresh: "fresh_coordinator demo_start"
  unfolding fresh_coordinator_def
  by (intro exI [of _ "''op''"] exI [of _ 2]) (simp add: NewCoordinator_def demo_start_def)

lemma demo_begun_eq: "Begin demo_start (demo_id ''a'') = (fst (Begin demo_start (demo_id ''a'')), demo_begun)"
  by (simp add: demo_begun_def)

lemma demo_reaches: "reaches coord_step demo_start demo_second"
proof -
  have a: "coord_step demo_start demo_begun"
    using demo_begun_eq by (rule coord_step.step_begin)
  have b: "coord_step demo_begun demo_failed"
    by (rule coord_step.step_update [of _ demo_terminal "fst (Update demo_begun demo_terminal)"])
       (simp add: demo_failed_def)
  have c: "coord_step demo_failed demo_second"
    by (rule coord_step.step_begin [of _ "demo_id ''b''" "fst (Begin demo_failed (demo_id ''b''))"])
       (simp add: demo_second_def)
  show ?thesis by (meson a b c reaches.intros)
qed

lemma demo_reaches_authorized: "reaches coord_step demo_start demo_authorized"
  by (rule reaches_step [OF demo_reaches], rule coord_step.step_authorize [of _ demo_terminal
      "demo_id ''b''" demo_replay False "fst (AuthorizeRepeat demo_second demo_terminal (demo_id ''b'') demo_replay False)"])
     (simp add: demo_authorized_def)

lemma demo_authorize_eq:
  "AuthorizeRepeat demo_second demo_terminal (demo_id ''b'') demo_replay False =
     ((zero_decision\<lparr>de_Action := Retry, de_Reason := RetryAllowed, de_Event := demo_terminal\<rparr>, None), demo_authorized)"
  by (simp add: demo_defs AuthorizeRepeat_def Begin_def Update_def decide_def validEvent_def repeats_def
      Let_def zero_decision_def)

theorem coordinator_reachable_invariant_witness:
  "fresh_coordinator demo_start \<and> reaches coord_step demo_start demo_authorized \<and>
   length (co_events demo_authorized) = 2 \<and> int (length (co_events demo_authorized)) \<le> co_limit demo_authorized"
  using coordinator_reachable_invariant [OF demo_fresh demo_reaches_authorized] demo_fresh demo_reaches_authorized
  by (simp add: demo_defs AuthorizeRepeat_def Begin_def Update_def decide_def validEvent_def repeats_def
      Let_def zero_decision_def)

text \<open>
  Recorded facts are monotone over every later use of the coordinator: an attempt is
  never forgotten or renamed, its phase never goes back, delivered output stays committed, and a
  definitive remote outcome never changes.
\<close>

theorem coordinator_facts_monotone:
  assumes "reaches coord_step c c'" and "map_of (co_events c) k = Some e"
  shows "\<exists>e'. map_of (co_events c') k = Some e' \<and> ev_Identity e' = ev_Identity e \<and> ev_Phase e \<le> ev_Phase e' \<and>
    (ev_Committed e \<longrightarrow> ev_Committed e') \<and> (ev_Outcome e \<noteq> Unknown \<longrightarrow> ev_Outcome e' = ev_Outcome e)"
  using coord_le_lookup [OF reaches_coord_le [OF assms(1)] assms(2)] by (simp add: event_le_def)

theorem coordinator_facts_monotone_witness:
  "\<exists>e'. map_of (co_events demo_authorized) ''a'' = Some e' \<and> ev_Outcome e' = NotExecuted \<and> Terminal \<le> ev_Phase e'"
proof -
  have r: "reaches coord_step demo_second demo_authorized"
    by (rule reaches_step [OF reaches_refl], rule coord_step.step_authorize [OF demo_authorize_eq])
  have m: "map_of (co_events demo_second) ''a'' = Some demo_terminal"
    by (simp add: demo_defs Begin_def Update_def validEvent_def Let_def)
  show ?thesis
    using coordinator_facts_monotone [OF r m] by (auto simp: demo_terminal_def)
qed

text \<open>
  C12 (functional). \<open>decide\<close> allows another physical attempt exactly when the event is well formed,
  visible output can be reset, the remote side is known not to have executed or duplicates are safe,
  the failure is retryable and replayable, and budget is left; it then asks for a fallback exactly when the
  evidence says so.
\<close>

theorem decide_allows_repeat_iff:
  "snd (decide e n r) = None \<and> repeats (de_Action (fst (decide e n r))) \<longleftrightarrow>
     validEvent e \<and> id_Operation (ev_Identity e) \<noteq> '''' \<and> id_Attempt (ev_Identity e) \<noteq> '''' \<and>
     (\<not> ev_Committed e \<or> rp_ResetProtocol r) \<and> (ev_Outcome e = NotExecuted \<or> rp_SafeDuplicate r) \<and>
     rp_Retryable r \<and> rp_Replayable r \<and> 1 \<le> n"
  using decide_repeats [of e n r "fst (decide e n r)" "snd (decide e n r)"] by auto

theorem decide_allows_repeat_iff_witness:
  "repeats (de_Action (fst (decide demo_terminal 1 demo_replay)))"
  using decide_allows_repeat_iff [of demo_terminal 1 demo_replay]
  by (simp add: demo_defs validEvent_def)

text \<open>
  C13 (safety). Authorization is a compare-and-set: it changes the coordinator only when the terminal
  event the evidence was gathered for is still current and the evidence permits a repeat; then
  exactly the next identity moves from \<open>BeforeDispatch\<close> to \<open>Dispatched\<close>.
\<close>

theorem authorize_repeat_compare_and_set:
  assumes "AuthorizeRepeat c expected next r cancelled = ((d, x), c')" and "c' \<noteq> c"
  shows "\<not> cancelled \<and> x = None \<and> repeats (de_Action d) \<and> de_Event d = expected \<and>
    map_of (co_events c) (id_Attempt (ev_Identity expected)) = Some expected \<and> ev_Phase expected = Terminal \<and>
    (ev_Committed expected \<longrightarrow> rp_ResetProtocol r) \<and>
    (ev_Outcome expected = NotExecuted \<or> rp_SafeDuplicate r) \<and> rp_Retryable r \<and> rp_Replayable r \<and>
    (\<exists>cur. map_of (co_events c) (id_Attempt next) = Some cur \<and> ev_Phase cur = BeforeDispatch \<and>
       map_of (co_events c') = (map_of (co_events c))(id_Attempt next \<mapsto> cur\<lparr>ev_Phase := Dispatched\<rparr>))"
  using assms(1)
proof (cases rule: AuthorizeRepeat_cases)
  case denied
  with assms(2) show ?thesis by simp
next
  case (authorized cur)
  have "de_Event d = expected"
    using authorized(12) by (auto simp: decide_def Let_def zero_decision_def split: if_splits)
  with authorized show ?thesis
    using decide_repeats [OF authorized(12)] by (auto simp: update_conv')
qed

theorem authorize_repeat_compare_and_set_witness:
  "demo_authorized \<noteq> demo_second \<and> ev_Phase demo_terminal = Terminal \<and>
   (\<exists>cur. map_of (co_events demo_second) ''b'' = Some cur \<and> ev_Phase cur = BeforeDispatch \<and>
      map_of (co_events demo_authorized) = (map_of (co_events demo_second))(''b'' \<mapsto> cur\<lparr>ev_Phase := Dispatched\<rparr>))"
proof -
  have ne: "demo_authorized \<noteq> demo_second"
    by (simp add: demo_defs AuthorizeRepeat_def Begin_def Update_def decide_def validEvent_def repeats_def
        Let_def zero_decision_def)
  show ?thesis
    using authorize_repeat_compare_and_set [OF demo_authorize_eq ne] ne by (auto simp: demo_id_def)
qed

text \<open>
  No identity is dispatched twice: once a repeat has been authorized, no later call of
  \<open>AuthorizeRepeat\<close> for that identity succeeds or changes anything, whatever happened in between, and
  \<open>Begin\<close> refuses to allocate it again.
\<close>

theorem authorized_identity_never_reused:
  assumes "AuthorizeRepeat c expected next r cancelled = ((d, None), c1)" and "repeats (de_Action d)"
    and "reaches coord_step c1 c2"
  shows "snd (fst (AuthorizeRepeat c2 expected' next r' cancelled')) \<noteq> None \<and>
    snd (AuthorizeRepeat c2 expected' next r' cancelled') = c2 \<and>
    Begin c2 next = ((zero_start, Some ErrInvalidEvent), c2)"
proof -
  obtain e where "map_of (co_events c1) (id_Attempt next) = Some e" "ev_Phase e = Dispatched"
    using authorized_phase [OF assms(1,2)] by blast
  then obtain f where f: "map_of (co_events c2) (id_Attempt next) = Some f" "ev_Phase f \<noteq> BeforeDispatch"
    using coord_le_lookup [OF reaches_coord_le [OF assms(3)]] by (fastforce simp: event_le_def)
  obtain d' x' c' where "AuthorizeRepeat c2 expected' next r' cancelled' = ((d', x'), c')"
    by (metis prod.exhaust)
  with not_authorized_again [OF f this] f show ?thesis
    by (simp add: Begin_def)
qed

theorem authorized_identity_never_reused_witness:
  "snd (fst (AuthorizeRepeat demo_authorized demo_terminal (demo_id ''b'') demo_replay False)) \<noteq> None \<and>
   Begin demo_authorized (demo_id ''b'') = ((zero_start, Some ErrInvalidEvent), demo_authorized)"
proof -
  have "repeats (de_Action (zero_decision\<lparr>de_Action := Retry, de_Reason := RetryAllowed, de_Event := demo_terminal\<rparr>))"
    by (simp add: repeats_def)
  from authorized_identity_never_reused [OF demo_authorize_eq this reaches_refl]
  show ?thesis by blast
qed

end
