(* ===== verification/Schedule.thy ===== *)
theory Schedule
  imports Attempt
begin

text \<open>
  Package \<open>policy/attempt\<close>, the scheduling part: portable timestamps and delay arithmetic
  (\<open>time.go\<close>), the lower bound on the start of a repeat, the waiting loop and the per-scope
  cooldowns (\<open>schedule.go\<close>).

  A timestamp is an \<open>int\<close> of nanoseconds since Go's zero time; \<open>utc_year\<close> is the proleptic
  Gregorian year Go's \<open>Time.Year\<close> computes, by the same division into cycles of 400, 100, 4 and 1
  years. \<open>Time.Add\<close> is exact on these values: \<open>AddDelay\<close> refuses a base outside years 1 to
  9999 first, and a \<open>Duration\<close> is below 293 years, so the 64-bit second counter cannot wrap.

  The waiting loop reads two things of its environment, the caller's clock and the context.
  They are streams here: the \<open>i\<close>-th observation of either kind (they are counted together, in
  program order) sees \<open>clock i\<close> or \<open>done i\<close>. The timer itself only delays: whatever the
  channel it selects on, \<open>waitInterval\<close> then returns \<open>ctx.Err()\<close>.
\<close>

section \<open>Timestamps\<close>

definition ns_per_day :: int where
  "ns_per_day = 86400 * 1000000000"

definition utc_year :: "int \<Rightarrow> int" where
  "utc_year t =
     (let d = t div ns_per_day;
          n400 = d div 146097; d1 = d - 146097 * n400;
          n100 = min 3 (d1 div 36524); d2 = d1 - 36524 * n100;
          n4 = d2 div 1461; d3 = d2 - 1461 * n4;
          n1 = min 3 (d3 div 365)
      in 400 * n400 + 100 * n100 + 4 * n4 + n1 + 1)"

definition minimumYear :: int where
  "minimumYear = 1"

definition maximumYear :: int where
  "maximumYear = 9999"

definition validTimestamp :: "int \<Rightarrow> bool" where
  "validTimestamp t \<longleftrightarrow> t \<noteq> 0 \<and> minimumYear \<le> utc_year t \<and> utc_year t \<le> maximumYear"

definition AddDelay :: "int \<Rightarrow> int \<Rightarrow> int \<times> err" where
  "AddDelay base delay =
     (if \<not> validTimestamp base \<or> delay < 0 then (0, Some ErrInvalidHint)
      else
        let result = base + delay in
        if \<not> validTimestamp result \<or> result < base \<or> result + (- delay) \<noteq> base then (0, Some ErrInvalidHint)
        else (result, None))"

section \<open>Scheduling a repeat\<close>

record hint =
  hi_Present :: bool
  hi_NotBefore :: int
  hi_Source :: string
  hi_Clock :: string
  hi_Uncertainty :: int

datatype invalid_hint_policy = RejectHint | IgnoreHint | HintPolicyOther nat

record schedule_input =
  si_Now :: int
  si_Backoff :: int
  si_Hint :: hint
  si_InvalidHint :: invalid_hint_policy
  si_Cooldown :: int
  si_Deadline :: int

fun hint_policy_known :: "invalid_hint_policy \<Rightarrow> bool" where
  "hint_policy_known (HintPolicyOther _) = False"
| "hint_policy_known _ = True"

definition hintStart :: "hint \<Rightarrow> int \<times> err" where
  "hintStart h =
     (if hi_Source h = '''' \<or> hi_Clock h = '''' then (0, Some ErrInvalidHint)
      else AddDelay (hi_NotBefore h) (hi_Uncertainty h))"

definition Schedule :: "decision \<Rightarrow> schedule_input \<Rightarrow> decision \<times> err" where
  "Schedule d i =
     (if \<not> validTimestamp (si_Now i) \<or> si_Backoff i < 0 \<or> \<not> hint_policy_known (si_InvalidHint i) \<or>
         (si_Cooldown i \<noteq> 0 \<and> \<not> validTimestamp (si_Cooldown i)) \<or>
         (si_Deadline i \<noteq> 0 \<and> \<not> validTimestamp (si_Deadline i))
      then (d, Some ErrInvalidHint)
      else if \<not> repeats (de_Action d) then (d, None)
      else case AddDelay (si_Now i) (si_Backoff i) of
        (_, Some e) \<Rightarrow> (d, Some e)
      | (start0, None) \<Rightarrow>
          (case
             (if hi_Present (si_Hint i) then
                (case hintStart (si_Hint i) of
                   (_, Some _) \<Rightarrow>
                     if si_InvalidHint i = RejectHint then None else Some (d\<lparr>de_Reason := HintIgnored\<rparr>, start0)
                 | (hintTime, None) \<Rightarrow> Some (d, if start0 < hintTime then hintTime else start0))
              else Some (d, start0)) of
             None \<Rightarrow> (d, Some ErrInvalidHint)
           | Some (d1, start1) \<Rightarrow>
               let start = (if start1 < si_Cooldown i then si_Cooldown i else start1);
                   d2 = d1\<lparr>de_NotBefore := start, de_Deadline := si_Deadline i\<rparr>
               in if si_Deadline i \<noteq> 0 \<and> \<not> start < si_Deadline i
                  then (d2\<lparr>de_Action := Defer, de_Reason := DeadlineExhausted\<rparr>, None)
                  else (d2, None)))"

section \<open>Waiting\<close>

text \<open>
  \<open>notBefore.Sub(current)\<close> saturates at the bounds of a \<open>Duration\<close>; only its sign and the length
  of the timer depend on it.
\<close>

definition max_duration :: int where
  "max_duration = 2 ^ 63 - 1"

definition min_duration :: int where
  "min_duration = - (2 ^ 63)"

definition time_Sub :: "int \<Rightarrow> int \<Rightarrow> int" where
  "time_Sub t u = max min_duration (min max_duration (t - u))"

text \<open>\<open>waitInterval\<close> starting at observation \<open>i\<close>: its result and the next observation's number.\<close>

definition waitInterval :: "(nat \<Rightarrow> int) \<Rightarrow> (nat \<Rightarrow> err) \<Rightarrow> int \<Rightarrow> nat \<Rightarrow> err \<times> nat" where
  "waitInterval clock done notBefore i =
     (case done i of
        Some e \<Rightarrow> (Some e, i + 1)
      | None \<Rightarrow>
          let current = clock (i + 1) in
          if \<not> validTimestamp current then (Some ErrInvalidHint, i + 2)
          else if time_Sub notBefore current \<le> 0 then (done (i + 2), i + 3)
          else (done (i + 2), i + 3))"

partial_function (option) wait_loop ::
  "(nat \<Rightarrow> int) \<Rightarrow> (nat \<Rightarrow> err) \<Rightarrow> int \<Rightarrow> nat \<Rightarrow> (err \<times> nat) option" where
  "wait_loop clock done notBefore i =
     (case waitInterval clock done notBefore i of
        (Some e, j) \<Rightarrow> Some (Some e, j)
      | (None, j) \<Rightarrow>
          let current = clock j in
          if \<not> validTimestamp current then Some (Some ErrInvalidHint, j + 1)
          else if \<not> current < notBefore then Some (done (j + 1), j + 2)
          else wait_loop clock done notBefore (j + 1))"

definition Wait :: "(nat \<Rightarrow> int) option \<Rightarrow> (nat \<Rightarrow> err) \<Rightarrow> int \<Rightarrow> (err \<times> nat) option" where
  "Wait now done notBefore =
     (case now of
        None \<Rightarrow> Some (Some ErrInvalidHint, 0)
      | Some clock \<Rightarrow>
          if \<not> validTimestamp notBefore then Some (Some ErrInvalidHint, 0)
          else wait_loop clock done notBefore 0)"

section \<open>Cooldowns\<close>

text \<open>The map of a \<open>Cooldowns\<close> value; a missing scope reads as the zero time.\<close>

type_synonym 's cooldowns = "('s \<times> int) list"

definition NewCooldowns :: "'s cooldowns" where
  "NewCooldowns = []"

definition Until :: "'s cooldowns \<Rightarrow> 's \<Rightarrow> int" where
  "Until c s = (case map_of c s of None \<Rightarrow> 0 | Some t \<Rightarrow> t)"

definition Extend :: "'s cooldowns \<Rightarrow> 's \<Rightarrow> int \<Rightarrow> 's cooldowns" where
  "Extend c s t = (if Until c s < t then AList.update s t c else c)"

definition PruneExpired :: "'s cooldowns \<Rightarrow> int \<Rightarrow> nat \<times> 's cooldowns" where
  "PruneExpired c now =
     (let removed = length (filter (\<lambda>(_, t). \<not> now < t) c) in
      if removed = 0 then (0, c)
      else (removed, filter (\<lambda>(_, t). now < t) c))"

section \<open>Facts about timestamps\<close>

definition timestamp_end :: int where
  "timestamp_end = 3652059 * ns_per_day"

lemma utc_year_in_range:
  "1 \<le> utc_year t \<and> utc_year t \<le> 9999 \<longleftrightarrow> 0 \<le> t div ns_per_day \<and> t div ns_per_day < 3652059"
proof -
  define d where "d = t div ns_per_day"
  define n where "n = d div 146097"
  define r where "r = d mod 146097"
  have d: "d = 146097 * n + r" "0 \<le> r" "r < 146097" by (simp_all add: n_def r_def)
  define q where "q = r div 36524"
  define a where "a = min 3 q"
  define s where "s = r - 36524 * a"
  have q: "36524 * q \<le> r" "r < 36524 * q + 36524"
    using div_mult_mod_eq [of r 36524] pos_mod_bound [of 36524 r] pos_mod_sign [of 36524 r]
    by (simp_all add: q_def)
  have s: "0 \<le> s" "s < 36525" "0 \<le> a" "a \<le> 3" "a < 3 \<Longrightarrow> s < 36524"
    using d(2,3) q by (auto simp: s_def a_def min_def)
  define b where "b = s div 1461"
  define u where "u = s - 1461 * b"
  have b: "1461 * b \<le> s" "s < 1461 * b + 1461"
    using div_mult_mod_eq [of s 1461] pos_mod_bound [of 1461 s] pos_mod_sign [of 1461 s]
    by (simp_all add: b_def)
  have u: "0 \<le> u" "u < 1461" "0 \<le> b" "b \<le> 24"
    using s b by (auto simp: u_def)
  define z where "z = u div 365"
  define y where "y = min 3 z"
  have z: "365 * z \<le> u" "u < 365 * z + 365"
    using div_mult_mod_eq [of u 365] pos_mod_bound [of 365 u] pos_mod_sign [of 365 u]
    by (simp_all add: z_def)
  have y: "0 \<le> y" "y \<le> 3" "y = 3 \<longleftrightarrow> 1095 \<le> u"
    using u z by (auto simp: y_def min_def)
  have year: "utc_year t = 400 * n + 100 * a + 4 * b + y + 1"
    by (simp add: utc_year_def Let_def d_def [symmetric] n_def [symmetric] a_def y_def b_def u_def s_def
        z_def q_def r_def minus_mult_div_eq_mod)
  have last: "r \<ge> 145731 \<longleftrightarrow> 100 * a + 4 * b + y = 399"
  proof -
    have r: "r = 36524 * a + s" "s = 1461 * b + u" by (simp_all add: s_def u_def)
    have "a = 3" if h: "145731 \<le> r"
    proof (rule ccontr)
      assume "a \<noteq> 3"
      then have "a \<le> 2" "s < 36524" using s by auto
      then show False using h r by linarith
    qed
    moreover have "b = 24" if h: "145731 \<le> r" "a = 3"
    proof (rule ccontr)
      assume "b \<noteq> 24"
      then have "b \<le> 23" using u by auto
      then show False using h r u by linarith
    qed
    ultimately have "145731 \<le> r \<longleftrightarrow> a = 3 \<and> b = 24 \<and> 1095 \<le> u"
      using r by auto
    moreover have "a = 3" "b = 24" "y = 3" if "100 * a + 4 * b + y = 399"
      using that s(4) u(4) y(2) by linarith+
    then have "100 * a + 4 * b + y = 399 \<longleftrightarrow> a = 3 \<and> b = 24 \<and> y = 3"
      by auto
    ultimately show ?thesis using y(3) by simp
  qed
  have small: "0 \<le> 100 * a + 4 * b + y" "100 * a + 4 * b + y \<le> 399"
    using s u y by linarith+
  have low: "0 \<le> d \<longleftrightarrow> 0 \<le> n" "1 \<le> utc_year t \<longleftrightarrow> 0 \<le> n"
    using d small by (auto simp: year)
  have "d < 3652059 \<longleftrightarrow> n < 24 \<or> n = 24 \<and> r < 145731"
    using d by (cases n "24 :: int" rule: linorder_cases) auto
  moreover have "utc_year t \<le> 9999 \<longleftrightarrow> n < 24 \<or> n = 24 \<and> 100 * a + 4 * b + y \<noteq> 399"
    using small by (cases n "24 :: int" rule: linorder_cases) (auto simp: year)
  ultimately show ?thesis
    using low last by (auto simp: d_def [symmetric])
qed

lemma validTimestamp_iff: "validTimestamp t \<longleftrightarrow> 0 < t \<and> t < timestamp_end"
proof -
  have "0 \<le> t div ns_per_day \<longleftrightarrow> 0 \<le> t"
    by (simp add: ns_per_day_def) linarith
  moreover have "t div ns_per_day < 3652059 \<longleftrightarrow> t < timestamp_end"
    by (simp add: ns_per_day_def timestamp_end_def) linarith
  ultimately show ?thesis
    by (auto simp: validTimestamp_def minimumYear_def maximumYear_def utc_year_in_range)
qed

text \<open>The calendar by its rules: the length of a year, and the start of the year as the sum of the lengths before it.\<close>

definition leap_year :: "nat \<Rightarrow> bool" where
  "leap_year y \<longleftrightarrow> 4 dvd y \<and> (100 dvd y \<longrightarrow> 400 dvd y)"

definition days_in_year :: "nat \<Rightarrow> nat" where
  "days_in_year y = (if leap_year y then 366 else 365)"

definition year_start :: "nat \<Rightarrow> int" where
  "year_start y = ns_per_day * int (\<Sum>n\<in>{1..<y}. days_in_year n)"

lemma div_Suc_dvd: "0 < k \<Longrightarrow> Suc y div k = y div k + (if k dvd Suc y then 1 else 0)"
  for y k :: nat
  by (simp add: div_Suc dvd_eq_mod_eq_0)

lemma days_before: "(\<Sum>n\<in>{1..<Suc y}. days_in_year n) + y div 100 = 365 * y + y div 4 + y div 400"
proof (induction y)
  case (Suc y)
  have "(100 :: nat) dvd Suc y \<Longrightarrow> 4 dvd Suc y" "(400 :: nat) dvd Suc y \<Longrightarrow> 100 dvd Suc y"
    using dvd_trans [of "4 :: nat" 100] dvd_trans [of "100 :: nat" 400] by simp_all
  then have "days_in_year (Suc y) + (if 100 dvd Suc y then 1 else 0) =
      365 + (if 4 dvd Suc y then 1 else 0) + (if 400 dvd Suc y then 1 else 0)"
    by (auto simp: days_in_year_def leap_year_def)
  then show ?case using Suc.IH by (simp add: div_Suc_dvd)
qed simp

lemma year_start_1: "year_start 1 = 0"
  by (simp add: year_start_def)

lemma year_start_10000: "year_start 10000 = timestamp_end"
  using days_before [of 9999] by (simp add: year_start_def timestamp_end_def)

lemma AddDelay_eq:
  "AddDelay base delay =
     (if 0 < base \<and> 0 \<le> delay \<and> base + delay < timestamp_end then (base + delay, None) else (0, Some ErrInvalidHint))"
  by (auto simp: AddDelay_def validTimestamp_iff Let_def)

lemma repeats_simps [simp]: "repeats Retry" "repeats Fallback" "\<not> repeats Stop" "\<not> repeats Reconcile" "\<not> repeats Defer"
  by (simp_all add: repeats_def)

text \<open>The bound a hint contributes: nothing when absent or ignored as invalid.\<close>

definition hint_bound :: "hint \<Rightarrow> int \<Rightarrow> int" where
  "hint_bound h start =
     (if hi_Present h \<and> snd (hintStart h) = None then max start (fst (hintStart h)) else start)"

definition schedule_ok :: "schedule_input \<Rightarrow> bool" where
  "schedule_ok i \<longleftrightarrow> validTimestamp (si_Now i) \<and> 0 \<le> si_Backoff i \<and> hint_policy_known (si_InvalidHint i) \<and>
     (si_Cooldown i = 0 \<or> validTimestamp (si_Cooldown i)) \<and> (si_Deadline i = 0 \<or> validTimestamp (si_Deadline i))"

lemma Schedule_repeat_eq:
  assumes "schedule_ok i" and "repeats (de_Action d)"
    and "validTimestamp (si_Now i + si_Backoff i)"
    and "\<not> hi_Present (si_Hint i) \<or> snd (hintStart (si_Hint i)) = None \<or> si_InvalidHint i \<noteq> RejectHint"
  shows "snd (Schedule d i) = None \<and>
    de_NotBefore (fst (Schedule d i)) = max (hint_bound (si_Hint i) (si_Now i + si_Backoff i)) (si_Cooldown i) \<and>
    de_Deadline (fst (Schedule d i)) = si_Deadline i \<and> de_Event (fst (Schedule d i)) = de_Event d \<and>
    de_Action (fst (Schedule d i)) =
      (if si_Deadline i = 0 \<or> max (hint_bound (si_Hint i) (si_Now i + si_Backoff i)) (si_Cooldown i) < si_Deadline i
       then de_Action d else Defer)"
proof -
  have add: "AddDelay (si_Now i) (si_Backoff i) = (si_Now i + si_Backoff i, None)"
    using assms(1,3) by (auto simp: AddDelay_eq schedule_ok_def validTimestamp_iff)
  have ok: "(\<not> validTimestamp (si_Now i) \<or> si_Backoff i < 0 \<or> \<not> hint_policy_known (si_InvalidHint i) \<or>
         (si_Cooldown i \<noteq> 0 \<and> \<not> validTimestamp (si_Cooldown i)) \<or>
         (si_Deadline i \<noteq> 0 \<and> \<not> validTimestamp (si_Deadline i))) = False"
    using assms(1) by (auto simp: schedule_ok_def)
  obtain t e where h: "hintStart (si_Hint i) = (t, e)" by fastforce
  note body = Schedule_def [of d i, unfolded ok if_False add]
  show ?thesis
  proof (cases "hi_Present (si_Hint i) \<and> e = None")
    case True
    then show ?thesis using assms(2) h
      by (simp add: body hint_bound_def Let_def max_def)
  next
    case False
    then have "hi_Present (si_Hint i) \<Longrightarrow> \<exists>x. e = Some x \<and> si_InvalidHint i \<noteq> RejectHint"
      using assms(4) h by auto
    then show ?thesis using assms(2) h False
      by (cases "hi_Present (si_Hint i)") (auto simp: body hint_bound_def Let_def max_def)
  qed
qed

lemma Schedule_repeat_error:
  assumes "repeats (de_Action d)" and "\<not> (schedule_ok i \<and> validTimestamp (si_Now i + si_Backoff i) \<and>
    (\<not> hi_Present (si_Hint i) \<or> snd (hintStart (si_Hint i)) = None \<or> si_InvalidHint i \<noteq> RejectHint))"
  shows "Schedule d i = (d, Some ErrInvalidHint)"
proof (cases "schedule_ok i")
  case False
  then show ?thesis by (auto simp: Schedule_def schedule_ok_def)
next
  case True
  then have ok: "(\<not> validTimestamp (si_Now i) \<or> si_Backoff i < 0 \<or> \<not> hint_policy_known (si_InvalidHint i) \<or>
         (si_Cooldown i \<noteq> 0 \<and> \<not> validTimestamp (si_Cooldown i)) \<or>
         (si_Deadline i \<noteq> 0 \<and> \<not> validTimestamp (si_Deadline i))) = False"
    by (auto simp: schedule_ok_def)
  show ?thesis
  proof (cases "validTimestamp (si_Now i + si_Backoff i)")
    case False
    then have "AddDelay (si_Now i) (si_Backoff i) = (0, Some ErrInvalidHint)"
      using True by (auto simp: AddDelay_eq schedule_ok_def validTimestamp_iff)
    then show ?thesis using assms(1) by (simp add: Schedule_def [of d i, unfolded ok if_False])
  next
    case valid: True
    then have add: "AddDelay (si_Now i) (si_Backoff i) = (si_Now i + si_Backoff i, None)"
      using True by (auto simp: AddDelay_eq schedule_ok_def validTimestamp_iff)
    obtain t e where h: "hintStart (si_Hint i) = (t, e)" by fastforce
    then obtain x where "hi_Present (si_Hint i)" "e = Some x" "si_InvalidHint i = RejectHint"
      using assms(2) True valid by auto
    then show ?thesis using h assms(1) by (simp add: Schedule_def [of d i, unfolded ok if_False add])
  qed
qed

lemma Schedule_action:
  "\<not> repeats (de_Action (fst (Schedule d i))) \<or> de_Action (fst (Schedule d i)) = de_Action d"
proof (cases "repeats (de_Action d)")
  case True
  note r = True
  show ?thesis
  proof (cases "schedule_ok i \<and> validTimestamp (si_Now i + si_Backoff i) \<and>
      (\<not> hi_Present (si_Hint i) \<or> snd (hintStart (si_Hint i)) = None \<or> si_InvalidHint i \<noteq> RejectHint)")
    case True
    then have "schedule_ok i" "validTimestamp (si_Now i + si_Backoff i)"
      "\<not> hi_Present (si_Hint i) \<or> snd (hintStart (si_Hint i)) = None \<or> si_InvalidHint i \<noteq> RejectHint"
      by blast+
    from Schedule_repeat_eq [OF this(1) r this(2,3)] have
      "de_Action (fst (Schedule d i)) = de_Action d \<or> de_Action (fst (Schedule d i)) = Defer" by presburger
    then show ?thesis by auto
  next
    case False
    from Schedule_repeat_error [OF r this] show ?thesis by simp
  qed
next
  case False
  then have "fst (Schedule d i) = d" by (simp add: Schedule_def)
  with False show ?thesis by simp
qed

lemma wait_loop_returns:
  assumes "\<And>j. N \<le> j \<Longrightarrow> notBefore \<le> clock j"
  shows "\<exists>r. wait_loop clock done notBefore i = Some r"
proof (induction "N - i" arbitrary: i rule: less_induct)
  case less
  obtain r j where w: "waitInterval clock done notBefore i = (r, j)" by fastforce
  then have j: "i < j" by (auto simp: waitInterval_def Let_def split: option.splits if_splits)
  show ?case
  proof (cases "r = None \<and> validTimestamp (clock j) \<and> clock j < notBefore")
    case True
    then have "j < N" using assms [of j] by force
    then have "\<exists>r. wait_loop clock done notBefore (j + 1) = Some r"
      using j by (intro less) simp
    then show ?thesis
      using w True by (subst wait_loop.simps) (simp add: Let_def)
  next
    case False
    then show ?thesis
      using w by (subst wait_loop.simps) (auto simp: Let_def split: option.splits)
  qed
qed

lemma wait_loop_sound:
  assumes "wait_loop clock done notBefore i = Some (None, n)"
  shows "\<exists>j. i \<le> j \<and> j < n \<and> validTimestamp (clock j) \<and> notBefore \<le> clock j \<and> done (j + 1) = None"
proof -
  have "fst (None :: err, n) = None \<longrightarrow> (\<exists>j. i \<le> j \<and> j < snd (None :: err, n) \<and> validTimestamp (clock j) \<and>
      notBefore \<le> clock j \<and> done (j + 1) = None)"
  proof (rule wait_loop.raw_induct [where P = "\<lambda>clock done notBefore i r. fst r = None \<longrightarrow>
      (\<exists>j. i \<le> j \<and> j < snd r \<and> validTimestamp (clock j) \<and> notBefore \<le> clock j \<and> done (j + 1) = None)", OF _ assms])
    fix f clock "done" notBefore i r
    assume IH: "\<And>clock done notBefore i r. f clock done notBefore i = Some r \<Longrightarrow> fst r = None \<longrightarrow>
      (\<exists>j. i \<le> j \<and> j < snd r \<and> validTimestamp (clock j) \<and> notBefore \<le> clock j \<and> done (j + 1) = None)"
      and eq: "(case waitInterval clock done notBefore i of
        (None, j) \<Rightarrow> let current = clock j in
          if \<not> validTimestamp current then Some (Some ErrInvalidHint, j + 1)
          else if \<not> current < notBefore then Some (done (j + 1), j + 2)
          else f clock done notBefore (j + 1)
      | (Some e, j) \<Rightarrow> Some (Some e, j)) = Some r"
    obtain e j where w: "waitInterval clock done notBefore i = (e, j)" by fastforce
    then have j: "i < j" by (auto simp: waitInterval_def Let_def split: option.splits if_splits)
    show "fst r = None \<longrightarrow>
      (\<exists>j. i \<le> j \<and> j < snd r \<and> validTimestamp (clock j) \<and> notBefore \<le> clock j \<and> done (j + 1) = None)"
    proof
      assume r: "fst r = None"
      have e: "e = None" using eq r unfolding w by (cases e) auto
      have v: "validTimestamp (clock j)" using eq r unfolding w by (auto simp: e Let_def split: if_splits)
      show "\<exists>j. i \<le> j \<and> j < snd r \<and> validTimestamp (clock j) \<and> notBefore \<le> clock j \<and> done (j + 1) = None"
      proof (cases "clock j < notBefore")
        case True
        with eq w e v have "f clock done notBefore (j + 1) = Some r" by (simp add: Let_def)
        with IH r obtain k where "j + 1 \<le> k" "k < snd r" "validTimestamp (clock k)" "notBefore \<le> clock k" "done (k + 1) = None"
          by blast
        with j show ?thesis by (intro exI [of _ k]) simp
      next
        case False
        with eq w e v r j show ?thesis by (intro exI [of _ j]) (auto simp: Let_def)
      qed
    qed
  qed
  then show ?thesis by simp
qed

lemma map_of_filter_live:
  "distinct (map fst c) \<Longrightarrow>
   map_of (filter (\<lambda>(_, t). now < t) c) s = (case map_of c s of None \<Rightarrow> None | Some t \<Rightarrow> if now < t then Some t else None)"
  by (induction c) (auto split: option.splits dest: map_of_SomeD simp: image_iff)

lemma PruneExpired_snd: "snd (PruneExpired c now) = filter (\<lambda>(_, t). now < t) c"
  by (auto simp: PruneExpired_def Let_def filter_id_conv filter_empty_conv intro!: filter_True [symmetric])

lemma PruneExpired_fst: "fst (PruneExpired c now) + length (snd (PruneExpired c now)) = length c"
  by (auto simp: PruneExpired_def Let_def sum_length_filter_compl [of "\<lambda>(_, t). now < t" c, symmetric]
      case_prod_beta')

section \<open>Properties\<close>

text \<open>
  C14 (bounds). Against a Gregorian calendar counted year by year, \<open>AddDelay\<close> succeeds exactly when the base lies after
  the start of year 1 (the zero time is refused), the delay is not negative and the sum lies before the start of
  year 10000. It then returns the exact sum, and otherwise the zero time with \<open>ErrInvalidHint\<close>.
\<close>

theorem AddDelay_exact:
  "AddDelay base delay =
     (if year_start 1 < base \<and> 0 \<le> delay \<and> base + delay < year_start 10000
      then (base + delay, None) else (0, Some ErrInvalidHint))"
  unfolding year_start_1 year_start_10000 by (rule AddDelay_eq)

text \<open>
  When a repeat is scheduled, the start bound is the latest of now plus backoff, the usable hint and
  the cooldown; the action is kept when that bound lies before the deadline and becomes \<open>Defer\<close> otherwise.
  In every other case the call fails with \<open>ErrInvalidHint\<close> and the decision unchanged.
\<close>

theorem Schedule_start_bound:
  assumes "repeats (de_Action d)"
  shows "(schedule_ok i \<and> validTimestamp (si_Now i + si_Backoff i) \<and>
      (\<not> hi_Present (si_Hint i) \<or> snd (hintStart (si_Hint i)) = None \<or> si_InvalidHint i \<noteq> RejectHint) \<and>
      snd (Schedule d i) = None \<and>
      de_NotBefore (fst (Schedule d i)) = max (hint_bound (si_Hint i) (si_Now i + si_Backoff i)) (si_Cooldown i) \<and>
      de_Action (fst (Schedule d i)) =
        (if si_Deadline i = 0 \<or> de_NotBefore (fst (Schedule d i)) < si_Deadline i then de_Action d else Defer))
    \<or> Schedule d i = (d, Some ErrInvalidHint)"
proof (cases "schedule_ok i \<and> validTimestamp (si_Now i + si_Backoff i) \<and>
      (\<not> hi_Present (si_Hint i) \<or> snd (hintStart (si_Hint i)) = None \<or> si_InvalidHint i \<noteq> RejectHint)")
  case True
  then have "schedule_ok i" "validTimestamp (si_Now i + si_Backoff i)"
    "\<not> hi_Present (si_Hint i) \<or> snd (hintStart (si_Hint i)) = None \<or> si_InvalidHint i \<noteq> RejectHint"
    by blast+
  from Schedule_repeat_eq [OF this(1) assms this(2,3)] True show ?thesis by presburger
next
  case False
  from Schedule_repeat_error [OF assms this] show ?thesis by blast
qed

definition demo_input :: schedule_input where
  "demo_input = \<lparr>si_Now = 1000, si_Backoff = 50, si_Hint = \<lparr>hi_Present = True, hi_NotBefore = 1100,
     hi_Source = ''s'', hi_Clock = ''c'', hi_Uncertainty = 5\<rparr>, si_InvalidHint = RejectHint, si_Cooldown = 0,
     si_Deadline = 2000\<rparr>"

theorem Schedule_start_bound_witness:
  "Schedule (zero_decision\<lparr>de_Action := Retry\<rparr>) demo_input =
     (zero_decision\<lparr>de_Action := Retry, de_NotBefore := 1105, de_Deadline := 2000\<rparr>, None) \<and>
   de_NotBefore (fst (Schedule (zero_decision\<lparr>de_Action := Retry\<rparr>) demo_input)) =
     max (hint_bound (si_Hint demo_input) 1050) 0"
proof -
  have r: "repeats (de_Action (zero_decision\<lparr>de_Action := Retry\<rparr>))" by simp
  have e: "Schedule (zero_decision\<lparr>de_Action := Retry\<rparr>) demo_input =
     (zero_decision\<lparr>de_Action := Retry, de_NotBefore := 1105, de_Deadline := 2000\<rparr>, None)"
    by (simp add: Schedule_def demo_input_def AddDelay_eq validTimestamp_iff timestamp_end_def ns_per_day_def
        hintStart_def Let_def zero_decision_def)
  show ?thesis
    using Schedule_start_bound [OF r, of demo_input] e by (auto simp: demo_input_def)
qed

text \<open>
  \<open>Wait\<close> returns: whenever the caller's clock eventually stays at or past the requested time, the
  waiting loop ends, whatever the context does.
\<close>

theorem Wait_returns:
  assumes "\<And>j. N \<le> j \<Longrightarrow> notBefore \<le> clock j"
  shows "\<exists>r. Wait (Some clock) done notBefore = Some r"
  using wait_loop_returns [OF assms] by (simp add: Wait_def)

theorem Wait_returns_witness:
  "\<exists>r. Wait (Some (\<lambda>j. int j + 1)) (\<lambda>_. None) 7 = Some r"
  by (rule Wait_returns [of 6]) simp

text \<open>
  When \<open>Wait\<close> returns without an error, the caller's clock has really shown a valid time at or past the
  requested one, and the context was not done when it was last looked at.
\<close>

theorem Wait_success_is_late_enough:
  assumes "Wait (Some clock) done notBefore = Some (None, n)"
  shows "\<exists>j. j < n \<and> validTimestamp (clock j) \<and> notBefore \<le> clock j \<and> done (j + 1) = None"
proof -
  have "wait_loop clock done notBefore 0 = Some (None, n)"
    using assms by (simp add: Wait_def split: if_splits)
  from wait_loop_sound [OF this] show ?thesis by auto
qed

theorem Wait_success_is_late_enough_witness:
  "Wait (Some (\<lambda>j. int j + 1)) (\<lambda>_. None) 4 = Some (None, 5) \<and>
   (\<exists>j. j < 5 \<and> validTimestamp (int j + 1) \<and> (4 :: int) \<le> int j + 1)"
proof -
  have w: "Wait (Some (\<lambda>j. int j + 1)) (\<lambda>_. None) 4 = Some (None, 5)"
    by (simp add: Wait_def wait_loop.simps waitInterval_def validTimestamp_iff timestamp_end_def ns_per_day_def)
  show ?thesis using Wait_success_is_late_enough [OF w] w by auto
qed

text \<open>
  The cooldown store is a table of per-scope maxima: \<open>Extend\<close> raises one scope's bound to the later
  of the two times and leaves every other scope alone, and \<open>PruneExpired\<close> resets exactly the bounds that have passed
  and counts them.
\<close>

theorem cooldowns_refine_maxima:
  assumes "distinct (map fst c)"
  shows "Until (Extend c s t) = (Until c)(s := max (Until c s) t) \<and> distinct (map fst (Extend c s t)) \<and>
    Until (snd (PruneExpired c now)) = (\<lambda>s. if map_of c s = None \<or> Until c s \<le> now then 0 else Until c s) \<and>
    fst (PruneExpired c now) = card {s. map_of c s \<noteq> None \<and> Until c s \<le> now} \<and>
    distinct (map fst (snd (PruneExpired c now)))"
proof (intro conjI)
  show "Until (Extend c s t) = (Until c)(s := max (Until c s) t)"
    by (rule ext) (auto simp: Until_def Extend_def update_conv' split: option.splits)
  show "distinct (map fst (Extend c s t))"
    using assms by (simp add: Extend_def distinct_update)
  show "Until (snd (PruneExpired c now)) = (\<lambda>s. if map_of c s = None \<or> Until c s \<le> now then 0 else Until c s)"
    by (rule ext) (auto simp: PruneExpired_snd Until_def map_of_filter_live [OF assms] split: option.splits)
  show "distinct (map fst (snd (PruneExpired c now)))"
    using assms by (simp add: PruneExpired_snd distinct_map_filter)
  have "{s. map_of c s \<noteq> None \<and> Until c s \<le> now} = fst ` set (filter (\<lambda>(_, t). \<not> now < t) c)"
  proof (rule set_eqI)
    fix s
    have "s \<in> {s. map_of c s \<noteq> None \<and> Until c s \<le> now} \<longleftrightarrow> (\<exists>t. map_of c s = Some t \<and> t \<le> now)"
      by (cases "map_of c s") (simp_all add: Until_def)
    also have "\<dots> \<longleftrightarrow> (\<exists>t. (s, t) \<in> set c \<and> t \<le> now)"
      by (simp only: map_of_eq_Some_iff [OF assms])
    finally show "s \<in> {s. map_of c s \<noteq> None \<and> Until c s \<le> now} \<longleftrightarrow> s \<in> fst ` set (filter (\<lambda>(_, t). \<not> now < t) c)"
      by (auto simp: image_iff Bex_def not_less)
  qed
  also have "card \<dots> = length (filter (\<lambda>(_, t). \<not> now < t) c)"
    using assms by (metis distinct_card distinct_map_filter length_map set_map)
  finally show "fst (PruneExpired c now) = card {s. map_of c s \<noteq> None \<and> Until c s \<le> now}"
    by (simp add: PruneExpired_def Let_def)
qed

theorem cooldowns_refine_maxima_witness:
  "distinct (map fst [(1 :: nat, 10 :: int), (2, 20)]) \<and>
   Until (Extend [(1 :: nat, 10), (2, 20)] 1 30) = (Until [(1, 10), (2, 20)])(1 := 30)"
proof -
  have d: "distinct (map fst [(1 :: nat, 10 :: int), (2, 20)])" by simp
  show ?thesis
    using cooldowns_refine_maxima [OF d, of 1 30 0] d by (simp add: Until_def)
qed

end
