(* ===== verification/Quota.thy ===== *)
theory Quota
  imports Attempt "HOL-Library.Finite_Map"
begin

text \<open>
  Package \<open>policy/quota\<close> (\<open>quota.go\<close>): admission of one attempt against a host backend and the
  session that settles or releases its reservation.

  The backend is the caller's: its four methods are parameters of the definitions that call them.
  Go maps from units to \<open>uint64\<close> amounts are finite maps into 64-bit words (a nil map and an empty
  one behave alike in this code). A session serialises its transitions by a channel of capacity one and
  gives up its mutex while a backend call is running, so \<open>State\<close> can be read in between: a
  transition is therefore two steps here, the part before the call (\<open>settle_begin\<close>,
  \<open>release_begin\<close>, which leave the call in \<open>se_inflight\<close>) and the part after it (\<open>finish\<close>, which
  also covers a panic of the callback). \<open>Settle\<close> and \<open>Release\<close> compose them.
\<close>

section \<open>Data\<close>

type_synonym 'u amounts = "('u, 64 word) fmap"

datatype admission = Denied | Admitted | Deferred | Unreserved | AdmissionOther nat

datatype sstate = Reserved | Committed | Released | Pending

record ('s, 'u) reserve_request =
  rr_Scope :: 's
  rr_Identity :: identity
  rr_Estimated :: "'u amounts"
  rr_Fingerprint :: string
  rr_Deadline :: int

record ('h, 'r) reservation =
  rs_Admission :: admission
  rs_Handle :: 'h
  rs_Reason :: 'r
  rs_RetryAt :: int

record ('h, 'u) settlement =
  st_Handle :: 'h
  st_ID :: string
  st_Actual :: "'u amounts"
  st_Complete :: bool

record ('h, 'r) release_proof =
  pf_Handle :: 'h
  pf_ID :: string
  pf_NotExecuted :: bool
  pf_Reason :: 'r

datatype failure_policy = FailClosed | FailOpen | PolicyOther nat

text \<open>A backend call a transition is waiting for.\<close>

datatype ('h, 'u, 'r) backend_call =
    CallPending "('h, 'u) settlement"
  | CallCommit "('h, 'u) settlement"
  | CallRelease "('h, 'r) release_proof"

record ('s, 'u, 'h, 'r) session =
  se_request :: "('s, 'u) reserve_request"
  se_reservation :: "('h, 'r) reservation"
  se_state :: sstate
  se_settlement :: "('h, 'u) settlement option"
  se_release :: "('h, 'r) release_proof option"
  se_inflight :: "('h, 'u, 'r) backend_call option"

definition ErrConflict :: gerror where
  "ErrConflict = Sentinel ''routery/quota: conflict''"

definition ErrIncompatibleUnits :: gerror where
  "ErrIncompatibleUnits = Sentinel ''routery/quota: incompatible units''"

definition ErrBackendUnavailable :: gerror where
  "ErrBackendUnavailable = Sentinel ''routery/quota: backend unavailable''"

definition ErrUnknownHandle :: gerror where
  "ErrUnknownHandle = Sentinel ''routery/quota: unknown handle''"

text \<open>\<open>ReserveError{Err, UnknownAck}\<close> and how \<open>errors.As\<close> finds one.\<close>

definition ReserveError :: "gerror \<Rightarrow> bool \<Rightarrow> gerror" where
  "ReserveError e unknownAck = Typed ''quota.ReserveError'' (VBool ''bool'' unknownAck) [e]"

definition as_ReserveError :: "gerror \<Rightarrow> bool option" where
  "as_ReserveError e =
     (case error_as ''quota.ReserveError'' e of Some (VBool _ ack, _) \<Rightarrow> Some ack | _ \<Rightarrow> None)"

section \<open>Admission\<close>

definition zero_reservation :: "'h \<Rightarrow> 'r \<Rightarrow> ('h, 'r) reservation" where
  "zero_reservation h r = \<lparr>rs_Admission = Denied, rs_Handle = h, rs_Reason = r, rs_RetryAt = 0\<rparr>"

text \<open>
  \<open>zh\<close> and \<open>zr\<close> are the zero values of the handle and reason types, \<open>ctxErr\<close> what \<open>ctx.Err()\<close>
  returned and \<open>reserve\<close> the backend's method (\<open>None\<close> for a nil backend), a procedure over the host's state.
\<close>

definition Admit ::
  "'h \<Rightarrow> 'r \<Rightarrow> err \<Rightarrow> (('s, 'u) reserve_request \<Rightarrow> ('w, ('h, 'r) reservation \<times> err) proc) option \<Rightarrow>
   ('s, 'u) reserve_request \<Rightarrow> failure_policy \<Rightarrow>
   ('w, ('h, 'r) reservation \<times> ('s, 'u, 'h, 'r) session option \<times> err) proc" where
  "Admit zh zr ctxErr reserve request policy =
     (case ctxErr of
        Some e \<Rightarrow> ret (zero_reservation zh zr, None, Some e)
      | None \<Rightarrow>
         (case reserve of
            None \<Rightarrow> ret (zero_reservation zh zr, None, Some ErrConflict)
          | Some backend \<Rightarrow>
             if id_Operation (rr_Identity request) = '''' \<or> id_Attempt (rr_Identity request) = '''' \<or>
                rr_Fingerprint request = '''' \<or> (policy \<noteq> FailClosed \<and> policy \<noteq> FailOpen)
             then ret (zero_reservation zh zr, None, Some ErrConflict)
             else seq (backend request) (\<lambda>(reservation, e).
               case e of
                 Some x \<Rightarrow>
                   if policy = FailOpen \<and> as_ReserveError x = Some False \<and> error_is x ErrBackendUnavailable
                   then ret (reservation\<lparr>rs_Admission := Unreserved\<rparr>, None, None)
                   else ret (reservation, None, Some x)
               | None \<Rightarrow>
                   if rs_Admission reservation \<noteq> Admitted then
                     (if rs_Admission reservation \<noteq> Denied \<and> rs_Admission reservation \<noteq> Deferred
                      then ret (reservation, None, Some ErrConflict)
                      else ret (reservation, None, None))
                   else ret (reservation,
                     Some \<lparr>se_request = request, se_reservation = reservation, se_state = Reserved,
                           se_settlement = None, se_release = None, se_inflight = None\<rparr>, None))))"

section \<open>Settlement\<close>

text \<open>What a transition does before it reaches the backend: return at once, or call it.\<close>

datatype ('h, 'u, 'r) started = Returned err | Calls "('h, 'u, 'r) backend_call"

definition settle_begin ::
  "('s, 'u, 'h, 'r) session \<Rightarrow> string \<Rightarrow> 'u amounts \<Rightarrow> bool \<Rightarrow>
   ('h, 'u, 'r) started \<times> ('s, 'u, 'h, 'r) session" where
  "settle_begin s i actual compl =
     (if i = '''' \<or> se_release s \<noteq> None then (Returned (Some ErrConflict), s)
      else if \<not> fmdom actual |\<subseteq>| fmdom (rr_Estimated (se_request s)) then (Returned (Some ErrIncompatibleUnits), s)
      else
        let next = \<lparr>st_Handle = rs_Handle (se_reservation s), st_ID = i, st_Actual = actual, st_Complete = compl\<rparr>;
            go = (let call = (if compl then CallCommit next else CallPending next) in
                  (Calls call, s\<lparr>se_settlement := Some next, se_state := Pending, se_inflight := Some call\<rparr>))
        in case se_settlement s of
             None \<Rightarrow> go
           | Some previous \<Rightarrow>
               if st_ID previous \<noteq> i \<or> (st_Complete previous \<and> (\<not> compl \<or> st_Actual previous \<noteq> actual))
               then (Returned (Some ErrConflict), s)
               else if se_state s = Committed then (Returned None, s)
               else go)"

definition release_begin ::
  "('s, 'u, 'h, 'r) session \<Rightarrow> ('h, 'r) release_proof \<Rightarrow>
   ('h, 'u, 'r) started \<times> ('s, 'u, 'h, 'r) session" where
  "release_begin s pf =
     (if pf_Handle pf \<noteq> rs_Handle (se_reservation s) \<or> pf_ID pf = '''' \<or> \<not> pf_NotExecuted pf
      then (Returned (Some ErrConflict), s)
      else if (case se_settlement s of Some st \<Rightarrow> st_Complete st | None \<Rightarrow> False) then (Returned (Some ErrConflict), s)
      else if (case se_release s of Some q \<Rightarrow> q \<noteq> pf | None \<Rightarrow> False) then (Returned (Some ErrConflict), s)
      else if se_state s = Released then (Returned None, s)
      else (Calls (CallRelease pf),
            s\<lparr>se_release := Some pf, se_state := Pending, se_inflight := Some (CallRelease pf)\<rparr>))"

text \<open>The part after the backend call: its result, or a panic of the callback, which leaves the state pending.\<close>

definition finish ::
  "('s, 'u, 'h, 'r) session \<Rightarrow> ('h, 'u, 'r) backend_call \<Rightarrow> err outcome \<Rightarrow>
   err outcome \<times> ('s, 'u, 'h, 'r) session" where
  "finish s call r =
     (let s' = s\<lparr>se_inflight := None\<rparr> in
      case r of
        Panic \<Rightarrow> (Panic, s')
      | Ret e \<Rightarrow>
          (case call of
             CallPending _ \<Rightarrow> (Ret e, s')
           | CallCommit _ \<Rightarrow> (Ret e, s'\<lparr>se_state := (if e = None then Committed else Pending)\<rparr>)
           | CallRelease _ \<Rightarrow> (Ret e, s'\<lparr>se_state := (if e = None then Released else Pending)\<rparr>)))"

text \<open>
  What \<open>acquire\<close> sees: its first \<open>ctx.Err()\<close>, whether the select took the done branch (and the error it then
  returns), and the \<open>ctx.Err()\<close> after it got the token.
\<close>

record acquire_view =
  av_first :: err
  av_done :: err
  av_last :: err

definition acquire :: "acquire_view \<Rightarrow> err" where
  "acquire v =
     (case av_first v of
        Some e \<Rightarrow> Some e
      | None \<Rightarrow> (case av_done v of Some e \<Rightarrow> Some e | None \<Rightarrow> av_last v))"

text \<open>\<open>backend\<close> runs one backend call over the host's state.\<close>

definition run_transition ::
  "(('h, 'u, 'r) backend_call \<Rightarrow> ('w, err) proc) \<Rightarrow>
   ('h, 'u, 'r) started \<times> ('s, 'u, 'h, 'r) session \<Rightarrow> 'w \<Rightarrow> err outcome \<times> ('s, 'u, 'h, 'r) session \<times> 'w" where
  "run_transition backend b w =
     (case b of
        (Returned e, s) \<Rightarrow> (Ret e, s, w)
      | (Calls call, s) \<Rightarrow>
          (case backend call w of (r, w') \<Rightarrow> (case finish s call r of (r', s') \<Rightarrow> (r', s', w'))))"

definition Settle ::
  "(('h, 'u, 'r) backend_call \<Rightarrow> ('w, err) proc) \<Rightarrow> acquire_view \<Rightarrow> ('s, 'u, 'h, 'r) session \<Rightarrow>
   string \<Rightarrow> 'u amounts \<Rightarrow> bool \<Rightarrow> 'w \<Rightarrow> err outcome \<times> ('s, 'u, 'h, 'r) session \<times> 'w" where
  "Settle backend v s i actual compl w =
     (case acquire v of
        Some e \<Rightarrow> (Ret (Some e), s, w)
      | None \<Rightarrow> run_transition backend (settle_begin s i actual compl) w)"

definition Release ::
  "(('h, 'u, 'r) backend_call \<Rightarrow> ('w, err) proc) \<Rightarrow> acquire_view \<Rightarrow> ('s, 'u, 'h, 'r) session \<Rightarrow>
   ('h, 'r) release_proof \<Rightarrow> 'w \<Rightarrow> err outcome \<times> ('s, 'u, 'h, 'r) session \<times> 'w" where
  "Release backend v s pf w =
     (case acquire v of
        Some e \<Rightarrow> (Ret (Some e), s, w)
      | None \<Rightarrow> run_transition backend (release_begin s pf) w)"

text \<open>
  All interleavings: a transition may start when none is in flight (the serial token is free), and the one in flight
  may finish with any backend result.
\<close>

inductive session_step :: "('s, 'u, 'h, 'r) session \<Rightarrow> ('s, 'u, 'h, 'r) session \<Rightarrow> bool" where
  step_settle: "se_inflight s = None \<Longrightarrow> settle_begin s i actual compl = (r, s') \<Longrightarrow> session_step s s'"
| step_release: "se_inflight s = None \<Longrightarrow> release_begin s pf = (r, s') \<Longrightarrow> session_step s s'"
| step_finish: "se_inflight s = Some call \<Longrightarrow> finish s call result = (r, s') \<Longrightarrow> session_step s s'"

definition admitted_session :: "('s, 'u, 'h, 'r) session \<Rightarrow> bool" where
  "admitted_session s \<longleftrightarrow> se_state s = Reserved \<and> se_settlement s = None \<and> se_release s = None \<and> se_inflight s = None"

section \<open>Facts\<close>

lemma settle_begin_cases:
  assumes "settle_begin s i actual compl = (r, s')"
  obtains (stays) e where "r = Returned e" "s' = s"
    | (calls) "next" call where "r = Calls call" "se_release s = None" "i \<noteq> ''''"
        "fmdom actual |\<subseteq>| fmdom (rr_Estimated (se_request s))"
        "next = \<lparr>st_Handle = rs_Handle (se_reservation s), st_ID = i, st_Actual = actual, st_Complete = compl\<rparr>"
        "call = (if compl then CallCommit next else CallPending next)"
        "\<And>p. se_settlement s = Some p \<Longrightarrow> st_ID p = i \<and> (st_Complete p \<longrightarrow> compl \<and> st_Actual p = actual) \<and> se_state s \<noteq> Committed"
        "s' = s\<lparr>se_settlement := Some next, se_state := Pending, se_inflight := Some call\<rparr>"
proof (cases r)
  case (Returned e)
  with assms have "s' = s"
    by (simp add: settle_begin_def Let_def split: if_splits option.splits)
  with Returned show thesis by (rule stays)
next
  case (Calls call)
  define nx where "nx = \<lparr>st_Handle = rs_Handle (se_reservation s), st_ID = i, st_Actual = actual, st_Complete = compl\<rparr>"
  have "se_release s = None" "i \<noteq> ''''" "fmdom actual |\<subseteq>| fmdom (rr_Estimated (se_request s))"
    using assms Calls by (auto simp: settle_begin_def split: if_splits)
  moreover have "call = (if compl then CallCommit nx else CallPending nx)"
    "s' = s\<lparr>se_settlement := Some nx, se_state := Pending, se_inflight := Some call\<rparr>"
    using assms Calls by (auto simp: settle_begin_def Let_def nx_def split: if_splits option.splits)
  moreover have "st_ID p = i \<and> (st_Complete p \<longrightarrow> compl \<and> st_Actual p = actual) \<and> se_state s \<noteq> Committed"
    if "se_settlement s = Some p" for p
    using assms Calls that by (auto simp: settle_begin_def Let_def split: if_splits)
  ultimately show thesis
    using Calls by (intro calls [of call nx]) (auto simp: nx_def)
qed

lemma release_begin_cases:
  assumes "release_begin s pf = (r, s')"
  obtains (stays) e where "r = Returned e" "s' = s"
    | (calls) "r = Calls (CallRelease pf)" "pf_NotExecuted pf" "pf_Handle pf = rs_Handle (se_reservation s)"
        "\<And>st. se_settlement s = Some st \<Longrightarrow> \<not> st_Complete st" "\<And>q. se_release s = Some q \<Longrightarrow> q = pf"
        "se_state s \<noteq> Released"
        "s' = s\<lparr>se_release := Some pf, se_state := Pending, se_inflight := Some (CallRelease pf)\<rparr>"
proof (cases r)
  case (Returned e)
  with assms have "s' = s" by (simp add: release_begin_def split: if_splits)
  with Returned show thesis by (rule stays)
next
  case (Calls call)
  with assms show thesis
    by (intro calls) (auto simp: release_begin_def split: if_splits option.splits)
qed

definition session_inv :: "('s, 'u, 'h, 'r) session \<Rightarrow> bool" where
  "session_inv s \<longleftrightarrow>
     (se_state s = Reserved \<longrightarrow> se_settlement s = None \<and> se_release s = None) \<and>
     (se_state s = Committed \<longrightarrow> (\<exists>st. se_settlement s = Some st \<and> st_Complete st) \<and> se_release s = None) \<and>
     (se_state s = Released \<longrightarrow> se_release s \<noteq> None) \<and>
     (\<forall>st. se_settlement s = Some st \<longrightarrow> st_Handle st = rs_Handle (se_reservation s) \<and> st_ID st \<noteq> '''' \<and>
        fmdom (st_Actual st) |\<subseteq>| fmdom (rr_Estimated (se_request s)) \<and> (st_Complete st \<longrightarrow> se_release s = None)) \<and>
     (\<forall>pf. se_release s = Some pf \<longrightarrow> pf_NotExecuted pf \<and> pf_Handle pf = rs_Handle (se_reservation s)) \<and>
     (\<forall>call. se_inflight s = Some call \<longrightarrow> se_state s = Pending \<and>
        (case call of
           CallPending st \<Rightarrow> se_settlement s = Some st \<and> \<not> st_Complete st \<and> se_release s = None
         | CallCommit st \<Rightarrow> se_settlement s = Some st \<and> st_Complete st \<and> se_release s = None
         | CallRelease pf \<Rightarrow> se_release s = Some pf))"

lemma admitted_session_inv: "admitted_session s \<Longrightarrow> session_inv s"
  by (simp add: admitted_session_def session_inv_def)

lemma session_step_inv: "session_step s s' \<Longrightarrow> session_inv s \<Longrightarrow> session_inv s'"
proof (induction rule: session_step.induct)
  case (step_settle s i actual compl r s')
  from step_settle(2) show ?case
  proof (cases rule: settle_begin_cases)
    case (stays e)
    with step_settle show ?thesis by simp
  next
    case (calls "next" call)
    with step_settle show ?thesis by (cases compl) (auto simp: session_inv_def)
  qed
next
  case (step_release s pf r s')
  from step_release(2) show ?case
  proof (cases rule: release_begin_cases)
    case (stays e)
    with step_release show ?thesis by simp
  next
    case calls
    with step_release show ?thesis by (auto simp: session_inv_def)
  qed
next
  case (step_finish s call result r s')
  then show ?case
    by (cases call; cases result) (auto simp: finish_def session_inv_def split: if_splits)
qed

text \<open>What never changes again: a complete settlement, a release proof, and the two final states.\<close>

definition session_le :: "('s, 'u, 'h, 'r) session \<Rightarrow> ('s, 'u, 'h, 'r) session \<Rightarrow> bool" where
  "session_le s t \<longleftrightarrow> session_inv t \<and>
     se_request t = se_request s \<and> se_reservation t = se_reservation s \<and>
     (\<forall>st. se_settlement s = Some st \<longrightarrow> (\<exists>st'. se_settlement t = Some st' \<and> st_ID st' = st_ID st \<and>
        (st_Complete st \<longrightarrow> st' = st))) \<and>
     (\<forall>pf. se_release s = Some pf \<longrightarrow> se_release t = Some pf) \<and>
     (se_state s = Committed \<longrightarrow> se_state t = Committed) \<and>
     (se_state s = Released \<longrightarrow> se_state t = Released)"

lemma session_step_le: "session_step s s' \<Longrightarrow> session_inv s \<Longrightarrow> session_le s s'"
proof -
  assume step: "session_step s s'" and inv: "session_inv s"
  have inv': "session_inv s'" using step inv by (rule session_step_inv)
  show ?thesis
    using step
  proof cases
    case (step_settle i actual compl r)
    from step_settle(2) show ?thesis
    proof (cases rule: settle_begin_cases)
      case (stays e)
      with inv' show ?thesis by (auto simp: session_le_def)
    next
      case (calls "next" call)
      have "se_state s \<noteq> Committed" "se_state s \<noteq> Released"
        using inv calls(2,7) by (auto simp: session_inv_def)
      with calls inv inv' show ?thesis by (auto simp: session_le_def session_inv_def)
    qed
  next
    case (step_release pf r)
    from step_release(2) show ?thesis
    proof (cases rule: release_begin_cases)
      case (stays e)
      with inv' show ?thesis by (auto simp: session_le_def)
    next
      case calls
      have "se_state s \<noteq> Committed" using inv calls(4) by (auto simp: session_inv_def)
      with calls inv' show ?thesis by (auto simp: session_le_def)
    qed
  next
    case (step_finish call result r)
    have "se_state s = Pending" using inv step_finish(1) by (simp add: session_inv_def)
    moreover have "se_settlement s' = se_settlement s" "se_release s' = se_release s"
      "se_request s' = se_request s" "se_reservation s' = se_reservation s"
      using step_finish(2) by (auto simp: finish_def Let_def split: outcome.splits backend_call.splits)
    ultimately show ?thesis using inv' by (auto simp: session_le_def)
  qed
qed

interpretation session_machine: invariant_system admitted_session session_step session_inv
  by unfold_locales (auto intro: admitted_session_inv session_step_inv)

lemma session_le_refl: "session_inv s \<Longrightarrow> session_le s s"
  by (auto simp: session_le_def)

lemma session_le_trans: "session_le a b \<Longrightarrow> session_le b c \<Longrightarrow> session_le a c"
  unfolding session_le_def by (intro conjI allI impI; metis)

lemma reaches_session_le: "reaches session_step s t \<Longrightarrow> session_inv s \<Longrightarrow> session_le s t"
proof (induction rule: reaches.induct)
  case (reaches_refl s)
  then show ?case by (rule session_le_refl)
next
  case (reaches_step s t u)
  then have "session_le s t" by blast
  moreover from this reaches_step(2) have "session_le t u"
    by (intro session_step_le) (auto simp: session_le_def)
  ultimately show ?case by (rule session_le_trans)
qed

lemma committed_starts_nothing:
  assumes "session_inv s" and "se_state s = Committed"
  shows "fst (release_begin s pf) = Returned (Some ErrConflict)" and "\<exists>e. fst (settle_begin s i a c) = Returned e"
  using assms by (auto simp: session_inv_def release_begin_def settle_begin_def Let_def)

lemma released_starts_nothing:
  assumes "session_inv s" and "se_state s = Released"
  shows "\<exists>e. fst (release_begin s pf) = Returned e" and "fst (settle_begin s i a c) = Returned (Some ErrConflict)"
  using assms by (auto simp: session_inv_def release_begin_def settle_begin_def Let_def)

section \<open>Properties\<close>

text \<open>
  C15 (safety). Commit and release exclude each other for the life of a reservation: once a session is committed (released)
  it stays so under every interleaving, no further backend call of any kind is started, and the opposite transition is
  refused as a conflict.
\<close>

theorem session_finalizes_once:
  assumes "admitted_session s" and "reaches session_step s t" and "reaches session_step t u"
  shows "(se_state t = Committed \<longrightarrow> se_state u = Committed \<and>
      (\<forall>pf. fst (release_begin u pf) = Returned (Some ErrConflict)) \<and> (\<forall>i a c. \<exists>e. fst (settle_begin u i a c) = Returned e)) \<and>
    (se_state t = Released \<longrightarrow> se_state u = Released \<and>
      (\<forall>pf. \<exists>e. fst (release_begin u pf) = Returned e) \<and> (\<forall>i a c. fst (settle_begin u i a c) = Returned (Some ErrConflict)))"
proof -
  have t: "session_inv t" using session_machine.reachable_inv [OF assms(1,2)] .
  have le: "session_le t u" using reaches_session_le [OF assms(3) t] .
  then have u: "session_inv u" by (simp add: session_le_def)
  show ?thesis
    using le committed_starts_nothing [OF u] released_starts_nothing [OF u] by (auto simp: session_le_def)
qed

definition demo_request :: "(nat, nat) reserve_request" where
  "demo_request = \<lparr>rr_Scope = 0, rr_Identity = \<lparr>id_Operation = ''op'', id_Attempt = ''a''\<rparr>,
     rr_Estimated = fmupd 1 5 fmempty, rr_Fingerprint = ''f'', rr_Deadline = 0\<rparr>"

definition demo_reservation :: "(nat, nat) reservation" where
  "demo_reservation = \<lparr>rs_Admission = Admitted, rs_Handle = 7, rs_Reason = 0, rs_RetryAt = 0\<rparr>"

definition demo_session :: "(nat, nat, nat, nat) session" where
  "demo_session = \<lparr>se_request = demo_request, se_reservation = demo_reservation, se_state = Reserved,
     se_settlement = None, se_release = None, se_inflight = None\<rparr>"

definition demo_settlement :: "(nat, nat) settlement" where
  "demo_settlement = \<lparr>st_Handle = 7, st_ID = ''s'', st_Actual = fmupd 1 9 fmempty, st_Complete = True\<rparr>"

definition demo_sending :: "(nat, nat, nat, nat) session" where
  "demo_sending = demo_session\<lparr>se_settlement := Some demo_settlement, se_state := Pending,
     se_inflight := Some (CallCommit demo_settlement)\<rparr>"

definition demo_lost :: "(nat, nat, nat, nat) session" where
  "demo_lost = demo_session\<lparr>se_settlement := Some demo_settlement, se_state := Pending\<rparr>"

definition demo_committed :: "(nat, nat, nat, nat) session" where
  "demo_committed = demo_session\<lparr>se_settlement := Some demo_settlement, se_state := Committed\<rparr>"

lemmas demo_session_defs = demo_request_def demo_reservation_def demo_session_def demo_settlement_def
  demo_sending_def demo_lost_def demo_committed_def

lemma demo_admitted: "admitted_session demo_session"
  by (simp add: demo_session_def admitted_session_def)

lemma demo_settle: "settle_begin demo_session ''s'' (fmupd 1 9 fmempty) True = (Calls (CallCommit demo_settlement), demo_sending)"
  by (simp add: demo_session_defs settle_begin_def Let_def)

lemma demo_reaches_sending: "reaches session_step demo_session demo_sending"
  by (rule reaches_step [OF reaches_refl], rule session_step.step_settle [OF _ demo_settle]) (simp add: demo_session_def)

lemma demo_reaches_lost: "reaches session_step demo_session demo_lost"
  by (rule reaches_step [OF demo_reaches_sending],
      rule session_step.step_finish [of _ "CallCommit demo_settlement" "Ret (Some ErrBackendUnavailable)" "Ret (Some ErrBackendUnavailable)"])
     (simp_all add: demo_session_defs finish_def)

lemma demo_reaches_committed: "reaches session_step demo_session demo_committed"
  by (rule reaches_step [OF demo_reaches_sending],
      rule session_step.step_finish [of _ "CallCommit demo_settlement" "Ret None" "Ret None"])
     (simp_all add: demo_session_defs finish_def)

theorem session_finalizes_once_witness:
  "se_state demo_committed = Committed \<and>
   fst (release_begin demo_committed \<lparr>pf_Handle = 7, pf_ID = ''r'', pf_NotExecuted = True, pf_Reason = 0\<rparr>) =
     Returned (Some ErrConflict)"
  using session_finalizes_once [OF demo_admitted demo_reaches_committed reaches_refl]
  by (simp add: demo_committed_def)

text \<open>
  A complete settlement is sent under one identity: once a session has recorded it, every later settlement
  call that reaches the backend is a commit of exactly the same handle, id and amounts (so a lost acknowledgement is
  retried idempotently), and no release can start any more.
\<close>

theorem complete_settlement_is_final:
  assumes "admitted_session s" and "reaches session_step s t" and "reaches session_step t u"
    and "se_settlement t = Some st" and "st_Complete st"
  shows "(settle_begin u i a c = (Calls call, u') \<longrightarrow> call = CallCommit st \<and> i = st_ID st \<and> a = st_Actual st \<and> c) \<and>
    release_begin u pf = (Returned (Some ErrConflict), u)"
proof -
  have t: "session_inv t" using session_machine.reachable_inv [OF assms(1,2)] .
  have le: "session_le t u" using reaches_session_le [OF assms(3) t] .
  then have u: "se_settlement u = Some st" "session_inv u"
    using assms(4,5) by (auto simp: session_le_def)
  then have h: "st_Handle st = rs_Handle (se_reservation u)" by (auto simp: session_inv_def)
  have "call = CallCommit st \<and> i = st_ID st \<and> a = st_Actual st \<and> c"
    if "settle_begin u i a c = (Calls call, u')"
    using that
  proof (cases rule: settle_begin_cases)
    case (stays e)
    then show ?thesis by simp
  next
    case (calls "next" call')
    with u(1) assms(5) h show ?thesis by (cases st) auto
  qed
  moreover have "release_begin u pf = (Returned (Some ErrConflict), u)"
    using u(1) assms(5) by (simp add: release_begin_def)
  ultimately show ?thesis by blast
qed

theorem complete_settlement_is_final_witness:
  "se_settlement demo_lost = Some demo_settlement \<and>
   fst (settle_begin demo_lost ''s'' (fmupd 1 9 fmempty) True) = Calls (CallCommit demo_settlement)"
proof -
  have c: "se_settlement demo_lost = Some demo_settlement" "st_Complete demo_settlement"
    by (simp_all add: demo_lost_def demo_settlement_def)
  obtain call u' where call: "settle_begin demo_lost ''s'' (fmupd 1 9 fmempty) True = (Calls call, u')"
    by (simp add: demo_session_defs settle_begin_def Let_def)
  show ?thesis
    using complete_settlement_is_final [OF demo_admitted demo_reaches_lost reaches_refl c] call c by fastforce
qed

text \<open>
  \<open>Admit\<close> opens a session exactly on an acknowledged admission, and reports an unreserved dispatch only
  under the declared fail-open policy for a classified unavailability whose acknowledgement is known; an uncertain
  acknowledgement and every unclassified error fail closed.
\<close>

theorem Admit_outcomes:
  assumes "Admit zh zr None (Some backend) request policy w = (Ret (reservation, session, e), w')"
  shows "(session \<noteq> None \<longleftrightarrow> e = None \<and> rs_Admission reservation = Admitted) \<and>
    (e = None \<and> rs_Admission reservation = Unreserved \<longrightarrow> policy = FailOpen \<and>
       (\<exists>r x. fst (backend request w) = Ret (r, Some x) \<and> as_ReserveError x = Some False \<and> error_is x ErrBackendUnavailable)) \<and>
    (\<forall>s. session = Some s \<longrightarrow> admitted_session s \<and> se_request s = request \<and>
       fst (backend request w) = Ret (se_reservation s, None))"
proof (cases "id_Operation (rr_Identity request) = '''' \<or> id_Attempt (rr_Identity request) = '''' \<or>
    rr_Fingerprint request = '''' \<or> (policy \<noteq> FailClosed \<and> policy \<noteq> FailOpen)")
  case True
  with assms show ?thesis by (auto simp: Admit_def zero_reservation_def)
next
  case False
  with assms obtain r x w1 where b: "backend request w = (Ret (r, x), w1)"
    by (auto simp: Admit_def seq_eq_Ret)
  show ?thesis
  proof (cases x)
    case (Some y)
    with assms b show ?thesis by (simp only: Admit_def option.case False if_False) (auto split: if_splits)
  next
    case None
    with assms b show ?thesis
      by (simp only: Admit_def option.case False if_False) (auto simp: admitted_session_def split: if_splits)
  qed
qed

theorem Admit_outcomes_witness:
  "\<exists>s. Admit 0 0 None (Some (\<lambda>_. ret (demo_reservation, None))) demo_request FailClosed () =
     (Ret (demo_reservation, Some s, None), ()) \<and> admitted_session s"
proof -
  have a: "Admit 0 0 None (Some (\<lambda>_. ret (demo_reservation, None))) demo_request FailClosed () =
     (Ret (demo_reservation, Some demo_session, None), ())"
    by (simp add: Admit_def demo_session_defs)
  show ?thesis using Admit_outcomes [OF a] a by blast
qed

end
