(* ===== verification/Fingerprint.thy ===== *)
theory Fingerprint
  imports Routery_Prelude "HOL-Library.Sublist"
begin

text \<open>
  \<open>snapshot.go\<close>: fingerprints of routing state and the snapshot container.

  A byte is a \<open>char\<close> (Isabelle's characters are exactly the 256 byte values), so a Go string or byte slice is a
  \<open>string\<close>. SHA-256 is written out after FIPS 180-4, the standard \<open>crypto/sha256\<close> implements. The properties
  are about what the repository adds to it, the framing of the parts: equal fingerprints of different inputs always exhibit
  a collision of SHA-256 itself, on byte strings the theorem names.
\<close>

unbundle bit_operations_syntax

section \<open>SHA-256\<close>

type_synonym w32 = "32 word"

text \<open>
  The round constants and the initial state are the first 32 bits of the fractional parts of the cube and square roots
  of the first primes. \<open>root_floor k n\<close> finds the integer \<open>k\<close>-th root of \<open>n\<close> bit by bit, from bit 39 down.
\<close>

definition root_floor :: "nat \<Rightarrow> nat \<Rightarrow> nat" where
  "root_floor k n = foldl (\<lambda>r b. if (r + 2 ^ b) ^ k \<le> n then r + 2 ^ b else r) 0 (rev [0..<40])"

definition sha_primes :: "nat list" where
  "sha_primes = filter (\<lambda>n. list_all (\<lambda>d. n mod d \<noteq> 0) [2..<n]) [2..<312]"

definition sha_K :: "w32 list" where
  "sha_K = map (\<lambda>p. of_nat (root_floor 3 (p * 2 ^ 96))) sha_primes"

definition sha_H0 :: "w32 list" where
  "sha_H0 = map (\<lambda>p. of_nat (root_floor 2 (p * 2 ^ 64))) [2, 3, 5, 7, 11, 13, 17, 19]"

definition sha_sigma :: "nat \<Rightarrow> nat \<Rightarrow> nat \<Rightarrow> w32 \<Rightarrow> w32" where
  "sha_sigma a b c x = word_rotr a x XOR word_rotr b x XOR drop_bit c x"

definition sha_Sigma :: "nat \<Rightarrow> nat \<Rightarrow> nat \<Rightarrow> w32 \<Rightarrow> w32" where
  "sha_Sigma a b c x = word_rotr a x XOR word_rotr b x XOR word_rotr c x"

text \<open>The message schedule, kept newest word first: each further word depends on the sixteen before it.\<close>

fun sha_extend :: "nat \<Rightarrow> w32 list \<Rightarrow> w32 list" where
  "sha_extend 0 ws = ws"
| "sha_extend (Suc n) ws =
     sha_extend n ((sha_sigma 17 19 10 (ws ! 1) + ws ! 6 + sha_sigma 7 18 3 (ws ! 14) + ws ! 15) # ws)"

definition sha_round :: "w32 \<times> w32 \<Rightarrow> w32 list \<Rightarrow> w32 list" where
  "sha_round kw s =
     (case s of
        [a, b, c, d, e, f, g, h] \<Rightarrow>
          let t1 = h + sha_Sigma 6 11 25 e + ((e AND f) XOR (NOT e AND g)) + fst kw + snd kw;
              t2 = sha_Sigma 2 13 22 a + ((a AND b) XOR (a AND c) XOR (b AND c))
          in [t1 + t2, a, b, c, d + t1, e, f, g]
      | _ \<Rightarrow> s)"

definition sha_word :: "string \<Rightarrow> w32" where
  "sha_word bs = word_of_nat (foldl (\<lambda>n c. 256 * n + of_char c) 0 bs)"

fun chunks :: "nat \<Rightarrow> nat \<Rightarrow> 'a list \<Rightarrow> 'a list list" where
  "chunks 0 k xs = []"
| "chunks (Suc n) k xs = take k xs # chunks n k (drop k xs)"

definition sha_block :: "w32 list \<Rightarrow> string \<Rightarrow> w32 list" where
  "sha_block hs block =
     (let ws = rev (sha_extend 48 (rev (map sha_word (chunks 16 4 block))))
      in map2 (+) hs (fold sha_round (zip sha_K ws) hs))"

text \<open>Eight bytes, most significant first: \<open>binary.BigEndian.PutUint64\<close>.\<close>

definition be_bytes :: "nat \<Rightarrow> nat \<Rightarrow> string" where
  "be_bytes k n = map (\<lambda>i. char_of (n div 256 ^ (k - 1 - i) mod 256)) [0..<k]"

definition PutUint64 :: "nat \<Rightarrow> string" where
  "PutUint64 n = be_bytes 8 n"

definition sha_pad :: "string \<Rightarrow> string" where
  "sha_pad m = m @ [char_of (128 :: nat)] @ replicate ((119 - length m mod 64) mod 64) (char_of (0 :: nat)) @
     PutUint64 (8 * length m)"

definition sha256 :: "string \<Rightarrow> string" where
  "sha256 m =
     (let p = sha_pad m
      in concat (map (\<lambda>w. be_bytes 4 (unat w)) (foldl sha_block sha_H0 (chunks (length p div 64) 64 p))))"

section \<open>Hexadecimal digests and framed parts\<close>

definition hex_digit :: "nat \<Rightarrow> char" where
  "hex_digit n = ''0123456789abcdef'' ! n"

definition hex_byte :: "char \<Rightarrow> string" where
  "hex_byte c = (let n = of_char c :: nat in [hex_digit (n div 16), hex_digit (n mod 16)])"

definition hex_EncodeToString :: "string \<Rightarrow> string" where
  "hex_EncodeToString bs = concat (map hex_byte bs)"

definition frame :: "string \<Rightarrow> string" where
  "frame part = PutUint64 (length part) @ part"

definition frames :: "string list \<Rightarrow> string" where
  "frames parts = concat (map frame parts)"

definition FingerprintSHA256 :: "string list \<Rightarrow> string" where
  "FingerprintSHA256 parts = hex_EncodeToString (sha256 (frames parts))"

text \<open>\<open>FingerprintReader\<close>: what \<open>io.Copy\<close> read, or the error it stopped with.\<close>

definition FingerprintReader :: "string \<times> err \<Rightarrow> string \<times> err" where
  "FingerprintReader r =
     (case snd r of Some e \<Rightarrow> ('''', Some e) | None \<Rightarrow> (hex_EncodeToString (sha256 (fst r)), None))"

record 's route_snapshot =
  sn_Fingerprint :: string
  sn_State :: 's

text \<open>\<open>IsStale\<close> on a possibly nil snapshot.\<close>

definition IsStale :: "'s route_snapshot option \<Rightarrow> string \<Rightarrow> bool" where
  "IsStale snapshot current =
     (case snapshot of None \<Rightarrow> True | Some s \<Rightarrow> sn_Fingerprint s \<noteq> current)"

definition sha256_collision :: "string \<Rightarrow> string \<Rightarrow> bool" where
  "sha256_collision x y \<longleftrightarrow> x \<noteq> y \<and> sha256 x = sha256 y"

section \<open>Decimal and boolean text\<close>

text \<open>\<open>strconv.Itoa\<close>, \<open>fmt.Append\<close> of an int, and \<open>strconv.FormatBool\<close>.\<close>

fun nat_digits :: "nat \<Rightarrow> string" where
  "nat_digits n = (if n < 10 then [char_of (48 + n)] else nat_digits (n div 10) @ [char_of (48 + n mod 10)])"

declare nat_digits.simps [simp del]

definition Itoa :: "int \<Rightarrow> string" where
  "Itoa i = (if i < 0 then ''-'' @ nat_digits (nat (- i)) else nat_digits (nat i))"

definition FormatBool :: "bool \<Rightarrow> string" where
  "FormatBool b = (if b then ''true'' else ''false'')"

section \<open>Facts\<close>

lemma length_be_bytes [simp]: "length (be_bytes k n) = k"
  by (simp add: be_bytes_def)

lemma be_bytes_Suc: "be_bytes (Suc k) n = be_bytes k (n div 256) @ [char_of (n mod 256)]"
proof -
  have "n div 256 ^ (k - i) mod 256 = n div 256 div 256 ^ (k - 1 - i) mod 256" if "i < k" for i
  proof -
    have "k - i = Suc (k - 1 - i)" using that by simp
    then show ?thesis by (simp add: div_mult2_eq)
  qed
  then show ?thesis by (simp add: be_bytes_def)
qed

lemma be_bytes_inj: "m < 256 ^ k \<Longrightarrow> n < 256 ^ k \<Longrightarrow> be_bytes k m = be_bytes k n \<Longrightarrow> m = n"
proof (induction k arbitrary: m n)
  case 0
  then show ?case by simp
next
  case (Suc k)
  have "m div 256 < 256 ^ k" "n div 256 < 256 ^ k"
    using Suc.prems(1,2) by (simp_all add: less_mult_imp_div_less mult.commute)
  moreover have "be_bytes k (m div 256) = be_bytes k (n div 256)"
    and low: "char_of (m mod 256) = (char_of (n mod 256) :: char)"
    using Suc.prems(3) by (simp_all add: be_bytes_Suc)
  ultimately have high: "m div 256 = n div 256" by (intro Suc.IH)
  have "of_char (char_of (m mod 256)) = (of_char (char_of (n mod 256)) :: nat)" using low by simp
  then have "m mod 256 = n mod 256" by simp
  with high show ?case by (metis div_mult_mod_eq)
qed

lemma frame_not_Nil [simp]: "frame a \<noteq> []"
  by (metis frame_def PutUint64_def append_is_Nil_conv length_be_bytes list.size(3) zero_neq_numeral)

lemma frames_simps [simp]: "frames [] = []" "frames (p # ps) = frame p @ frames ps"
  by (simp_all add: frames_def)

lemma frame_append_inj:
  assumes "length a < 2 ^ 64" and "length b < 2 ^ 64" and "frame a @ x = frame b @ y"
  shows "a = b \<and> x = y"
proof -
  have split: "PutUint64 (length a) = PutUint64 (length b)" "a @ x = b @ y"
    using assms(3) by (simp_all add: frame_def PutUint64_def append_eq_append_conv)
  have "length a = length b"
    using split(1) assms(1,2) by (intro be_bytes_inj [of _ 8]) (simp_all add: PutUint64_def)
  then show ?thesis using split(2) by simp
qed

lemma frames_inj:
  assumes "list_all (\<lambda>p. length p < 2 ^ 64) ps" and "list_all (\<lambda>p. length p < 2 ^ 64) qs"
    and "frames ps = frames qs"
  shows "ps = qs"
  using assms
proof (induction ps arbitrary: qs)
  case Nil
  then show ?case by (cases qs) simp_all
next
  case (Cons p ps)
  then obtain q qs' where qs: "qs = q # qs'"
    by (cases qs) simp_all
  with Cons.prems have "frame p @ frames ps = frame q @ frames qs'" "length p < 2 ^ 64" "length q < 2 ^ 64"
    by simp_all
  with frame_append_inj have "p = q" "frames ps = frames qs'" by blast+
  with Cons.IH [of qs'] Cons.prems qs show ?case by simp
qed

lemma hex_digit_inj: "m < 16 \<Longrightarrow> n < 16 \<Longrightarrow> hex_digit m = hex_digit n \<Longrightarrow> m = n"
proof -
  assume a: "m < 16" "n < 16" "hex_digit m = hex_digit n"
  have "distinct ''0123456789abcdef''" by simp
  then show "m = n"
    using a by (simp add: hex_digit_def nth_eq_iff_index_eq)
qed

lemma hex_byte_inj: "hex_byte a = hex_byte b \<Longrightarrow> a = b"
proof -
  assume eq: "hex_byte a = hex_byte b"
  define m n :: nat where "m = of_char a" and "n = of_char b"
  have bound: "m < 256" "n < 256" unfolding m_def n_def by simp_all
  have "hex_digit (m div 16) = hex_digit (n div 16)" "hex_digit (m mod 16) = hex_digit (n mod 16)"
    using eq by (simp_all add: hex_byte_def Let_def m_def n_def)
  moreover have "m div 16 < 16" "n div 16 < 16" "m mod 16 < 16" "n mod 16 < 16"
    using bound by simp_all
  ultimately have "m div 16 = n div 16" "m mod 16 = n mod 16"
    using hex_digit_inj by blast+
  then have "m = n" by (metis div_mult_mod_eq)
  then show "a = b" by (simp add: m_def n_def)
qed

lemma hex_EncodeToString_inj: "hex_EncodeToString xs = hex_EncodeToString ys \<Longrightarrow> xs = ys"
proof (induction xs arbitrary: ys)
  case Nil
  then show ?case by (cases ys) (simp_all add: hex_EncodeToString_def hex_byte_def Let_def)
next
  case (Cons x xs)
  then obtain y ys' where ys: "ys = y # ys'"
    by (cases ys) (simp_all add: hex_EncodeToString_def hex_byte_def Let_def)
  have "hex_byte x @ hex_EncodeToString xs = hex_byte y @ hex_EncodeToString ys'"
    using Cons.prems ys by (simp add: hex_EncodeToString_def)
  then have "hex_byte x = hex_byte y \<and> hex_EncodeToString xs = hex_EncodeToString ys'"
    by (simp add: hex_byte_def Let_def)
  with Cons.IH hex_byte_inj ys show ?case by blast
qed

lemma fingerprint_eqD:
  assumes "FingerprintSHA256 ps = FingerprintSHA256 qs"
    and "list_all (\<lambda>p. length p < 2 ^ 64) ps" and "list_all (\<lambda>p. length p < 2 ^ 64) qs"
  shows "ps = qs \<or> sha256_collision (frames ps) (frames qs)"
  using assms frames_inj hex_EncodeToString_inj by (auto simp: FingerprintSHA256_def sha256_collision_def)

text \<open>Decimal text determines the number.\<close>

lemma nat_digits_not_Nil [simp]: "nat_digits n \<noteq> []"
  by (simp add: nat_digits.simps [of n])

lemma nat_digits_chars: "c \<in> set (nat_digits n) \<Longrightarrow> 48 \<le> (of_char c :: nat) \<and> (of_char c :: nat) < 58"
  by (induction n rule: nat_digits.induct) (subst (asm) (2) nat_digits.simps, auto split: if_splits)

lemma char_of_digit_inj: "a < 10 \<Longrightarrow> b < 10 \<Longrightarrow> char_of (48 + a) = (char_of (48 + b :: nat) :: char) \<Longrightarrow> a = (b :: nat)"
  by (drule arg_cong [where f = "of_char :: char \<Rightarrow> nat"]) simp

lemma nat_digits_inj: "nat_digits m = nat_digits n \<Longrightarrow> m = n"
proof (induction m arbitrary: n rule: nat_digits.induct)
  case (1 m)
  consider "m < 10" "n < 10" | "m < 10" "\<not> n < 10" | "\<not> m < 10" "n < 10" | "\<not> m < 10" "\<not> n < 10" by blast
  then show ?case
  proof cases
    case 1
    then show ?thesis using "1.prems" char_of_digit_inj by (simp add: nat_digits.simps [of m] nat_digits.simps [of n])
  next
    case 2
    then show ?thesis using "1.prems" nat_digits_not_Nil [of "m div 10"] nat_digits_not_Nil [of "n div 10"]
      by (simp add: nat_digits.simps [of m] nat_digits.simps [of n] del: nat_digits_not_Nil)
  next
    case 3
    then show ?thesis using "1.prems" nat_digits_not_Nil [of "m div 10"] nat_digits_not_Nil [of "n div 10"]
      by (simp add: nat_digits.simps [of m] nat_digits.simps [of n] del: nat_digits_not_Nil)
  next
    case 4
    then have "nat_digits (m div 10) = nat_digits (n div 10)" "char_of (48 + m mod 10) = (char_of (48 + n mod 10) :: char)"
      using "1.prems" by (simp_all add: nat_digits.simps [of m] nat_digits.simps [of n])
    then have "m div 10 = n div 10" "m mod 10 = n mod 10"
      using "1.IH" 4 char_of_digit_inj [of "m mod 10" "n mod 10"] by auto
    then show ?thesis by (metis div_mult_mod_eq)
  qed
qed

lemma Itoa_inj: "Itoa i = Itoa j \<Longrightarrow> i = j"
proof -
  assume eq: "Itoa i = Itoa j"
  have minus: "nat_digits n \<noteq> CHR ''-'' # ds" for n ds
    using nat_digits_chars [of "CHR ''-''" n] by auto
  show "i = j"
  proof (cases "i < 0"; cases "j < 0")
    assume "i < 0" "j < 0"
    then show ?thesis using eq nat_digits_inj [of "nat (- i)" "nat (- j)"] by (simp add: Itoa_def)
  next
    assume "\<not> i < 0" "\<not> j < 0"
    then show ?thesis using eq nat_digits_inj [of "nat i" "nat j"] by (simp add: Itoa_def)
  qed (use eq minus minus [symmetric] in \<open>auto simp: Itoa_def\<close>)
qed

lemma FormatBool_inj: "FormatBool a = FormatBool b \<Longrightarrow> a = b"
  by (auto simp: FormatBool_def split: if_splits)

text \<open>A fingerprint has 64 characters.\<close>

lemma length_sha_round: "length s = 8 \<Longrightarrow> length (sha_round kw s) = 8"
  by (cases kw) (auto simp: sha_round_def Let_def length_Suc_conv numeral_eq_Suc)

lemma length_fold_sha_round: "length s = 8 \<Longrightarrow> length (fold sha_round kws s) = 8"
  by (induction kws arbitrary: s) (simp_all add: length_sha_round)

lemma length_sha_block: "length hs = 8 \<Longrightarrow> length (sha_block hs b) = 8"
  by (simp add: sha_block_def Let_def length_fold_sha_round)

lemma length_foldl_sha_block: "length hs = 8 \<Longrightarrow> length (foldl sha_block hs bs) = 8"
  by (induction bs arbitrary: hs) (simp_all add: length_sha_block)

lemma length_sha256: "length (sha256 m) = 32"
proof -
  have "length (concat (map (\<lambda>w. be_bytes 4 (unat w)) ws)) = 4 * length ws" for ws :: "w32 list"
    by (induction ws) simp_all
  moreover have "length sha_H0 = 8" by (simp add: sha_H0_def)
  ultimately show ?thesis by (simp add: sha256_def Let_def length_foldl_sha_block)
qed

lemma length_FingerprintSHA256 [simp]: "length (FingerprintSHA256 parts) = 64"
proof -
  have "length (hex_EncodeToString bs) = 2 * length bs" for bs
    by (induction bs) (simp_all add: hex_EncodeToString_def hex_byte_def Let_def)
  then show ?thesis by (simp add: FingerprintSHA256_def length_sha256)
qed

section \<open>Properties\<close>

text \<open>
  The framing of a fingerprint loses nothing: for parts below 2^64 bytes, two part lists have the same
  fingerprint exactly when they are equal, unless their framed encodings are themselves a SHA-256 collision. In
  particular moving a boundary between parts changes the encoding.
\<close>

theorem fingerprint_separates_parts:
  assumes "list_all (\<lambda>p. length p < 2 ^ 64) ps" and "list_all (\<lambda>p. length p < 2 ^ 64) qs"
  shows "FingerprintSHA256 ps = FingerprintSHA256 qs \<longleftrightarrow> ps = qs \<or> sha256_collision (frames ps) (frames qs)"
  using fingerprint_eqD [OF _ assms] by (auto simp: FingerprintSHA256_def sha256_collision_def)

theorem fingerprint_separates_parts_witness:
  "FingerprintSHA256 [''a'', ''bc''] = FingerprintSHA256 [''ab'', ''c''] \<longleftrightarrow>
     sha256_collision (frames [''a'', ''bc'']) (frames [''ab'', ''c''])"
  using fingerprint_separates_parts [of "[''a'', ''bc'']" "[''ab'', ''c'']"] by simp

end
