(* ===== verification/Lifetime_Machine.thy ===== *)
theory Lifetime_Machine
  imports Routery_Prelude "HOL-Library.Multiset"
begin

text \<open>
  \<open>lifetime.go\<close> under concurrency. \<open>World\<close> has the operations as sequential procedures; here one \<open>Lifetime\<close> is a
  step relation whose steps are the critical sections and the callback runs of any number of goroutines calling
  \<open>Close\<close> and \<open>OnClose\<close> at the same time. A hook is named by the \<open>OnClose\<close> call that brought it, so every call has
  its own name. \<open>lm_log\<close> records what ran, in order.
\<close>

section \<open>States and steps\<close>

text \<open>Where the one goroutine inside \<open>once.Do\<close> is.\<close>

datatype once_phase = Unused | Cleaning | Cleaned | RunningHooks | Spent

datatype life_event = CleanupStarted | CleanupEnded | is_hook: HookRan nat

record life_machine =
  lm_phase :: once_phase
  lm_closed :: bool
  lm_hooks :: "nat list"
  lm_batch :: "nat list"
  lm_late :: "nat list"
  lm_lost :: "nat list"
  lm_attached :: "nat list"
  lm_closeErr :: err
  lm_log :: "life_event list"

definition new_life :: life_machine where
  "new_life = \<lparr>lm_phase = Unused, lm_closed = False, lm_hooks = [], lm_batch = [], lm_late = [], lm_lost = [],
     lm_attached = [], lm_closeErr = None, lm_log = []\<rparr>"

text \<open>
  \<^item> \<open>attach_queued\<close> and \<open>attach_late\<close>: the critical section of \<open>OnClose\<close>, which queues the callback or, once the
    lifetime is closed, leaves it to the caller, who runs it (\<open>late_runs\<close>) after unlocking.
  \<^item> \<open>close_starts\<close>: the goroutine that wins \<open>once\<close>; the others block inside \<open>once.Do\<close> until the phase is \<open>Spent\<close>.
  \<^item> \<open>cleanup_returns\<close>, \<open>cleanup_panics\<close>: both reach the deferred function.
  \<^item> \<open>collect\<close>: the deferred function's critical section; \<open>hook_runs\<close>: its loop. A hook that panics takes the rest of
    the loop with it (\<open>hook_panics\<close>); \<open>once\<close> counts as done either way.
\<close>

inductive life_step :: "life_machine \<Rightarrow> life_machine \<Rightarrow> bool" where
  attach_queued: "\<not> lm_closed s \<Longrightarrow> f \<notin> set (lm_attached s) \<Longrightarrow>
    life_step s (s\<lparr>lm_hooks := lm_hooks s @ [f], lm_attached := lm_attached s @ [f]\<rparr>)"
| attach_late: "lm_closed s \<Longrightarrow> f \<notin> set (lm_attached s) \<Longrightarrow>
    life_step s (s\<lparr>lm_late := lm_late s @ [f], lm_attached := lm_attached s @ [f]\<rparr>)"
| late_runs: "f \<in> set (lm_late s) \<Longrightarrow>
    life_step s (s\<lparr>lm_late := remove1 f (lm_late s), lm_log := lm_log s @ [HookRan f]\<rparr>)"
| close_starts: "lm_phase s = Unused \<Longrightarrow>
    life_step s (s\<lparr>lm_phase := Cleaning, lm_log := lm_log s @ [CleanupStarted]\<rparr>)"
| cleanup_returns: "lm_phase s = Cleaning \<Longrightarrow>
    life_step s (s\<lparr>lm_phase := Cleaned, lm_closeErr := e, lm_log := lm_log s @ [CleanupEnded]\<rparr>)"
| cleanup_panics: "lm_phase s = Cleaning \<Longrightarrow>
    life_step s (s\<lparr>lm_phase := Cleaned, lm_log := lm_log s @ [CleanupEnded]\<rparr>)"
| collect: "lm_phase s = Cleaned \<Longrightarrow>
    life_step s (s\<lparr>lm_phase := RunningHooks, lm_closed := True, lm_batch := lm_hooks s, lm_hooks := []\<rparr>)"
| hook_runs: "lm_phase s = RunningHooks \<Longrightarrow> lm_batch s = f # fs \<Longrightarrow>
    life_step s (s\<lparr>lm_batch := fs, lm_log := lm_log s @ [HookRan f]\<rparr>)"
| hook_panics: "lm_phase s = RunningHooks \<Longrightarrow> lm_batch s = f # fs \<Longrightarrow>
    life_step s (s\<lparr>lm_phase := Spent, lm_batch := [], lm_lost := fs, lm_log := lm_log s @ [HookRan f]\<rparr>)"
| close_ends: "lm_phase s = RunningHooks \<Longrightarrow> lm_batch s = [] \<Longrightarrow>
    life_step s (s\<lparr>lm_phase := Spent\<rparr>)"

inductive_cases life_stepE: "life_step s t"

section \<open>The invariant\<close>

fun hooks_run :: "life_event list \<Rightarrow> nat list" where
  "hooks_run [] = []"
| "hooks_run (HookRan f # es) = f # hooks_run es"
| "hooks_run (_ # es) = hooks_run es"

lemma hooks_run_append [simp]: "hooks_run (es @ fs) = hooks_run es @ hooks_run fs"
  by (induction es rule: hooks_run.induct) auto

text \<open>The log a phase allows: cleanup once, and no hook before it has ended.\<close>

fun phase_log :: "once_phase \<Rightarrow> life_event list \<Rightarrow> bool" where
  "phase_log Unused es \<longleftrightarrow> es = []"
| "phase_log Cleaning es \<longleftrightarrow> es = [CleanupStarted]"
| "phase_log _ es \<longleftrightarrow> (\<exists>fs. es = CleanupStarted # CleanupEnded # fs \<and> list_all is_hook fs)"

definition life_inv :: "life_machine \<Rightarrow> bool" where
  "life_inv s \<longleftrightarrow> distinct (lm_attached s)
     \<and> mset (lm_attached s)
       = mset (hooks_run (lm_log s)) + mset (lm_batch s) + mset (lm_hooks s) + mset (lm_late s) + mset (lm_lost s)
     \<and> phase_log (lm_phase s) (lm_log s)
     \<and> (lm_closed s \<longleftrightarrow> lm_phase s = RunningHooks \<or> lm_phase s = Spent)
     \<and> (lm_closed s \<longrightarrow> lm_hooks s = [])
     \<and> (\<not> lm_closed s \<longrightarrow> lm_late s = [])
     \<and> (lm_phase s \<noteq> RunningHooks \<longrightarrow> lm_batch s = [])
     \<and> (lm_phase s \<noteq> Spent \<longrightarrow> lm_lost s = [])"

lemma phase_log_hook: "phase_log p es \<Longrightarrow> p = RunningHooks \<or> p = Spent \<Longrightarrow>
  q = RunningHooks \<or> q = Spent \<Longrightarrow> phase_log q (es @ [HookRan f])"
  by auto

lemma life_inv_step:
  assumes inv: "life_inv s" and step: "life_step s t"
  shows "life_inv t"
  using step
proof cases
  case (late_runs f)
  then have closed: "lm_closed s" using inv by (auto simp: life_inv_def)
  have "phase_log (lm_phase s) (lm_log s @ [HookRan f])"
    using inv closed by (intro phase_log_hook [where p = "lm_phase s"]) (auto simp: life_inv_def)
  then show ?thesis using inv late_runs closed
    by (auto simp: life_inv_def)
next
  case (hook_runs f fs)
  have "phase_log RunningHooks (lm_log s @ [HookRan f])"
    using inv hook_runs by (intro phase_log_hook [where p = RunningHooks]) (auto simp: life_inv_def)
  then show ?thesis using inv hook_runs by (simp add: life_inv_def)
next
  case (hook_panics f fs)
  have "phase_log Spent (lm_log s @ [HookRan f])"
    using inv hook_panics by (intro phase_log_hook [where p = RunningHooks]) (auto simp: life_inv_def)
  then show ?thesis using inv hook_panics by (simp add: life_inv_def)
qed (use inv in \<open>auto simp: life_inv_def\<close>)

lemma distinct_mset_le: "mset xs \<subseteq># mset ys \<Longrightarrow> distinct ys \<Longrightarrow> distinct xs \<and> set xs \<subseteq> set ys"
  by (metis distinct_count_atmost_1 le_antisym le_zero_eq mset_subset_eq_count mset_subset_eqD set_mset_mset subsetI
      count_eq_zero_iff less_one linorder_not_less nat_less_le)

lemma life_inv_new: "life_inv new_life"
  by (simp add: life_inv_def new_life_def)

interpretation life_system: invariant_system "\<lambda>s. s = new_life" life_step life_inv
  by unfold_locales (auto simp: life_inv_new intro: life_inv_step)

lemma phase_log_hooks_last:
  assumes "phase_log p es" "es = xs @ [HookRan f] @ ys"
  shows "\<exists>zs. xs = CleanupStarted # CleanupEnded # zs"
proof -
  from assms have "\<exists>fs. xs @ [HookRan f] @ ys = CleanupStarted # CleanupEnded # fs"
    by (cases p) (auto simp: append_eq_Cons_conv)
  then show ?thesis by (auto simp: append_eq_Cons_conv)
qed

lemma hooks_have_no_cleanup: "list_all is_hook fs \<Longrightarrow> count_list fs CleanupStarted = 0"
  by (induction fs) auto

lemma phase_log_counts: "phase_log p es \<Longrightarrow> count_list es CleanupStarted \<le> 1"
  by (cases p) (auto simp: hooks_have_no_cleanup)

section \<open>Properties\<close>

text \<open>
  C34: in every interleaving of \<open>Close\<close> and \<open>OnClose\<close> calls on one lifetime, the cleanup function is started at most
  once, no callback runs before cleanup has ended, no callback runs twice and only attached ones run; and once
  \<open>Close\<close> has finished with no late caller pending and no callback panicking, every attached callback has run
  exactly once.
\<close>

theorem lifetime_releases_exactly_once:
  assumes run: "reaches life_step new_life s"
  shows "count_list (lm_log s) CleanupStarted \<le> 1
    \<and> (\<forall>xs f ys. lm_log s = xs @ [HookRan f] @ ys \<longrightarrow> CleanupEnded \<in> set xs)
    \<and> distinct (hooks_run (lm_log s)) \<and> set (hooks_run (lm_log s)) \<subseteq> set (lm_attached s)
    \<and> (lm_phase s = Spent \<and> lm_late s = [] \<and> lm_lost s = [] \<longrightarrow>
         mset (hooks_run (lm_log s)) = mset (lm_attached s))"
proof (intro conjI allI impI)
  have inv: "life_inv s" using life_system.reachable_inv run by blast
  then have log: "phase_log (lm_phase s) (lm_log s)" by (simp add: life_inv_def)
  show "count_list (lm_log s) CleanupStarted \<le> 1" using phase_log_counts [OF log] by simp
  show "CleanupEnded \<in> set xs" if "lm_log s = xs @ [HookRan f] @ ys" for xs f ys
    using phase_log_hooks_last [OF log that] by auto
  have "mset (hooks_run (lm_log s)) \<subseteq># mset (lm_attached s)" "distinct (lm_attached s)"
    using inv by (simp_all add: life_inv_def)
  from distinct_mset_le [OF this]
  show "distinct (hooks_run (lm_log s))" "set (hooks_run (lm_log s)) \<subseteq> set (lm_attached s)" by simp_all
  show "mset (hooks_run (lm_log s)) = mset (lm_attached s)"
    if "lm_phase s = Spent \<and> lm_late s = [] \<and> lm_lost s = []"
    using inv that by (simp add: life_inv_def)
qed

text \<open>A run in which one callback is queued before \<open>Close\<close> and another comes after it.\<close>

definition example_life :: life_machine where
  "example_life = \<lparr>lm_phase = Spent, lm_closed = True, lm_hooks = [], lm_batch = [], lm_late = [], lm_lost = [],
     lm_attached = [0, 1], lm_closeErr = None, lm_log = [CleanupStarted, CleanupEnded, HookRan 0, HookRan 1]\<rparr>"

lemma example_life_run: "reaches life_step new_life example_life"
proof -
  let ?s = "\<lambda>p c hs b l ats lg. \<lparr>lm_phase = p, lm_closed = c, lm_hooks = hs, lm_batch = b, lm_late = l, lm_lost = [],
     lm_attached = ats, lm_closeErr = None, lm_log = lg\<rparr>"
  have "life_step new_life (?s Unused False [0] [] [] [0] [])"
    using attach_queued [of new_life 0] by (simp add: new_life_def)
  moreover have "life_step (?s Unused False [0] [] [] [0] []) (?s Cleaning False [0] [] [] [0] [CleanupStarted])"
    using close_starts [of "?s Unused False [0] [] [] [0] []"] by simp
  moreover have "life_step (?s Cleaning False [0] [] [] [0] [CleanupStarted])
      (?s Cleaned False [0] [] [] [0] [CleanupStarted, CleanupEnded])"
    using cleanup_returns [of "?s Cleaning False [0] [] [] [0] [CleanupStarted]" None] by simp
  moreover have "life_step (?s Cleaned False [0] [] [] [0] [CleanupStarted, CleanupEnded])
      (?s RunningHooks True [] [0] [] [0] [CleanupStarted, CleanupEnded])"
    using collect [of "?s Cleaned False [0] [] [] [0] [CleanupStarted, CleanupEnded]"] by simp
  moreover have "life_step (?s RunningHooks True [] [0] [] [0] [CleanupStarted, CleanupEnded])
      (?s RunningHooks True [] [] [] [0] [CleanupStarted, CleanupEnded, HookRan 0])"
    using hook_runs [of "?s RunningHooks True [] [0] [] [0] [CleanupStarted, CleanupEnded]" 0 "[]"] by simp
  moreover have "life_step (?s RunningHooks True [] [] [] [0] [CleanupStarted, CleanupEnded, HookRan 0])
      (?s Spent True [] [] [] [0] [CleanupStarted, CleanupEnded, HookRan 0])"
    using close_ends [of "?s RunningHooks True [] [] [] [0] [CleanupStarted, CleanupEnded, HookRan 0]"] by simp
  moreover have "life_step (?s Spent True [] [] [] [0] [CleanupStarted, CleanupEnded, HookRan 0])
      (?s Spent True [] [] [1] [0, 1] [CleanupStarted, CleanupEnded, HookRan 0])"
    using attach_late [of "?s Spent True [] [] [] [0] [CleanupStarted, CleanupEnded, HookRan 0]" 1] by simp
  moreover have "life_step (?s Spent True [] [] [1] [0, 1] [CleanupStarted, CleanupEnded, HookRan 0]) example_life"
    using late_runs [of 1 "?s Spent True [] [] [1] [0, 1] [CleanupStarted, CleanupEnded, HookRan 0]"]
    by (simp add: example_life_def)
  ultimately show ?thesis by (meson reaches.intros)
qed

theorem lifetime_releases_exactly_once_witness:
  "reaches life_step new_life example_life \<and> mset (hooks_run (lm_log example_life)) = mset [0, 1]"
  using lifetime_releases_exactly_once [OF example_life_run] example_life_run
  by (simp add: example_life_def)

end
