(* ===== verification/World.thy ===== *)
theory World
  imports Outcome
begin

text \<open>
  The state the root package's code runs in, and the two mechanisms every handler touches: contexts and lifetimes
  (\<open>lifetime.go\<close>, \<open>discard.go\<close>).

  \<^item> Every \<open>ctx.Err()\<close> is an observation: it advances \<open>w_step\<close>, the number of observations made so far, and sees the
    context done iff its cancellation moment has come. The moments are part of the world (\<open>w_cancel\<close>, one cell per
    context; \<open>None\<close> for never), so cancellation may strike between any two observations; for a context that is not
    allocated yet the cell says when its timer will fire. \<open>w_clock\<close> gives the wall clock and \<open>w_rand\<close> the scheduler's
    and the random generator's choices at each step.
  \<^item> Shared objects behind Go pointers live in heaps indexed by addresses from one counter \<open>w_fresh\<close>: lifetimes,
    decision caches of route calls, round-robin counters, circuit breakers, bulkhead semaphores.
  \<^item> A Go closure stored in an object is a \<open>closure\<close>: the library's own ones by name, the host's as a value
    of type \<open>'h\<close>, run by the parameter \<open>hostfn\<close> of the definitions that may call it. Host callbacks may do anything
    to the world; what they must not do (close a lifetime recursively) is said in \<open>lifetime.go\<close>.
  \<^item> The type is an extensible record: later packages add their own shared state.
\<close>

section \<open>Contexts\<close>

text \<open>A context: its cell, its own deadline if it has one, and its parent.\<close>

datatype ctx = Background | Ctx nat "int option" ctx

section \<open>The world\<close>

datatype 'h closure = CancelFn ctx | ReleasePermit nat | HostFn 'h

record 'h lifetime =
  lt_done :: bool
  lt_closed :: bool
  lt_cleanup :: "'h closure option"
  lt_hooks :: "'h closure list"
  lt_closeErr :: err

record route_decision =
  rd_Key :: gval
  rd_Matched :: bool
  rd_Confidence :: float64
  rd_Reason :: gval

record decision_result =
  dr_Matched :: bool
  dr_Action :: gval
  dr_Reason :: gval
  dr_Terminal :: bool

text \<open>An entry of a call's decision cache: \<open>decisionCacheEntry\<close> or \<open>decisionTableCacheEntry\<close>.\<close>

datatype cached = CachedDecision route_decision err | CachedTable decision_result err

datatype cb_state = cbClosed | cbOpen | cbHalfOpen

record breaker =
  cb_failures :: int
  cb_state :: cb_state
  cb_openedAt :: int
  cb_probeInFlight :: bool
  cb_generation :: "64 word"

record semaphore =
  sm_limit :: nat
  sm_used :: nat

record 'h world =
  w_step :: nat
  w_clock :: "nat \<Rightarrow> int"
  w_rand :: "nat \<Rightarrow> nat"
  w_cancel :: "nat \<Rightarrow> (nat \<times> gerror) option"
  w_fresh :: nat
  w_lifes :: "nat \<Rightarrow> 'h lifetime"
  w_decisions :: "nat \<Rightarrow> (nat \<times> cached) list"
  w_counters :: "nat \<Rightarrow> 64 word"
  w_breakers :: "nat \<Rightarrow> breaker"
  w_semas :: "nat \<Rightarrow> semaphore"

text \<open>A world in which nothing has happened and nothing is ever cancelled, for evaluating examples.\<close>

definition fresh_life :: "'h lifetime" where
  "fresh_life = \<lparr>lt_done = False, lt_closed = False, lt_cleanup = None, lt_hooks = [], lt_closeErr = None\<rparr>"

definition idle_world :: "'h world" where
  "idle_world = \<lparr>w_step = 0, w_clock = (\<lambda>_. 0), w_rand = (\<lambda>_. 0), w_cancel = (\<lambda>_. None), w_fresh = 0,
     w_lifes = (\<lambda>_. fresh_life), w_decisions = (\<lambda>_. []), w_counters = (\<lambda>_. 0),
     w_breakers = (\<lambda>_. \<lparr>cb_failures = 0, cb_state = cbClosed, cb_openedAt = 0, cb_probeInFlight = False, cb_generation = 0\<rparr>),
     w_semas = (\<lambda>_. \<lparr>sm_limit = 0, sm_used = 0\<rparr>)\<rparr>"

definition time_Now :: "('h, 'x) world_scheme \<Rightarrow> int" where
  "time_Now w = w_clock w (w_step w)"

definition tick :: "('h, 'x) world_scheme \<Rightarrow> ('h, 'x) world_scheme" where
  "tick w = w\<lparr>w_step := Suc (w_step w)\<rparr>"

section \<open>Context operations\<close>

fun earlier :: "(nat \<times> gerror) option \<Rightarrow> (nat \<times> gerror) option \<Rightarrow> (nat \<times> gerror) option" where
  "earlier None b = b"
| "earlier a None = a"
| "earlier (Some (t, e)) (Some (u, f)) = (if t \<le> u then Some (t, e) else Some (u, f))"

fun done_at :: "('h, 'x) world_scheme \<Rightarrow> ctx \<Rightarrow> (nat \<times> gerror) option" where
  "done_at w Background = None"
| "done_at w (Ctx i dl parent) = earlier (w_cancel w i) (done_at w parent)"

definition ctx_err :: "('h, 'x) world_scheme \<Rightarrow> ctx \<Rightarrow> err" where
  "ctx_err w c = (case done_at w c of None \<Rightarrow> None | Some (t, e) \<Rightarrow> if t \<le> w_step w then Some e else None)"

text \<open>\<open>ctx.Err()\<close> as the code calls it.\<close>

definition ctx_Err :: "ctx \<Rightarrow> (('h, 'x) world_scheme, err) proc" where
  "ctx_Err c w = (Ret (ctx_err (tick w) c), tick w)"

fun ctx_Deadline :: "ctx \<Rightarrow> int option" where
  "ctx_Deadline Background = None"
| "ctx_Deadline (Ctx i dl parent) =
     (case (dl, ctx_Deadline parent) of
        (None, d) \<Rightarrow> d
      | (Some a, None) \<Rightarrow> Some a
      | (Some a, Some b) \<Rightarrow> Some (min a b))"

text \<open>A cancel function: it has an effect only while the context is not done.\<close>

fun cancel :: "ctx \<Rightarrow> ('h, 'x) world_scheme \<Rightarrow> ('h, 'x) world_scheme" where
  "cancel Background w = w"
| "cancel (Ctx i dl parent) w =
     (if ctx_err w (Ctx i dl parent) = None then w\<lparr>w_cancel := (w_cancel w)(i := Some (w_step w, ContextCanceled))\<rparr> else w)"

text \<open>\<open>context.WithCancel\<close> and \<open>context.WithTimeout\<close>: a fresh cell under the parent.\<close>

definition WithCancel :: "ctx \<Rightarrow> ('h, 'x) world_scheme \<Rightarrow> ctx \<times> ('h, 'x) world_scheme" where
  "WithCancel parent w =
     (Ctx (w_fresh w) None parent, w\<lparr>w_cancel := (w_cancel w)(w_fresh w := None), w_fresh := Suc (w_fresh w)\<rparr>)"

definition WithTimeout :: "ctx \<Rightarrow> int \<Rightarrow> ('h, 'x) world_scheme \<Rightarrow> ctx \<times> ('h, 'x) world_scheme" where
  "WithTimeout parent timeout w =
     (Ctx (w_fresh w) (Some (time_Now w + timeout)) parent,
      w\<lparr>w_cancel := (w_cancel w)(w_fresh w := map_option (\<lambda>(t, _). (t, DeadlineExceeded)) (w_cancel w (w_fresh w))),
        w_fresh := Suc (w_fresh w)\<rparr>)"

section \<open>Lifetimes, used sequentially\<close>

definition release_permit :: "nat \<Rightarrow> ('h, 'x) world_scheme \<Rightarrow> ('h, 'x) world_scheme" where
  "release_permit s w = w\<lparr>w_semas := (w_semas w)(s := (w_semas w s)\<lparr>sm_used := sm_used (w_semas w s) - 1\<rparr>)\<rparr>"

fun run_closure ::
  "('h \<Rightarrow> (('h, 'x) world_scheme, err) proc) \<Rightarrow> 'h closure \<Rightarrow> (('h, 'x) world_scheme, err) proc" where
  "run_closure hostfn (CancelFn c) w = (Ret None, cancel c w)"
| "run_closure hostfn (ReleasePermit s) w = (Ret None, release_permit s w)"
| "run_closure hostfn (HostFn h) w = hostfn h w"

fun run_hooks ::
  "('h \<Rightarrow> (('h, 'x) world_scheme, err) proc) \<Rightarrow> 'h closure list \<Rightarrow> (('h, 'x) world_scheme, unit) proc" where
  "run_hooks hostfn [] w = (Ret (), w)"
| "run_hooks hostfn (f # fs) w = seq (run_closure hostfn f) (\<lambda>_. run_hooks hostfn fs) w"

definition upd_life :: "nat \<Rightarrow> ('h lifetime \<Rightarrow> 'h lifetime) \<Rightarrow> ('h, 'x) world_scheme \<Rightarrow> ('h, 'x) world_scheme" where
  "upd_life l f w = w\<lparr>w_lifes := (w_lifes w)(l := f (w_lifes w l))\<rparr>"

definition NewLifetime :: "'h closure option \<Rightarrow> ('h, 'x) world_scheme \<Rightarrow> nat \<times> ('h, 'x) world_scheme" where
  "NewLifetime cleanup w =
     (w_fresh w, w\<lparr>w_lifes := (w_lifes w)(w_fresh w :=
          \<lparr>lt_done = False, lt_closed = False, lt_cleanup = cleanup, lt_hooks = [], lt_closeErr = None\<rparr>),
        w_fresh := Suc (w_fresh w)\<rparr>)"

definition OnClose ::
  "('h \<Rightarrow> (('h, 'x) world_scheme, err) proc) \<Rightarrow> nat option \<Rightarrow> 'h closure option \<Rightarrow> (('h, 'x) world_scheme, unit) proc" where
  "OnClose hostfn life fn w =
     (case (life, fn) of
        (Some l, Some f) \<Rightarrow>
          if \<not> lt_closed (w_lifes w l) then (Ret (), upd_life l (\<lambda>L. L\<lparr>lt_hooks := lt_hooks L @ [f]\<rparr>) w)
          else seq (run_closure hostfn f) (\<lambda>_. ret ()) w
      | _ \<Rightarrow> (Ret (), w))"

text \<open>The function \<open>Close\<close> hands to \<open>once.Do\<close>: cleanup first, then, also after a panic of it, the hooks.\<close>

definition close_body ::
  "('h \<Rightarrow> (('h, 'x) world_scheme, err) proc) \<Rightarrow> nat \<Rightarrow> (('h, 'x) world_scheme, unit) proc" where
  "close_body hostfn l w =
     (case (case lt_cleanup (w_lifes w l) of
              None \<Rightarrow> (Ret (), w)
            | Some c \<Rightarrow> seq (run_closure hostfn c) (\<lambda>e w. (Ret (), upd_life l (\<lambda>L. L\<lparr>lt_closeErr := e\<rparr>) w)) w) of
        (r, w1) \<Rightarrow>
          let hooks = lt_hooks (w_lifes w1 l);
              w2 = upd_life l (\<lambda>L. L\<lparr>lt_closed := True, lt_hooks := []\<rparr>) w1
          in (case run_hooks hostfn hooks w2 of (h, w3) \<Rightarrow> (if r = Panic then Panic else h, w3)))"

definition Close ::
  "('h \<Rightarrow> (('h, 'x) world_scheme, err) proc) \<Rightarrow> nat option \<Rightarrow> (('h, 'x) world_scheme, err) proc" where
  "Close hostfn life w =
     (case life of
        None \<Rightarrow> (Ret None, w)
      | Some l \<Rightarrow>
          if lt_done (w_lifes w l) then (Ret (lt_closeErr (w_lifes w l)), w)
          else seq (close_body hostfn l) (\<lambda>_ w. (Ret (lt_closeErr (w_lifes w l)), w))
                 (upd_life l (\<lambda>L. L\<lparr>lt_done := True\<rparr>) w))"

definition discardResult ::
  "('h \<Rightarrow> (('h, 'x) world_scheme, err) proc) \<Rightarrow> ('k, 'r, 'p) route_result \<Rightarrow> err \<Rightarrow>
   (('h, 'x) world_scheme, ('k, 'r, 'p) route_result \<times> err) proc" where
  "discardResult hostfn result cause =
     seq (Close hostfn (res_Lifetime result)) (\<lambda>e.
       case e of
         Some x \<Rightarrow> ret (result\<lparr>res_Action := ActionAbort\<rparr>, errors_Join [cause, Some x])
       | None \<Rightarrow> ret (result, None))"

section \<open>What never goes back\<close>

text \<open>
  The order every well-behaved step keeps: observations only add up, an allocated context that is done stays done with the
  same error, and a lifetime whose \<open>once\<close> is spent or that is closed stays so and keeps its cleanup function.
\<close>

definition life_le :: "'h lifetime \<Rightarrow> 'h lifetime \<Rightarrow> bool" where
  "life_le a b \<longleftrightarrow> (lt_done a \<longrightarrow> lt_done b) \<and> (lt_closed a \<longrightarrow> lt_closed b)"

definition world_le :: "('h, 'x) world_scheme \<Rightarrow> ('h, 'x) world_scheme \<Rightarrow> bool" where
  "world_le w v \<longleftrightarrow> w_step w \<le> w_step v \<and> w_fresh w \<le> w_fresh v \<and>
     (\<forall>i t e. i < w_fresh w \<longrightarrow> w_cancel w i = Some (t, e) \<longrightarrow> t \<le> w_step w \<longrightarrow> w_cancel v i = Some (t, e)) \<and>
     (\<forall>l. life_le (w_lifes w l) (w_lifes v l))"

interpretation world_frame: frame_relation world_le
proof
  show "world_le w w" for w :: "('h, 'x) world_scheme"
    by (simp add: world_le_def life_le_def)
next
  fix u v w :: "('h, 'x) world_scheme"
  assume uv: "world_le u v" and vw: "world_le v w"
  show "world_le u w"
    unfolding world_le_def
  proof (intro conjI allI impI)
    fix i t e assume "i < w_fresh u" "w_cancel u i = Some (t, e)" "t \<le> w_step u"
    then have "i < w_fresh v" "w_cancel v i = Some (t, e)" "t \<le> w_step v" using uv by (auto simp: world_le_def)
    then show "w_cancel w i = Some (t, e)" using vw by (auto simp: world_le_def)
  next
    show "life_le (w_lifes u l) (w_lifes w l)" for l
      using uv vw by (simp add: world_le_def life_le_def)
  qed (use uv vw in \<open>auto simp: world_le_def\<close>)
qed

lemmas world_le_refl [simp] = world_frame.frame_refl
lemmas world_le_trans [trans] = world_frame.frame_trans

lemma tick_simps [simp]: "w_lifes (tick w) = w_lifes w" "w_cancel (tick w) = w_cancel w" "w_fresh (tick w) = w_fresh w"
  "w_step (tick w) = Suc (w_step w)" "w_semas (tick w) = w_semas w" "w_decisions (tick w) = w_decisions w"
  "w_counters (tick w) = w_counters w" "w_breakers (tick w) = w_breakers w"
  by (simp_all add: tick_def)

lemma world_le_tick [simp]: "world_le w (tick w)"
  by (simp add: world_le_def life_le_def)

lemma ctx_Err_apply [simp]: "ctx_Err c w = (Ret (ctx_err (tick w) c), tick w)"
  by (simp add: ctx_Err_def)

lemma keeps_ctx_Err: "world_frame.keeps (ctx_Err c)"
  by (simp add: world_frame.keeps_def)

lemma world_le_upd_life:
  "(\<And>L. life_le L (f L)) \<Longrightarrow> world_le w (upd_life l f w)"
  by (simp add: world_le_def upd_life_def life_le_def)

lemma world_le_cancel: "world_le w (cancel c w)"
proof (cases c)
  case (Ctx i dl parent)
  show ?thesis
  proof (cases "ctx_err w c = None")
    case True
    have "w_cancel w i = Some (t, e) \<Longrightarrow> \<not> t \<le> w_step w" for t e
      using True Ctx by (cases "done_at w parent") (auto simp: ctx_err_def split: if_splits)
    then show ?thesis using Ctx True by (auto simp: world_le_def life_le_def)
  next
    case False
    with Ctx show ?thesis by auto
  qed
qed simp

lemma world_le_WithTimeout: "world_le w (snd (WithTimeout parent d w))"
  by (simp add: WithTimeout_def world_le_def life_le_def)

lemma world_le_WithCancel: "world_le w (snd (WithCancel parent w))"
  by (simp add: WithCancel_def world_le_def life_le_def)

lemma world_le_release_permit: "world_le w (release_permit s w)"
  by (simp add: world_le_def life_le_def release_permit_def)

text \<open>Host callbacks that keep the order; the library's own closures do.\<close>

definition lawful_host :: "('h \<Rightarrow> (('h, 'x) world_scheme, err) proc) \<Rightarrow> bool" where
  "lawful_host hostfn \<longleftrightarrow> (\<forall>h. world_frame.keeps (hostfn h))"

lemma keeps_run_closure: "lawful_host hostfn \<Longrightarrow> world_frame.keeps (run_closure hostfn f)"
  by (cases f) (auto simp: world_frame.keeps_def lawful_host_def world_le_cancel world_le_release_permit)

lemma keeps_run_hooks: "lawful_host hostfn \<Longrightarrow> world_frame.keeps (run_hooks hostfn fs)"
proof (induction fs)
  case Nil
  then show ?case by (simp add: world_frame.keeps_def)
next
  case (Cons f fs)
  then have "world_frame.keeps (seq (run_closure hostfn f) (\<lambda>_. run_hooks hostfn fs))"
    by (intro world_frame.keeps_seq keeps_run_closure)
  then show ?case by (simp add: world_frame.keeps_def)
qed

lemma keeps_OnClose: "lawful_host hostfn \<Longrightarrow> world_frame.keeps (OnClose hostfn life fn)"
proof (rule world_frame.keepsI)
  fix w :: "('a, 'b) world_scheme"
  assume host: "lawful_host hostfn"
  have hook: "world_le w (upd_life l (\<lambda>L. L\<lparr>lt_hooks := lt_hooks L @ [f]\<rparr>) w)" for l f
    by (rule world_le_upd_life) (simp add: life_le_def)
  have "world_frame.keeps (seq (run_closure hostfn f) (\<lambda>_. ret ()))" for f
    by (intro world_frame.keeps_seq keeps_run_closure [OF host] world_frame.keeps_ret)
  then have run: "world_le w (snd (seq (run_closure hostfn f) (\<lambda>_. ret ()) w))" for f
    by (simp add: world_frame.keeps_def)
  show "world_le w (snd (OnClose hostfn life fn w))"
    by (auto simp: OnClose_def hook run split: option.splits)
qed

lemma keeps_close_body:
  assumes host: "lawful_host hostfn"
  shows "world_frame.keeps (close_body hostfn l)"
proof (rule world_frame.keepsI)
  fix w :: "('a, 'b) world_scheme"
  define clean where "clean = (case lt_cleanup (w_lifes w l) of
     None \<Rightarrow> (Ret (), w)
   | Some c \<Rightarrow> seq (run_closure hostfn c) (\<lambda>e w. (Ret (), upd_life l (\<lambda>L. L\<lparr>lt_closeErr := e\<rparr>) w)) w)"
  obtain r w1 where c: "clean = (r, w1)" by fastforce
  have set_err: "world_frame.keeps (\<lambda>w :: ('a, 'b) world_scheme. (Ret (), upd_life l (\<lambda>L. L\<lparr>lt_closeErr := e\<rparr>) w))" for e
    by (rule world_frame.keepsI) (simp add: world_le_upd_life life_le_def)
  have "world_frame.keeps (seq (run_closure hostfn c) (\<lambda>e (w :: ('a, 'b) world_scheme).
           (Ret (), upd_life l (\<lambda>L. L\<lparr>lt_closeErr := e\<rparr>) w)))" for c
    by (intro world_frame.keeps_seq keeps_run_closure [OF host] set_err)
  then have 1: "world_le w w1"
    using c unfolding clean_def by (auto split: option.splits dest: world_frame.keepsD)
  define w2 where "w2 = upd_life l (\<lambda>L. L\<lparr>lt_closed := True, lt_hooks := []\<rparr>) w1"
  have 2: "world_le w1 w2" unfolding w2_def by (rule world_le_upd_life) (simp add: life_le_def)
  obtain h w3 where h: "run_hooks hostfn (lt_hooks (w_lifes w1 l)) w2 = (h, w3)" by fastforce
  have 3: "world_le w2 w3" using world_frame.keepsD [OF keeps_run_hooks [OF host] h] .
  have "snd (close_body hostfn l w) = w3"
    using c h unfolding close_body_def clean_def w2_def by (simp add: Let_def)
  then show "world_le w (snd (close_body hostfn l w))"
    using 1 2 3 world_le_trans by metis
qed

lemma keeps_Close:
  assumes host: "lawful_host hostfn"
  shows "world_frame.keeps (Close hostfn life)"
proof (rule world_frame.keepsI)
  fix w :: "('a, 'b) world_scheme"
  show "world_le w (snd (Close hostfn life w))"
  proof (cases life)
    case (Some l)
    let ?w = "upd_life l (\<lambda>L. L\<lparr>lt_done := True\<rparr>) w"
    have "world_frame.keeps (seq (close_body hostfn l) (\<lambda>_ w. (Ret (lt_closeErr (w_lifes w l)), w)))"
      by (rule world_frame.keeps_seq [OF keeps_close_body [OF host]]) (simp add: world_frame.keeps_def)
    then have "world_le ?w (snd (Close hostfn life w))" if "\<not> lt_done (w_lifes w l)"
      using that Some by (simp add: world_frame.keeps_def Close_def)
    moreover have "world_le w ?w" by (rule world_le_upd_life) (simp add: life_le_def)
    ultimately show ?thesis
      using Some world_le_trans by (cases "lt_done (w_lifes w l)") (auto simp: Close_def)
  qed (simp add: Close_def)
qed

lemma keeps_discardResult: "lawful_host hostfn \<Longrightarrow> world_frame.keeps (discardResult hostfn result cause)"
  unfolding discardResult_def
  by (intro world_frame.keeps_seq keeps_Close world_frame.keeps_option world_frame.keeps_ret)

lemma close_body_closes:
  assumes "lawful_host hostfn" "close_body hostfn l w = (r, w')"
  shows "lt_closed (w_lifes w' l)"
proof -
  define clean where "clean = (case lt_cleanup (w_lifes w l) of
     None \<Rightarrow> (Ret (), w)
   | Some c \<Rightarrow> seq (run_closure hostfn c) (\<lambda>e w. (Ret (), upd_life l (\<lambda>L. L\<lparr>lt_closeErr := e\<rparr>) w)) w)"
  obtain c w1 where c: "clean = (c, w1)" by fastforce
  define w2 where "w2 = upd_life l (\<lambda>L. L\<lparr>lt_closed := True, lt_hooks := []\<rparr>) w1"
  obtain h w3 where h: "run_hooks hostfn (lt_hooks (w_lifes w1 l)) w2 = (h, w3)" by fastforce
  have "w' = w3"
    using assms(2) c h unfolding close_body_def clean_def w2_def by (simp add: Let_def)
  moreover have "world_le w2 w3" using world_frame.keepsD [OF keeps_run_hooks [OF assms(1)] h] .
  moreover have "lt_closed (w_lifes w2 l)" by (simp add: w2_def upd_life_def)
  ultimately show ?thesis by (simp add: world_le_def life_le_def)
qed

lemma Close_closes:
  assumes host: "lawful_host hostfn" and c: "Close hostfn (Some l) w = (r, w')"
    and closed: "lt_done (w_lifes w l) \<Longrightarrow> lt_closed (w_lifes w l)"
  shows "lt_done (w_lifes w' l) \<and> lt_closed (w_lifes w' l)"
proof (cases "lt_done (w_lifes w l)")
  case True
  with c closed show ?thesis by (simp add: Close_def)
next
  case False
  let ?w = "upd_life l (\<lambda>L. L\<lparr>lt_done := True\<rparr>) w"
  obtain r1 where b: "close_body hostfn l ?w = (r1, w')"
    using c False by (cases "close_body hostfn l ?w") (auto simp: Close_def seq_def split: outcome.splits)
  have "world_le ?w w'" using world_frame.keepsD [OF keeps_close_body [OF host] b] .
  then have "lt_done (w_lifes w' l)" by (auto simp: world_le_def life_le_def upd_life_def)
  with close_body_closes [OF host b] show ?thesis by simp
qed

lemma Close_done:
  assumes "lawful_host hostfn" "Close hostfn (Some l) w = (r, w')"
  shows "lt_done (w_lifes w' l)"
proof (cases "lt_done (w_lifes w l)")
  case True
  with assms show ?thesis by (simp add: Close_def)
next
  case False
  then show ?thesis using Close_closes [OF assms] by simp
qed

text \<open>A second \<open>Close\<close> runs nothing and returns the recorded error again.\<close>

lemma Close_again: "lt_done (w_lifes w l) \<Longrightarrow> Close hostfn (Some l) w = (Ret (lt_closeErr (w_lifes w l)), w)"
  by (simp add: Close_def)

lemma Close_None [simp]: "Close hostfn None w = (Ret None, w)"
  by (simp add: Close_def)

text \<open>A result without a lifetime is discarded without any effect.\<close>

lemma discardResult_value: "res_Lifetime r = None \<Longrightarrow> discardResult hostfn r cause w = (Ret (r, None), w)"
  by (simp add: discardResult_def seq_def)

text \<open>When a result is discarded successfully nothing of it is left open.\<close>

lemma discardResult_ok:
  assumes "discardResult hostfn r cause w = (Ret (r', None), w')"
  shows "r' = r \<and> Close hostfn (res_Lifetime r) w = (Ret None, w')"
proof -
  obtain e w1 where c: "Close hostfn (res_Lifetime r) w = (Ret e, w1)"
    and k: "(case e of Some x \<Rightarrow> ret (r\<lparr>res_Action := ActionAbort\<rparr>, errors_Join [cause, Some x])
            | None \<Rightarrow> ret (r, None)) w1 = (Ret (r', None), w')"
    using assms unfolding discardResult_def seq_eq_Ret by blast
  then show ?thesis by (cases e) simp_all
qed

lemma discardResult_error:
  assumes "discardResult hostfn r cause w = (Ret (r', Some e), w')"
  shows "\<exists>x. r' = r\<lparr>res_Action := ActionAbort\<rparr> \<and> Close hostfn (res_Lifetime r) w = (Ret (Some x), w')
           \<and> Some e = errors_Join [cause, Some x]"
  using assms unfolding discardResult_def by (auto simp: seq_eq_Ret split: option.splits)

end
