(* ===== verification/Handlers.thy ===== *)
theory Handlers
  imports World Fingerprint
begin

text \<open>
  \<open>route_handler.go\<close>, \<open>invoke.go\<close> and \<open>chain.go\<close>: route calls, handlers, middleware application, the leaf adapters and
  \<open>Chain\<close>.

  A handler is a procedure on the world for each call; a nil function value is \<open>None\<close>. Handlers of the host may
  change the world in any way; \<open>lawful\<close> says of one that it only moves it forward along \<open>world_le\<close>, and the
  combinators are shown to keep that.
\<close>

section \<open>Calls and handlers\<close>

record 'req route_call =
  rc_Context :: ctx
  rc_Request :: 'req
  rc_Match :: route_match
  rc_state :: "nat option"

type_synonym ('h, 'x, 'req, 'k, 'r, 'p) handler =
  "'req route_call \<Rightarrow> (('h, 'x) world_scheme, ('k, 'r, 'p) route_result \<times> err) proc"

type_synonym ('h, 'x, 'req, 'k, 'r, 'p) middleware =
  "('h, 'x, 'req, 'k, 'r, 'p) handler option \<Rightarrow> ('h, 'x, 'req, 'k, 'r, 'p) handler option"

text \<open>\<open>NewRouteCall\<close> allocates the call's own decision cache.\<close>

definition NewRouteCall ::
  "ctx option \<Rightarrow> 'req \<Rightarrow> ('h, 'x) world_scheme \<Rightarrow> 'req route_call \<times> ('h, 'x) world_scheme" where
  "NewRouteCall ctx req w =
     (\<lparr>rc_Context = (case ctx of None \<Rightarrow> Background | Some c \<Rightarrow> c), rc_Request = req, rc_Match = zeroRouteMatch,
       rc_state = Some (w_fresh w)\<rparr>,
      w\<lparr>w_decisions := (w_decisions w)(w_fresh w := []), w_fresh := Suc (w_fresh w)\<rparr>)"

definition withMatch :: "'req route_call \<Rightarrow> route_match \<Rightarrow> 'req route_call" where
  "withMatch call match = call\<lparr>rc_Match := match\<rparr>"

definition withContext :: "'req route_call \<Rightarrow> ctx option \<Rightarrow> 'req route_call" where
  "withContext call ctx = call\<lparr>rc_Context := (case ctx of None \<Rightarrow> Background | Some c \<Rightarrow> c)\<rparr>"

definition WithContext :: "'req route_call \<Rightarrow> ctx option \<Rightarrow> 'req route_call" where
  "WithContext call ctx = withContext call ctx"

definition invalidRouteHandler :: "gerror \<Rightarrow> ('h, 'x, 'req, 'k :: zero, 'r :: zero, 'p :: zero) handler" where
  "invalidRouteHandler e call = ret (AbortResult, Some e)"

fun first_nil :: "nat \<Rightarrow> 'a option list \<Rightarrow> nat option" where
  "first_nil i [] = None"
| "first_nil i (None # hs) = Some i"
| "first_nil i (Some h # hs) = first_nil (Suc i) hs"

definition validateRouteHandlers :: "'a option list \<Rightarrow> string \<Rightarrow> gerror + 'a list" where
  "validateRouteHandlers handlers name =
     (if handlers = [] then Inl ErrNoHandlers
      else case first_nil 0 handlers of
        Some i \<Rightarrow> Inl (configError (name @ '' route handler at index '' @ Itoa (int i) @ '' is nil''))
      | None \<Rightarrow> Inr (map the handlers))"

text \<open>\<open>ApplyRoute\<close> walks the middlewares from the last to the first; \<open>apply_loop\<close> is its loop on the reversed list.\<close>

fun apply_loop ::
  "('h, 'x, 'req, 'k :: zero, 'r :: zero, 'p :: zero) handler \<Rightarrow> ('h, 'x, 'req, 'k, 'r, 'p) middleware option list \<Rightarrow>
   ('h, 'x, 'req, 'k, 'r, 'p) handler" where
  "apply_loop base [] = base"
| "apply_loop base (None # mws) = apply_loop base mws"
| "apply_loop base (Some mw # mws) =
     (case mw (Some base) of
        None \<Rightarrow> invalidRouteHandler (configError ''middleware returned nil route handler'')
      | Some h \<Rightarrow> apply_loop h mws)"

definition ApplyRoute ::
  "('h, 'x, 'req, 'k :: zero, 'r :: zero, 'p :: zero) handler option \<Rightarrow>
   ('h, 'x, 'req, 'k, 'r, 'p) middleware option list \<Rightarrow> ('h, 'x, 'req, 'k, 'r, 'p) handler" where
  "ApplyRoute base mws =
     (case base of
        None \<Rightarrow> invalidRouteHandler (configError ''base route handler is nil'')
      | Some b \<Rightarrow> apply_loop b (rev mws))"

definition FromFunc ::
  "(ctx \<Rightarrow> 'req \<Rightarrow> (('h, 'x) world_scheme, 'p \<times> err) proc) option \<Rightarrow>
   ('h, 'x, 'req, string, string, 'p :: zero) handler" where
  "FromFunc fn =
     (case fn of
        None \<Rightarrow> invalidRouteHandler (configError ''from func requires non-nil function'')
      | Some f \<Rightarrow> \<lambda>call. seq (f (rc_Context call) (rc_Request call)) (\<lambda>(payload, e).
          case e of Some x \<Rightarrow> ret (AbortResult, Some x) | None \<Rightarrow> ret (BasicHandled payload, None)))"

definition FromResultFunc ::
  "(ctx \<Rightarrow> 'req \<Rightarrow> (('h, 'x) world_scheme, ('k, 'r, 'p) route_result \<times> err) proc) option \<Rightarrow>
   ('h, 'x, 'req, 'k :: zero, 'r :: zero, 'p :: zero) handler" where
  "FromResultFunc fn =
     (case fn of
        None \<Rightarrow> invalidRouteHandler (configError ''from result func requires non-nil function'')
      | Some f \<Rightarrow> \<lambda>call. seq (f (rc_Context call) (rc_Request call)) (\<lambda>(result, e).
          case e of Some x \<Rightarrow> ret (result\<lparr>res_Action := ActionAbort\<rparr>, Some x) | None \<Rightarrow> ret (result, None)))"

definition InvokeRouteHandler ::
  "ctx option \<Rightarrow> 'req \<Rightarrow> ('h, 'x, 'req, 'k :: zero, 'r :: zero, 'p :: zero) handler option \<Rightarrow>
   (('h, 'x) world_scheme, ('k, 'r, 'p) route_result \<times> err) proc" where
  "InvokeRouteHandler ctx req handler w =
     (case handler of
        None \<Rightarrow> (Ret (AbortResult, Some (configError ''route handler is nil'')), w)
      | Some h \<Rightarrow>
          (case NewRouteCall ctx req w of (call, w1) \<Rightarrow>
             seq (ctx_Err (rc_Context call)) (\<lambda>e.
               case e of
                 Some x \<Rightarrow> ret (AbortResult, Some x)
               | None \<Rightarrow> seq (h call) (\<lambda>(result, e). ret (ValidateRouteResult result e))) w1))"

section \<open>Chain\<close>

fun chain_loop ::
  "('h \<Rightarrow> (('h, 'x) world_scheme, err) proc) \<Rightarrow> 'req route_call \<Rightarrow>
   ('h, 'x, 'req, 'k :: zero, 'r :: zero, 'p :: zero) handler list \<Rightarrow> ('k, 'r, 'p) route_result \<Rightarrow>
   (('h, 'x) world_scheme, ('k, 'r, 'p) route_result \<times> err) proc" where
  "chain_loop hostfn call [] lastr =
     (if res_Action lastr = ActionNext then ret (lastr, None) else ret (Next 0, None))"
| "chain_loop hostfn call (h # hs) lastr =
     seq (ctx_Err (rc_Context call)) (\<lambda>ce.
       case ce of
         Some x \<Rightarrow> ret (AbortResult, Some x)
       | None \<Rightarrow> seq (h call) (\<lambda>(result, e).
           case e of
             Some x \<Rightarrow> ret (result\<lparr>res_Action := ActionAbort\<rparr>, Some x)
           | None \<Rightarrow>
               (case validateReturnedResult result of
                  (result, Some x) \<Rightarrow> ret (result, Some x)
                | (result, None) \<Rightarrow>
                    if res_Action result \<noteq> ActionNext then ret (result, None)
                    else seq (discardResult hostfn result None) (\<lambda>(closed, closeErr).
                      case closeErr of
                        Some x \<Rightarrow> ret (closed, Some x)
                      | None \<Rightarrow> chain_loop hostfn call hs result))))"

definition Chain ::
  "('h \<Rightarrow> (('h, 'x) world_scheme, err) proc) \<Rightarrow>
   ('h, 'x, 'req, 'k :: zero, 'r :: zero, 'p :: zero) handler option list \<Rightarrow> ('h, 'x, 'req, 'k, 'r, 'p) handler" where
  "Chain hostfn handlers =
     (case validateRouteHandlers handlers ''chain'' of
        Inl e \<Rightarrow> invalidRouteHandler e
      | Inr validated \<Rightarrow> \<lambda>call. chain_loop hostfn call validated zeroResult)"

section \<open>Validation of handler lists\<close>

lemma first_nil_eq_None: "first_nil i hs = None \<longleftrightarrow> None \<notin> set hs"
  by (induction i hs rule: first_nil.induct) auto

lemma first_nil_eq_Some:
  "first_nil i hs = Some j \<Longrightarrow> i \<le> j \<and> j - i < length hs \<and> hs ! (j - i) = None \<and> None \<notin> set (take (j - i) hs)"
proof (induction i hs rule: first_nil.induct)
  case (3 i h hs)
  then have "Suc i \<le> j" "j - Suc i < length hs" "hs ! (j - Suc i) = None" "None \<notin> set (take (j - Suc i) hs)" by auto
  moreover then have "j - i = Suc (j - Suc i)" by simp
  ultimately show ?case by simp
qed auto

lemma validateRouteHandlers_Inr:
  "validateRouteHandlers hs name = Inr vs \<longleftrightarrow> hs \<noteq> [] \<and> hs = map Some vs"
proof
  assume v: "validateRouteHandlers hs name = Inr vs"
  then have n: "None \<notin> set hs" and "hs \<noteq> []" and vs: "vs = map the hs"
    by (auto simp: validateRouteHandlers_def first_nil_eq_None split: if_splits option.splits)
  moreover have "map Some (map the hs) = hs"
    using n by (intro nth_equalityI) (auto simp: in_set_conv_nth)
  ultimately show "hs \<noteq> [] \<and> hs = map Some vs" by simp
next
  assume "hs \<noteq> [] \<and> hs = map Some vs"
  moreover have "first_nil 0 (map Some vs) = None" by (auto simp: first_nil_eq_None)
  moreover have "map (the \<circ> Some) vs = vs" by (simp add: comp_def)
  ultimately show "validateRouteHandlers hs name = Inr vs"
    by (auto simp: validateRouteHandlers_def)
qed

section \<open>Handlers that only move the world forward\<close>

definition lawful :: "('h, 'x, 'req, 'k, 'r, 'p) handler \<Rightarrow> bool" where
  "lawful h \<longleftrightarrow> (\<forall>call. world_frame.keeps (h call))"

lemma lawfulD: "lawful h \<Longrightarrow> h call w = (r, w') \<Longrightarrow> world_le w w'"
  unfolding lawful_def by (blast dest: world_frame.keepsD)

lemma lawful_invalid [frame_intros]: "lawful (invalidRouteHandler e)"
  by (simp add: lawful_def invalidRouteHandler_def world_frame.keeps_ret)

lemmas world_keeps_intros = world_frame.keeps_seq world_frame.keeps_ret world_frame.keeps_if world_frame.keeps_option
  world_frame.keeps_prod keeps_ctx_Err keeps_Close keeps_OnClose keeps_discardResult

lemma world_le_NewRouteCall: "world_le w (snd (NewRouteCall ctx req w))"
  by (simp add: NewRouteCall_def world_le_def life_le_def)

lemma keeps_chain_loop:
  "lawful_host hostfn \<Longrightarrow> list_all lawful hs \<Longrightarrow> world_frame.keeps (chain_loop hostfn call hs lastr)"
proof (induction hs arbitrary: lastr)
  case Nil
  then show ?case by (simp add: world_frame.keeps_ret)
next
  case (Cons h hs)
  then have "lawful_host hostfn" "world_frame.keeps (h call)" "\<And>lastr. world_frame.keeps (chain_loop hostfn call hs lastr)"
    by (simp_all add: lawful_def)
  then show ?case
    unfolding chain_loop.simps by (intro world_keeps_intros)
qed

lemma lawful_Chain [frame_intros]:
  "lawful_host hostfn \<Longrightarrow> list_all (pred_option lawful) handlers \<Longrightarrow> lawful (Chain hostfn handlers)"
  by (auto simp: Chain_def lawful_def list_all_iff validateRouteHandlers_Inr intro!: keeps_chain_loop
      lawful_invalid [unfolded lawful_def, rule_format] split: sum.splits)

section \<open>What Chain does, step by step\<close>

text \<open>
  \<open>chain_passes\<close>: each handler of a list, called while the context was live, returned \<open>ActionNext\<close> without error and
  its result was closed without error. \<open>chain_ends\<close>: how the handler at which a chain returns ends it.
\<close>

inductive chain_passes ::
  "('h \<Rightarrow> (('h, 'x) world_scheme, err) proc) \<Rightarrow> 'req route_call \<Rightarrow> ('h, 'x, 'req, 'k, 'r, 'p) handler list \<Rightarrow>
   ('h, 'x) world_scheme \<Rightarrow> ('k, 'r, 'p) route_result list \<Rightarrow> ('h, 'x) world_scheme \<Rightarrow> bool"
  for hostfn call where
  passes_Nil: "chain_passes hostfn call [] w [] w"
| passes_Cons: "ctx_err (tick w) (rc_Context call) = None \<Longrightarrow> h call (tick w) = (Ret (r, None), w1) \<Longrightarrow>
    res_Action r = ActionNext \<Longrightarrow> Close hostfn (res_Lifetime r) w1 = (Ret None, w2) \<Longrightarrow>
    chain_passes hostfn call hs w2 rs w3 \<Longrightarrow> chain_passes hostfn call (h # hs) w (r # rs) w3"

inductive chain_ends ::
  "('h \<Rightarrow> (('h, 'x) world_scheme, err) proc) \<Rightarrow> 'req route_call \<Rightarrow>
   ('h, 'x, 'req, 'k :: zero, 'r :: zero, 'p :: zero) handler \<Rightarrow>
   ('h, 'x) world_scheme \<Rightarrow> ('k, 'r, 'p) route_result \<times> err \<Rightarrow> ('h, 'x) world_scheme \<Rightarrow> bool"
  for hostfn call where
  ends_cancelled: "ctx_err (tick w) (rc_Context call) = Some x \<Longrightarrow>
    chain_ends hostfn call h w (AbortResult, Some x) (tick w)"
| ends_failed: "ctx_err (tick w) (rc_Context call) = None \<Longrightarrow> h call (tick w) = (Ret (r, Some x), w1) \<Longrightarrow>
    chain_ends hostfn call h w (r\<lparr>res_Action := ActionAbort\<rparr>, Some x) w1"
| ends_stopped: "ctx_err (tick w) (rc_Context call) = None \<Longrightarrow> h call (tick w) = (Ret (r, None), w1) \<Longrightarrow>
    res_Action r \<noteq> ActionNext \<Longrightarrow> chain_ends hostfn call h w (validateReturnedResult r) w1"
| ends_unclosed: "ctx_err (tick w) (rc_Context call) = None \<Longrightarrow> h call (tick w) = (Ret (r, None), w1) \<Longrightarrow>
    res_Action r = ActionNext \<Longrightarrow> Close hostfn (res_Lifetime r) w1 = (Ret (Some x), w2) \<Longrightarrow>
    chain_ends hostfn call h w (r\<lparr>res_Action := ActionAbort\<rparr>, Some (Joined [x])) w2"

inductive_cases chain_passes_ConsE: "chain_passes hostfn call (h # hs) w rs w'"
inductive_cases chain_passes_NilE [elim!]: "chain_passes hostfn call [] w rs w'"

lemma chain_passes_length: "chain_passes hostfn call hs w rs w' \<Longrightarrow> length rs = length hs"
  by (induction rule: chain_passes.induct) auto

lemma chain_passes_next: "chain_passes hostfn call hs w rs w' \<Longrightarrow> r \<in> set rs \<Longrightarrow> res_Action r = ActionNext"
  by (induction rule: chain_passes.induct) auto

text \<open>One turn of the loop.\<close>

lemma chain_turn:
  assumes "chain_loop hostfn call (h # hs) lastr w = (Ret out, w')"
  shows "chain_ends hostfn call h w out w' \<or>
    (\<exists>r w2. chain_passes hostfn call [h] w [r] w2 \<and> chain_loop hostfn call hs r w2 = (Ret out, w'))"
proof (cases "ctx_err (tick w) (rc_Context call)")
  case (Some x)
  then show ?thesis using assms by (auto intro: ends_cancelled simp: seq_def)
next
  case None
  let ?k = "\<lambda>(result, e). case e of
             Some x \<Rightarrow> ret (result\<lparr>res_Action := ActionAbort\<rparr>, Some x)
           | None \<Rightarrow>
               (case validateReturnedResult result of
                  (result, Some x) \<Rightarrow> ret (result, Some x)
                | (result, None) \<Rightarrow>
                    if res_Action result \<noteq> ActionNext then ret (result, None)
                    else seq (discardResult hostfn result None) (\<lambda>(closed, closeErr).
                      case closeErr of
                        Some x \<Rightarrow> ret (closed, Some x)
                      | None \<Rightarrow> chain_loop hostfn call hs result))"
  have "seq (h call) ?k (tick w) = (Ret out, w')" using assms None by (simp add: seq_def)
  then obtain r e w1 where h: "h call (tick w) = (Ret (r, e), w1)" and k: "?k (r, e) w1 = (Ret out, w')"
    unfolding seq_eq_Ret by fast
  show ?thesis
  proof (cases e)
    case (Some x)
    with k have "out = (r\<lparr>res_Action := ActionAbort\<rparr>, Some x)" "w' = w1" by simp_all
    then show ?thesis using ends_failed [OF None] h Some by blast
  next
    case e: None
    show ?thesis
    proof (cases "res_Action r = ActionNext")
      case False
      with k e have "out = validateReturnedResult r" "w' = w1"
        by (auto simp: validateReturnedResult_def split: route_action.splits)
      then show ?thesis using ends_stopped [OF None] h e False by blast
    next
      case True
      let ?d = "\<lambda>(closed, closeErr). case closeErr of Some x \<Rightarrow> ret (closed, Some x)
                 | None \<Rightarrow> chain_loop hostfn call hs r"
      have "seq (discardResult hostfn r None) ?d w1 = (Ret out, w')"
        using k e True by (simp add: validateReturnedResult_def)
      then obtain c ce w2 where d: "discardResult hostfn r None w1 = (Ret (c, ce), w2)"
        and k2: "?d (c, ce) w2 = (Ret out, w')"
        unfolding seq_eq_Ret by fast
      show ?thesis
      proof (cases ce)
        case (Some x)
        with d obtain y where "c = r\<lparr>res_Action := ActionAbort\<rparr>" "x = Joined [y]"
          "Close hostfn (res_Lifetime r) w1 = (Ret (Some y), w2)"
          using discardResult_error by (force simp: errors_Join_def)
        with k2 Some show ?thesis using ends_unclosed [OF None] h e True by auto
      next
        case None': None
        with d have "Close hostfn (res_Lifetime r) w1 = (Ret None, w2)" using discardResult_ok by blast
        then have "chain_passes hostfn call [h] w [r] w2"
          using None h e True by (blast intro: chain_passes.intros)
        with k2 None' show ?thesis by auto
      qed
    qed
  qed
qed

lemma chain_turn_ends: "chain_ends hostfn call h w out w' \<Longrightarrow> chain_loop hostfn call (h # hs) lastr w = (Ret out, w')"
  by (erule chain_ends.cases)
    (auto simp: seq_def discardResult_def errors_Join_def validateReturnedResult_def split: route_action.splits)

lemma chain_turn_passes:
  "chain_passes hostfn call [h] w [r] w2 \<Longrightarrow> chain_loop hostfn call (h # hs) lastr w = chain_loop hostfn call hs r w2"
  by (erule chain_passes_ConsE) (auto simp: seq_def discardResult_def validateReturnedResult_def)

lemma chain_passes_step:
  "chain_passes hostfn call [h] w [r] w2 \<Longrightarrow> chain_passes hostfn call hs w2 rs w3 \<Longrightarrow>
   chain_passes hostfn call (h # hs) w (r # rs) w3"
  by (erule chain_passes_ConsE) (auto intro: chain_passes.intros)

lemma chain_passes_unstep:
  "chain_passes hostfn call (h # hs) w rs w3 \<Longrightarrow>
   \<exists>r w2 rs'. rs = r # rs' \<and> chain_passes hostfn call [h] w [r] w2 \<and> chain_passes hostfn call hs w2 rs' w3"
  by (erule chain_passes_ConsE) (blast intro: chain_passes.intros)

definition chain_result ::
  "('h \<Rightarrow> (('h, 'x) world_scheme, err) proc) \<Rightarrow> 'req route_call \<Rightarrow>
   ('h, 'x, 'req, 'k :: zero, 'r :: zero, 'p :: zero) handler list \<Rightarrow> ('k, 'r, 'p) route_result \<Rightarrow>
   ('h, 'x) world_scheme \<Rightarrow> ('k, 'r, 'p) route_result \<times> err \<Rightarrow> ('h, 'x) world_scheme \<Rightarrow> bool" where
  "chain_result hostfn call hs lastr w out w' \<longleftrightarrow>
     (\<exists>rs. chain_passes hostfn call hs w rs w' \<and> out = (last (lastr # rs), None)) \<or>
     (\<exists>pre h post rs w1. hs = pre @ h # post \<and> chain_passes hostfn call pre w rs w1 \<and> chain_ends hostfn call h w1 out w')"

lemma chain_result_Cons:
  "chain_result hostfn call (h # hs) lastr w out w' \<longleftrightarrow> chain_ends hostfn call h w out w' \<or>
    (\<exists>r w2. chain_passes hostfn call [h] w [r] w2 \<and> chain_result hostfn call hs r w2 out w')" (is "?l \<longleftrightarrow> ?r")
proof
  assume ?l
  then consider rs where "chain_passes hostfn call (h # hs) w rs w'" "out = (last (lastr # rs), None)"
    | pre g post rs w1 where "h # hs = pre @ g # post" "chain_passes hostfn call pre w rs w1"
        "chain_ends hostfn call g w1 out w'"
    unfolding chain_result_def by blast
  then show ?r
  proof cases
    case 1
    then obtain r w2 rs' where "rs = r # rs'" "chain_passes hostfn call [h] w [r] w2"
      "chain_passes hostfn call hs w2 rs' w'" using chain_passes_unstep by metis
    then show ?thesis using 1(2) unfolding chain_result_def by auto
  next
    case 2
    show ?thesis
    proof (cases pre)
      case Nil
      then show ?thesis using 2 by auto
    next
      case (Cons a pre')
      with 2 obtain r w2 rs' where "chain_passes hostfn call [h] w [r] w2" "chain_passes hostfn call pre' w2 rs' w1"
        "hs = pre' @ g # post" using chain_passes_unstep by (metis append_Cons list.inject)
      then show ?thesis using 2(3) unfolding chain_result_def by blast
    qed
  qed
next
  assume ?r
  then show ?l
  proof (elim disjE exE conjE)
    assume "chain_ends hostfn call h w out w'"
    then show ?l unfolding chain_result_def by (metis append_Nil passes_Nil)
  next
    fix r w2 assume p: "chain_passes hostfn call [h] w [r] w2" and "chain_result hostfn call hs r w2 out w'"
    then consider rs where "chain_passes hostfn call hs w2 rs w'" "out = (last (r # rs), None)"
      | pre g post rs w1 where "hs = pre @ g # post" "chain_passes hostfn call pre w2 rs w1"
          "chain_ends hostfn call g w1 out w'"
      unfolding chain_result_def by blast
    then show ?l
    proof cases
      case 1
      then show ?thesis using chain_passes_step [OF p] unfolding chain_result_def by fastforce
    next
      case 2
      have "chain_passes hostfn call (h # pre) w (r # rs) w1" using chain_passes_step [OF p 2(2)] .
      moreover have "h # hs = (h # pre) @ g # post" using 2 by simp
      ultimately show ?thesis using 2(3) unfolding chain_result_def by blast
    qed
  qed
qed

lemma chain_loop_iff:
  "hs \<noteq> [] \<or> res_Action lastr = ActionNext \<Longrightarrow>
   chain_loop hostfn call hs lastr w = (Ret out, w') \<longleftrightarrow> chain_result hostfn call hs lastr w out w'"
proof (induction hs arbitrary: lastr w)
  case Nil
  then show ?case by (auto simp: chain_result_def intro: passes_Nil)
next
  case (Cons h hs)
  have rest: "chain_loop hostfn call hs r w2 = (Ret out, w') \<longleftrightarrow> chain_result hostfn call hs r w2 out w'"
    if "chain_passes hostfn call [h] w [r] w2" for r w2
    using Cons.IH chain_passes_next [OF that] by simp
  show ?case
    unfolding chain_result_Cons using chain_turn [of hostfn call h hs lastr w out w'] chain_turn_ends chain_turn_passes rest
    by metis
qed

lemma chain_ends_canonical: "chain_ends hostfn call h w out w' \<Longrightarrow> canonical out"
  by (erule chain_ends.cases) (simp_all add: AbortResult_def)

lemma chain_passes_world_le:
  "chain_passes hostfn call hs w rs w' \<Longrightarrow> lawful_host hostfn \<Longrightarrow> list_all lawful hs \<Longrightarrow> world_le w w'"
proof (induction rule: chain_passes.induct)
  case (passes_Cons w h r w1 w2 hs rs w3)
  have "world_le w (tick w)" by simp
  also have "world_le (tick w) w1" using passes_Cons lawfulD by fastforce
  also have "world_le w1 w2" using passes_Cons by (blast intro: world_frame.keepsD [OF keeps_Close])
  also have "world_le w2 w3" using passes_Cons by simp
  finally show ?case .
qed simp

lemma chain_passes_closed:
  "chain_passes hostfn call hs w rs w' \<Longrightarrow> lawful_host hostfn \<Longrightarrow> list_all lawful hs \<Longrightarrow>
   r \<in> set rs \<Longrightarrow> res_Lifetime r = Some l \<Longrightarrow> lt_done (w_lifes w' l)"
proof (induction rule: chain_passes.induct)
  case (passes_Cons w h r1 w1 w2 hs rs w3)
  show ?case
  proof (cases "r = r1")
    case True
    then have "lt_done (w_lifes w2 l)" using passes_Cons Close_done by metis
    moreover have "world_le w2 w3" using passes_Cons chain_passes_world_le by fastforce
    ultimately show ?thesis by (simp add: world_le_def life_le_def)
  next
    case False
    then show ?thesis using passes_Cons by simp
  qed
qed simp

lemma Chain_eq: "hs \<noteq> [] \<Longrightarrow> Chain hostfn (map Some hs) call = chain_loop hostfn call hs zeroResult"
proof -
  assume "hs \<noteq> []"
  then have "validateRouteHandlers (map Some hs) ''chain'' = Inr hs" by (simp add: validateRouteHandlers_Inr)
  then show ?thesis by (simp add: Chain_def)
qed

section \<open>Properties\<close>

text \<open>
  C35 (refinement). A chain of handlers returns an outcome exactly when either every handler passed and it is the last
  handler's \<open>ActionNext\<close> result, or the handlers before some position passed and the one there ended the chain, by
  cancellation, an error, a terminal or invalid result, or a failed cleanup; nothing after that position runs.
\<close>

theorem Chain_refines_first_terminal:
  assumes "hs \<noteq> []"
  shows "Chain hostfn (map Some hs) call w = (Ret out, w') \<longleftrightarrow>
     (\<exists>rs. chain_passes hostfn call hs w rs w' \<and> out = (last rs, None)) \<or>
     (\<exists>pre h post rs w1. hs = pre @ h # post \<and> chain_passes hostfn call pre w rs w1 \<and> chain_ends hostfn call h w1 out w')"
proof -
  have "last (zeroResult # rs) = last rs" if "chain_passes hostfn call hs w rs w'" for rs :: "('d, 'e, 'f) route_result list"
    using chain_passes_length [OF that] assms by (cases rs) auto
  then have "(\<exists>rs. chain_passes hostfn call hs w rs w' \<and> out = (last (zeroResult # rs), None)) \<longleftrightarrow>
     (\<exists>rs. chain_passes hostfn call hs w rs w' \<and> out = (last rs, None))"
    by metis
  then have "chain_result hostfn call hs zeroResult w out w' \<longleftrightarrow>
     (\<exists>rs. chain_passes hostfn call hs w rs w' \<and> out = (last rs, None)) \<or>
     (\<exists>pre h post rs w1. hs = pre @ h # post \<and> chain_passes hostfn call pre w rs w1 \<and> chain_ends hostfn call h w1 out w')"
    unfolding chain_result_def by simp
  then show ?thesis
    using assms chain_loop_iff [of hs zeroResult hostfn call w out w'] by (simp add: Chain_eq)
qed

text \<open>
  C36 (safety). Whatever a chain returns is canonical, and when its handlers and the host's cleanup callbacks only move
  the world forward, \<open>Close\<close> has been called on the lifetime of every result the chain passed over before it returned.
\<close>

theorem Chain_closes_what_it_discards:
  assumes "hs \<noteq> []" "lawful_host hostfn" "list_all lawful hs" "Chain hostfn (map Some hs) call w = (Ret out, w')"
  shows "canonical out \<and> (\<exists>pre post rs w1. hs = pre @ post \<and> chain_passes hostfn call pre w rs w1 \<and> world_le w1 w'
     \<and> (\<forall>r \<in> set rs. \<forall>l. res_Lifetime r = Some l \<longrightarrow> lt_done (w_lifes w' l))
     \<and> (if post = [] then out = (last rs, None) else chain_ends hostfn call (hd post) w1 out w'))"
proof -
  have keep: "world_frame.keeps (chain_loop hostfn call gs l)" if "list_all lawful gs" for gs l
    using that assms keeps_chain_loop by blast
  have "chain_result hostfn call hs zeroResult w out w'"
    using assms chain_loop_iff [of hs zeroResult hostfn call w out w'] by (simp add: Chain_eq)
  then consider rs where "chain_passes hostfn call hs w rs w'" "out = (last (zeroResult # rs), None)"
    | pre h post rs w1 where "hs = pre @ h # post" "chain_passes hostfn call pre w rs w1" "chain_ends hostfn call h w1 out w'"
    unfolding chain_result_def by blast
  then show ?thesis
  proof cases
    case 1
    then have "rs \<noteq> []" using chain_passes_length assms(1) by fastforce
    then have "out = (last rs, None)" "res_Action (last rs) = ActionNext"
      using 1 chain_passes_next [OF 1(1) last_in_set] by auto
    moreover have "\<forall>r \<in> set rs. \<forall>l. res_Lifetime r = Some l \<longrightarrow> lt_done (w_lifes w' l)"
      using chain_passes_closed [OF 1(1)] assms by blast
    moreover have "hs = hs @ []" by simp
    ultimately show ?thesis using 1(1) world_le_refl canonical_simps(1) by metis
  next
    case 2
    have "list_all lawful (h # post)" using 2(1) assms(3) by simp
    from world_frame.keepsD [OF keep [OF this] chain_turn_ends [OF 2(3)]] have "world_le w1 w'" .
    moreover have "lt_done (w_lifes w' l)" if "r \<in> set rs" "res_Lifetime r = Some l" for r l
      using chain_passes_closed [OF 2(2) _ _ that] assms(2,3) 2(1) calculation
      by (simp add: world_le_def life_le_def)
    moreover have "canonical out" using chain_ends_canonical [OF 2(3)] .
    moreover have "if h # post = [] then out = (last rs, None) else chain_ends hostfn call (hd (h # post)) w1 out w'"
      using 2(3) by simp
    ultimately show ?thesis using 2(1,2) by metis
  qed
qed

text \<open>
  A chain of two handlers: the first answers \<open>ActionNext\<close> and owns lifetime 0, the second handles the request.
\<close>

definition next_owning :: "nat \<Rightarrow> (nat, unit, nat, string, string, nat) handler" where
  "next_owning l call = ret ((Next ''pass'')\<lparr>res_Lifetime := Some l\<rparr>, None)"

definition answering :: "nat \<Rightarrow> (nat, unit, nat, string, string, nat) handler" where
  "answering p call = ret (Handled ''done'' ''ok'' p, None)"

definition no_host :: "nat \<Rightarrow> ((nat, unit) world_scheme, err) proc" where
  "no_host h w = (Ret None, w)"

definition example_call :: "nat route_call" where
  "example_call = \<lparr>rc_Context = Background, rc_Request = 7, rc_Match = zeroRouteMatch, rc_state = None\<rparr>"

definition example_world :: "nat world" where
  "example_world = idle_world\<lparr>w_lifes := (w_lifes idle_world)(0 := fresh_life\<lparr>lt_cleanup := Some (HostFn 0)\<rparr>),
     w_fresh := 1\<rparr>"

lemma example_lawful: "lawful_host no_host" "lawful (next_owning l)" "lawful (answering p)"
  by (simp_all add: lawful_host_def lawful_def next_owning_def answering_def no_host_def world_frame.keeps_def)

lemmas example_defs = next_owning_def answering_def no_host_def example_call_def example_world_def idle_world_def
  fresh_life_def

lemma example_chain:
  "fst (Chain no_host (map Some [next_owning 0, answering 5]) example_call example_world)
     = Ret (Handled ''done'' ''ok'' 5, None)"
  by (subst Chain_eq) (simp_all add: seq_def example_defs ctx_err_def discardResult_def Close_def close_body_def
      upd_life_def validateReturnedResult_def Next_def Handled_def)

theorem Chain_refines_first_terminal_witness:
  "\<exists>w'. (\<exists>rs. chain_passes no_host example_call [next_owning 0, answering 5] example_world rs w'
          \<and> (Handled ''done'' ''ok'' 5, None) = (last rs, None)) \<or>
     (\<exists>pre h post rs w1. [next_owning 0, answering 5] = pre @ h # post
          \<and> chain_passes no_host example_call pre example_world rs w1
          \<and> chain_ends no_host example_call h w1 (Handled ''done'' ''ok'' 5, None) w')"
proof -
  obtain w' where "Chain no_host (map Some [next_owning 0, answering 5]) example_call example_world
     = (Ret (Handled ''done'' ''ok'' 5, None), w')"
    using example_chain by (metis prod.collapse)
  then show ?thesis
    using Chain_refines_first_terminal [of "[next_owning 0, answering 5]" no_host example_call example_world
        "(Handled ''done'' ''ok'' 5, None)" w'] by (intro exI [of _ w']) simp
qed

theorem Chain_closes_what_it_discards_witness:
  "canonical (Handled ''done'' ''ok'' (5 :: nat), None) \<and>
   fst (Chain no_host (map Some [next_owning 0, answering 5]) example_call example_world)
     = Ret (Handled ''done'' ''ok'' 5, None)"
proof -
  obtain w' where c: "Chain no_host (map Some [next_owning 0, answering 5]) example_call example_world
     = (Ret (Handled ''done'' ''ok'' 5, None), w')"
    using example_chain by (metis prod.collapse)
  have "canonical (Handled ''done'' ''ok'' (5 :: nat), None)"
    using Chain_closes_what_it_discards [OF _ _ _ c] example_lawful by simp
  then show ?thesis using example_chain by simp
qed

end
