(* ===== verification/Loops.thy ===== *)
theory Loops
  imports Routery_Prelude
begin

text \<open>
  Go loops with early returns. One turn of a loop over a list either returns from the function (\<open>Inl\<close>) or goes on
  with new loop variables (\<open>Inr\<close>). The facts every component with such a loop uses are proved once: what a run of
  the loop consists of, and what a run keeps.
\<close>

fun early_loop ::
  "('a \<Rightarrow> 's \<Rightarrow> ('w, 'o + 's) proc) \<Rightarrow> ('s \<Rightarrow> ('w, 'o) proc) \<Rightarrow> 'a list \<Rightarrow> 's \<Rightarrow> ('w, 'o) proc" where
  "early_loop turn fin [] s = fin s"
| "early_loop turn fin (x # xs) s =
     seq (turn x s) (\<lambda>v. case v of Inl out \<Rightarrow> ret out | Inr s' \<Rightarrow> early_loop turn fin xs s')"

lemma upt_split:
  assumes "[0..<n] = pre @ k # post"
  shows "pre = [0..<k]" "post = [Suc k..<n]" "k < n"
proof -
  have len: "length pre < n" using arg_cong [OF assms, of length] by simp
  have "[0..<n] ! length pre = k" using assms by simp
  then have k: "k = length pre" using len by simp
  then show "k < n" using len by simp
  have "pre = take (length pre) [0..<n]" using assms by simp
  then show "pre = [0..<k]" using k len by simp
  have "post = drop (Suc (length pre)) [0..<n]" using assms by simp
  then show "post = [Suc k..<n]" using k by simp
qed

text \<open>Turns over a list that all went on.\<close>

inductive turns ::
  "('a \<Rightarrow> 's \<Rightarrow> ('w, 'o + 's) proc) \<Rightarrow> 'a list \<Rightarrow> 's \<Rightarrow> 'w \<Rightarrow> 's \<Rightarrow> 'w \<Rightarrow> bool"
  for turn where
  turns_Nil: "turns turn [] s w s w"
| turns_Cons: "turn x s w = (Ret (Inr s1), w1) \<Longrightarrow> turns turn xs s1 w1 s2 w2 \<Longrightarrow> turns turn (x # xs) s w s2 w2"

inductive_simps turns_Nil_simps [simp]: "turns turn [] s w s' w'"
inductive_simps turns_Cons_simps: "turns turn (x # xs) s w s' w'"

lemma turns_append: "turns turn xs s w s1 w1 \<Longrightarrow> turns turn ys s1 w1 s2 w2 \<Longrightarrow> turns turn (xs @ ys) s w s2 w2"
  by (induction rule: turns.induct) (auto intro: turns.intros)

lemma turns_invariant:
  assumes "turns turn xs s w s' w'" "P s w"
    and "\<And>x s w s1 w1. x \<in> set xs \<Longrightarrow> P s w \<Longrightarrow> turn x s w = (Ret (Inr s1), w1) \<Longrightarrow> P s1 w1"
  shows "P s' w'"
  using assms
proof (induction rule: turns.induct)
  case (turns_Cons x s w s1 w1 xs s2 w2)
  have "P s1 w1" using turns_Cons.prems(2) [OF _ turns_Cons.prems(1) turns_Cons.hyps(1)] by simp
  then show ?case using turns_Cons.IH turns_Cons.prems(2) by (metis list.set_intros(2))
qed

text \<open>
  A loop ends in \<open>out\<close> when all turns went on and the code after the loop gave it, or when some turn returned it
  after the turns before had gone on.
\<close>

lemma early_loop_iff:
  "early_loop turn fin xs s w = (Ret out, w') \<longleftrightarrow>
     (\<exists>s1 w1. turns turn xs s w s1 w1 \<and> fin s1 w1 = (Ret out, w')) \<or>
     (\<exists>pre x post s1 w1. xs = pre @ x # post \<and> turns turn pre s w s1 w1 \<and> turn x s1 w1 = (Ret (Inl out), w'))"
proof (induction xs arbitrary: s w)
  case (Cons x xs)
  obtain v w1 where t: "turn x s w = (v, w1)" by fastforce
  consider "v = Panic" | o1 where "v = Ret (Inl o1)" | s1 where "v = Ret (Inr s1)"
    by (metis outcome.exhaust sum.exhaust)
  then show ?case
  proof cases
    case 1
    then show ?thesis using t by (auto simp: turns_Cons_simps Cons_eq_append_conv)
  next
    case 2
    then show ?thesis using t by (fastforce simp: turns_Cons_simps Cons_eq_append_conv)
  next
    case 3
    have "(\<exists>pre y post s2 w2. x # xs = pre @ y # post \<and> turns turn pre s w s2 w2 \<and> turn y s2 w2 = (Ret (Inl out), w'))
      \<longleftrightarrow> (\<exists>pre y post s2 w2. xs = pre @ y # post \<and> turns turn pre s1 w1 s2 w2 \<and> turn y s2 w2 = (Ret (Inl out), w'))"
      (is "?l \<longleftrightarrow> ?r")
    proof
      assume ?l
      then show ?r using t 3 by (auto simp: Cons_eq_append_conv turns_Cons_simps) blast
    next
      assume ?r
      then obtain pre y post s2 w2 where "xs = pre @ y # post" "turns turn pre s1 w1 s2 w2"
        "turn y s2 w2 = (Ret (Inl out), w')" by blast
      moreover have "turn x s w = (Ret (Inr s1), w1)" using t 3 by simp
      ultimately show ?l by (metis append_Cons turns_Cons)
    qed
    then show ?thesis using Cons.IH [of s1 w1] t 3 by (auto simp: turns_Cons_simps)
  qed
qed auto

lemma early_loop_Ret:
  assumes "early_loop turn fin xs s w = (Ret out, w')"
  obtains (through) s1 w1 where "turns turn xs s w s1 w1" "fin s1 w1 = (Ret out, w')"
  | (early) pre x post s1 w1 where "xs = pre @ x # post" "turns turn pre s w s1 w1" "turn x s1 w1 = (Ret (Inl out), w')"
  using early_loop_iff [of turn fin xs s w out w'] assms by blast

context frame_relation
begin

lemma keeps_early_loop:
  assumes turn: "\<And>x s. x \<in> set xs \<Longrightarrow> keeps (turn x s)" and fin: "\<And>s. keeps (fin s)"
  shows "keeps (early_loop turn fin xs s)"
  using turn
proof (induction xs arbitrary: s)
  case Nil
  then show ?case by (simp add: fin)
next
  case (Cons x xs)
  have "keeps (case v of Inl out \<Rightarrow> ret out | Inr s' \<Rightarrow> early_loop turn fin xs s')" for v
    using Cons by (cases v) (auto intro: keeps_ret)
  then show ?case using Cons.prems by (auto intro!: keeps_seq)
qed

lemma keeps_sum: "(\<And>a. x = Inl a \<Longrightarrow> keeps (f a)) \<Longrightarrow> (\<And>b. x = Inr b \<Longrightarrow> keeps (g b)) \<Longrightarrow>
   keeps (case x of Inl a \<Rightarrow> f a | Inr b \<Rightarrow> g b)"
  by (cases x) auto

lemma turns_keeps: "turns turn xs s w s' w' \<Longrightarrow> (\<And>x s. x \<in> set xs \<Longrightarrow> keeps (turn x s)) \<Longrightarrow> R w w'"
proof (induction rule: turns.induct)
  case (turns_Cons x s w s1 w1 xs s2 w2)
  then have "R w w1" "R w1 w2" using keepsD by fastforce+
  then show ?case by (rule frame_trans)
qed (simp add: frame_refl)

end

section \<open>What a procedure's results satisfy\<close>

definition returns :: "('a \<Rightarrow> bool) \<Rightarrow> ('w, 'a) proc \<Rightarrow> bool" where
  "returns P m \<longleftrightarrow> (\<forall>w a w'. m w = (Ret a, w') \<longrightarrow> P a)"

lemma returnsD: "returns P m \<Longrightarrow> m w = (Ret a, w') \<Longrightarrow> P a"
  unfolding returns_def by blast

lemma returns_ret: "P a \<Longrightarrow> returns P (ret a)"
  by (simp add: returns_def)

lemma returns_panic: "returns P (\<lambda>w. (Panic, w))"
  by (simp add: returns_def)

lemma returns_seq: "returns Q m \<Longrightarrow> (\<And>a. Q a \<Longrightarrow> returns P (f a)) \<Longrightarrow> returns P (seq m f)"
  unfolding returns_def seq_eq_Ret by blast

lemma returns_any: "returns (\<lambda>_. True) m"
  by (simp add: returns_def)

lemma returns_seq_any: "(\<And>a. returns P (f a)) \<Longrightarrow> returns P (seq m f)"
  by (rule returns_seq [OF returns_any])

lemma returns_if: "(b \<Longrightarrow> returns P m) \<Longrightarrow> (\<not> b \<Longrightarrow> returns P n) \<Longrightarrow> returns P (if b then m else n)"
  by simp

lemma returns_option:
  "(x = None \<Longrightarrow> returns P m) \<Longrightarrow> (\<And>a. x = Some a \<Longrightarrow> returns P (f a)) \<Longrightarrow> returns P (case x of None \<Rightarrow> m | Some a \<Rightarrow> f a)"
  by (cases x) auto

lemma returns_prod: "(\<And>a b. x = (a, b) \<Longrightarrow> returns P (f a b)) \<Longrightarrow> returns P (case x of (a, b) \<Rightarrow> f a b)"
  by (cases x) auto

lemma returns_let: "returns P (f x) \<Longrightarrow> returns P (Let x f)"
  by simp

lemma returns_mono: "returns Q m \<Longrightarrow> (\<And>a. Q a \<Longrightarrow> P a) \<Longrightarrow> returns P m"
  by (auto simp: returns_def)

lemmas returns_intros = returns_ret returns_panic returns_if returns_option returns_prod returns_let

end
