(* ===== verification/Resilience.thy ===== *)
theory Resilience
  imports Handlers Loops
begin

text \<open>
  \<open>routers.go\<close> and the sequential half of \<open>smart.go\<close>: fallback, retry with growing backoff, round robin, timeout and
  weight-based routing.

  A \<open>time.Duration\<close> is an \<open>int\<close> of nanoseconds in the range of \<open>int64\<close>; \<open>int64\<close> reduces the results of the
  arithmetic that could leave it. A constructor that allocates shared state (the counter of \<open>RoundRobin\<close>) returns the
  handler and the new world. Waiting on a timer and a context at once ends by the context when it is done at the next
  step and the scheduler's choice falls on it.
\<close>

section \<open>Fallback\<close>

definition Fallback ::
  "('h \<Rightarrow> (('h, 'x) world_scheme, err) proc) \<Rightarrow> ('h, 'x, 'req, 'k :: zero, 'r :: zero, 'p :: zero) handler option \<Rightarrow>
   ('h, 'x, 'req, 'k, 'r, 'p) handler option \<Rightarrow> ('h, 'x, 'req, 'k, 'r, 'p) handler" where
  "Fallback hostfn primary secondary =
     (case (primary, secondary) of
        (Some p, Some s) \<Rightarrow> (\<lambda>call.
          seq (ctx_Err (rc_Context call)) (\<lambda>ce. case ce of
            Some x \<Rightarrow> ret (AbortResult, Some x)
          | None \<Rightarrow> seq (p call) (\<lambda>(result, e). case e of
              None \<Rightarrow> ret (result, None)
            | Some x \<Rightarrow> seq (ctx_Err (rc_Context call)) (\<lambda>ce. case ce of
                Some y \<Rightarrow> ret (result\<lparr>res_Action := ActionAbort\<rparr>, errors_Join [Some x, Some y])
              | None \<Rightarrow> seq (discardResult hostfn result (Some x)) (\<lambda>(closed, closeErr). case closeErr of
                  Some y \<Rightarrow> ret (closed, Some y)
                | None \<Rightarrow> seq (ctx_Err (rc_Context call)) (\<lambda>ce. case ce of
                    Some y \<Rightarrow> ret (result\<lparr>res_Action := ActionAbort\<rparr>, errors_Join [Some x, Some y])
                  | None \<Rightarrow> s call))))))
      | _ \<Rightarrow> invalidRouteHandler (configError ''fallback requires non-nil primary and secondary route handlers''))"

definition PredicateFallback ::
  "('h \<Rightarrow> (('h, 'x) world_scheme, err) proc) \<Rightarrow> ('h, 'x, 'req, 'k :: zero, 'r :: zero, 'p :: zero) handler option \<Rightarrow>
   ('h, 'x, 'req, 'k, 'r, 'p) handler option \<Rightarrow> (gerror \<Rightarrow> (('h, 'x) world_scheme, bool) proc) option \<Rightarrow>
   ('h, 'x, 'req, 'k, 'r, 'p) handler" where
  "PredicateFallback hostfn primary secondary shouldFallback =
     (case (primary, secondary) of
        (Some p, Some s) \<Rightarrow>
          (case shouldFallback of
             None \<Rightarrow> invalidRouteHandler (configError ''predicate fallback requires a non-nil predicate'')
           | Some should \<Rightarrow> (\<lambda>call.
               seq (ctx_Err (rc_Context call)) (\<lambda>ce. case ce of
                 Some x \<Rightarrow> ret (AbortResult, Some x)
               | None \<Rightarrow> seq (p call) (\<lambda>(result, e). case e of
                   None \<Rightarrow> ret (result, None)
                 | Some x \<Rightarrow> seq (should x) (\<lambda>yes. if \<not> yes then ret (result, Some x) else
                     seq (ctx_Err (rc_Context call)) (\<lambda>ce. case ce of
                       Some y \<Rightarrow> ret (result\<lparr>res_Action := ActionAbort\<rparr>, errors_Join [Some x, Some y])
                     | None \<Rightarrow> seq (discardResult hostfn result (Some x)) (\<lambda>(closed, closeErr). case closeErr of
                         Some y \<Rightarrow> ret (closed, Some y)
                       | None \<Rightarrow> seq (ctx_Err (rc_Context call)) (\<lambda>ce. case ce of
                           Some y \<Rightarrow> ret (result\<lparr>res_Action := ActionAbort\<rparr>, errors_Join [Some x, Some y])
                         | None \<Rightarrow> s call))))))))
      | _ \<Rightarrow> invalidRouteHandler
               (configError ''predicate fallback requires non-nil primary and secondary route handlers''))"

definition WeightBasedRouter ::
  "(ctx \<Rightarrow> 'req \<Rightarrow> (('h, 'x) world_scheme, int \<times> err) proc) option \<Rightarrow> int \<Rightarrow>
   ('h, 'x, 'req, 'k :: zero, 'r :: zero, 'p :: zero) handler option \<Rightarrow>
   ('h, 'x, 'req, 'k, 'r, 'p) handler option \<Rightarrow> ('h, 'x, 'req, 'k, 'r, 'p) handler" where
  "WeightBasedRouter extractor threshold lightweight heavyweight =
     (case extractor of
        None \<Rightarrow> invalidRouteHandler (configError ''weight router requires a non-nil extractor'')
      | Some ex \<Rightarrow>
          (case (lightweight, heavyweight) of
             (Some light, Some heavy) \<Rightarrow> (\<lambda>call.
               seq (ex (rc_Context call) (rc_Request call)) (\<lambda>(weight, e). case e of
                 Some x \<Rightarrow> ret (AbortResult, Some x)
               | None \<Rightarrow> if weight < threshold then light call else heavy call))
           | _ \<Rightarrow> invalidRouteHandler
                    (configError ''weight router requires non-nil lightweight and heavyweight route handlers'')))"

section \<open>Backoff\<close>

definition int64 :: "int \<Rightarrow> int" where
  "int64 x = sint (word_of_int x :: 64 word)"

definition MaxInt64 :: int where
  "MaxInt64 = 9223372036854775807"

definition safeDoubleBackoff :: "int \<Rightarrow> int" where
  "safeDoubleBackoff d =
     (if d \<le> 0 then 0
      else let maxHalf = MaxInt64 div 2 in
        if d > maxHalf then MaxInt64
        else let doubled = int64 (d * 2) in if doubled < d then MaxInt64 else doubled)"

text \<open>\<open>rand.Int64N(n)\<close> for positive \<open>n\<close>.\<close>

definition rand_Int64N :: "int \<Rightarrow> (('h, 'x) world_scheme, int) proc" where
  "rand_Int64N n w = (if n \<le> 0 then (Panic, w) else (Ret (int (w_rand w (w_step w)) mod n), tick w))"

definition growBackoff :: "int \<Rightarrow> (('h, 'x) world_scheme, int) proc" where
  "growBackoff current =
     (let doubled = safeDoubleBackoff current in
      if doubled \<le> 0 then ret doubled
      else let capHalf = doubled div 2 in
        if capHalf \<le> 0 then ret doubled
        else seq (rand_Int64N capHalf) (\<lambda>jitter. ret (int64 (capHalf + jitter))))"

definition sleepWithContext :: "ctx \<Rightarrow> int \<Rightarrow> (('h, 'x) world_scheme, err) proc" where
  "sleepWithContext ctx delay w =
     (if delay \<le> 0 then (Ret None, w)
      else if ctx_err (tick w) ctx \<noteq> None \<and> even (w_rand w (w_step w)) then ctx_Err ctx w
      else (Ret None, tick w))"

section \<open>Retry\<close>

type_synonym ('h, 'x, 'req) retry_predicate = "ctx \<Rightarrow> 'req \<Rightarrow> gerror \<Rightarrow> (('h, 'x) world_scheme, bool) proc"

text \<open>
  One turn of the loop of \<open>executeWithRetry\<close>: \<open>final\<close> is \<open>isFinalAttempt\<close>, the loop variables are \<open>wait\<close> and
  \<open>lastErr\<close>.
\<close>

definition retry_turn ::
  "('h \<Rightarrow> (('h, 'x) world_scheme, err) proc) \<Rightarrow> 'req route_call \<Rightarrow>
   ('h, 'x, 'req, 'k :: zero, 'r :: zero, 'p :: zero) handler \<Rightarrow> ('h, 'x, 'req) retry_predicate \<Rightarrow> bool \<Rightarrow> int \<times> err \<Rightarrow>
   (('h, 'x) world_scheme, (('k, 'r, 'p) route_result \<times> err) + int \<times> err) proc" where
  "retry_turn hostfn call next predicate final st =
     (case st of (wait, lastErr) \<Rightarrow>
      seq (ctx_Err (rc_Context call)) (\<lambda>ce. case ce of
        Some x \<Rightarrow> ret (Inl (AbortResult, Some x))
      | None \<Rightarrow> seq (next call) (\<lambda>(result, e). case e of
          None \<Rightarrow> ret (Inl (result, None))
        | Some x \<Rightarrow> seq (ctx_Err (rc_Context call)) (\<lambda>ce. case ce of
            Some y \<Rightarrow> ret (Inl (result, errors_Join [Some y, Some x]))
          | None \<Rightarrow> seq (if final then ret False else predicate (rc_Context call) (rc_Request call) x) (\<lambda>permitted.
              seq (ctx_Err (rc_Context call)) (\<lambda>ce. case ce of
                Some y \<Rightarrow> ret (Inl (result, errors_Join [Some y, Some x]))
              | None \<Rightarrow> if \<not> permitted then ret (Inl (result, Some x))
                  else seq (discardResult hostfn result (Some x)) (\<lambda>(closed, closeErr). case closeErr of
                    Some y \<Rightarrow> ret (Inl (closed, Some y))
                  | None \<Rightarrow> seq (ctx_Err (rc_Context call)) (\<lambda>ce. case ce of
                      Some y \<Rightarrow> ret (Inl (result\<lparr>res_Action := ActionAbort\<rparr>, errors_Join [Some x, Some y]))
                    | None \<Rightarrow> seq (sleepWithContext (rc_Context call) wait) (\<lambda>se. case se of
                        Some y \<Rightarrow> ret (Inl (result\<lparr>res_Action := ActionAbort\<rparr>, errors_Join [Some x, Some y]))
                      | None \<Rightarrow> seq (growBackoff wait) (\<lambda>wait'. ret (Inr (wait', Some x)))))))))))) "

definition executeWithRetry ::
  "('h \<Rightarrow> (('h, 'x) world_scheme, err) proc) \<Rightarrow> 'req route_call \<Rightarrow>
   ('h, 'x, 'req, 'k :: zero, 'r :: zero, 'p :: zero) handler \<Rightarrow> int \<Rightarrow> int \<Rightarrow> ('h, 'x, 'req) retry_predicate \<Rightarrow>
   (('h, 'x) world_scheme, ('k, 'r, 'p) route_result \<times> err) proc" where
  "executeWithRetry hostfn call next attempts backoff predicate =
     early_loop (\<lambda>attemptIndex. retry_turn hostfn call next predicate (int attemptIndex = attempts - 1))
       (\<lambda>(wait, lastErr). ret (AbortResult, lastErr)) [0..<nat attempts] (backoff, None)"

definition RetryIf ::
  "('h \<Rightarrow> (('h, 'x) world_scheme, err) proc) \<Rightarrow> int \<Rightarrow> int \<Rightarrow> ('h, 'x, 'req) retry_predicate option \<Rightarrow>
   ('h, 'x, 'req, 'k :: zero, 'r :: zero, 'p :: zero) middleware" where
  "RetryIf hostfn attempts backoff predicate next =
     (if attempts < 0 \<or> backoff < 0
      then Some (invalidRouteHandler (configError ''retry attempts and backoff must be non-negative''))
      else let normalizedAttempts = max attempts 1 in
        case predicate of
          None \<Rightarrow> Some (invalidRouteHandler (configError ''retry predicate is nil''))
        | Some pred \<Rightarrow>
            (case next of
               None \<Rightarrow> Some (invalidRouteHandler (configError ''retry middleware requires non-nil next route handler''))
             | Some h \<Rightarrow> Some (\<lambda>call. executeWithRetry hostfn call h normalizedAttempts backoff pred)))"

section \<open>Round robin\<close>

text \<open>The atomic step of \<open>route\<close>: \<open>(handler.next.Add(1) - 1) % handlerCount\<close>.\<close>

definition rr_next :: "nat \<Rightarrow> nat \<Rightarrow> ('h, 'x) world_scheme \<Rightarrow> nat \<times> ('h, 'x) world_scheme" where
  "rr_next counter handlerCount w =
     (let added = w_counters w counter + 1 in
      (unat ((added - 1) mod of_nat handlerCount), w\<lparr>w_counters := (w_counters w)(counter := added)\<rparr>))"

definition rr_route ::
  "nat \<Rightarrow> ('h, 'x, 'req, 'k, 'r, 'p) handler list \<Rightarrow> ('h, 'x, 'req, 'k, 'r, 'p) handler" where
  "rr_route counter handlers call w =
     (case rr_next counter (length handlers) w of (index, w1) \<Rightarrow> (handlers ! index) call w1)"

definition RoundRobin ::
  "('h, 'x, 'req, 'k :: zero, 'r :: zero, 'p :: zero) handler option list \<Rightarrow> ('h, 'x) world_scheme \<Rightarrow>
   ('h, 'x, 'req, 'k, 'r, 'p) handler \<times> ('h, 'x) world_scheme" where
  "RoundRobin handlers w =
     (case validateRouteHandlers handlers ''round robin'' of
        Inl e \<Rightarrow> (invalidRouteHandler e, w)
      | Inr validated \<Rightarrow>
          (rr_route (w_fresh w) validated,
           w\<lparr>w_counters := (w_counters w)(w_fresh w := 0), w_fresh := Suc (w_fresh w)\<rparr>))"

section \<open>Timeout\<close>

text \<open>The deferred function cancels the context when \<open>next\<close> panics; otherwise the result decides.\<close>

definition timed_call ::
  "('h \<Rightarrow> (('h, 'x) world_scheme, err) proc) \<Rightarrow> int \<Rightarrow> ('h, 'x, 'req, 'k, 'r, 'p) handler \<Rightarrow>
   ('h, 'x, 'req, 'k, 'r, 'p) handler" where
  "timed_call hostfn timeout next call w =
     (case WithTimeout (rc_Context call) timeout w of (timedCtx, w0) \<Rightarrow>
        (case next (withContext call (Some timedCtx)) w0 of
           (Panic, w1) \<Rightarrow> (Panic, cancel timedCtx w1)
         | (Ret (result, e), w1) \<Rightarrow>
             (case res_Lifetime result of
                None \<Rightarrow> (Ret (result, e), cancel timedCtx w1)
              | Some l \<Rightarrow> seq (OnClose hostfn (Some l) (Some (CancelFn timedCtx))) (\<lambda>_. ret (result, e)) w1)))"

definition Timeout ::
  "('h \<Rightarrow> (('h, 'x) world_scheme, err) proc) \<Rightarrow> int \<Rightarrow>
   ('h, 'x, 'req, 'k :: zero, 'r :: zero, 'p :: zero) middleware" where
  "Timeout hostfn timeout next =
     (if timeout < 0 then Some (invalidRouteHandler (configError ''timeout must be non-negative''))
      else case next of
        None \<Rightarrow> Some (invalidRouteHandler (configError ''timeout middleware requires non-nil next route handler''))
      | Some h \<Rightarrow> if timeout = 0 then Some h else Some (timed_call hostfn timeout h))"

section \<open>Backoff stays within bounds\<close>

lemma int64_id: "- (2 ^ 63) \<le> x \<Longrightarrow> x < 2 ^ 63 \<Longrightarrow> int64 x = x"
  unfolding int64_def by (simp add: sint_sbintrunc' signed_take_bit_int_eq_self)

lemma safeDoubleBackoff_eq:
  "0 \<le> d \<Longrightarrow> d \<le> MaxInt64 \<Longrightarrow> safeDoubleBackoff d = (if d \<le> MaxInt64 div 2 then 2 * d else MaxInt64)"
  by (auto simp: safeDoubleBackoff_def Let_def MaxInt64_def int64_id)

lemma growBackoff_zero [simp]: "growBackoff 0 w = (Ret 0, w)"
  by (simp add: growBackoff_def safeDoubleBackoff_def)

lemma growBackoff_positive:
  assumes "0 < d" "d \<le> MaxInt64"
  shows "growBackoff d w =
    (Ret (min d (MaxInt64 div 2) + int (w_rand w (w_step w)) mod min d (MaxInt64 div 2)), tick w)"
proof -
  let ?m = "min d (MaxInt64 div 2)"
  have half: "safeDoubleBackoff d div 2 = ?m" "0 < safeDoubleBackoff d"
    using assms safeDoubleBackoff_eq [of d] by (auto simp: min_def MaxInt64_def)
  have m: "0 < ?m" "?m \<le> MaxInt64 div 2" using assms by (auto simp: MaxInt64_def)
  have j: "0 \<le> int (w_rand w (w_step w)) mod ?m" "int (w_rand w (w_step w)) mod ?m < ?m"
    using pos_mod_sign [OF m(1)] pos_mod_bound [OF m(1)] by blast+
  have max: "MaxInt64 div 2 = 4611686018427387903" "(2 :: int) ^ 63 = 9223372036854775808"
    by (simp_all add: MaxInt64_def)
  have "int64 (?m + int (w_rand w (w_step w)) mod ?m) = ?m + int (w_rand w (w_step w)) mod ?m"
    by (rule int64_id; use m j max in linarith)
  then show ?thesis
    using half less_le_not_le [THEN iffD1, OF m(1)] by (auto simp: growBackoff_def Let_def rand_Int64N_def seq_def)
qed

section \<open>What a retried call consists of\<close>

text \<open>
  \<open>retry_repeats\<close>: an attempt that failed with \<open>x\<close> and was followed by a repetition; \<open>retried\<close>: a number of those in
  a row; \<open>retry_ends\<close>: the attempt at which the loop returns.
\<close>

inductive retry_repeats ::
  "('h \<Rightarrow> (('h, 'x) world_scheme, err) proc) \<Rightarrow> 'req route_call \<Rightarrow>
   ('h, 'x, 'req, 'k, 'r, 'p) handler \<Rightarrow> ('h, 'x, 'req) retry_predicate \<Rightarrow>
   int \<Rightarrow> ('h, 'x) world_scheme \<Rightarrow> gerror \<Rightarrow> int \<Rightarrow> ('h, 'x) world_scheme \<Rightarrow> bool"
  for hostfn call "next" predicate where
  repeatsI: "ctx_err (tick w) (rc_Context call) = None \<Longrightarrow> next call (tick w) = (Ret (r, Some x), w1) \<Longrightarrow>
    ctx_err (tick w1) (rc_Context call) = None \<Longrightarrow>
    predicate (rc_Context call) (rc_Request call) x (tick w1) = (Ret True, w2) \<Longrightarrow>
    ctx_err (tick w2) (rc_Context call) = None \<Longrightarrow>
    Close hostfn (res_Lifetime r) (tick w2) = (Ret None, w3) \<Longrightarrow>
    ctx_err (tick w3) (rc_Context call) = None \<Longrightarrow>
    sleepWithContext (rc_Context call) wait (tick w3) = (Ret None, w4) \<Longrightarrow>
    growBackoff wait w4 = (Ret wait', w5) \<Longrightarrow>
    retry_repeats hostfn call next predicate wait w x wait' w5"

inductive retried ::
  "('h \<Rightarrow> (('h, 'x) world_scheme, err) proc) \<Rightarrow> 'req route_call \<Rightarrow>
   ('h, 'x, 'req, 'k, 'r, 'p) handler \<Rightarrow> ('h, 'x, 'req) retry_predicate \<Rightarrow>
   nat \<Rightarrow> int \<Rightarrow> ('h, 'x) world_scheme \<Rightarrow> int \<Rightarrow> ('h, 'x) world_scheme \<Rightarrow> bool"
  for hostfn call "next" predicate where
  retried_0: "retried hostfn call next predicate 0 wait w wait w"
| retried_Suc: "retry_repeats hostfn call next predicate wait w x wait1 w1 \<Longrightarrow>
    retried hostfn call next predicate n wait1 w1 wait2 w2 \<Longrightarrow>
    retried hostfn call next predicate (Suc n) wait w wait2 w2"

inductive retry_ends ::
  "('h \<Rightarrow> (('h, 'x) world_scheme, err) proc) \<Rightarrow> 'req route_call \<Rightarrow>
   ('h, 'x, 'req, 'k :: zero, 'r :: zero, 'p :: zero) handler \<Rightarrow> ('h, 'x, 'req) retry_predicate \<Rightarrow>
   bool \<Rightarrow> int \<Rightarrow> ('h, 'x) world_scheme \<Rightarrow> ('k, 'r, 'p) route_result \<times> err \<Rightarrow> ('h, 'x) world_scheme \<Rightarrow> bool"
  for hostfn call "next" predicate final wait w where
  ends_before: "ctx_err (tick w) (rc_Context call) = Some x \<Longrightarrow>
    retry_ends hostfn call next predicate final wait w (AbortResult, Some x) (tick w)"
| ends_success: "ctx_err (tick w) (rc_Context call) = None \<Longrightarrow> next call (tick w) = (Ret (r, None), w1) \<Longrightarrow>
    retry_ends hostfn call next predicate final wait w (r, None) w1"
| ends_interrupted: "ctx_err (tick w) (rc_Context call) = None \<Longrightarrow> next call (tick w) = (Ret (r, Some x), w1) \<Longrightarrow>
    ctx_err (tick w1) (rc_Context call) = Some y \<Longrightarrow>
    retry_ends hostfn call next predicate final wait w (r, Some (Joined [y, x])) (tick w1)"
| ends_judged: "ctx_err (tick w) (rc_Context call) = None \<Longrightarrow> next call (tick w) = (Ret (r, Some x), w1) \<Longrightarrow>
    ctx_err (tick w1) (rc_Context call) = None \<Longrightarrow>
    \<not> final \<Longrightarrow> predicate (rc_Context call) (rc_Request call) x (tick w1) = (Ret permitted, w2) \<Longrightarrow>
    ctx_err (tick w2) (rc_Context call) = Some y \<Longrightarrow>
    retry_ends hostfn call next predicate final wait w (r, Some (Joined [y, x])) (tick w2)"
| ends_late: "ctx_err (tick w) (rc_Context call) = None \<Longrightarrow> next call (tick w) = (Ret (r, Some x), w1) \<Longrightarrow>
    ctx_err (tick w1) (rc_Context call) = None \<Longrightarrow> final \<Longrightarrow> ctx_err (tick (tick w1)) (rc_Context call) = Some y \<Longrightarrow>
    retry_ends hostfn call next predicate final wait w (r, Some (Joined [y, x])) (tick (tick w1))"
| ends_exhausted: "ctx_err (tick w) (rc_Context call) = None \<Longrightarrow> next call (tick w) = (Ret (r, Some x), w1) \<Longrightarrow>
    ctx_err (tick w1) (rc_Context call) = None \<Longrightarrow> final \<Longrightarrow> ctx_err (tick (tick w1)) (rc_Context call) = None \<Longrightarrow>
    retry_ends hostfn call next predicate final wait w (r, Some x) (tick (tick w1))"
| ends_refused: "ctx_err (tick w) (rc_Context call) = None \<Longrightarrow> next call (tick w) = (Ret (r, Some x), w1) \<Longrightarrow>
    ctx_err (tick w1) (rc_Context call) = None \<Longrightarrow> \<not> final \<Longrightarrow>
    predicate (rc_Context call) (rc_Request call) x (tick w1) = (Ret False, w2) \<Longrightarrow>
    ctx_err (tick w2) (rc_Context call) = None \<Longrightarrow>
    retry_ends hostfn call next predicate final wait w (r, Some x) (tick w2)"
| ends_cleanup: "ctx_err (tick w) (rc_Context call) = None \<Longrightarrow> next call (tick w) = (Ret (r, Some x), w1) \<Longrightarrow>
    ctx_err (tick w1) (rc_Context call) = None \<Longrightarrow> \<not> final \<Longrightarrow>
    predicate (rc_Context call) (rc_Request call) x (tick w1) = (Ret True, w2) \<Longrightarrow>
    ctx_err (tick w2) (rc_Context call) = None \<Longrightarrow>
    Close hostfn (res_Lifetime r) (tick w2) = (Ret (Some y), w3) \<Longrightarrow>
    retry_ends hostfn call next predicate final wait w (r\<lparr>res_Action := ActionAbort\<rparr>, Some (Joined [x, y])) w3"
| ends_closed: "ctx_err (tick w) (rc_Context call) = None \<Longrightarrow> next call (tick w) = (Ret (r, Some x), w1) \<Longrightarrow>
    ctx_err (tick w1) (rc_Context call) = None \<Longrightarrow> \<not> final \<Longrightarrow>
    predicate (rc_Context call) (rc_Request call) x (tick w1) = (Ret True, w2) \<Longrightarrow>
    ctx_err (tick w2) (rc_Context call) = None \<Longrightarrow>
    Close hostfn (res_Lifetime r) (tick w2) = (Ret None, w3) \<Longrightarrow> ctx_err (tick w3) (rc_Context call) = Some y \<Longrightarrow>
    retry_ends hostfn call next predicate final wait w (r\<lparr>res_Action := ActionAbort\<rparr>, Some (Joined [x, y])) (tick w3)"
| ends_sleeping: "ctx_err (tick w) (rc_Context call) = None \<Longrightarrow> next call (tick w) = (Ret (r, Some x), w1) \<Longrightarrow>
    ctx_err (tick w1) (rc_Context call) = None \<Longrightarrow> \<not> final \<Longrightarrow>
    predicate (rc_Context call) (rc_Request call) x (tick w1) = (Ret True, w2) \<Longrightarrow>
    ctx_err (tick w2) (rc_Context call) = None \<Longrightarrow>
    Close hostfn (res_Lifetime r) (tick w2) = (Ret None, w3) \<Longrightarrow> ctx_err (tick w3) (rc_Context call) = None \<Longrightarrow>
    sleepWithContext (rc_Context call) wait (tick w3) = (Ret (Some y), w4) \<Longrightarrow>
    retry_ends hostfn call next predicate final wait w (r\<lparr>res_Action := ActionAbort\<rparr>, Some (Joined [x, y])) w4"

lemma discard_seq:
  "seq (discardResult hostfn r (Some x)) (\<lambda>(closed, closeErr). case closeErr of Some y \<Rightarrow> f closed y | None \<Rightarrow> g) w =
   seq (Close hostfn (res_Lifetime r)) (\<lambda>e. case e of
      Some y \<Rightarrow> f (r\<lparr>res_Action := ActionAbort\<rparr>) (Joined [x, y]) | None \<Rightarrow> g) w"
  by (auto simp: discardResult_def seq_def split: prod.splits outcome.splits option.splits)

lemma ctx_Err_seq: "seq (ctx_Err c) f w = f (ctx_err (tick w) c) (tick w)"
  by (simp add: seq_def)

lemma retry_turn_InrD:
  assumes "retry_turn hostfn call next predicate final (wait, lastErr) w = (Ret (Inr st'), w')"
  shows "\<not> final \<and> (\<exists>x wait'. st' = (wait', Some x) \<and> retry_repeats hostfn call next predicate wait w x wait' w')"
  using assms unfolding retry_turn_def prod.case
  by (auto simp: ctx_Err_seq discard_seq elim!: seq_RetE split: option.split_asm if_split_asm)
    (blast intro: retry_repeats.intros)+

lemma retry_turn_InlD:
  assumes "retry_turn hostfn call next predicate final (wait, lastErr) w = (Ret (Inl out), w')"
  shows "retry_ends hostfn call next predicate final wait w out w'"
  using assms unfolding retry_turn_def prod.case
  by (auto simp: ctx_Err_seq discard_seq elim!: seq_RetE split: option.split_asm if_split_asm)
    (metis retry_ends.intros)+

lemma retry_turn_InrI:
  "retry_repeats hostfn call next predicate wait w x wait' w' \<Longrightarrow>
   retry_turn hostfn call next predicate False (wait, lastErr) w = (Ret (Inr (wait', Some x)), w')"
  by (erule retry_repeats.cases) (simp add: retry_turn_def ctx_Err_seq discard_seq)

lemma retry_turn_InlI:
  "retry_ends hostfn call next predicate final wait w out w' \<Longrightarrow>
   retry_turn hostfn call next predicate final (wait, lastErr) w = (Ret (Inl out), w')"
  by (erule retry_ends.cases) (simp_all add: retry_turn_def ctx_Err_seq discard_seq)

lemma turns_retried:
  assumes "turns (\<lambda>i. retry_turn hostfn call next predicate (int i = n - 1)) is (wait, le) w (wait', le') w'"
  shows "retried hostfn call next predicate (length is) wait w wait' w' \<and> (\<forall>i \<in> set is. int i \<noteq> n - 1)"
  using assms
proof (induction "is" "(wait, le)" w "(wait', le')" w' arbitrary: wait le rule: turns.induct)
  case turns_Nil
  then show ?case by (simp add: retried_0)
next
  case (turns_Cons i w st w1 ks w2)
  then obtain x wait1 where "st = (wait1, Some x)" "retry_repeats hostfn call next predicate wait w x wait1 w1"
    "int i \<noteq> n - 1"
    using retry_turn_InrD by blast
  then show ?case using turns_Cons by (auto intro: retried_Suc)
qed

lemma retried_turns:
  assumes "retried hostfn call next predicate k wait w wait' w'" "int (j + k) < n"
  shows "\<exists>le'. turns (\<lambda>i. retry_turn hostfn call next predicate (int i = n - 1)) [j..<j + k] (wait, le) w (wait', le') w'"
  using assms
proof (induction arbitrary: j le rule: retried.induct)
  case retried_0
  then show ?case by simp
next
  case (retried_Suc wait w x wait1 w1 k wait2 w2)
  from retried_Suc.IH [of "Suc j" "Some x"] retried_Suc.prems obtain le' where
    rest: "turns (\<lambda>i. retry_turn hostfn call next predicate (int i = n - 1)) [Suc j..<Suc j + k] (wait1, Some x) w1
      (wait2, le') w2" by auto
  have "int j \<noteq> n - 1" using retried_Suc.prems by simp
  then have "retry_turn hostfn call next predicate (int j = n - 1) (wait, le) w = (Ret (Inr (wait1, Some x)), w1)"
    using retry_turn_InrI [OF retried_Suc.hyps(1)] by simp
  then have "turns (\<lambda>i. retry_turn hostfn call next predicate (int i = n - 1)) (j # [Suc j..<Suc j + k]) (wait, le) w
      (wait2, le') w2"
    using rest by (rule turns.turns_Cons)
  moreover have "[j..<j + Suc k] = j # [Suc j..<Suc j + k]" by (simp add: upt_conv_Cons)
  ultimately show ?case by metis
qed

lemma executeWithRetry_iff:
  assumes n: "1 \<le> n"
  shows "executeWithRetry hostfn call next n backoff predicate w = (Ret out, w') \<longleftrightarrow>
     (\<exists>k wait w1. int k < n \<and> retried hostfn call next predicate k backoff w wait w1 \<and>
        retry_ends hostfn call next predicate (int k = n - 1) wait w1 out w')" (is "?l \<longleftrightarrow> ?r")
proof
  let ?turn = "\<lambda>i. retry_turn hostfn call next predicate (int i = n - 1)"
  assume ?l
  then show ?r
    unfolding executeWithRetry_def
  proof (cases rule: early_loop_Ret)
    case (through st w1)
    then have "turns ?turn [0..<nat n] (backoff, None) w (fst st, snd st) w1" by simp
    from turns_retried [OF this] have "\<forall>i \<in> set [0..<nat n]. int i \<noteq> n - 1" by blast
    moreover have "nat (n - 1) \<in> set [0..<nat n]" using n by auto
    ultimately show ?thesis using n by (metis diff_ge_0_iff_ge int_nat_eq)
  next
    case (early pre k post st w1)
    from upt_split [OF early(1)] have k: "pre = [0..<k]" "int k < n" using n by auto
    have "turns ?turn [0..<k] (backoff, None) w (fst st, snd st) w1" using early k by simp
    from turns_retried [OF this] have "retried hostfn call next predicate k backoff w (fst st) w1" by simp
    moreover have "retry_ends hostfn call next predicate (int k = n - 1) (fst st) w1 out w'"
      using early retry_turn_InlD by (metis prod.collapse)
    ultimately show ?thesis using k by blast
  qed
next
  let ?turn = "\<lambda>i. retry_turn hostfn call next predicate (int i = n - 1)"
  assume ?r
  then obtain k wait w1 where k: "int k < n" and r: "retried hostfn call next predicate k backoff w wait w1"
    and e: "retry_ends hostfn call next predicate (int k = n - 1) wait w1 out w'" by blast
  from retried_turns [OF r, of 0] k obtain le where t: "turns ?turn [0..<k] (backoff, None) w (wait, le) w1"
    by auto
  have "[0..<nat n] = [0..<k] @ k # [Suc k..<nat n]"
    using k by (metis append_Cons le_add_diff_inverse less_imp_le_nat nat_less_iff upt_add_eq_append upt_conv_Cons
        zero_le zless_nat_eq_int_zless add.left_neutral)
  then show ?l
    unfolding executeWithRetry_def early_loop_iff using t retry_turn_InlI [OF e] by blast
qed

lemma RetryIf_eq:
  "0 \<le> attempts \<Longrightarrow> 0 \<le> backoff \<Longrightarrow> RetryIf hostfn attempts backoff (Some pred) (Some h) =
   Some (\<lambda>call. executeWithRetry hostfn call h (max attempts 1) backoff pred)"
  by (simp add: RetryIf_def Let_def)

lemma retried_wait:
  "retried hostfn call next predicate k wait w wait' w' \<Longrightarrow> 0 \<le> wait \<Longrightarrow> wait \<le> MaxInt64 \<Longrightarrow>
   0 \<le> wait' \<and> wait' \<le> MaxInt64 \<and> (wait = 0 \<longrightarrow> wait' = 0) \<and> min wait (MaxInt64 div 2) \<le> wait'"
proof (induction rule: retried.induct)
  case (retried_Suc wait w x wait1 w1 n wait2 w2)
  obtain v where g: "growBackoff wait v = (Ret wait1, w1)" using retried_Suc.hyps(1) by (auto elim: retry_repeats.cases)
  let ?m = "min wait (MaxInt64 div 2)"
  have "0 \<le> wait1 \<and> wait1 \<le> MaxInt64 \<and> (wait = 0 \<longrightarrow> wait1 = 0) \<and> ?m \<le> wait1"
  proof (cases "wait = 0")
    case False
    then have pos: "0 < ?m" using retried_Suc.prems by (auto simp: MaxInt64_def)
    have "wait1 = ?m + int (w_rand v (w_step v)) mod ?m"
      using g growBackoff_positive [of wait v] False retried_Suc.prems by simp
    moreover have "0 \<le> int (w_rand v (w_step v)) mod ?m" "int (w_rand v (w_step v)) mod ?m < ?m"
      using pos_mod_sign [OF pos] pos_mod_bound [OF pos] by blast+
    moreover have "?m \<le> MaxInt64 div 2" "2 * (MaxInt64 div 2) \<le> MaxInt64" by (simp_all add: MaxInt64_def)
    ultimately show ?thesis using False pos by linarith
  qed (use g in \<open>simp add: MaxInt64_def\<close>)
  then show ?case using retried_Suc by auto
qed auto

section \<open>Handlers built from lawful ones are lawful\<close>

lemma keeps_sleep: "world_frame.keeps (sleepWithContext ctx delay)"
  by (rule world_frame.keepsI) (auto simp: sleepWithContext_def)

lemma keeps_growBackoff: "world_frame.keeps (growBackoff d)"
  unfolding growBackoff_def Let_def
  by (intro world_keeps_intros) (simp add: world_frame.keeps_def rand_Int64N_def)

lemma world_le_OnClose_ret:
  assumes "lawful_host hostfn"
  shows "world_le w (snd (seq (OnClose hostfn life fn) (\<lambda>_. ret re) w))"
proof -
  have "world_frame.keeps (seq (OnClose hostfn life fn) (\<lambda>_. ret re))"
    using assms by (intro world_keeps_intros)
  then show ?thesis by (simp add: world_frame.keeps_def)
qed

lemma keeps_timed_call:
  assumes "lawful_host hostfn" "lawful h"
  shows "world_frame.keeps (timed_call hostfn timeout h call)"
proof (rule world_frame.keepsI)
  fix w :: "('a, 'b) world_scheme"
  obtain c w0 where c: "WithTimeout (rc_Context call) timeout w = (c, w0)" by fastforce
  then have "world_le w w0" using world_le_WithTimeout [of w "rc_Context call" timeout] by simp
  obtain v w1 where n: "h (withContext call (Some c)) w0 = (v, w1)" by fastforce
  have "world_le w0 w1" using lawfulD [OF assms(2) n] .
  with \<open>world_le w w0\<close> have 1: "world_le w w1" by (rule world_le_trans)
  have 2: "world_le w1 (cancel c w1)" by (rule world_le_cancel)
  note 3 = world_le_OnClose_ret [OF assms(1), of w1]
  show "world_le w (snd (timed_call hostfn timeout h call w))"
    using c n world_le_trans [OF 1 2] world_le_trans [OF 1 3]
    by (auto simp: timed_call_def split: outcome.split option.split)
qed

section \<open>Round robin\<close>

text \<open>The handlers picked by a number of consecutive atomic additions, from whichever goroutines they come.\<close>

fun rr_picks :: "nat \<Rightarrow> nat \<Rightarrow> nat \<Rightarrow> ('h, 'x) world_scheme \<Rightarrow> nat list \<times> ('h, 'x) world_scheme" where
  "rr_picks counter n 0 w = ([], w)"
| "rr_picks counter n (Suc k) w =
     (case rr_next counter n w of (i, w1) \<Rightarrow> case rr_picks counter n k w1 of (is, w2) \<Rightarrow> (i # is, w2))"

lemma rr_next_index:
  assumes "0 < n" "n < 2 ^ 64"
  shows "fst (rr_next counter n w) = unat (w_counters w counter) mod n"
  using assms by (simp add: rr_next_def Let_def unat_mod unat_of_nat take_bit_nat_eq_self)

lemma rr_next_counter: "w_counters (snd (rr_next counter n w)) counter = w_counters w counter + 1"
  by (simp add: rr_next_def Let_def)

lemma rr_picks_eq:
  assumes "0 < n" "n < 2 ^ 64" "unat (w_counters w counter) + k \<le> 2 ^ 64"
  shows "fst (rr_picks counter n k w) = map (\<lambda>j. j mod n) [unat (w_counters w counter)..<unat (w_counters w counter) + k]"
  using assms(3)
proof (induction k arbitrary: w)
  case (Suc k)
  let ?c = "unat (w_counters w counter)"
  obtain i w1 where nx: "rr_next counter n w = (i, w1)" by fastforce
  have i: "i = ?c mod n" using rr_next_index [OF assms(1,2), of counter w] nx by simp
  have c1: "w_counters w1 counter = w_counters w counter + 1" using rr_next_counter [of counter n w] nx by simp
  show ?case
  proof (cases k)
    case 0
    then show ?thesis using nx i by simp
  next
    case (Suc k')
    then have "unat (w_counters w1 counter) = Suc ?c"
      using Suc.prems c1 by (simp add: unat_plus_simple [THEN iffD1] no_olen_add_nat unat_word_ariths)
    then have "fst (rr_picks counter n k w1) = map (\<lambda>j. j mod n) [Suc ?c..<Suc ?c + k]"
      using Suc.IH [of w1] Suc.prems by simp
    moreover have "[?c..<?c + Suc k] = ?c # [Suc ?c..<Suc ?c + k]" by (simp add: upt_conv_Cons)
    ultimately show ?thesis using nx i by (simp add: case_prod_beta del: upt_Suc)
  qed
qed simp

lemma mod_window: "0 < n \<Longrightarrow> distinct (map (\<lambda>j. j mod n) [c..<c + n]) \<and> set (map (\<lambda>j. j mod n) [c..<c + n]) = {..<n}"
proof -
  assume n: "0 < n"
  have inj: "inj_on (\<lambda>j. j mod n) {c..<c + n}"
  proof (rule inj_onI)
    fix a b assume a: "a \<in> {c..<c + n}" and b: "b \<in> {c..<c + n}" and eq: "a mod n = b mod n"
    have "n dvd (max a b - min a b)"
      using eq mod_eq_dvd_iff_nat [of a b n] mod_eq_dvd_iff_nat [of b a n] by (auto simp: max_def min_def)
    moreover have "max a b - min a b < n" using a b by auto
    ultimately have "max a b - min a b = 0" using dvd_imp_le not_less by blast
    then show "a = b" by (auto simp: max_def min_def split: if_splits)
  qed
  moreover have "(\<lambda>j. j mod n) ` {c..<c + n} \<subseteq> {..<n}" using n by auto
  moreover have "card ((\<lambda>j. j mod n) ` {c..<c + n}) = n" using card_image [OF inj] by simp
  ultimately have "(\<lambda>j. j mod n) ` {c..<c + n} = {..<n}" by (intro card_subset_eq) auto
  then show ?thesis using inj by (simp add: distinct_map)
qed

section \<open>When the secondary of a fallback runs\<close>

text \<open>The primary failed with \<open>x\<close>, the context was live, its result was closed, and the context was live still.\<close>

inductive falls_back ::
  "('h \<Rightarrow> (('h, 'x) world_scheme, err) proc) \<Rightarrow> ('h, 'x, 'req, 'k, 'r, 'p) handler \<Rightarrow> 'req route_call \<Rightarrow>
   ('h, 'x) world_scheme \<Rightarrow> gerror \<Rightarrow> ('h, 'x) world_scheme \<Rightarrow> bool"
  for hostfn p call w where
  falls_backI: "ctx_err (tick w) (rc_Context call) = None \<Longrightarrow> p call (tick w) = (Ret (r, Some x), w1) \<Longrightarrow>
    ctx_err (tick w1) (rc_Context call) = None \<Longrightarrow> Close hostfn (res_Lifetime r) (tick w1) = (Ret None, w2) \<Longrightarrow>
    ctx_err (tick w2) (rc_Context call) = None \<Longrightarrow> falls_back hostfn p call w x (tick w2)"

lemma falls_back_det: "falls_back hostfn p call w x v \<Longrightarrow> falls_back hostfn p call w y u \<Longrightarrow> x = y \<and> v = u"
  by (auto simp: falls_back.simps)

lemma Fallback_falls_back:
  "falls_back hostfn p call w x v \<Longrightarrow> Fallback hostfn (Some p) (Some s) call w = s call v"
  by (erule falls_back.cases) (simp add: Fallback_def ctx_Err_seq discard_seq)

lemma Fallback_stays:
  assumes "\<nexists>x v. falls_back hostfn p call w x v"
  shows "Fallback hostfn (Some p) (Some s) call w = Fallback hostfn (Some p) (Some t) call w"
proof (cases "ctx_err (tick w) (rc_Context call)")
  case None
  obtain o1 w1 where p: "p call (tick w) = (o1, w1)" by fastforce
  consider "o1 = Panic" | r where "o1 = Ret (r, None)" | r x where "o1 = Ret (r, Some x)"
    by (metis outcome.exhaust option.exhaust prod.exhaust)
  then show ?thesis
  proof cases
    case 3
    obtain o2 w2 where c: "Close hostfn (res_Lifetime r) (tick w1) = (o2, w2)" by fastforce
    have "ctx_err (tick w1) (rc_Context call) = None \<Longrightarrow> o2 = Ret None \<Longrightarrow> ctx_err (tick w2) (rc_Context call) \<noteq> None"
      using assms None p 3 c falls_backI [OF None] by blast
    then show ?thesis
      using None p 3 c
      by (cases "ctx_err (tick w1) (rc_Context call)"; cases o2)
        (auto simp: Fallback_def ctx_Err_seq discard_seq split: option.split)
  qed (use None p in \<open>simp_all add: Fallback_def ctx_Err_seq\<close>)
qed (simp add: Fallback_def ctx_Err_seq)

section \<open>Properties\<close>

text \<open>
  C37 (refinement). A handler under \<open>RetryIf\<close> returns exactly what some number \<open>k\<close> of repeated attempts followed by one
  ending attempt give, with \<open>k\<close> below the normalised number of attempts: every repetition came after an error the
  predicate permitted, with the context live at every check, the failed result closed without error and the wait slept
  through; on the last attempt the predicate is not asked.
\<close>

theorem RetryIf_refines_bounded_attempts:
  assumes "0 \<le> attempts" "0 \<le> backoff"
  shows "\<exists>g. RetryIf hostfn attempts backoff (Some pred) (Some h) = Some g \<and>
    (\<forall>call w out w'. g call w = (Ret out, w') \<longleftrightarrow>
      (\<exists>k wait w1. int k < max attempts 1 \<and> retried hostfn call h pred k backoff w wait w1 \<and>
         retry_ends hostfn call h pred (int k = max attempts 1 - 1) wait w1 out w'))"
proof (intro exI conjI allI)
  show "RetryIf hostfn attempts backoff (Some pred) (Some h) =
      Some (\<lambda>call. executeWithRetry hostfn call h (max attempts 1) backoff pred)"
    by (rule RetryIf_eq [OF assms])
  show "executeWithRetry hostfn call h (max attempts 1) backoff pred w = (Ret out, w') \<longleftrightarrow>
      (\<exists>k wait w1. int k < max attempts 1 \<and> retried hostfn call h pred k backoff w wait w1 \<and>
         retry_ends hostfn call h pred (int k = max attempts 1 - 1) wait w1 out w')" for call w out w'
    by (rule executeWithRetry_iff) simp
qed

definition failing :: "(nat, unit, nat, string, string, nat) handler" where
  "failing call = ret (AbortResult, Some (HostError 1 []))"

definition always :: "(nat, unit, nat) retry_predicate" where
  "always c r e = ret True"

theorem RetryIf_refines_bounded_attempts_witness:
  "\<exists>k wait w1 w'. int k < 3 \<and> retried no_host example_call failing always k 10 idle_world wait w1 \<and>
     retry_ends no_host example_call failing always (int k = 2) wait w1 (AbortResult, Some (HostError 1 [])) w'"
proof -
  obtain g where g: "RetryIf no_host 3 10 (Some always) (Some failing) = Some g" and
    iff: "\<forall>call w out w'. g call w = (Ret out, w') \<longleftrightarrow>
      (\<exists>k wait w1. int k < max 3 1 \<and> retried no_host call failing always k 10 w wait w1 \<and>
         retry_ends no_host call failing always (int k = max 3 1 - 1) wait w1 out w')"
    using RetryIf_refines_bounded_attempts [of 3 10 no_host always failing] by auto
  have "g = (\<lambda>call. executeWithRetry no_host call failing 3 10 always)" 
    using g RetryIf_eq [of 3 10 no_host always failing] by simp
  moreover have "\<exists>w'. executeWithRetry no_host example_call failing 3 10 always idle_world
      = (Ret (AbortResult, Some (HostError 1 [])), w')"
    by (simp add: executeWithRetry_def upt_conv_Cons numeral_3_eq_3 retry_turn_def ctx_Err_seq discard_seq failing_def
        always_def example_call_def ctx_err_def AbortResult_def seq_def sleepWithContext_def growBackoff_positive
        MaxInt64_def discardResult_def)
  ultimately show ?thesis using iff by fastforce
qed

text \<open>
  For every non-negative backoff that fits \<open>int64\<close>, \<open>growBackoff\<close> returns without panicking, and the new
  wait lies between the old one and twice the old one, both capped at half of the largest duration; it never overflows.
\<close>

theorem growBackoff_bounds:
  assumes "0 \<le> d" "d \<le> MaxInt64"
  shows "\<exists>g w'. growBackoff d w = (Ret g, w') \<and> min d (MaxInt64 div 2) \<le> g \<and> g \<le> 2 * min d (MaxInt64 div 2)
     \<and> g \<le> MaxInt64"
proof (cases "d = 0")
  case True
  then show ?thesis by (simp add: MaxInt64_def)
next
  case False
  let ?m = "min d (MaxInt64 div 2)"
  have pos: "0 < ?m" using assms False by (auto simp: MaxInt64_def)
  let ?j = "int (w_rand w (w_step w)) mod ?m"
  have "2 * ?m \<le> MaxInt64" by (simp add: MaxInt64_def)
  moreover have "0 \<le> ?j" "?j < ?m" using pos_mod_sign [OF pos] pos_mod_bound [OF pos] by blast+
  ultimately have "?m \<le> ?m + ?j" "?m + ?j \<le> 2 * ?m" "?m + ?j \<le> MaxInt64" by linarith+
  moreover have "growBackoff d w = (Ret (?m + ?j), tick w)"
    by (rule growBackoff_positive) (use assms False in linarith)+
  ultimately show ?thesis by blast
qed

theorem growBackoff_bounds_witness:
  "\<exists>g w'. growBackoff 100 (idle_world :: nat world) = (Ret g, w') \<and> 100 \<le> g \<and> g \<le> 200"
  using growBackoff_bounds [of 100 "idle_world :: nat world"] by (auto simp: MaxInt64_def)

text \<open>
  Each call of a round-robin handler goes to the handler at the counter's value modulo their number and
  advances the counter by one; so of any \<open>n\<close> consecutive calls to \<open>n\<close> handlers each handler gets exactly one, while
  the 64-bit counter does not wrap around within them.
\<close>

theorem round_robin_is_fair:
  assumes "hs \<noteq> []" "length hs < 2 ^ 64" "unat (w_counters w counter) + length hs \<le> 2 ^ 64"
  shows "rr_route counter hs call w =
      (hs ! (unat (w_counters w counter) mod length hs)) call (w\<lparr>w_counters := (w_counters w)(counter := w_counters w counter + 1)\<rparr>)
    \<and> distinct (fst (rr_picks counter (length hs) (length hs) w))
    \<and> set (fst (rr_picks counter (length hs) (length hs) w)) = {..<length hs}"
proof -
  have n: "0 < length hs" using assms by simp
  have "rr_next counter (length hs) w = (unat (w_counters w counter) mod length hs,
      w\<lparr>w_counters := (w_counters w)(counter := w_counters w counter + 1)\<rparr>)"
    using rr_next_index [OF n assms(2), of counter w] by (simp add: rr_next_def Let_def)
  then show ?thesis
    using rr_picks_eq [OF n assms(2,3)] mod_window [OF n] by (simp add: rr_route_def)
qed

theorem round_robin_is_fair_witness:
  "set (fst (rr_picks 0 3 3 (idle_world :: nat world))) = {..<3}"
proof -
  let ?hs = "[answering 1, answering 2, answering 3]"
  have "length ?hs = 3" "w_counters (idle_world :: nat world) 0 = 0" by (simp_all add: idle_world_def)
  then show ?thesis using round_robin_is_fair [of ?hs idle_world 0 example_call] by (simp only: ) simp
qed

text \<open>
  \<open>Timeout\<close> calls the next handler once, under a new context whose deadline is the earlier of the
  caller's and now plus the timeout, and returns its result. The new context is cancelled at once when the result
  owns no resource or the handler panics; otherwise cancelling it is left to the result's lifetime, which runs it
  when it closes (or has run it if it is closed).
\<close>

theorem Timeout_contract:
  assumes "0 < timeout"
  shows "\<exists>g. Timeout hostfn timeout (Some h) = Some g \<and> (\<forall>call w.
     (case WithTimeout (rc_Context call) timeout w of (c, w0) \<Rightarrow>
        ctx_Deadline c = Some (case ctx_Deadline (rc_Context call) of
            None \<Rightarrow> time_Now w + timeout | Some d \<Rightarrow> min (time_Now w + timeout) d)
        \<and> g call w = (case h (call\<lparr>rc_Context := c\<rparr>) w0 of
            (Panic, w1) \<Rightarrow> (Panic, cancel c w1)
          | (Ret (r, e), w1) \<Rightarrow> (Ret (r, e),
               (case res_Lifetime r of
                  None \<Rightarrow> cancel c w1
                | Some l \<Rightarrow> if lt_closed (w_lifes w1 l) then cancel c w1
                            else upd_life l (\<lambda>L. L\<lparr>lt_hooks := lt_hooks L @ [CancelFn c]\<rparr>) w1)))))"
  using assms unfolding Timeout_def
  by (auto simp: timed_call_def WithTimeout_def withContext_def OnClose_def seq_def
      split: outcome.split option.split prod.split)

theorem Timeout_contract_witness:
  "\<exists>g. Timeout no_host 5 (Some (answering 4)) = Some g \<and> fst (g example_call idle_world) = Ret (Handled ''done'' ''ok'' 4, None)"
  using Timeout_contract [of 5 no_host "answering 4"]
  by (auto simp: answering_def WithTimeout_def example_call_def Handled_def split: prod.splits)

text \<open>
  \<open>Fallback\<close> hands the call to its secondary exactly when the primary failed, its result could be
  closed and the context was live before, in between and after; in every other case the outcome does not depend on
  the secondary at all. \<open>PredicateFallback\<close> with a predicate that always agrees is \<open>Fallback\<close>.
\<close>

theorem Fallback_secondary_only_after_release:
  "(if \<exists>x v. falls_back hostfn p call w x v
    then \<exists>x v. falls_back hostfn p call w x v \<and> (\<forall>s. Fallback hostfn (Some p) (Some s) call w = s call v)
    else \<forall>s t. Fallback hostfn (Some p) (Some s) call w = Fallback hostfn (Some p) (Some t) call w)
   \<and> PredicateFallback hostfn (Some p) (Some s1) (Some (\<lambda>_. ret True)) = Fallback hostfn (Some p) (Some s1)"
proof
  show "if \<exists>x v. falls_back hostfn p call w x v
    then \<exists>x v. falls_back hostfn p call w x v \<and> (\<forall>s. Fallback hostfn (Some p) (Some s) call w = s call v)
    else \<forall>s t. Fallback hostfn (Some p) (Some s) call w = Fallback hostfn (Some p) (Some t) call w"
    using Fallback_falls_back Fallback_stays by (metis (full_types))
  show "PredicateFallback hostfn (Some p) (Some s1) (Some (\<lambda>_. ret True)) = Fallback hostfn (Some p) (Some s1)"
    by (simp only: PredicateFallback_def Fallback_def seq_ret_fun prod.case option.case not_True_eq_False if_False)
qed

end
