(* ===== verification/Circuit_Breaker.thy ===== *)
theory Circuit_Breaker
  imports Handlers "HOL-Library.Multiset" "HOL-Library.Sublist"
begin

text \<open>
  \<open>circuit_breaker.go\<close>: the breaker's state machine, the middleware around it, and the machine of all calls that share
  one breaker.

  The methods of \<open>circuitBreakerState\<close> run under its mutex, so they are functions on the breaker record that get the
  clock reading they take. \<open>time.Since\<close> saturates, which the comparison with a \<open>resetTimeout\<close> in the range of
  \<open>int64\<close> cannot see. The generation is a 64-bit counter, as in the code: the facts about outstanding admissions
  are for runs in which it has been incremented less than \<open>2 ^ 64\<close> times.
\<close>

section \<open>The breaker\<close>

record circuit_admission =
  ca_generation :: "64 word"
  ca_probe :: bool

definition beforeRequest :: "int \<Rightarrow> int \<Rightarrow> breaker \<Rightarrow> (gerror + circuit_admission) \<times> breaker" where
  "beforeRequest resetTimeout now st =
     (if cb_state st = cbOpen \<and> now - cb_openedAt st < resetTimeout then (Inl ErrCircuitOpen, st)
      else let st = (if cb_state st = cbOpen then st\<lparr>cb_state := cbHalfOpen, cb_generation := cb_generation st + 1\<rparr> else st) in
        if cb_state st = cbHalfOpen then
          if cb_probeInFlight st then (Inl ErrCircuitOpen, st)
          else let st = st\<lparr>cb_probeInFlight := True, cb_generation := cb_generation st + 1\<rparr> in
            (Inr \<lparr>ca_generation = cb_generation st, ca_probe = True\<rparr>, st)
        else (Inr \<lparr>ca_generation = cb_generation st, ca_probe = False\<rparr>, st))"

definition open_breaker :: "int \<Rightarrow> breaker \<Rightarrow> breaker" where
  "open_breaker now st = st\<lparr>cb_state := cbOpen, cb_openedAt := now, cb_failures := 0, cb_probeInFlight := False,
     cb_generation := cb_generation st + 1\<rparr>"

definition afterRequest :: "circuit_admission \<Rightarrow> err \<Rightarrow> bool \<Rightarrow> int \<Rightarrow> int \<Rightarrow> breaker \<Rightarrow> breaker" where
  "afterRequest admission e failed threshold now st =
     (if ca_generation admission \<noteq> cb_generation st then st
      else if ca_probe admission then
        if cb_state st \<noteq> cbHalfOpen \<or> \<not> cb_probeInFlight st then st
        else let st = st\<lparr>cb_probeInFlight := False\<rparr> in
          if e = None then st\<lparr>cb_state := cbClosed, cb_failures := 0, cb_generation := cb_generation st + 1\<rparr>
          else if failed then open_breaker now st
          else st
      else if cb_state st \<noteq> cbClosed then st
      else if \<not> failed then st\<lparr>cb_failures := 0\<rparr>
      else let st = st\<lparr>cb_failures := cb_failures st + 1\<rparr> in
        if cb_failures st \<ge> threshold then open_breaker now st else st)"

definition circuitFailure ::
  "err \<Rightarrow> (gerror \<Rightarrow> (('h, 'x) world_scheme, bool) proc) option \<Rightarrow> (('h, 'x) world_scheme, bool) proc" where
  "circuitFailure e isFailure =
     (case e of
        None \<Rightarrow> ret False
      | Some x \<Rightarrow>
          if errors_Is e ContextCanceled \<or> errors_Is e DeadlineExceeded then ret False
          else case isFailure of Some f \<Rightarrow> f x | None \<Rightarrow> ret True)"

definition abandon :: "circuit_admission \<Rightarrow> breaker \<Rightarrow> breaker" where
  "abandon admission st =
     (if ca_probe admission \<and> ca_generation admission = cb_generation st \<and> cb_state st = cbHalfOpen
      then st\<lparr>cb_probeInFlight := False\<rparr> else st)"

section \<open>The middleware\<close>

definition upd_breaker :: "nat \<Rightarrow> (breaker \<Rightarrow> breaker) \<Rightarrow> ('h, 'x) world_scheme \<Rightarrow> ('h, 'x) world_scheme" where
  "upd_breaker b f w = w\<lparr>w_breakers := (w_breakers w)(b := f (w_breakers w b))\<rparr>"

text \<open>The wrapped call; a panic of \<open>next\<close> or of \<open>isFailure\<close> abandons the admission on its way out.\<close>

definition breaker_call ::
  "nat \<Rightarrow> int \<Rightarrow> int \<Rightarrow> (gerror \<Rightarrow> (('h, 'x) world_scheme, bool) proc) option \<Rightarrow>
   ('h, 'x, 'req, 'k :: zero, 'r :: zero, 'p :: zero) handler \<Rightarrow> ('h, 'x, 'req, 'k, 'r, 'p) handler" where
  "breaker_call b failureThreshold resetTimeout isFailure next call w =
     (case beforeRequest resetTimeout (time_Now w) (w_breakers w b) of
        (Inl e, st) \<Rightarrow> (Ret (AbortResult, Some e), upd_breaker b (\<lambda>_. st) w)
      | (Inr admission, st) \<Rightarrow>
          (case seq (next call) (\<lambda>(result, e). seq (circuitFailure e isFailure) (\<lambda>failed. ret (result, e, failed)))
                  (upd_breaker b (\<lambda>_. st) w) of
             (Panic, w1) \<Rightarrow> (Panic, upd_breaker b (abandon admission) w1)
           | (Ret (result, e, failed), w1) \<Rightarrow>
               (Ret (result, e), upd_breaker b (afterRequest admission e failed failureThreshold (time_Now w1)) w1)))"

definition new_breaker :: breaker where
  "new_breaker = \<lparr>cb_failures = 0, cb_state = cbClosed, cb_openedAt = 0, cb_probeInFlight = False, cb_generation = 0\<rparr>"

definition CircuitBreaker ::
  "int \<Rightarrow> int \<Rightarrow> (gerror \<Rightarrow> (('h, 'x) world_scheme, bool) proc) option \<Rightarrow> ('h, 'x) world_scheme \<Rightarrow>
   ('h, 'x, 'req, 'k :: zero, 'r :: zero, 'p :: zero) middleware \<times> ('h, 'x) world_scheme" where
  "CircuitBreaker failureThreshold resetTimeout isFailure w =
     (if failureThreshold < 1
      then (\<lambda>_. Some (invalidRouteHandler (configError ''circuit breaker failure threshold must be at least 1'')), w)
      else if resetTimeout < 0
      then (\<lambda>_. Some (invalidRouteHandler (configError ''circuit breaker reset timeout must be non-negative'')), w)
      else (\<lambda>next. case next of
              None \<Rightarrow> Some (invalidRouteHandler (configError ''circuit breaker middleware requires non-nil next route handler''))
            | Some h \<Rightarrow> Some (breaker_call (w_fresh w) failureThreshold resetTimeout isFailure h),
            w\<lparr>w_breakers := (w_breakers w)(w_fresh w := new_breaker), w_fresh := Suc (w_fresh w)\<rparr>))"

section \<open>All calls of one breaker\<close>

text \<open>
  The breaker with the admissions that are outstanding; \<open>bm_total\<close> counts how often the generation was incremented.
  Any number of calls may be between \<open>beforeRequest\<close> and \<open>afterRequest\<close> (or \<open>abandon\<close>) at the same time, and every
  step reads a clock of its own.
\<close>

record breaker_machine =
  bm_breaker :: breaker
  bm_flying :: "circuit_admission multiset"
  bm_total :: nat

definition generations :: "breaker \<Rightarrow> breaker \<Rightarrow> nat" where
  "generations a b = unat (cb_generation b - cb_generation a)"

inductive breaker_step :: "int \<Rightarrow> int \<Rightarrow> breaker_machine \<Rightarrow> breaker_machine \<Rightarrow> bool"
  for threshold resetTimeout where
  call_rejected: "beforeRequest resetTimeout now (bm_breaker s) = (Inl e, st) \<Longrightarrow>
    breaker_step threshold resetTimeout s (s\<lparr>bm_breaker := st, bm_total := bm_total s + generations (bm_breaker s) st\<rparr>)"
| call_admitted: "beforeRequest resetTimeout now (bm_breaker s) = (Inr adm, st) \<Longrightarrow>
    breaker_step threshold resetTimeout s (s\<lparr>bm_breaker := st, bm_flying := add_mset adm (bm_flying s),
      bm_total := bm_total s + generations (bm_breaker s) st\<rparr>)"
| call_finished: "adm \<in># bm_flying s \<Longrightarrow> st = afterRequest adm e failed threshold now (bm_breaker s) \<Longrightarrow>
    breaker_step threshold resetTimeout s (s\<lparr>bm_breaker := st, bm_flying := bm_flying s - {#adm#},
      bm_total := bm_total s + generations (bm_breaker s) st\<rparr>)"
| call_panicked: "adm \<in># bm_flying s \<Longrightarrow> st = abandon adm (bm_breaker s) \<Longrightarrow>
    breaker_step threshold resetTimeout s (s\<lparr>bm_breaker := st, bm_flying := bm_flying s - {#adm#},
      bm_total := bm_total s + generations (bm_breaker s) st\<rparr>)"

definition start_breaker :: "breaker_machine \<Rightarrow> bool" where
  "start_breaker s \<longleftrightarrow> s = \<lparr>bm_breaker = new_breaker, bm_flying = {#}, bm_total = 0\<rparr>"

text \<open>The outstanding admissions of the current generation.\<close>

definition current :: "breaker_machine \<Rightarrow> circuit_admission multiset" where
  "current s = filter_mset (\<lambda>a. ca_generation a = cb_generation (bm_breaker s)) (bm_flying s)"

definition breaker_wf :: "int \<Rightarrow> breaker \<Rightarrow> bool" where
  "breaker_wf threshold st \<longleftrightarrow> 0 \<le> cb_failures st \<and> cb_failures st < threshold
     \<and> (cb_state st \<noteq> cbClosed \<longrightarrow> cb_failures st = 0) \<and> (cb_probeInFlight st \<longrightarrow> cb_state st = cbHalfOpen)"

definition breaker_inv :: "int \<Rightarrow> breaker_machine \<Rightarrow> bool" where
  "breaker_inv threshold s \<longleftrightarrow> breaker_wf threshold (bm_breaker s) \<and> (bm_total s < 2 ^ 64 \<longrightarrow>
     unat (cb_generation (bm_breaker s)) = bm_total s
     \<and> (\<forall>a \<in># bm_flying s. unat (ca_generation a) \<le> bm_total s)
     \<and> (if cb_state (bm_breaker s) = cbClosed then \<forall>a \<in># current s. \<not> ca_probe a
        else current s = (if cb_probeInFlight (bm_breaker s)
               then {#\<lparr>ca_generation = cb_generation (bm_breaker s), ca_probe = True\<rparr>#} else {#})))"

section \<open>The breaker alone\<close>

lemma beforeRequest_wf:
  "breaker_wf threshold st \<Longrightarrow> beforeRequest resetTimeout now st = (r, st') \<Longrightarrow> breaker_wf threshold st'"
  by (auto simp: beforeRequest_def breaker_wf_def Let_def split: if_splits)

lemma afterRequest_wf:
  "breaker_wf threshold st \<Longrightarrow> breaker_wf threshold (afterRequest adm e failed threshold now st)"
  by (auto simp: afterRequest_def breaker_wf_def open_breaker_def Let_def)

lemma abandon_wf: "breaker_wf threshold st \<Longrightarrow> breaker_wf threshold (abandon adm st)"
  by (auto simp: abandon_def breaker_wf_def)

text \<open>What each method does, as cases.\<close>

lemma beforeRequest_rejects:
  assumes "beforeRequest resetTimeout now st = (Inl e, st')" "breaker_wf threshold st"
  shows "st' = st \<and> e = ErrCircuitOpen \<and> (cb_state st = cbOpen \<and> now - cb_openedAt st < resetTimeout
     \<or> cb_state st = cbHalfOpen \<and> cb_probeInFlight st)"
  using assms by (auto simp: beforeRequest_def Let_def breaker_wf_def split: if_splits)

lemma beforeRequest_admits:
  assumes "beforeRequest resetTimeout now st = (Inr adm, st')"
  obtains (closed) "cb_state st = cbClosed" "st' = st" "adm = \<lparr>ca_generation = cb_generation st, ca_probe = False\<rparr>"
  | (probe) k where "cb_state st \<noteq> cbClosed" "k = (if cb_state st = cbOpen then 2 else 1 :: nat)"
      "\<not> cb_probeInFlight st" "cb_state st = cbOpen \<longrightarrow> resetTimeout \<le> now - cb_openedAt st"
      "st' = st\<lparr>cb_state := cbHalfOpen, cb_probeInFlight := True, cb_generation := cb_generation st + of_nat k\<rparr>"
      "adm = \<lparr>ca_generation = cb_generation st + of_nat k, ca_probe = True\<rparr>"
  using assms by (cases "cb_state st") (auto simp: beforeRequest_def Let_def split: if_splits)

lemma afterRequest_cases:
  obtains (same) "afterRequest adm e failed threshold now st = st"
    and "ca_generation adm \<noteq> cb_generation st \<or> ca_probe adm \<and> (cb_state st \<noteq> cbHalfOpen \<or> \<not> cb_probeInFlight st)
         \<or> \<not> ca_probe adm \<and> cb_state st \<noteq> cbClosed"
  | (reset) n where "ca_generation adm = cb_generation st" "\<not> ca_probe adm" "cb_state st = cbClosed"
      "afterRequest adm e failed threshold now st = st\<lparr>cb_failures := n\<rparr>"
  | (released) "ca_generation adm = cb_generation st" "ca_probe adm" "cb_state st = cbHalfOpen" "cb_probeInFlight st"
      "afterRequest adm e failed threshold now st = st\<lparr>cb_probeInFlight := False\<rparr>"
  | (advanced) "ca_generation adm = cb_generation st"
      "cb_generation (afterRequest adm e failed threshold now st) = cb_generation st + 1"
      "\<not> cb_probeInFlight (afterRequest adm e failed threshold now st)"
proof -
  have "ca_generation adm \<noteq> cb_generation st \<Longrightarrow> ?thesis"
    by (rule same) (simp_all add: afterRequest_def)
  moreover have ?thesis if "ca_generation adm = cb_generation st" "ca_probe adm"
  proof (cases "cb_state st = cbHalfOpen \<and> cb_probeInFlight st")
    case True
    then show ?thesis using that released advanced
      by (cases "e = None \<or> failed") (auto simp: afterRequest_def open_breaker_def Let_def)
  next
    case False
    then show ?thesis using that by (intro same) (auto simp: afterRequest_def)
  qed
  moreover have ?thesis if "ca_generation adm = cb_generation st" "\<not> ca_probe adm"
  proof (cases "cb_state st = cbClosed")
    case True
    consider "failed" "cb_failures st + 1 \<ge> threshold" | "\<not> failed" | "failed" "\<not> cb_failures st + 1 \<ge> threshold"
      by blast
    then show ?thesis
    proof cases
      case 1
      then show ?thesis using that True by (intro advanced) (simp_all add: afterRequest_def open_breaker_def)
    next
      case 2
      then show ?thesis using that True by (intro reset [of 0]) (simp_all add: afterRequest_def)
    next
      case 3
      then show ?thesis using that True by (intro reset [of "cb_failures st + 1"]) (simp_all add: afterRequest_def)
    qed
  next
    case False
    then show ?thesis using that by (intro same) (auto simp: afterRequest_def)
  qed
  ultimately show ?thesis by blast
qed

section \<open>The invariant is kept\<close>

lemma generations_same [simp]: "cb_generation b = cb_generation a \<Longrightarrow> generations a b = 0"
  by (simp add: generations_def)

lemma generations_add: "cb_generation b = cb_generation a + of_nat k \<Longrightarrow> k < 2 ^ 64 \<Longrightarrow> generations a b = k"
  by (simp add: generations_def unat_of_nat take_bit_nat_eq_self)

lemma fresh_generation:
  fixes g :: "64 word"
  assumes "unat g = t" "t + k < 2 ^ 64" "0 < k" "\<forall>a \<in># fl. unat (ca_generation a) \<le> t"
  shows "unat (g + of_nat k) = t + k \<and> filter_mset (\<lambda>a. ca_generation a = g + of_nat k) fl = {#}"
proof -
  have g: "unat (g + of_nat k) = t + k"
    using assms by (simp add: unat_word_ariths unat_of_nat take_bit_nat_eq_self)
  have "ca_generation a \<noteq> g + of_nat k" if "a \<in># fl" for a
    using assms(3,4) that g by force
  then show ?thesis using g by (auto simp flip: set_mset_eq_empty_iff)
qed

lemma breaker_inv_advanced:
  assumes inv: "breaker_inv threshold s" and wf: "breaker_wf threshold st" and sub: "fl \<subseteq># bm_flying s"
    and k: "cb_generation st = cb_generation (bm_breaker s) + of_nat k" "0 < k" "k < 2 ^ 64"
    and new: "new = {#} \<and> \<not> cb_probeInFlight st \<or>
      cb_state st = cbHalfOpen \<and> cb_probeInFlight st \<and> new = {#\<lparr>ca_generation = cb_generation st, ca_probe = True\<rparr>#}"
  shows "breaker_inv threshold (s\<lparr>bm_breaker := st, bm_flying := new + fl, bm_total := bm_total s + generations (bm_breaker s) st\<rparr>)"
proof -
  have gen: "generations (bm_breaker s) st = k" using k generations_add by blast
  have "unat (cb_generation st) = bm_total s + k \<and> filter_mset (\<lambda>a. ca_generation a = cb_generation st) fl = {#}
      \<and> (\<forall>a \<in># fl. unat (ca_generation a) \<le> bm_total s + k)" if "bm_total s + k < 2 ^ 64"
  proof -
    have "unat (cb_generation (bm_breaker s)) = bm_total s" "\<forall>a \<in># fl. unat (ca_generation a) \<le> bm_total s"
      using inv that sub mset_subset_eqD by (fastforce simp: breaker_inv_def)+
    with fresh_generation [OF this(1) that k(2) this(2)] k(1) show ?thesis by auto
  qed
  then show ?thesis
    using wf gen new by (auto simp: breaker_inv_def current_def)
qed

lemma current_minus: "current (s\<lparr>bm_breaker := st, bm_flying := bm_flying s - {#a#}, bm_total := t\<rparr>) =
   filter_mset (\<lambda>a. ca_generation a = cb_generation st) (bm_flying s) -
   filter_mset (\<lambda>a. ca_generation a = cb_generation st) {#a#}"
  by (simp add: current_def)

text \<open>A step that removes an admission and leaves the generation alone.\<close>

lemma breaker_inv_removed:
  assumes inv: "breaker_inv threshold s" and wf: "breaker_wf threshold st" and a: "a \<in># bm_flying s"
    and gen: "cb_generation st = cb_generation (bm_breaker s)" and state: "cb_state st = cb_state (bm_breaker s)"
    and probe: "cb_probeInFlight st = cb_probeInFlight (bm_breaker s)
       \<and> (ca_generation a \<noteq> cb_generation st \<or> cb_state st = cbClosed \<or> \<not> cb_probeInFlight st \<or> \<not> ca_probe a)
     \<or> \<not> cb_probeInFlight st \<and> ca_generation a = cb_generation st"
  shows "breaker_inv threshold (s\<lparr>bm_breaker := st, bm_flying := bm_flying s - {#a#},
     bm_total := bm_total s + generations (bm_breaker s) st\<rparr>)"
proof (cases "bm_total s < 2 ^ 64")
  case True
  have cur: "current (s\<lparr>bm_breaker := st, bm_flying := bm_flying s - {#a#}, bm_total := t\<rparr>) =
      (if ca_generation a = cb_generation st then current s - {#a#} else current s)" for t
    using gen by (simp add: current_def)
  have le: "\<forall>b \<in># bm_flying s - {#a#}. unat (ca_generation b) \<le> bm_total s"
    using inv True by (auto simp: breaker_inv_def dest: in_diffD)
  have mem: "a \<in># current s" if "ca_generation a = cb_generation st" using that a gen by (simp add: current_def)
  show ?thesis
  proof (cases "cb_state st = cbClosed")
    case closed: True
    have "\<forall>b \<in># current s. \<not> ca_probe b" using inv True closed state by (simp add: breaker_inv_def)
    then have "\<forall>b \<in># current s - {#a#}. \<not> ca_probe b" by (auto dest: in_diffD)
    then show ?thesis
      using inv True wf gen closed le \<open>\<forall>b \<in># current s. \<not> ca_probe b\<close>
      unfolding breaker_inv_def cur by simp
  next
    case False
    have c: "current s = (if cb_probeInFlight (bm_breaker s)
        then {#\<lparr>ca_generation = cb_generation (bm_breaker s), ca_probe = True\<rparr>#} else {#})"
      using inv True False state by (simp add: breaker_inv_def)
    then have "(if ca_generation a = cb_generation st then current s - {#a#} else current s)
        = (if cb_probeInFlight st then {#\<lparr>ca_generation = cb_generation st, ca_probe = True\<rparr>#} else {#})"
      using mem probe gen False by (auto split: if_splits)
    then show ?thesis
      using inv True wf gen False le unfolding breaker_inv_def cur by simp
  qed
next
  case False
  then show ?thesis using wf by (simp add: breaker_inv_def)
qed

lemma breaker_inv_step:
  assumes inv: "breaker_inv threshold s" and step: "breaker_step threshold resetTimeout s t"
  shows "breaker_inv threshold t"
  using step
proof cases
  case (call_rejected now e st)
  have "breaker_wf threshold (bm_breaker s)" using inv by (simp add: breaker_inv_def)
  then have "st = bm_breaker s" using beforeRequest_rejects [OF call_rejected(2)] by blast
  then have "t = s" using call_rejected(1) by simp
  then show ?thesis using inv by simp
next
  case (call_admitted now adm st)
  have wf: "breaker_wf threshold st" using beforeRequest_wf call_admitted(2) inv by (auto simp: breaker_inv_def)
  from call_admitted(2) show ?thesis
  proof (cases rule: beforeRequest_admits)
    case closed
    then show ?thesis using inv call_admitted(1) by (auto simp: breaker_inv_def current_def)
  next
    case (probe k)
    then show ?thesis
      using breaker_inv_advanced [OF inv wf, of "bm_flying s" k "{#adm#}"] call_admitted(1) by simp
  qed
next
  case (call_finished adm st e failed now)
  have wf: "breaker_wf threshold st" using afterRequest_wf call_finished(3) inv by (simp add: breaker_inv_def)
  show ?thesis
  proof (cases rule: afterRequest_cases [of adm e failed threshold now "bm_breaker s"])
    case same
    then show ?thesis
      using breaker_inv_removed [OF inv wf call_finished(2)] call_finished wf by (auto simp: breaker_wf_def)
  next
    case (reset n)
    then show ?thesis using breaker_inv_removed [OF inv wf call_finished(2)] call_finished by simp
  next
    case released
    then show ?thesis using breaker_inv_removed [OF inv wf call_finished(2)] call_finished by simp
  next
    case advanced
    then show ?thesis
      using breaker_inv_advanced [OF inv wf, of "bm_flying s - {#adm#}" 1 "{#}"] call_finished by simp
  qed
next
  case (call_panicked adm st)
  have wf: "breaker_wf threshold st" using abandon_wf call_panicked(3) inv by (simp add: breaker_inv_def)
  have "cb_generation st = cb_generation (bm_breaker s)" "cb_state st = cb_state (bm_breaker s)"
    using call_panicked(3) by (auto simp: abandon_def)
  moreover have "cb_probeInFlight st = cb_probeInFlight (bm_breaker s)
       \<and> (ca_generation adm \<noteq> cb_generation st \<or> cb_state st = cbClosed \<or> \<not> cb_probeInFlight st \<or> \<not> ca_probe adm)
     \<or> \<not> cb_probeInFlight st \<and> ca_generation adm = cb_generation st"
    using call_panicked(3) wf by (auto simp: abandon_def breaker_wf_def)
  ultimately show ?thesis
    using breaker_inv_removed [OF inv wf call_panicked(2)] call_panicked(1) by simp
qed

lemma breaker_inv_start: "1 \<le> threshold \<Longrightarrow> start_breaker s \<Longrightarrow> breaker_inv threshold s"
  by (simp add: start_breaker_def breaker_inv_def breaker_wf_def new_breaker_def current_def)

interpretation breaker_system:
  invariant_system "\<lambda>s. 1 \<le> threshold \<and> start_breaker s" "breaker_step threshold resetTimeout" "breaker_inv threshold"
  for threshold resetTimeout
  by unfold_locales (auto intro: breaker_inv_start breaker_inv_step)

section \<open>Consecutive failures\<close>

text \<open>Results of calls admitted in one closed generation \<open>g\<close>, in the order in which they come back, with their clocks.\<close>

fun report :: "64 word \<Rightarrow> int \<Rightarrow> (bool \<times> int) list \<Rightarrow> breaker \<Rightarrow> breaker" where
  "report g threshold [] st = st"
| "report g threshold ((failed, now) # rs) st =
     report g threshold rs (afterRequest \<lparr>ca_generation = g, ca_probe = False\<rparr>
       (if failed then Some (HostError 0 []) else None) failed threshold now st)"

lemma report_stale: "cb_generation st \<noteq> g \<Longrightarrow> report g threshold rs st = st"
  by (induction rs) (auto simp: afterRequest_def)

lemma report_opens:
  assumes "cb_state st = cbClosed" "0 \<le> cb_failures st" "cb_failures st < threshold"
  shows "cb_state (report (cb_generation st) threshold rs st) = cbOpen \<longleftrightarrow>
     prefix (replicate (nat (threshold - cb_failures st)) True) (map fst rs) \<or>
     sublist (replicate (nat threshold) True) (map fst rs)"
  using assms
proof (induction rs arbitrary: st)
  case (Cons r rs)
  obtain failed now where r: "r = (failed, now)" by fastforce
  let ?n = "nat (threshold - cb_failures st)"
  have th: "0 < nat threshold" "0 < ?n" "?n \<le> nat threshold" using Cons.prems by auto
  show ?case
  proof (cases failed)
    case False
    let ?st = "st\<lparr>cb_failures := 0\<rparr>"
    have "report (cb_generation st) threshold (r # rs) st = report (cb_generation ?st) threshold rs ?st"
      using Cons.prems r False by (simp add: afterRequest_def)
    moreover have "cb_state (report (cb_generation ?st) threshold rs ?st) = cbOpen \<longleftrightarrow>
        prefix (replicate (nat threshold) True) (map fst rs) \<or> sublist (replicate (nat threshold) True) (map fst rs)"
      using Cons.IH [of ?st] Cons.prems by simp
    moreover have "\<not> prefix (replicate k True) (False # xs)" if "0 < k" for k and xs :: "bool list"
      using that by (cases k) auto
    ultimately show ?thesis
      using th r False prefix_imp_sublist by (auto simp: sublist_Cons_right)
  next
    case True
    let ?st = "st\<lparr>cb_failures := cb_failures st + 1\<rparr>"
    have pre: "prefix (replicate (nat threshold) True) (True # xs) \<Longrightarrow> prefix (replicate ?n True) (True # xs)"
      for xs :: "bool list"
      using th(3) by (metis le_add_diff_inverse prefix_order.trans prefixI replicate_add)
    show ?thesis
    proof (cases "cb_failures st + 1 \<ge> threshold")
      case open_now: True
      then have one: "?n = 1" using Cons.prems by simp
      have "report (cb_generation st) threshold (r # rs) st = report (cb_generation st) threshold rs (open_breaker now ?st)"
        using Cons.prems r True open_now by (simp add: afterRequest_def)
      also have "\<dots> = open_breaker now ?st" by (rule report_stale) (simp add: open_breaker_def)
      finally show ?thesis using one r True by (simp add: open_breaker_def)
    next
      case False
      have "report (cb_generation st) threshold (r # rs) st = report (cb_generation ?st) threshold rs ?st"
        using Cons.prems r True False by (simp add: afterRequest_def)
      moreover have "cb_state (report (cb_generation ?st) threshold rs ?st) = cbOpen \<longleftrightarrow>
          prefix (replicate (nat (threshold - (cb_failures st + 1))) True) (map fst rs)
          \<or> sublist (replicate (nat threshold) True) (map fst rs)"
        using Cons.IH [of ?st] Cons.prems False by simp
      moreover have "?n = Suc (nat (threshold - (cb_failures st + 1)))" using False by simp
      ultimately show ?thesis using r True pre by (auto simp: sublist_Cons_right)
    qed
  qed
qed simp

section \<open>Properties\<close>

text \<open>
  C38 (safety). In every interleaving of calls through one breaker (with less than \<open>2 ^ 64\<close> generations), at most one
  probe of the current generation is outstanding; while it is, the breaker is half open and every further call is
  rejected with \<open>ErrCircuitOpen\<close> without changing it. Its failure count stays below the threshold.
\<close>

theorem circuit_breaker_single_probe:
  assumes "1 \<le> threshold" "start_breaker s0" "reaches (breaker_step threshold resetTimeout) s0 s" "bm_total s < 2 ^ 64"
  shows "size (filter_mset ca_probe (current s)) \<le> 1 \<and> cb_failures (bm_breaker s) < threshold
    \<and> (filter_mset ca_probe (current s) \<noteq> {#} \<longrightarrow> cb_state (bm_breaker s) = cbHalfOpen
         \<and> (\<forall>now. beforeRequest resetTimeout now (bm_breaker s) = (Inl ErrCircuitOpen, bm_breaker s)))"
proof -
  have inv: "breaker_inv threshold s" using breaker_system.reachable_inv assms by blast
  then have wf: "breaker_wf threshold (bm_breaker s)" by (simp add: breaker_inv_def)
  show ?thesis
  proof (cases "cb_state (bm_breaker s) = cbClosed")
    case True
    then have none: "filter_mset ca_probe (current s) = {#}" using inv assms(4) by (simp add: breaker_inv_def)
    have "cb_failures (bm_breaker s) < threshold" using wf by (simp add: breaker_wf_def)
    then show ?thesis unfolding none by simp
  next
    case False
    then have c: "current s = (if cb_probeInFlight (bm_breaker s)
        then {#\<lparr>ca_generation = cb_generation (bm_breaker s), ca_probe = True\<rparr>#} else {#})"
      using inv assms(4) by (simp add: breaker_inv_def)
    show ?thesis using wf unfolding c by (auto simp: breaker_wf_def beforeRequest_def)
  qed
qed

text \<open>
  Once a breaker is open, nothing that was admitted before can touch it: neither the result nor the panic of
  any outstanding call changes it, and until the reset timeout has passed every call is rejected; after it, the next call
  is admitted as a probe.
\<close>

theorem circuit_breaker_open_is_isolated:
  assumes "1 \<le> threshold" "start_breaker s0" "reaches (breaker_step threshold resetTimeout) s0 s" "bm_total s < 2 ^ 64"
    and "cb_state (bm_breaker s) = cbOpen"
  shows "(\<forall>a \<in># bm_flying s. \<forall>e failed now. afterRequest a e failed threshold now (bm_breaker s) = bm_breaker s
            \<and> abandon a (bm_breaker s) = bm_breaker s)
    \<and> (\<forall>now. if now - cb_openedAt (bm_breaker s) < resetTimeout
         then beforeRequest resetTimeout now (bm_breaker s) = (Inl ErrCircuitOpen, bm_breaker s)
         else \<exists>adm st. beforeRequest resetTimeout now (bm_breaker s) = (Inr adm, st) \<and> ca_probe adm
                \<and> cb_state st = cbHalfOpen \<and> cb_probeInFlight st)"
proof -
  have inv: "breaker_inv threshold s" using breaker_system.reachable_inv assms by blast
  then have "\<not> cb_probeInFlight (bm_breaker s)" using assms(5) by (auto simp: breaker_inv_def breaker_wf_def)
  moreover from this have "current s = {#}" using inv assms(4,5) by (simp add: breaker_inv_def)
  then have "ca_generation a \<noteq> cb_generation (bm_breaker s)" if "a \<in># bm_flying s" for a
    using that by (auto simp: current_def)
  ultimately show ?thesis using assms(5) by (auto simp: afterRequest_def abandon_def beforeRequest_def Let_def)
qed

text \<open>
  C39 (functional). A closed breaker opens on the results of the calls it admitted exactly when \<open>failureThreshold\<close> of
  them in a row were failures.
\<close>

theorem circuit_breaker_opens_iff_consecutive_failures:
  assumes "1 \<le> threshold"
  shows "cb_state (report 0 threshold rs new_breaker) = cbOpen \<longleftrightarrow> sublist (replicate (nat threshold) True) (map fst rs)"
  using report_opens [of new_breaker threshold rs] assms prefix_imp_sublist by (auto simp: new_breaker_def)

theorem circuit_breaker_opens_iff_consecutive_failures_witness:
  "cb_state (report 0 2 [(True, 5), (False, 6), (True, 7), (True, 8)] new_breaker) = cbOpen"
proof -
  have "map fst [(True, 5), (False, 6), (True, 7), (True, 8 :: int)] = [True, False] @ replicate (nat 2) True @ []"
    by (simp add: numeral_2_eq_2)
  then have "sublist (replicate (nat 2) True) (map fst [(True, 5), (False, 6), (True, 7), (True, 8 :: int)])"
    unfolding sublist_def by blast
  then show ?thesis by (simp only: circuit_breaker_opens_iff_consecutive_failures [of 2] one_le_numeral)
qed

text \<open>One call fails and opens a breaker with threshold 1; after the reset timeout of 5 another becomes the probe.\<close>

definition first_call :: circuit_admission where
  "first_call = \<lparr>ca_generation = 0, ca_probe = False\<rparr>"

definition opened_machine :: breaker_machine where
  "opened_machine = \<lparr>bm_breaker = \<lparr>cb_failures = 0, cb_state = cbOpen, cb_openedAt = 10, cb_probeInFlight = False,
     cb_generation = 1\<rparr>, bm_flying = {#first_call#}, bm_total = 1\<rparr>"

definition probing_machine :: breaker_machine where
  "probing_machine = \<lparr>bm_breaker = \<lparr>cb_failures = 0, cb_state = cbHalfOpen, cb_openedAt = 10, cb_probeInFlight = True,
     cb_generation = 3\<rparr>, bm_flying = {#\<lparr>ca_generation = 3, ca_probe = True\<rparr>, first_call#}, bm_total = 3\<rparr>"

definition idle_machine :: breaker_machine where
  "idle_machine = \<lparr>bm_breaker = new_breaker, bm_flying = {#}, bm_total = 0\<rparr>"

lemma opened_machine_run: "reaches (breaker_step 1 5) idle_machine opened_machine"
proof -
  let ?one = "idle_machine\<lparr>bm_flying := {#first_call#}\<rparr>" and ?two = "idle_machine\<lparr>bm_flying := {#first_call, first_call#}\<rparr>"
  have admit: "beforeRequest 5 0 new_breaker = (Inr first_call, new_breaker)"
    by (simp add: beforeRequest_def new_breaker_def first_call_def)
  have "breaker_step 1 5 idle_machine ?one"
    using call_admitted [of 5 0 idle_machine first_call new_breaker 1] admit by (simp add: idle_machine_def)
  moreover have "breaker_step 1 5 ?one ?two"
    using call_admitted [of 5 0 ?one first_call new_breaker 1] admit by (simp add: idle_machine_def)
  moreover have "breaker_step 1 5 ?two opened_machine"
    using call_finished [of first_call ?two _ "Some (HostError 0 [])" True 1 10 5]
    by (simp add: idle_machine_def opened_machine_def afterRequest_def open_breaker_def new_breaker_def first_call_def
        generations_def)
  ultimately show ?thesis by (meson reaches.intros)
qed

lemma probing_machine_run: "reaches (breaker_step 1 5) idle_machine probing_machine"
proof -
  have "breaker_step 1 5 opened_machine probing_machine"
    using call_admitted [of 5 20 opened_machine "\<lparr>ca_generation = 3, ca_probe = True\<rparr>" "bm_breaker probing_machine" 1]
    by (simp add: opened_machine_def probing_machine_def beforeRequest_def generations_def numeral_3_eq_3)
  then show ?thesis using opened_machine_run reaches_step by metis
qed

lemma idle_machine_start: "start_breaker idle_machine"
  by (simp add: start_breaker_def idle_machine_def)

theorem circuit_breaker_single_probe_witness:
  "\<forall>now. beforeRequest 5 now (bm_breaker probing_machine) = (Inl ErrCircuitOpen, bm_breaker probing_machine)"
  using circuit_breaker_single_probe [OF _ idle_machine_start probing_machine_run]
  by (simp add: probing_machine_def current_def)

theorem circuit_breaker_open_is_isolated_witness:
  "afterRequest first_call None False 1 12 (bm_breaker opened_machine) = bm_breaker opened_machine"
  using circuit_breaker_open_is_isolated [OF _ idle_machine_start opened_machine_run]
  by (simp add: opened_machine_def)

end
