(* ===== verification/Bulkhead.thy ===== *)
theory Bulkhead
  imports Handlers
begin

text \<open>
  \<open>bulkhead.go\<close>: the semaphore around a handler. The channel is a \<open>semaphore\<close> with its capacity and the number of
  elements in it. A call is defined by the parts between which other goroutines may run, and the machine at the end is built
  from these parts. When \<open>select\<close> finds both a free place and a cancelled context, either may be taken; the scheduler's
  choice at that step decides.
\<close>

section \<open>The middleware\<close>

definition acquire_permit :: "nat \<Rightarrow> ('h, 'x) world_scheme \<Rightarrow> ('h, 'x) world_scheme" where
  "acquire_permit s w = w\<lparr>w_semas := (w_semas w)(s := (w_semas w s)\<lparr>sm_used := sm_used (w_semas w s) + 1\<rparr>)\<rparr>"

text \<open>\<open>Err()\<close> and the \<open>select\<close>: the call is turned away with an error, or let in with a permit.\<close>

datatype select_verdict = TurnedAway err | LetIn

definition bulkhead_select :: "nat \<Rightarrow> ctx \<Rightarrow> (('h, 'x) world_scheme, select_verdict) proc" where
  "bulkhead_select sema ctx =
     seq (ctx_Err ctx) (\<lambda>ce w.
       case ce of
         Some x \<Rightarrow> (Ret (TurnedAway (Some x)), w)
       | None \<Rightarrow>
           let free = sm_used (w_semas w sema) < sm_limit (w_semas w sema);
               cancelled = ctx_err (tick w) ctx \<noteq> None
           in if free \<and> (\<not> cancelled \<or> even (w_rand w (w_step w)))
              then (Ret LetIn, acquire_permit sema (tick w))
              else if cancelled then seq (ctx_Err ctx) (\<lambda>e. ret (TurnedAway e)) w
              else (Ret (TurnedAway (Some ErrBulkheadFull)), tick w))"

text \<open>
  \<open>invokeWithPermit\<close> in two parts around \<open>next\<close>. The deferred function gives the permit back on every way out that has not
  handed it to the lifetime: in the first part, when the context is done, and in the second after a panic and for a result
  without a lifetime.
\<close>

definition permit_check :: "nat \<Rightarrow> ctx \<Rightarrow> (('h, 'x) world_scheme, err) proc" where
  "permit_check sema ctx w =
     (case ctx_Err ctx w of
        (Ret (Some x), w1) \<Rightarrow> (Ret (Some x), release_permit sema w1)
      | (Panic, w1) \<Rightarrow> (Panic, release_permit sema w1)
      | (Ret None, w1) \<Rightarrow> (Ret None, w1))"

definition permit_leave ::
  "('h \<Rightarrow> (('h, 'x) world_scheme, err) proc) \<Rightarrow> nat \<Rightarrow> (('k, 'r, 'p) route_result \<times> err) outcome \<Rightarrow>
   (('h, 'x) world_scheme, ('k, 'r, 'p) route_result \<times> err) proc" where
  "permit_leave hostfn sema v w =
     (case v of
        Panic \<Rightarrow> (Panic, release_permit sema w)
      | Ret (result, e) \<Rightarrow>
          (case res_Lifetime result of
             None \<Rightarrow> (Ret (result, e), release_permit sema w)
           | Some l \<Rightarrow> seq (OnClose hostfn (Some l) (Some (ReleasePermit sema))) (\<lambda>_. ret (result, e)) w))"

definition invokeWithPermit ::
  "('h \<Rightarrow> (('h, 'x) world_scheme, err) proc) \<Rightarrow> 'req route_call \<Rightarrow>
   ('h, 'x, 'req, 'k :: zero, 'r :: zero, 'p :: zero) handler \<Rightarrow> nat \<Rightarrow>
   (('h, 'x) world_scheme, ('k, 'r, 'p) route_result \<times> err) proc" where
  "invokeWithPermit hostfn call next sema =
     seq (permit_check sema (rc_Context call)) (\<lambda>e w.
       case e of
         Some x \<Rightarrow> (Ret (AbortResult, Some x), w)
       | None \<Rightarrow> (case next call w of (v, w1) \<Rightarrow> permit_leave hostfn sema v w1))"

definition bulkhead_call ::
  "('h \<Rightarrow> (('h, 'x) world_scheme, err) proc) \<Rightarrow> nat \<Rightarrow>
   ('h, 'x, 'req, 'k :: zero, 'r :: zero, 'p :: zero) handler \<Rightarrow> ('h, 'x, 'req, 'k, 'r, 'p) handler" where
  "bulkhead_call hostfn sema next call =
     seq (bulkhead_select sema (rc_Context call)) (\<lambda>a.
       case a of
         TurnedAway e \<Rightarrow> ret (AbortResult, e)
       | LetIn \<Rightarrow> invokeWithPermit hostfn call next sema)"

definition Bulkhead ::
  "('h \<Rightarrow> (('h, 'x) world_scheme, err) proc) \<Rightarrow> int \<Rightarrow> ('h, 'x) world_scheme \<Rightarrow>
   ('h, 'x, 'req, 'k :: zero, 'r :: zero, 'p :: zero) middleware \<times> ('h, 'x) world_scheme" where
  "Bulkhead hostfn limit w =
     (if limit \<le> 0 then (\<lambda>_. Some (invalidRouteHandler (configError ''bulkhead limit must be positive'')), w)
      else (\<lambda>next. case next of
              None \<Rightarrow> Some (invalidRouteHandler (configError ''bulkhead middleware requires non-nil next route handler''))
            | Some h \<Rightarrow> Some (bulkhead_call hostfn (w_fresh w) h),
            w\<lparr>w_semas := (w_semas w)(w_fresh w := \<lparr>sm_limit = nat limit, sm_used = 0\<rparr>), w_fresh := Suc (w_fresh w)\<rparr>))"

section \<open>Calls at the same time\<close>

text \<open>
  Any number of calls of one bulkhead as goroutines on one world. A goroutine is before the \<open>select\<close>, before the look at the
  context, inside the wrapped handler, or has returned; its steps are the three parts above, in the order in which
  \<open>bulkhead_call\<close> runs them. Lifetimes are closed at any time, each in one step (\<open>Lifetime_Machine\<close> has the steps inside), and \<open>others\<close> is everything else that happens, the wrapped
  handlers included: it leaves this semaphore alone and neither adds nor removes a hook that gives back one of its permits.
\<close>

datatype ('req, 'k, 'r, 'p) bulkhead_phase =
    Arriving "'req route_call"
  | Permitted "'req route_call"
  | Inside
  | Returned "(('k, 'r, 'p) route_result \<times> err) outcome"

record ('h, 'x, 'req, 'k, 'r, 'p) bulkhead_machine =
  bm_world :: "('h, 'x) world_scheme"
  bm_calls :: "('req, 'k, 'r, 'p) bulkhead_phase list"

text \<open>The hooks of each lifetime that give back a permit of the semaphore.\<close>

definition permit_hooks :: "nat \<Rightarrow> ('h, 'x) world_scheme \<Rightarrow> nat \<Rightarrow> nat" where
  "permit_hooks sema w l = count_list (lt_hooks (w_lifes w l)) (ReleasePermit sema)"

definition no_permit_cleanup :: "nat \<Rightarrow> ('h, 'x) world_scheme \<Rightarrow> bool" where
  "no_permit_cleanup sema w \<longleftrightarrow> (\<forall>l. lt_cleanup (w_lifes w l) \<noteq> Some (ReleasePermit sema))"

definition undisturbed :: "nat \<Rightarrow> ('h, 'x) world_scheme \<Rightarrow> ('h, 'x) world_scheme \<Rightarrow> bool" where
  "undisturbed sema w v \<longleftrightarrow> w_semas v sema = w_semas w sema \<and> permit_hooks sema v = permit_hooks sema w \<and>
     (no_permit_cleanup sema w \<longrightarrow> no_permit_cleanup sema v)"

inductive bulkhead_step ::
  "('h \<Rightarrow> (('h, 'x) world_scheme, err) proc) \<Rightarrow> nat \<Rightarrow>
   ('h, 'x, 'req, 'k :: zero, 'r :: zero, 'p :: zero) bulkhead_machine \<Rightarrow> ('h, 'x, 'req, 'k, 'r, 'p) bulkhead_machine \<Rightarrow> bool"
  for hostfn sema where
  selects: "i < length cs \<Longrightarrow> cs ! i = Arriving call \<Longrightarrow> bulkhead_select sema (rc_Context call) w = (Ret a, v) \<Longrightarrow>
    bulkhead_step hostfn sema \<lparr>bm_world = w, bm_calls = cs\<rparr> \<lparr>bm_world = v, bm_calls = cs[i :=
      (case a of TurnedAway e \<Rightarrow> Returned (Ret (AbortResult, e)) | LetIn \<Rightarrow> Permitted call)]\<rparr>"
| checks: "i < length cs \<Longrightarrow> cs ! i = Permitted call \<Longrightarrow> permit_check sema (rc_Context call) w = (Ret e, v) \<Longrightarrow>
    bulkhead_step hostfn sema \<lparr>bm_world = w, bm_calls = cs\<rparr> \<lparr>bm_world = v, bm_calls = cs[i :=
      (case e of Some x \<Rightarrow> Returned (Ret (AbortResult, Some x)) | None \<Rightarrow> Inside)]\<rparr>"
| leaves: "i < length cs \<Longrightarrow> cs ! i = Inside \<Longrightarrow> permit_leave hostfn sema out w = (r, v) \<Longrightarrow>
    bulkhead_step hostfn sema \<lparr>bm_world = w, bm_calls = cs\<rparr> \<lparr>bm_world = v, bm_calls = cs[i := Returned r]\<rparr>"
| closes: "Close hostfn life w = (r, v) \<Longrightarrow>
    bulkhead_step hostfn sema \<lparr>bm_world = w, bm_calls = cs\<rparr> \<lparr>bm_world = v, bm_calls = cs\<rparr>"
| others: "undisturbed sema w v \<Longrightarrow>
    bulkhead_step hostfn sema \<lparr>bm_world = w, bm_calls = cs\<rparr> \<lparr>bm_world = v, bm_calls = cs\<rparr>"

fun holds_permit :: "('req, 'k, 'r, 'p) bulkhead_phase \<Rightarrow> bool" where
  "holds_permit (Arriving call) = False"
| "holds_permit (Permitted call) = True"
| "holds_permit Inside = True"
| "holds_permit (Returned r) = False"

definition calls_inside :: "('req, 'k, 'r, 'p) bulkhead_phase list \<Rightarrow> nat" where
  "calls_inside cs = length (filter holds_permit cs)"

text \<open>The permits that open lifetimes will give back.\<close>

definition outstanding :: "nat \<Rightarrow> ('h, 'x) world_scheme \<Rightarrow> nat" where
  "outstanding sema w = sum (permit_hooks sema w) {l. permit_hooks sema w l \<noteq> 0}"

definition bulkhead_inv :: "nat \<Rightarrow> nat \<Rightarrow> ('h, 'x, 'req, 'k, 'r, 'p) bulkhead_machine \<Rightarrow> bool" where
  "bulkhead_inv sema limit s \<longleftrightarrow>
     sm_limit (w_semas (bm_world s) sema) = limit \<and> sm_used (w_semas (bm_world s) sema) \<le> limit \<and>
     sm_used (w_semas (bm_world s) sema) = calls_inside (bm_calls s) + outstanding sema (bm_world s) \<and>
     finite {l. permit_hooks sema (bm_world s) l \<noteq> 0} \<and> no_permit_cleanup sema (bm_world s)"

definition start_bulkhead :: "nat \<Rightarrow> nat \<Rightarrow> ('h, 'x, 'req, 'k, 'r, 'p) bulkhead_machine \<Rightarrow> bool" where
  "start_bulkhead sema limit s \<longleftrightarrow> w_semas (bm_world s) sema = \<lparr>sm_limit = limit, sm_used = 0\<rparr> \<and>
     permit_hooks sema (bm_world s) = (\<lambda>_. 0) \<and> no_permit_cleanup sema (bm_world s) \<and> (\<forall>c \<in> set (bm_calls s). \<exists>call. c = Arriving call)"

text \<open>The host's closures return and leave the semaphore alone.\<close>

definition permit_neutral :: "nat \<Rightarrow> ('h \<Rightarrow> (('h, 'x) world_scheme, err) proc) \<Rightarrow> bool" where
  "permit_neutral sema hostfn \<longleftrightarrow> (\<forall>h w. \<exists>e v. hostfn h w = (Ret e, v) \<and> undisturbed sema w v)"

interpretation permits_frame: frame_relation "undisturbed sema" for sema
  by unfold_locales (auto simp: undisturbed_def)

lemma calls_inside_update:
  "i < length cs \<Longrightarrow> calls_inside (cs[i := c]) + (if holds_permit (cs ! i) then 1 else 0) =
     calls_inside cs + (if holds_permit c then 1 else 0)"
proof (induction cs arbitrary: i)
  case (Cons b cs)
  then show ?case using Cons.IH [of "i - 1"] by (cases i) (simp_all add: calls_inside_def split: if_splits)
qed simp

lemma sum_support_update:
  fixes f :: "'a \<Rightarrow> nat"
  assumes "finite {l. f l \<noteq> 0}"
  shows "finite {l. (f(k := x)) l \<noteq> 0}" and "sum (f(k := x)) {l. (f(k := x)) l \<noteq> 0} + f k = sum f {l. f l \<noteq> 0} + x"
proof -
  let ?A = "insert k {l. f l \<noteq> 0}"
  have A: "finite ?A" using assms by simp
  show "finite {l. (f(k := x)) l \<noteq> 0}" by (rule finite_subset [OF _ A]) auto
  have "sum (f(k := x)) {l. (f(k := x)) l \<noteq> 0} = sum (f(k := x)) ?A" by (rule sum.mono_neutral_left [OF A]) auto
  also have "\<dots> = x + sum f (?A - {k})" using sum.remove [OF A, of k "f(k := x)"] by simp
  finally have "sum (f(k := x)) {l. (f(k := x)) l \<noteq> 0} = x + sum f (?A - {k})" .
  moreover have "sum f {l. f l \<noteq> 0} = sum f ?A" by (rule sum.mono_neutral_left [OF A]) auto
  moreover have "sum f ?A = f k + sum f (?A - {k})" using sum.remove [OF A, of k f] by simp
  ultimately show "sum (f(k := x)) {l. (f(k := x)) l \<noteq> 0} + f k = sum f {l. f l \<noteq> 0} + x" by simp
qed

lemma outstanding_update:
  assumes "permit_hooks sema v = (permit_hooks sema w)(l := n)" "finite {l. permit_hooks sema w l \<noteq> 0}"
  shows "finite {l. permit_hooks sema v l \<noteq> 0}" "outstanding sema v + permit_hooks sema w l = outstanding sema w + n"
  using sum_support_update [OF assms(2)] by (simp_all add: outstanding_def assms(1))

lemma undisturbed_simps [simp]: "undisturbed sema w (tick w)" "undisturbed sema w (cancel c w)"
  by (simp_all add: undisturbed_def permit_hooks_def no_permit_cleanup_def fun_eq_iff)
    (cases c; simp add: permit_hooks_def no_permit_cleanup_def)

text \<open>Giving back \<open>n\<close> permits, and nothing else.\<close>

definition gave_back :: "nat \<Rightarrow> nat \<Rightarrow> ('h, 'x) world_scheme \<Rightarrow> ('h, 'x) world_scheme \<Rightarrow> bool" where
  "gave_back sema n w v \<longleftrightarrow> w_semas v sema = (w_semas w sema)\<lparr>sm_used := sm_used (w_semas w sema) - n\<rparr> \<and>
     permit_hooks sema v = permit_hooks sema w \<and> (no_permit_cleanup sema w \<longrightarrow> no_permit_cleanup sema v)"

lemma gave_back_release: "gave_back sema 1 w (release_permit sema w)"
  by (simp add: gave_back_def release_permit_def permit_hooks_def no_permit_cleanup_def fun_eq_iff)

lemma gave_back_none: "gave_back sema 0 w v \<longleftrightarrow> undisturbed sema w v"
  by (simp add: gave_back_def undisturbed_def)

lemma gave_back_trans: "gave_back sema m u v \<Longrightarrow> gave_back sema n v w \<Longrightarrow> gave_back sema (m + n) u w"
  by (simp add: gave_back_def)

lemma run_closure_permits:
  assumes "permit_neutral sema hostfn"
  shows "\<exists>e v. run_closure hostfn f w = (Ret e, v) \<and> gave_back sema (if f = ReleasePermit sema then 1 else 0) w v"
proof (cases f)
  case (ReleasePermit s)
  then show ?thesis
    using gave_back_release [of sema w]
    by (auto simp: gave_back_none undisturbed_def release_permit_def permit_hooks_def no_permit_cleanup_def fun_eq_iff)
qed (use assms in \<open>auto simp: gave_back_none permit_neutral_def\<close>)

lemma run_hooks_permits:
  assumes "permit_neutral sema hostfn"
  shows "\<exists>v. run_hooks hostfn fs w = (Ret (), v) \<and> gave_back sema (count_list fs (ReleasePermit sema)) w v"
proof (induction fs arbitrary: w)
  case Nil
  then show ?case by (simp add: gave_back_none permits_frame.frame_refl)
next
  case (Cons f fs)
  obtain e u where u: "run_closure hostfn f w = (Ret e, u)" "gave_back sema (if f = ReleasePermit sema then 1 else 0) w u"
    using run_closure_permits [OF assms] by blast
  obtain v where v: "run_hooks hostfn fs u = (Ret (), v)" "gave_back sema (count_list fs (ReleasePermit sema)) u v"
    using Cons.IH by blast
  show ?case using u(1) v(1) gave_back_trans [OF u(2) v(2)] by (intro exI [of _ v]) (auto simp: seq_def)
qed

lemma permit_hooks_upd_life:
  "permit_hooks sema (upd_life l g w) = (permit_hooks sema w)(l := count_list (lt_hooks (g (w_lifes w l))) (ReleasePermit sema))"
  "(\<And>L. lt_cleanup (g L) = lt_cleanup L) \<Longrightarrow> no_permit_cleanup sema (upd_life l g w) = no_permit_cleanup sema w"
  "w_semas (upd_life l g w) = w_semas w"
  by (auto simp: permit_hooks_def no_permit_cleanup_def upd_life_def fun_eq_iff)

lemma undisturbed_upd_life:
  "(\<And>L. lt_cleanup (g L) = lt_cleanup L \<and> lt_hooks (g L) = lt_hooks L) \<Longrightarrow> undisturbed sema w (upd_life l g w)"
  by (simp add: undisturbed_def permit_hooks_upd_life) (simp add: permit_hooks_def fun_eq_iff)

text \<open>Closing a lifetime gives back exactly the permits its hooks stand for.\<close>

lemma Close_permits:
  assumes "permit_neutral sema hostfn" "no_permit_cleanup sema w" "Close hostfn life w = (r, v)"
  shows "undisturbed sema w v \<or> (\<exists>l. permit_hooks sema v = (permit_hooks sema w)(l := 0) \<and> no_permit_cleanup sema v \<and>
    w_semas v sema = (w_semas w sema)\<lparr>sm_used := sm_used (w_semas w sema) - permit_hooks sema w l\<rparr>)"
proof (cases "life = None \<or> (\<exists>l. life = Some l \<and> lt_done (w_lifes w l))")
  case True
  then show ?thesis using assms(3) by (auto simp: Close_def permits_frame.frame_refl)
next
  case False
  then obtain l where l: "life = Some l" "\<not> lt_done (w_lifes w l)" by auto
  define w0 where "w0 = upd_life l (\<lambda>L. L\<lparr>lt_done := True\<rparr>) w"
  have w0: "undisturbed sema w w0" unfolding w0_def by (rule undisturbed_upd_life) simp
  then have clean: "no_permit_cleanup sema w0" using assms(2) by (simp add: undisturbed_def)
  define body where "body = (case lt_cleanup (w_lifes w0 l) of None \<Rightarrow> (Ret (), w0)
    | Some c \<Rightarrow> seq (run_closure hostfn c) (\<lambda>e w. (Ret (), upd_life l (\<lambda>L. L\<lparr>lt_closeErr := e\<rparr>) w)) w0)"
  obtain w1 where w1: "body = (Ret (), w1)" "undisturbed sema w0 w1"
  proof (cases "lt_cleanup (w_lifes w0 l)")
    case None
    then show thesis using that by (simp add: body_def permits_frame.frame_refl)
  next
    case (Some c)
    then have "c \<noteq> ReleasePermit sema" using clean by (auto simp: no_permit_cleanup_def)
    then obtain e u where u: "run_closure hostfn c w0 = (Ret e, u)" "undisturbed sema w0 u"
      using run_closure_permits [OF assms(1), of c w0] by (auto simp: gave_back_none)
    have "undisturbed sema u (upd_life l (\<lambda>L. L\<lparr>lt_closeErr := e\<rparr>) u)" by (rule undisturbed_upd_life) simp
    then show thesis using that [OF _ permits_frame.frame_trans [OF u(2)]] u(1) Some by (simp add: body_def seq_def)
  qed
  define w2 where "w2 = upd_life l (\<lambda>L. L\<lparr>lt_closed := True, lt_hooks := []\<rparr>) w1"
  obtain w3 where w3: "run_hooks hostfn (lt_hooks (w_lifes w1 l)) w2 = (Ret (), w3)"
    "gave_back sema (count_list (lt_hooks (w_lifes w1 l)) (ReleasePermit sema)) w2 w3"
    using run_hooks_permits [OF assms(1)] by blast
  have "v = w3"
    using assms(3) l w1(1) w3(1) by (simp add: Close_def close_body_def seq_def w0_def [symmetric] body_def [symmetric] w2_def [symmetric] Let_def)
  moreover have "undisturbed sema w w1" using w0 w1(2) by (rule permits_frame.frame_trans)
  moreover have "permit_hooks sema w2 = (permit_hooks sema w1)(l := 0)" "no_permit_cleanup sema w2 = no_permit_cleanup sema w1"
    "w_semas w2 = w_semas w1" by (simp_all add: w2_def permit_hooks_upd_life)
  moreover have "count_list (lt_hooks (w_lifes w1 l)) (ReleasePermit sema) = permit_hooks sema w1 l" by (simp add: permit_hooks_def)
  ultimately show ?thesis using w3(2) assms(2) by (auto simp: gave_back_def undisturbed_def intro!: exI [of _ l])
qed


lemma acquire_permits:
  "sm_limit (w_semas (acquire_permit sema w) sema) = sm_limit (w_semas w sema)"
  "sm_used (w_semas (acquire_permit sema w) sema) = Suc (sm_used (w_semas w sema))"
  "permit_hooks sema (acquire_permit sema w) = permit_hooks sema w"
  "no_permit_cleanup sema (acquire_permit sema w) = no_permit_cleanup sema w"
  by (simp_all add: acquire_permit_def permit_hooks_def no_permit_cleanup_def fun_eq_iff)

lemma parts_return: "\<exists>a v. bulkhead_select sema ctx w = (Ret a, v)" "\<exists>e v. permit_check sema ctx w = (Ret e, v)"
  by (cases "ctx_err (tick w) ctx"; auto simp: bulkhead_select_def permit_check_def seq_def Let_def)+

lemma select_permits:
  assumes "bulkhead_select sema ctx w = (Ret a, v)"
  shows "case a of TurnedAway e \<Rightarrow> undisturbed sema w v
    | LetIn \<Rightarrow> sm_used (w_semas w sema) < sm_limit (w_semas w sema) \<and> (\<exists>u. undisturbed sema w u \<and> v = acquire_permit sema u)"
proof -
  have "undisturbed sema w (tick (tick w))" "undisturbed sema w (tick (tick (tick w)))"
    by (meson undisturbed_simps(1) permits_frame.frame_trans)+
  then show ?thesis using assms by (auto simp: bulkhead_select_def seq_def Let_def split: option.splits if_splits)
qed

lemma check_permits:
  assumes "permit_check sema ctx w = (Ret e, v)"
  shows "gave_back sema (if e = None then 0 else 1) w v"
  using assms gave_back_trans [OF iffD2 [OF gave_back_none undisturbed_simps(1)] gave_back_release, of sema w]
  by (auto simp: permit_check_def gave_back_none split: option.splits)

text \<open>On the way out the permit is given back at once, or one hook more will.\<close>

lemma leave_permits:
  assumes "permit_leave hostfn sema out w = (r, v)"
  shows "gave_back sema 1 w v \<or> (\<exists>l. permit_hooks sema v = (permit_hooks sema w)(l := Suc (permit_hooks sema w l)) \<and>
    w_semas v sema = w_semas w sema \<and> no_permit_cleanup sema v = no_permit_cleanup sema w)"
proof (cases out)
  case (Ret res)
  obtain result e where res: "res = (result, e)" by fastforce
  show ?thesis
  proof (cases "res_Lifetime result")
    case None
    then show ?thesis using assms Ret res gave_back_release by (auto simp: permit_leave_def)
  next
    case (Some l)
    show ?thesis
    proof (cases "lt_closed (w_lifes w l)")
      case True
      then show ?thesis using assms Ret res Some gave_back_release by (auto simp: permit_leave_def OnClose_def seq_def)
    next
      case False
      then have "v = upd_life l (\<lambda>L. L\<lparr>lt_hooks := lt_hooks L @ [ReleasePermit sema]\<rparr>) w"
        using assms Ret res Some by (auto simp: permit_leave_def OnClose_def seq_def)
      then show ?thesis by (intro disjI2 exI [of _ l]) (simp add: permit_hooks_upd_life permit_hooks_def)
    qed
  qed
qed (use assms gave_back_release in \<open>auto simp: permit_leave_def\<close>)

lemma bulkhead_inv_gave_back:
  assumes "bulkhead_inv sema limit \<lparr>bm_world = w, bm_calls = cs\<rparr>" "gave_back sema n w v" "calls_inside ds + n = calls_inside cs"
  shows "bulkhead_inv sema limit \<lparr>bm_world = v, bm_calls = ds\<rparr>"
  using assms by (auto simp: bulkhead_inv_def gave_back_def outstanding_def)

lemma bulkhead_inv_step:
  assumes inv: "bulkhead_inv sema limit s" and host: "permit_neutral sema hostfn" and step: "bulkhead_step hostfn sema s t"
  shows "bulkhead_inv sema limit t"
  using step
proof cases
  case (selects i cs call w a v)
  show ?thesis
  proof (cases a)
    case (TurnedAway e)
    then have "gave_back sema 0 w v" using select_permits [OF selects(5)] by (simp add: gave_back_none)
    from bulkhead_inv_gave_back [OF inv [unfolded selects(1)] this] show ?thesis
      using calls_inside_update [OF selects(3), of "Returned (Ret (AbortResult, e))"] selects(4) TurnedAway by (simp add: selects(2))
  next
    case LetIn
    then obtain u where u: "sm_used (w_semas w sema) < sm_limit (w_semas w sema)" "undisturbed sema w u" "v = acquire_permit sema u"
      using select_permits [OF selects(5)] by auto
    then show ?thesis
      using inv calls_inside_update [OF selects(3), of "Permitted call"] selects(4) LetIn
      by (simp add: selects(1,2) bulkhead_inv_def outstanding_def undisturbed_def acquire_permits)
  qed
next
  case (checks i cs call w e v)
  from bulkhead_inv_gave_back [OF inv [unfolded checks(1)] check_permits [OF checks(5)]] show ?thesis
    using calls_inside_update [OF checks(3), of "case e of Some x \<Rightarrow> Returned (Ret (AbortResult, Some x)) | None \<Rightarrow> Inside"] checks(4)
    by (cases e) (simp_all add: checks(2))
next
  case (leaves i cs out w r v)
  have inside: "calls_inside (cs[i := Returned r]) + 1 = calls_inside cs"
    using calls_inside_update [OF leaves(3), of "Returned r"] leaves(4) by simp
  from leave_permits [OF leaves(5)] show ?thesis
  proof
    assume "gave_back sema 1 w v"
    from bulkhead_inv_gave_back [OF inv [unfolded leaves(1)] this inside] show ?thesis by (simp add: leaves(2))
  next
    assume "\<exists>l. permit_hooks sema v = (permit_hooks sema w)(l := Suc (permit_hooks sema w l)) \<and>
      w_semas v sema = w_semas w sema \<and> no_permit_cleanup sema v = no_permit_cleanup sema w"
    then obtain l where l: "permit_hooks sema v = (permit_hooks sema w)(l := Suc (permit_hooks sema w l))"
      "w_semas v sema = w_semas w sema" "no_permit_cleanup sema v = no_permit_cleanup sema w" by blast
    have fin: "finite {l. permit_hooks sema w l \<noteq> 0}" using inv leaves(1) by (simp add: bulkhead_inv_def)
    show ?thesis
      using inv inside l(2,3) outstanding_update [OF l(1) fin] by (simp add: leaves(1,2) bulkhead_inv_def)
  qed
next
  case (closes life w r v cs)
  have fin: "finite {l. permit_hooks sema w l \<noteq> 0}" and clean: "no_permit_cleanup sema w"
    using inv closes(1) by (simp_all add: bulkhead_inv_def)
  from Close_permits [OF host clean closes(3)] show ?thesis
  proof
    assume "undisturbed sema w v"
    then show ?thesis using bulkhead_inv_gave_back [OF inv [unfolded closes(1)], of 0 v cs] by (simp add: closes(2) gave_back_none)
  next
    assume "\<exists>l. permit_hooks sema v = (permit_hooks sema w)(l := 0) \<and> no_permit_cleanup sema v \<and>
      w_semas v sema = (w_semas w sema)\<lparr>sm_used := sm_used (w_semas w sema) - permit_hooks sema w l\<rparr>"
    then obtain l where l: "permit_hooks sema v = (permit_hooks sema w)(l := 0)" "no_permit_cleanup sema v"
      "w_semas v sema = (w_semas w sema)\<lparr>sm_used := sm_used (w_semas w sema) - permit_hooks sema w l\<rparr>" by blast
    then show ?thesis
      using inv outstanding_update [OF l(1) fin] by (auto simp: closes(1,2) bulkhead_inv_def)
  qed
next
  case (others w v cs)
  then show ?thesis using bulkhead_inv_gave_back [OF inv [unfolded others(1)], of 0 v cs] by (simp add: gave_back_none)
qed

lemma bulkhead_inv_start: "start_bulkhead sema limit s \<Longrightarrow> bulkhead_inv sema limit s"
proof -
  assume s: "start_bulkhead sema limit s"
  then have "filter holds_permit (bm_calls s) = []" by (auto simp: start_bulkhead_def filter_empty_conv)
  then show ?thesis using s by (simp add: start_bulkhead_def bulkhead_inv_def calls_inside_def outstanding_def)
qed

text \<open>The machine of a quiet host, with the interface of the prelude.\<close>

definition quiet_bulkhead_step ::
  "('h \<Rightarrow> (('h, 'x) world_scheme, err) proc) \<Rightarrow> nat \<Rightarrow>
   ('h, 'x, 'req, 'k :: zero, 'r :: zero, 'p :: zero) bulkhead_machine \<Rightarrow> ('h, 'x, 'req, 'k, 'r, 'p) bulkhead_machine \<Rightarrow> bool" where
  "quiet_bulkhead_step hostfn sema s t \<longleftrightarrow> permit_neutral sema hostfn \<and> bulkhead_step hostfn sema s t"

interpretation bulkhead_system: invariant_system "start_bulkhead sema limit" "quiet_bulkhead_step hostfn sema" "bulkhead_inv sema limit"
  for sema limit hostfn
  by unfold_locales (auto simp: bulkhead_inv_start quiet_bulkhead_step_def intro: bulkhead_inv_step)

lemma reaches_quiet: "reaches (bulkhead_step hostfn sema) s t \<Longrightarrow> permit_neutral sema hostfn \<Longrightarrow> reaches (quiet_bulkhead_step hostfn sema) s t"
  by (induction rule: reaches.induct) (auto intro: reaches.intros simp: quiet_bulkhead_step_def)

text \<open>A whole call of the code is a run of the machine when nothing interferes.\<close>

lemma bulkhead_call_runs:
  assumes "i < length cs" "cs ! i = Arriving call" "\<And>c u. undisturbed sema u (snd (h c u))"
    "bulkhead_call hostfn sema h call w = (r, v)"
  shows "reaches (bulkhead_step hostfn sema) \<lparr>bm_world = w, bm_calls = cs\<rparr> \<lparr>bm_world = v, bm_calls = cs[i := Returned r]\<rparr>"
proof -
  let ?step = "bulkhead_step hostfn sema"
  obtain a w1 where a: "bulkhead_select sema (rc_Context call) w = (Ret a, w1)" using parts_return(1) by blast
  have first: "reaches ?step \<lparr>bm_world = w, bm_calls = cs\<rparr> \<lparr>bm_world = w1, bm_calls = cs[i :=
      (case a of TurnedAway e \<Rightarrow> Returned (Ret (AbortResult, e)) | LetIn \<Rightarrow> Permitted call)]\<rparr>"
    by (rule reaches_step [OF reaches_refl]) (rule bulkhead_step.selects [OF assms(1,2) a])
  show ?thesis
  proof (cases a)
    case (TurnedAway e)
    then have "r = Ret (AbortResult, e)" "v = w1" using assms(4) a by (simp_all add: bulkhead_call_def seq_def)
    then show ?thesis using first TurnedAway by simp
  next
    case LetIn
    then have inv: "invokeWithPermit hostfn call h sema w1 = (r, v)" using assms(4) a by (simp add: bulkhead_call_def seq_def)
    have one: "reaches ?step \<lparr>bm_world = w, bm_calls = cs\<rparr> \<lparr>bm_world = w1, bm_calls = cs[i := Permitted call]\<rparr>"
      using first LetIn by simp
    obtain e w2 where e: "permit_check sema (rc_Context call) w1 = (Ret e, w2)" using parts_return(2) by blast
    have two: "?step \<lparr>bm_world = w1, bm_calls = cs[i := Permitted call]\<rparr> \<lparr>bm_world = w2, bm_calls = cs[i :=
        (case e of Some x \<Rightarrow> Returned (Ret (AbortResult, Some x)) | None \<Rightarrow> Inside)]\<rparr>"
      using bulkhead_step.checks [of i "cs[i := Permitted call]" call sema w1 e w2 hostfn] assms(1) e by simp
    show ?thesis
    proof (cases e)
      case (Some x)
      then have "r = Ret (AbortResult, Some x)" "v = w2" using inv e by (simp_all add: invokeWithPermit_def seq_def)
      then show ?thesis using reaches_step [OF one two] Some by simp
    next
      case None
      obtain out w3 where out: "h call w2 = (out, w3)" by fastforce
      then have leave: "permit_leave hostfn sema out w3 = (r, v)" using inv e None by (simp add: invokeWithPermit_def seq_def)
      have "?step \<lparr>bm_world = w2, bm_calls = cs[i := Inside]\<rparr> \<lparr>bm_world = w3, bm_calls = cs[i := Inside]\<rparr>"
        using assms(3) [of w2 call] out by (intro bulkhead_step.others) simp
      moreover have "?step \<lparr>bm_world = w3, bm_calls = cs[i := Inside]\<rparr> \<lparr>bm_world = v, bm_calls = cs[i := Returned r]\<rparr>"
        using bulkhead_step.leaves [of i "cs[i := Inside]" hostfn sema out w3 r v] assms(1) leave by simp
      ultimately show ?thesis using reaches_step [OF one two] None by (metis (no_types, lifting) option.simps(4) reaches_step)
    qed
  qed
qed

section \<open>One call's permit\<close>

text \<open>What becomes of the permit of a call that was let in, given how the wrapped handler ended.\<close>

definition settle_permit ::
  "nat \<Rightarrow> (('k, 'r, 'p) route_result \<times> err) outcome \<Rightarrow> ('h, 'x) world_scheme \<Rightarrow> ('h, 'x) world_scheme" where
  "settle_permit sema v w =
     (case v of
        Panic \<Rightarrow> release_permit sema w
      | Ret (r, e) \<Rightarrow>
          (case res_Lifetime r of
             None \<Rightarrow> release_permit sema w
           | Some l \<Rightarrow> if lt_closed (w_lifes w l) then release_permit sema w
                       else upd_life l (\<lambda>L. L\<lparr>lt_hooks := lt_hooks L @ [ReleasePermit sema]\<rparr>) w))"

lemma invokeWithPermit_runs:
  assumes "ctx_err (tick w) (rc_Context call) = None"
  shows "invokeWithPermit hostfn call h sema w = (case h call (tick w) of (v, w2) \<Rightarrow> (v, settle_permit sema v w2))"
  using assms
  by (auto simp: invokeWithPermit_def permit_check_def permit_leave_def settle_permit_def OnClose_def seq_def
      split: prod.split outcome.split option.split)

lemma ctx_err_acquire [simp]: "ctx_err (acquire_permit s w) c = ctx_err w c"
proof -
  have "done_at (acquire_permit s w) c = done_at w c" by (induction c) (simp_all add: acquire_permit_def)
  moreover have "w_step (acquire_permit s w) = w_step w" by (simp add: acquire_permit_def)
  ultimately show ?thesis by (simp add: ctx_err_def split: option.split)
qed

lemma tick_acquire: "tick (acquire_permit s w) = acquire_permit s (tick w)"
  by (simp add: tick_def acquire_permit_def)

lemma never_done: "done_at w c = None \<Longrightarrow> ctx_err (tick w) c = None \<and> done_at (tick w) c = None"
proof -
  have "done_at (tick w) c = done_at w c" by (induction c) simp_all
  then show "done_at w c = None \<Longrightarrow> ?thesis" by (simp add: ctx_err_def)
qed

text \<open>
  A call through a bulkhead either is turned away before it takes a permit, or finds the context done
  right after and gives the permit back, or runs the wrapped handler once with one more permit taken; then the permit is
  given back at once, also on a panic, unless the result owns an open resource, whose closing will give it back. With
  a free place and a context that is never done, it is the last; without a free place, the first.
\<close>

theorem bulkhead_call_permit:
  "let w2 = acquire_permit sema (tick (tick w));
       turned_away = (\<exists>e w1. w_semas w1 = w_semas w \<and> w_lifes w1 = w_lifes w
                        \<and> bulkhead_call hostfn sema h call w = (Ret (AbortResult, Some e), w1));
       given_back = (\<exists>e. bulkhead_call hostfn sema h call w = (Ret (AbortResult, Some e), release_permit sema (tick w2)));
       runs = (case h call (tick w2) of (v, w3) \<Rightarrow> bulkhead_call hostfn sema h call w = (v, settle_permit sema v w3))
   in if sm_used (w_semas w sema) < sm_limit (w_semas w sema)
      then if done_at w (rc_Context call) = None then runs else turned_away \<or> given_back \<or> runs
      else turned_away"
proof -
  let ?c = "rc_Context call"
  let ?w2 = "acquire_permit sema (tick (tick w))"
  let ?free = "sm_used (w_semas w sema) < sm_limit (w_semas w sema)"
  have entered: "bulkhead_call hostfn sema h call w = invokeWithPermit hostfn call h sema ?w2"
    if "ctx_err (tick w) ?c = None" "?free" "ctx_err (tick (tick w)) ?c = None \<or> even (w_rand w (Suc (w_step w)))"
    using that by (auto simp: bulkhead_call_def bulkhead_select_def ctx_Err_def seq_def Let_def tick_def)
  have invoked: "(\<exists>e. bulkhead_call hostfn sema h call w = (Ret (AbortResult, Some e), release_permit sema (tick ?w2)))
      \<or> (case h call (tick ?w2) of (v, w3) \<Rightarrow> bulkhead_call hostfn sema h call w = (v, settle_permit sema v w3))"
    if "bulkhead_call hostfn sema h call w = invokeWithPermit hostfn call h sema ?w2"
    using that invokeWithPermit_runs [of ?w2 call hostfn h sema]
    by (cases "ctx_err (tick ?w2) ?c") (auto simp: invokeWithPermit_def permit_check_def seq_def split: prod.split)
  have away: "\<exists>e w1. w_semas w1 = w_semas w \<and> w_lifes w1 = w_lifes w
      \<and> bulkhead_call hostfn sema h call w = (Ret (AbortResult, Some e), w1)"
    if "ctx_err (tick w) ?c \<noteq> None \<or> \<not> ?free \<or> \<not> (ctx_err (tick (tick w)) ?c = None \<or> even (w_rand w (Suc (w_step w))))"
    using that by (cases "ctx_err (tick w) ?c"; cases "ctx_err (tick (tick w)) ?c")
      (auto simp: bulkhead_call_def bulkhead_select_def seq_def Let_def tick_def)
  show ?thesis
  proof (cases "?free \<and> done_at w ?c = None")
    case True
    then have live: "ctx_err (tick w) ?c = None" "ctx_err (tick (tick w)) ?c = None" "ctx_err (tick ?w2) ?c = None"
      using never_done by (metis, metis, metis tick_acquire ctx_err_acquire)
    then show ?thesis using True entered invokeWithPermit_runs [OF live(3), of hostfn h sema]
      by (simp add: Let_def split: prod.split)
  next
    case False
    then show ?thesis using entered invoked away unfolding Let_def by (metis (no_types, lifting))
  qed
qed

section \<open>Properties\<close>

text \<open>
  C40 (invariant). Take the world a positive \<open>Bulkhead\<close> leaves, any number of calls of its handler at the same time, and
  lifetimes closed at any moment. In every interleaving the number of taken permits is the number of calls that were let in
  and have not returned plus the number of hooks on open lifetimes that will give a permit back, and never exceeds the limit. A
  call as the code runs it, from the \<open>select\<close> to the return, is a run of these steps.
\<close>

theorem bulkhead_permits_conserved:
  assumes "Bulkhead hostfn limit w0 = (mw, w)" "0 < limit" "sema = w_fresh w0"
    and "permit_hooks sema w0 = (\<lambda>_. 0)" "no_permit_cleanup sema w0" "permit_neutral sema hostfn"
    and "reaches (bulkhead_step hostfn sema) \<lparr>bm_world = w, bm_calls = map Arriving calls\<rparr> s"
  shows "sm_used (w_semas (bm_world s) sema) = calls_inside (bm_calls s) + outstanding sema (bm_world s) \<and>
    int (calls_inside (bm_calls s) + outstanding sema (bm_world s)) \<le> limit \<and>
    (\<forall>i call h g r v. i < length (bm_calls s) \<and> bm_calls s ! i = Arriving call \<and> mw (Some h) = Some g \<and>
      (\<forall>c u. undisturbed sema u (snd (h c u))) \<and> g call (bm_world s) = (r, v) \<longrightarrow>
      reaches (bulkhead_step hostfn sema) s \<lparr>bm_world = v, bm_calls = (bm_calls s)[i := Returned r]\<rparr>)"
proof -
  have w: "w = w0\<lparr>w_semas := (w_semas w0)(sema := \<lparr>sm_limit = nat limit, sm_used = 0\<rparr>), w_fresh := Suc sema\<rparr>"
    and g: "\<And>h g. mw (Some h) = Some g \<Longrightarrow> g = bulkhead_call hostfn sema h"
    using assms(1,2,3) by (auto simp: Bulkhead_def)
  have "start_bulkhead sema (nat limit) \<lparr>bm_world = w, bm_calls = map Arriving calls\<rparr>"
    using assms(4,5) by (auto simp: start_bulkhead_def w permit_hooks_def no_permit_cleanup_def fun_eq_iff)
  from bulkhead_system.reachable_inv [OF this reaches_quiet [OF assms(7,6)]] have "bulkhead_inv sema (nat limit) s" .
  moreover have "reaches (bulkhead_step hostfn sema) s \<lparr>bm_world = v, bm_calls = (bm_calls s)[i := Returned r]\<rparr>"
    if "i < length (bm_calls s)" "bm_calls s ! i = Arriving call" "mw (Some h) = Some g" "\<And>c u. undisturbed sema u (snd (h c u))"
      "g call (bm_world s) = (r, v)" for i call h g r v
    using bulkhead_call_runs [OF that(1,2,4)] that(5) g [OF that(3)] by (cases s) auto
  ultimately show ?thesis using assms(2) by (auto simp: bulkhead_inv_def)
qed

text \<open>
  Two calls of a bulkhead with one place: the first is let in, the second is turned away meanwhile, and the first returns a
  result that owns the lifetime 7 and with it the permit.
\<close>

definition demo_guarded :: "(unit \<Rightarrow> ((unit, unit) world_scheme, err) proc)" where
  "demo_guarded _ = ret None"

definition demo_owned :: "(nat, nat, nat) route_result" where
  "demo_owned = (Handled 1 0 5)\<lparr>res_Lifetime := Some 7\<rparr>"

definition demo_bulkhead_world :: "unit world" where
  "demo_bulkhead_world = snd (Bulkhead demo_guarded 1 (idle_world :: unit world) ::
     (unit, unit, unit, nat, nat, nat) middleware \<times> unit world)"


definition demo_bulkhead_call :: "unit route_call" where
  "demo_bulkhead_call = \<lparr>rc_Context = Background, rc_Request = (), rc_Match = zeroRouteMatch, rc_state = None\<rparr>"

definition demo_bulkhead_start :: "(unit, unit, unit, nat, nat, nat) bulkhead_machine" where
  "demo_bulkhead_start = \<lparr>bm_world = demo_bulkhead_world, bm_calls = [Arriving demo_bulkhead_call, Arriving demo_bulkhead_call]\<rparr>"

lemma demo_quiet: "permit_neutral sema demo_guarded"
  by (simp add: permit_neutral_def demo_guarded_def permits_frame.frame_refl)

lemma demo_bulkhead_run:
  "\<exists>s. reaches (bulkhead_step demo_guarded 0) demo_bulkhead_start s \<and> permit_hooks 0 (bm_world s) = (\<lambda>_. 0)(7 := 1) \<and>
     bm_calls s = [Returned (Ret (demo_owned, None)), Returned (Ret (AbortResult, Some ErrBulkheadFull))]"
proof -
  let ?step = "bulkhead_step demo_guarded 0"
  let ?A = "Arriving demo_bulkhead_call :: (unit, nat, nat, nat) bulkhead_phase"
  let ?P = "Permitted demo_bulkhead_call :: (unit, nat, nat, nat) bulkhead_phase"
  let ?away = "Returned (Ret (AbortResult, Some ErrBulkheadFull)) :: (unit, nat, nat, nat) bulkhead_phase"
  define w1 where "w1 = acquire_permit 0 (tick (tick demo_bulkhead_world))"
  define w2 where "w2 = tick w1"
  define w3 where "w3 = tick (tick w2)"
  define w4 where "w4 = upd_life 7 (\<lambda>L. L\<lparr>lt_hooks := lt_hooks L @ [ReleasePermit 0]\<rparr>) w3"
  have ctx: "rc_Context demo_bulkhead_call = Background" "ctx_err u Background = None" for u :: "unit world"
    by (simp_all add: demo_bulkhead_call_def ctx_err_def)
  have sema: "w_semas demo_bulkhead_world 0 = \<lparr>sm_limit = 1, sm_used = 0\<rparr>" "w_semas w2 0 = \<lparr>sm_limit = 1, sm_used = 1\<rparr>"
    "w_lifes w3 7 = fresh_life" "permit_hooks 0 w3 = (\<lambda>_. 0)"
    by (simp_all add: w2_def w1_def w3_def demo_bulkhead_world_def Bulkhead_def idle_world_def acquire_permit_def permit_hooks_def
        fresh_life_def fun_eq_iff)
  have "bulkhead_select 0 Background demo_bulkhead_world = (Ret LetIn, w1)"
    using sema(1) by (simp add: bulkhead_select_def seq_def Let_def ctx w1_def)
  then have "?step demo_bulkhead_start \<lparr>bm_world = w1, bm_calls = [?P, ?A]\<rparr>"
    using bulkhead_step.selects [of 0 "[?A, ?A]" demo_bulkhead_call 0 demo_bulkhead_world LetIn w1 demo_guarded]
    by (simp add: demo_bulkhead_start_def ctx)
  moreover have "permit_check 0 Background w1 = (Ret None, w2)" by (simp add: permit_check_def ctx w2_def)
  then have "?step \<lparr>bm_world = w1, bm_calls = [?P, ?A]\<rparr> \<lparr>bm_world = w2, bm_calls = [Inside, ?A]\<rparr>"
    using bulkhead_step.checks [of 0 "[?P, ?A]" demo_bulkhead_call 0 w1 None w2 demo_guarded] by (simp add: ctx)
  moreover have "bulkhead_select 0 Background w2 = (Ret (TurnedAway (Some ErrBulkheadFull)), w3)"
    using sema(2) by (simp add: bulkhead_select_def seq_def Let_def ctx w3_def)
  then have "?step \<lparr>bm_world = w2, bm_calls = [Inside, ?A]\<rparr> \<lparr>bm_world = w3, bm_calls = [Inside, ?away]\<rparr>"
    using bulkhead_step.selects [of 1 "[Inside, ?A]" demo_bulkhead_call 0 w2 "TurnedAway (Some ErrBulkheadFull)" w3 demo_guarded]
    by (simp add: ctx)
  moreover have "permit_leave demo_guarded 0 (Ret (demo_owned, None)) w3 = (Ret (demo_owned, None), w4)"
    using sema(3) by (simp add: permit_leave_def demo_owned_def OnClose_def seq_def fresh_life_def w4_def)
  then have "?step \<lparr>bm_world = w3, bm_calls = [Inside, ?away]\<rparr> \<lparr>bm_world = w4, bm_calls = [Returned (Ret (demo_owned, None)), ?away]\<rparr>"
    using bulkhead_step.leaves [of 0 "[Inside, ?away]" demo_guarded 0 "Ret (demo_owned, None)" w3 "Ret (demo_owned, None)" w4] by simp
  ultimately have "reaches ?step demo_bulkhead_start \<lparr>bm_world = w4, bm_calls = [Returned (Ret (demo_owned, None)), ?away]\<rparr>"
    by (meson reaches.intros)
  moreover have "permit_hooks 0 w4 = (\<lambda>_. 0)(7 := 1)"
    using sema(3,4) by (simp add: w4_def permit_hooks_upd_life fresh_life_def)
  ultimately show ?thesis by (intro exI [of _ "\<lparr>bm_world = w4, bm_calls = [Returned (Ret (demo_owned, None)), ?away]\<rparr>"]) simp
qed

theorem bulkhead_permits_conserved_witness:
  "\<exists>s. reaches (bulkhead_step demo_guarded 0) demo_bulkhead_start s \<and>
     bm_calls s = [Returned (Ret (demo_owned, None)), Returned (Ret (AbortResult, Some ErrBulkheadFull))] \<and>
     calls_inside (bm_calls s) = 0 \<and> outstanding 0 (bm_world s) = 1 \<and> sm_used (w_semas (bm_world s) 0) = 1"
proof -
  obtain s where s: "reaches (bulkhead_step demo_guarded 0) demo_bulkhead_start s" "permit_hooks 0 (bm_world s) = (\<lambda>_. 0)(7 := 1)"
    "bm_calls s = [Returned (Ret (demo_owned, None)), Returned (Ret (AbortResult, Some ErrBulkheadFull))]"
    using demo_bulkhead_run by blast
  obtain mw :: "(unit, unit, unit, nat, nat, nat) middleware" and w where
    mw: "Bulkhead demo_guarded 1 (idle_world :: unit world) = (mw, w)" by fastforce
  then have start: "demo_bulkhead_start = \<lparr>bm_world = w, bm_calls = map Arriving [demo_bulkhead_call, demo_bulkhead_call]\<rparr>"
    by (simp add: demo_bulkhead_start_def demo_bulkhead_world_def)
  have idle: "permit_hooks 0 (idle_world :: unit world) = (\<lambda>_. 0)" "no_permit_cleanup 0 (idle_world :: unit world)" "0 = w_fresh (idle_world :: unit world)"
    by (rule ext) (simp_all add: permit_hooks_def no_permit_cleanup_def idle_world_def fresh_life_def)
  have "{l. permit_hooks 0 (bm_world s) l \<noteq> 0} = {7}" by (auto simp: s(2))
  then have "outstanding 0 (bm_world s) = 1" by (simp add: outstanding_def s(2))
  moreover have "calls_inside (bm_calls s) = 0" by (simp add: s(3) calls_inside_def)
  ultimately show ?thesis
    using bulkhead_permits_conserved [OF mw _ idle(3,1,2) demo_quiet s(1) [unfolded start]] s by auto
qed

end
