(* ===== verification/Topology_Key.thy ===== *)
theory Topology_Key
  imports Fingerprint
begin

text \<open>
  \<open>topology_key.go\<close>: the fingerprint of a static route key. The code reads keys through \<open>reflect\<close>; what it reads is
  \<open>rtype\<close> and \<open>rval\<close> here. A \<open>rtype\<close> has the package path, name and text \<open>reflect\<close> reports and, as its kind, what
  the traversal looks at below it. Traversal stops at named types, so the tree is finite also for recursive ones. A
  \<open>rval\<close> is an invalid value or a type with the contents of its kind; floats are their IEEE bit patterns.
\<close>

datatype rtype = RType (rt_PkgPath: string) (rt_Name: string) (rt_String: string) (rt_Kind: rkind)
and rkind =
    KElem rtype
  | KStruct "rfield list"
  | KInterface "rmethod list"
  | KFunc bool "rtype list" "rtype list"
  | KBuiltin
and rfield = RField string string string bool rtype
and rmethod = RMethod string string rtype

datatype rval = Invalid | RVal rtype rdata
and rdata =
    DInterface "rval option"
  | DParts "rval list"
  | DString string
  | DBool bool
  | DInt int
  | DUint nat
  | DFloat nat
  | DComplex nat nat
  | DPointer nat
  | DNonComparable

text \<open>\<open>strconv.FormatUint(n, 16)\<close>.\<close>

fun hex_digits :: "nat \<Rightarrow> string" where
  "hex_digits n = (if n < 16 then [hex_digit n] else hex_digits (n div 16) @ [hex_digit (n mod 16)])"

declare hex_digits.simps [simp del]

fun fingerprintType :: "rtype \<Rightarrow> string"
  and kind_parts :: "rkind \<Rightarrow> string list"
  and field_parts :: "rfield \<Rightarrow> string list"
  and method_parts :: "rmethod \<Rightarrow> string list" where
  "fingerprintType (RType pkg name text kind) =
     (if name \<noteq> '''' then FingerprintSHA256 [pkg, name, text]
      else FingerprintSHA256 ([pkg, name, text] @ kind_parts kind))"
| "kind_parts (KElem t) = [fingerprintType t]"
| "kind_parts (KStruct fs) = concat (map field_parts fs)"
| "kind_parts (KInterface ms) = concat (map method_parts ms)"
| "kind_parts (KFunc variadic ins outs) =
     FormatBool variadic # concat (map (\<lambda>t. [''in'', fingerprintType t]) ins)
       @ concat (map (\<lambda>t. [''out'', fingerprintType t]) outs)"
| "kind_parts KBuiltin = []"
| "field_parts (RField name pkg tag anonymous t) = [name, pkg, tag, FormatBool anonymous, fingerprintType t]"
| "method_parts (RMethod name pkg t) = [name, pkg, fingerprintType t]"

fun fingerprintValue :: "rval \<Rightarrow> string"
  and data_parts :: "rdata \<Rightarrow> string list" where
  "fingerprintValue Invalid = FingerprintSHA256 [''nil-interface'']"
| "fingerprintValue (RVal t d) = FingerprintSHA256 (fingerprintType t # data_parts d)"
| "data_parts (DInterface None) = [''nil'']"
| "data_parts (DInterface (Some v)) = [fingerprintValue v]"
| "data_parts (DParts vs) = map fingerprintValue vs"
| "data_parts (DString s) = [s]"
| "data_parts (DBool b) = [FormatBool b]"
| "data_parts (DInt i) = [Itoa i]"
| "data_parts (DUint n) = [nat_digits n]"
| "data_parts (DFloat bits) = [hex_digits bits]"
| "data_parts (DComplex re im) = [hex_digits re, hex_digits im]"
| "data_parts (DPointer p) = [hex_digits p]"
| "data_parts DNonComparable = [''non-comparable'']"

text \<open>\<open>topologyKey\<close>: \<open>reflect_ValueOf\<close> is how \<open>reflect\<close> shows a value of the key's Go type.\<close>

definition topologyKey :: "('key \<Rightarrow> rval) \<Rightarrow> 'key \<Rightarrow> string" where
  "topologyKey reflect_ValueOf key = fingerprintValue (reflect_ValueOf key)"

lemma length_fingerprintValue [simp]: "length (fingerprintValue v) = 64"
  by (cases v) simp_all

lemma length_topologyKey [simp]: "length (topologyKey rv k) = 64"
  by (simp add: topologyKey_def)

end
