(* ===== verification/Route_Table.thy ===== *)
theory Route_Table
  imports Handlers Topology_Key "HOL-Library.Product_Lexorder" "HOL-Library.Multiset"
begin

text \<open>
  \<open>route_table.go\<close>: the mutable builder, the matchers, and \<open>Build\<close>, which compiles a table and everything mounted in
  it into an immutable tree.

  \<^item> Keys, decision keys and reasons are dynamic values (\<open>gval\<close>); Go's \<open>==\<close> on them is \<open>go_eq\<close>. What the code asks
    of \<open>reflect\<close>, \<open>fmt\<close> and \<open>strconv\<close> about such a value is the record \<open>golib\<close>, a parameter.
  \<^item> Mutable tables live in a list \<open>tabs\<close> indexed by their addresses, so a table may be mounted twice or in a cycle,
    as with Go pointers. An address outside the list cannot arise in Go; \<open>build\<close> answers an error for it.
  \<^item> Decision groups are created by the builders and never nil there; their identity is an address.
  \<^item> \<open>slices.SortStableFunc\<close> is insertion by the comparison function, equal elements keeping their order.
\<close>

section \<open>Matchers\<close>

record golib =
  gl_ValueOf :: "gval \<Rightarrow> rval"
  gl_Sprint :: "gval \<Rightarrow> string"
  gl_FormatFloat :: "float64 \<Rightarrow> string"

record match_data =
  md_key :: string
  md_prefix :: string
  md_remainder :: string
  md_decisionReason :: gval
  md_hasDecisionReason :: bool

definition zero_match_data :: match_data where
  "zero_match_data = \<lparr>md_key = '''', md_prefix = '''', md_remainder = '''', md_decisionReason = VNil,
     md_hasDecisionReason = False\<rparr>"

type_synonym ('h, 'x, 'req) match_fun =
  "'req route_call \<Rightarrow> (('h, 'x) world_scheme, match_data \<times> bool \<times> err) proc"

record ('h, 'x, 'req) route_matcher =
  mt_group :: "nat option"
  mt_kind :: string
  mt_match :: "('h, 'x, 'req) match_fun option"
  mt_staticKey :: string
  mt_prefixLength :: int
  mt_configErr :: err

type_synonym ('h, 'x, 'req) matcher_fn = "'req \<Rightarrow> (('h, 'x) world_scheme, bool) proc"
type_synonym ('h, 'x, 'req) key_extractor = "'req \<Rightarrow> (('h, 'x) world_scheme, gval \<times> bool) proc"

definition predicateMatcher :: "('h, 'x, 'req) matcher_fn option \<Rightarrow> ('h, 'x, 'req) route_matcher" where
  "predicateMatcher match = \<lparr>mt_group = None, mt_kind = MatchKindPredicate,
     mt_match = Some (\<lambda>call. case match of
        None \<Rightarrow> ret (zero_match_data, True, None)
      | Some m \<Rightarrow> seq (m (rc_Request call)) (\<lambda>ok. ret (zero_match_data, ok, None))),
     mt_staticKey = '''', mt_prefixLength = 0, mt_configErr = None\<rparr>"

definition exactMatcher ::
  "golib \<Rightarrow> ('h, 'x, 'req) key_extractor option \<Rightarrow> gval \<Rightarrow> ('h, 'x, 'req) route_matcher" where
  "exactMatcher lib extractor expected = \<lparr>mt_group = None, mt_kind = MatchKindExact,
     mt_match = Some (\<lambda>call. case extractor of
        None \<Rightarrow> ret (zero_match_data, False, Some (configError ''exact route key extractor is nil''))
      | Some ex \<Rightarrow> seq (ex (rc_Request call)) (\<lambda>(got, ok).
          if \<not> ok \<or> \<not> go_eq got expected then ret (zero_match_data, False, None)
          else ret (zero_match_data\<lparr>md_key := gl_Sprint lib got\<rparr>, True, None))),
     mt_staticKey = topologyKey (gl_ValueOf lib) expected, mt_prefixLength = 0, mt_configErr = None\<rparr>"

text \<open>A string-like key is a dynamic value of a type whose underlying type is \<open>string\<close>; \<open>string(got)\<close> is its text.\<close>

fun text_of :: "gval \<Rightarrow> string" where
  "text_of (VString t s) = s"
| "text_of _ = ''''"

definition prefixString :: "gval \<Rightarrow> string" where
  "prefixString key = text_of key"

definition HasPrefix :: "string \<Rightarrow> string \<Rightarrow> bool" where
  "HasPrefix s p = (take (length p) s = p)"

definition TrimPrefix :: "string \<Rightarrow> string \<Rightarrow> string" where
  "TrimPrefix s p = (if HasPrefix s p then drop (length p) s else s)"

definition prefixMatcher :: "('h, 'x, 'req) key_extractor option \<Rightarrow> gval \<Rightarrow> ('h, 'x, 'req) route_matcher" where
  "prefixMatcher extractor pfx =
     (let prefixText = prefixString pfx in
      \<lparr>mt_group = None, mt_kind = MatchKindPrefix,
       mt_match = Some (\<lambda>call. case extractor of
          None \<Rightarrow> ret (zero_match_data, False, Some (configError ''prefix route key extractor is nil''))
        | Some ex \<Rightarrow> seq (ex (rc_Request call)) (\<lambda>(got, ok).
            if \<not> ok then ret (zero_match_data, False, None)
            else let key = text_of got in
              if \<not> HasPrefix key prefixText then ret (zero_match_data, False, None)
              else ret (zero_match_data\<lparr>md_key := key, md_prefix := prefixText,
                          md_remainder := TrimPrefix key prefixText\<rparr>, True, None))),
       mt_staticKey = prefixText, mt_prefixLength = int (length prefixText), mt_configErr = None\<rparr>)"

definition validConfidence :: "float64 \<Rightarrow> bool" where
  "validConfidence value \<longleftrightarrow> is_finite value \<and> flt_le (Fin 0) value \<and> flt_le value (Fin 1)"

definition InvalidConfidenceError :: "float64 \<Rightarrow> gerror" where
  "InvalidConfidenceError c = Typed ''*routery.InvalidConfidenceError'' (VFloat ''float64'' c) []"

text \<open>
  A decision group: its address, the classifier (nil or not) and the zero value of the \<open>RouteDecision\<close> type it returns.
\<close>

record ('h, 'x, 'req) decision_group =
  dg_addr :: nat
  dg_decision :: "(ctx \<Rightarrow> 'req \<Rightarrow> (('h, 'x) world_scheme, route_decision \<times> err) proc) option"
  dg_zero :: route_decision

definition store_decision :: "nat \<Rightarrow> nat \<Rightarrow> cached \<Rightarrow> ('h, 'x) world_scheme \<Rightarrow> ('h, 'x) world_scheme" where
  "store_decision st g c w = w\<lparr>w_decisions := (w_decisions w)(st := (g, c) # w_decisions w st)\<rparr>"

definition decisionForCall ::
  "'req route_call \<Rightarrow> ('h, 'x, 'req) decision_group \<Rightarrow>
   (ctx \<Rightarrow> 'req \<Rightarrow> (('h, 'x) world_scheme, route_decision \<times> err) proc) \<Rightarrow>
   (('h, 'x) world_scheme, route_decision \<times> err) proc" where
  "decisionForCall call grp decision w =
     (case rc_state call of
        None \<Rightarrow> decision (rc_Context call) (rc_Request call) w
      | Some st \<Rightarrow>
          (case map_of (w_decisions w st) (dg_addr grp) of
             Some (CachedDecision result e) \<Rightarrow> (Ret (result, e), w)
           | Some (CachedTable _ _) \<Rightarrow> (Ret (dg_zero grp, Some (configError ''decision route cache type mismatch'')), w)
           | None \<Rightarrow> seq (decision (rc_Context call) (rc_Request call))
               (\<lambda>(result, e) w. (Ret (result, e), store_decision st (dg_addr grp) (CachedDecision result e) w)) w))"

definition decisionMatcher ::
  "golib \<Rightarrow> ('h, 'x, 'req) decision_group option \<Rightarrow> gval \<Rightarrow> float64 \<Rightarrow> ('h, 'x, 'req) route_matcher" where
  "decisionMatcher lib grp expected minConfidence =
     (if \<not> validConfidence minConfidence
      then \<lparr>mt_group = None, mt_kind = MatchKindDecision, mt_match = None, mt_staticKey = '''', mt_prefixLength = 0,
            mt_configErr = Some (configError ''decision confidence threshold must be finite and in [0,1]'')\<rparr>
      else \<lparr>mt_group = map_option dg_addr grp, mt_kind = MatchKindDecision,
            mt_match = Some (\<lambda>call. case Option.bind grp (\<lambda>g. map_option (\<lambda>d. (g, d)) (dg_decision g)) of
               None \<Rightarrow> ret (zero_match_data, False, Some (configError ''decision route classifier is nil''))
             | Some (g, d) \<Rightarrow> seq (decisionForCall call g d) (\<lambda>(result, e). case e of
                 Some x \<Rightarrow> ret (zero_match_data, False, Some x)
               | None \<Rightarrow>
                   if \<not> validConfidence (rd_Confidence result)
                   then ret (zero_match_data, False, Some (InvalidConfidenceError (rd_Confidence result)))
                   else if \<not> rd_Matched result \<or> \<not> go_eq (rd_Key result) expected
                        \<or> flt_less (rd_Confidence result) minConfidence
                   then ret (zero_match_data, False, None)
                   else ret (zero_match_data\<lparr>md_key := gl_Sprint lib (rd_Key result),
                               md_decisionReason := rd_Reason result, md_hasDecisionReason := True\<rparr>, True, None))),
            mt_staticKey = FingerprintSHA256 [topologyKey (gl_ValueOf lib) expected, gl_FormatFloat lib minConfidence],
            mt_prefixLength = 0, mt_configErr = None\<rparr>)"

section \<open>Tables and builders\<close>

record ('h, 'x, 'req, 'k, 'r, 'p) route_entry =
  en_id :: string
  en_priority :: int
  en_handler :: "('h, 'x, 'req, 'k, 'r, 'p) handler option"
  en_sub :: "nat option"
  en_matcher :: "('h, 'x, 'req) route_matcher"

record ('h, 'x, 'req, 'k, 'r, 'p) route_table =
  tb_routes :: "('h, 'x, 'req, 'k, 'r, 'p) route_entry list"
  tb_fallback :: "('h, 'x, 'req, 'k, 'r, 'p) handler option"
  tb_longestPrefixWins :: bool

type_synonym ('h, 'x, 'req, 'k, 'r, 'p) tables = "('h, 'x, 'req, 'k, 'r, 'p) route_table list"

definition NewRouteTable ::
  "('h, 'x, 'req, 'k, 'r, 'p) tables \<Rightarrow> nat \<times> ('h, 'x, 'req, 'k, 'r, 'p) tables" where
  "NewRouteTable tabs = (length tabs, tabs @ [\<lparr>tb_routes = [], tb_fallback = None, tb_longestPrefixWins = False\<rparr>])"

definition add_entry ::
  "nat \<Rightarrow> ('h, 'x, 'req, 'k, 'r, 'p) route_entry \<Rightarrow> ('h, 'x, 'req, 'k, 'r, 'p) tables \<Rightarrow>
   ('h, 'x, 'req, 'k, 'r, 'p) tables" where
  "add_entry t entry tabs = tabs[t := (tabs ! t)\<lparr>tb_routes := tb_routes (tabs ! t) @ [entry]\<rparr>]"

definition Route ::
  "nat \<Rightarrow> string \<Rightarrow> int \<Rightarrow> ('h, 'x, 'req) matcher_fn option \<Rightarrow> ('h, 'x, 'req, 'k, 'r, 'p) handler option \<Rightarrow>
   ('h, 'x, 'req, 'k, 'r, 'p) tables \<Rightarrow> ('h, 'x, 'req, 'k, 'r, 'p) tables" where
  "Route t i priority match handler = add_entry t \<lparr>en_id = i, en_priority = priority, en_handler = handler,
     en_sub = None, en_matcher = predicateMatcher match\<rparr>"

definition Mount ::
  "nat \<Rightarrow> string \<Rightarrow> int \<Rightarrow> ('h, 'x, 'req) matcher_fn option \<Rightarrow> nat option \<Rightarrow>
   ('h, 'x, 'req, 'k, 'r, 'p) tables \<Rightarrow> ('h, 'x, 'req, 'k, 'r, 'p) tables" where
  "Mount t i priority match sub = add_entry t \<lparr>en_id = i, en_priority = priority, en_handler = None,
     en_sub = sub, en_matcher = predicateMatcher match\<rparr>"

definition set_fallback ::
  "nat \<Rightarrow> ('h, 'x, 'req, 'k, 'r, 'p) handler option \<Rightarrow> ('h, 'x, 'req, 'k, 'r, 'p) tables \<Rightarrow>
   ('h, 'x, 'req, 'k, 'r, 'p) tables" where
  "set_fallback t handler tabs = tabs[t := (tabs ! t)\<lparr>tb_fallback := handler\<rparr>]"

text \<open>The key builders: a builder holds its table (nil or not) and its extractor or decision group.\<close>

definition OnKey ::
  "nat option \<Rightarrow> ('h, 'x, 'req) key_extractor option \<Rightarrow> nat option \<times> ('h, 'x, 'req) key_extractor option" where
  "OnKey table extractor = (table, extractor)"

definition OnStringKey ::
  "nat option \<Rightarrow> ('h, 'x, 'req) key_extractor option \<Rightarrow> nat option \<times> ('h, 'x, 'req) key_extractor option" where
  "OnStringKey table extractor = (table, extractor)"

text \<open>\<open>OnDecision\<close> allocates the group, here at the given address.\<close>

definition OnDecision ::
  "nat \<Rightarrow> route_decision \<Rightarrow> nat option \<Rightarrow> (ctx \<Rightarrow> 'req \<Rightarrow> (('h, 'x) world_scheme, route_decision \<times> err) proc) option \<Rightarrow>
   nat option \<times> ('h, 'x, 'req) decision_group option" where
  "OnDecision addr zero table decision = (table, Some \<lparr>dg_addr = addr, dg_decision = decision, dg_zero = zero\<rparr>)"

definition Exact ::
  "golib \<Rightarrow> nat option \<times> ('h, 'x, 'req) key_extractor option \<Rightarrow> string \<Rightarrow> int \<Rightarrow> gval \<Rightarrow>
   ('h, 'x, 'req, 'k, 'r, 'p) handler option \<Rightarrow> ('h, 'x, 'req, 'k, 'r, 'p) tables \<Rightarrow>
   ('h, 'x, 'req, 'k, 'r, 'p) tables" where
  "Exact lib builder i priority key handler tabs =
     (case fst builder of
        None \<Rightarrow> tabs
      | Some t \<Rightarrow> add_entry t \<lparr>en_id = i, en_priority = priority, en_handler = handler, en_sub = None,
                   en_matcher = exactMatcher lib (snd builder) key\<rparr> tabs)"

text \<open>\<open>Exact\<close> of the builder for string-like keys.\<close>

definition StringKey_Exact ::
  "golib \<Rightarrow> nat option \<times> ('h, 'x, 'req) key_extractor option \<Rightarrow> string \<Rightarrow> int \<Rightarrow> gval \<Rightarrow>
   ('h, 'x, 'req, 'k, 'r, 'p) handler option \<Rightarrow> ('h, 'x, 'req, 'k, 'r, 'p) tables \<Rightarrow>
   ('h, 'x, 'req, 'k, 'r, 'p) tables" where
  "StringKey_Exact lib builder i priority key handler tabs =
     (case fst builder of
        None \<Rightarrow> tabs
      | Some t \<Rightarrow> add_entry t \<lparr>en_id = i, en_priority = priority, en_handler = handler, en_sub = None,
                   en_matcher = exactMatcher lib (snd builder) key\<rparr> tabs)"

definition Prefix ::
  "nat option \<times> ('h, 'x, 'req) key_extractor option \<Rightarrow> string \<Rightarrow> int \<Rightarrow> gval \<Rightarrow>
   ('h, 'x, 'req, 'k, 'r, 'p) handler option \<Rightarrow> ('h, 'x, 'req, 'k, 'r, 'p) tables \<Rightarrow>
   ('h, 'x, 'req, 'k, 'r, 'p) tables" where
  "Prefix builder i priority pfx handler tabs =
     (case fst builder of
        None \<Rightarrow> tabs
      | Some t \<Rightarrow> add_entry t \<lparr>en_id = i, en_priority = priority, en_handler = handler, en_sub = None,
                   en_matcher = prefixMatcher (snd builder) pfx\<rparr> tabs)"

definition LongestPrefixWins ::
  "nat option \<Rightarrow> ('h, 'x, 'req, 'k, 'r, 'p) tables \<Rightarrow> ('h, 'x, 'req, 'k, 'r, 'p) tables" where
  "LongestPrefixWins table tabs =
     (case table of
        None \<Rightarrow> tabs
      | Some t \<Rightarrow> tabs[t := (tabs ! t)\<lparr>tb_longestPrefixWins := True\<rparr>])"

definition Decision_Case ::
  "golib \<Rightarrow> nat option \<times> ('h, 'x, 'req) decision_group option \<Rightarrow> string \<Rightarrow> int \<Rightarrow> gval \<Rightarrow> float64 \<Rightarrow>
   ('h, 'x, 'req, 'k, 'r, 'p) handler option \<Rightarrow> ('h, 'x, 'req, 'k, 'r, 'p) tables \<Rightarrow>
   ('h, 'x, 'req, 'k, 'r, 'p) tables" where
  "Decision_Case lib builder i priority key minConfidence handler tabs =
     (case fst builder of
        None \<Rightarrow> tabs
      | Some t \<Rightarrow> add_entry t \<lparr>en_id = i, en_priority = priority, en_handler = handler, en_sub = None,
                   en_matcher = decisionMatcher lib (snd builder) key minConfidence\<rparr> tabs)"

definition validateConfiguration :: "('h, 'x, 'req, 'k, 'r, 'p) route_entry \<Rightarrow> err" where
  "validateConfiguration entry =
     (if mt_configErr (en_matcher entry) \<noteq> None then mt_configErr (en_matcher entry)
      else if en_handler entry = None \<and> en_sub entry = None
      then Some (configError (''route '' @ en_id entry @ '' has no handler or nested table''))
      else if en_handler entry \<noteq> None \<and> en_sub entry \<noteq> None
      then Some (configError (''route '' @ en_id entry @ '' has both handler and nested table''))
      else if mt_match (en_matcher entry) = None
      then Some (configError (''route '' @ en_id entry @ '' has invalid matcher''))
      else None)"

section \<open>Order of routes\<close>

definition cmp_Compare :: "int \<Rightarrow> int \<Rightarrow> int" where
  "cmp_Compare a b = (if a < b then -1 else if a = b then 0 else 1)"

definition routeGroup :: "string \<Rightarrow> int" where
  "routeGroup kind = (if kind = MatchKindPrefix then 0 else 1)"

text \<open>What the comparison reads of an entry: priority, match kind, prefix length.\<close>

definition compareRoutes :: "int \<times> string \<times> int \<Rightarrow> int \<times> string \<times> int \<Rightarrow> bool \<Rightarrow> int" where
  "compareRoutes left right longest =
     (case left of (lp, lk, ll) \<Rightarrow> case right of (rp, rk, rl) \<Rightarrow>
      let leftGroup = routeGroup lk; rightGroup = routeGroup rk in
      if longest \<and> cmp_Compare leftGroup rightGroup \<noteq> 0 then cmp_Compare leftGroup rightGroup
      else if longest \<and> cmp_Compare rl ll \<noteq> 0 then cmp_Compare rl ll
      else if cmp_Compare rp lp \<noteq> 0 then cmp_Compare rp lp
      else if cmp_Compare leftGroup rightGroup \<noteq> 0 then cmp_Compare leftGroup rightGroup
      else cmp_Compare rl ll)"

fun insert_stable :: "('a \<Rightarrow> 'a \<Rightarrow> int) \<Rightarrow> 'a \<Rightarrow> 'a list \<Rightarrow> 'a list" where
  "insert_stable cmp x [] = [x]"
| "insert_stable cmp x (y # ys) = (if cmp y x < 0 then y # insert_stable cmp x ys else x # y # ys)"

definition SortStableFunc :: "('a \<Rightarrow> 'a \<Rightarrow> int) \<Rightarrow> 'a list \<Rightarrow> 'a list" where
  "SortStableFunc cmp xs = foldr (insert_stable cmp) xs []"

section \<open>Compiled tables\<close>

datatype ('h, 'x, 'req, 'k, 'r, 'p) built_table =
  Built (bt_routes: "('h, 'x, 'req, 'k, 'r, 'p) built_entry list")
    (bt_fallback: "('h, 'x, 'req, 'k, 'r, 'p) handler option") (bt_longestPrefixWins: bool)
and ('h, 'x, 'req, 'k, 'r, 'p) built_entry =
  Entry (be_id: string) (be_priority: int) (be_handler: "('h, 'x, 'req, 'k, 'r, 'p) handler option")
    (be_nested: "('h, 'x, 'req, 'k, 'r, 'p) built_table option") (be_matcher: "('h, 'x, 'req) route_matcher")

definition sort_view :: "('h, 'x, 'req, 'k, 'r, 'p) built_entry \<Rightarrow> int \<times> string \<times> int" where
  "sort_view e = (be_priority e, mt_kind (be_matcher e), mt_prefixLength (be_matcher e))"

definition sort_routes ::
  "bool \<Rightarrow> ('h, 'x, 'req, 'k, 'r, 'p) built_entry list \<Rightarrow> ('h, 'x, 'req, 'k, 'r, 'p) built_entry list" where
  "sort_routes longest = SortStableFunc (\<lambda>l r. compareRoutes (sort_view l) (sort_view r) longest)"

section \<open>Topology fingerprints\<close>

text \<open>The groups met so far, in the order of their numbers: group \<open>g\<close> has the number one more than its position.\<close>

fun position :: "nat \<Rightarrow> nat list \<Rightarrow> nat option" where
  "position g [] = None"
| "position g (h # hs) = (if g = h then Some 0 else map_option Suc (position g hs))"

definition group_number :: "nat option \<Rightarrow> nat list \<Rightarrow> nat \<times> nat list" where
  "group_number grp gs =
     (case grp of
        None \<Rightarrow> (0, gs)
      | Some g \<Rightarrow> (case position g gs of Some i \<Rightarrow> (Suc i, gs) | None \<Rightarrow> (Suc (length gs), gs @ [g])))"

fun fingerprintTree :: "('h, 'x, 'req, 'k, 'r, 'p) built_table \<Rightarrow> nat list \<Rightarrow> string \<times> nat list"
  and entries_parts :: "('h, 'x, 'req, 'k, 'r, 'p) built_entry list \<Rightarrow> nat list \<Rightarrow> string list \<times> nat list"
  and entry_part :: "('h, 'x, 'req, 'k, 'r, 'p) built_entry \<Rightarrow> nat list \<Rightarrow> string \<times> nat list" where
  "fingerprintTree (Built routes fallback longest) gs =
     (case entries_parts routes gs of (parts, gs') \<Rightarrow>
       (FingerprintSHA256 ([''routery-topology-v2'', FormatBool longest, FormatBool (fallback \<noteq> None),
          Itoa (int (length routes))] @ parts), gs'))"
| "entries_parts [] gs = ([], gs)"
| "entries_parts (e # es) gs =
     (case entry_part e gs of (p, gs1) \<Rightarrow> case entries_parts es gs1 of (ps, gs2) \<Rightarrow> (p # ps, gs2))"
| "entry_part (Entry i priority handler nested matcher) gs =
     (case group_number (mt_group matcher) gs of (groupIndex, gs1) \<Rightarrow>
      case (case nested of None \<Rightarrow> (''leaf'', gs1) | Some t \<Rightarrow> fingerprintTree t gs1) of (below, gs2) \<Rightarrow>
        (FingerprintSHA256 [i, Itoa priority, mt_kind matcher, mt_staticKey matcher, Itoa (int groupIndex), below], gs2))"

definition fingerprintTable :: "('h, 'x, 'req, 'k, 'r, 'p) built_table \<Rightarrow> string" where
  "fingerprintTable table = fst (fingerprintTree table [])"

definition snapshotState :: "('h, 'x, 'req, 'k, 'r, 'p) built_table \<Rightarrow> string list" where
  "snapshotState table = map be_id (bt_routes table)"

section \<open>Build\<close>

record ('h, 'x, 'req, 'k, 'r, 'p) router =
  ro_table :: "('h, 'x, 'req, 'k, 'r, 'p) built_table"
  ro_fingerprint :: string

definition appendRouteID :: "string list \<Rightarrow> string \<Rightarrow> string list" where
  "appendRouteID parent i = parent @ [i]"

text \<open>\<open>fmt.Sprintf("mount cycle at %v", path)\<close>: the path in brackets, separated by spaces.\<close>

fun join_spaces :: "string list \<Rightarrow> string" where
  "join_spaces [] = ''''"
| "join_spaces [s] = s"
| "join_spaces (s # ss) = s @ '' '' @ join_spaces ss"

definition mount_cycle :: "string list \<Rightarrow> gerror" where
  "mount_cycle path = configError (''mount cycle at ['' @ join_spaces path @ '']'')"

definition finish_build ::
  "('h, 'x, 'req, 'k, 'r, 'p) route_table \<Rightarrow> ('h, 'x, 'req, 'k, 'r, 'p) built_entry list \<Rightarrow>
   gerror + ('h, 'x, 'req, 'k, 'r, 'p) router" where
  "finish_build table routes =
     (if routes = [] \<and> tb_fallback table = None then Inl ErrNoHandlers
      else let built = Built (sort_routes (tb_longestPrefixWins table) routes) (tb_fallback table) (tb_longestPrefixWins table)
        in Inr \<lparr>ro_table = built, ro_fingerprint = fingerprintTable built\<rparr>)"

text \<open>Every call into a mounted table adds one of finitely many addresses to \<open>ancestors\<close>.\<close>

lemma fewer_addresses_left:
  assumes "\<not> n \<le> t" "t \<notin> anc"
  shows "card ({..<n} - insert t anc) < card ({..<n} - (anc :: nat set))"
proof (rule psubset_card_mono)
  have "t \<in> {..<n} - anc" using assms by simp
  then show "{..<n} - insert t anc \<subset> {..<n} - anc" by blast
qed simp

function build ::
  "('h, 'x, 'req, 'k, 'r, 'p) tables \<Rightarrow> nat option \<Rightarrow> nat set \<Rightarrow> string list \<Rightarrow> gerror + ('h, 'x, 'req, 'k, 'r, 'p) router"
  and build_entries ::
  "('h, 'x, 'req, 'k, 'r, 'p) tables \<Rightarrow> ('h, 'x, 'req, 'k, 'r, 'p) route_entry list \<Rightarrow> nat set \<Rightarrow> string list \<Rightarrow>
   gerror + ('h, 'x, 'req, 'k, 'r, 'p) built_entry list" where
  "build tabs None ancestors path = Inl (configError ''route table is nil'')"
| "build tabs (Some t) ancestors path =
     (if t \<in> ancestors then Inl (mount_cycle path)
      else if length tabs \<le> t then Inl (configError ''dangling table address'')
      else case build_entries tabs (tb_routes (tabs ! t)) (insert t ancestors) path of
        Inl e \<Rightarrow> Inl e
      | Inr routes \<Rightarrow> finish_build (tabs ! t) routes)"
| "build_entries tabs [] ancestors path = Inr []"
| "build_entries tabs (entry # entries) ancestors path =
     (case validateConfiguration entry of
        Some e \<Rightarrow> Inl e
      | None \<Rightarrow>
          (case (case en_sub entry of
                   None \<Rightarrow> Inr None
                 | Some s \<Rightarrow> (case build tabs (Some s) ancestors (appendRouteID path (en_id entry)) of
                              Inl e \<Rightarrow> Inl e
                            | Inr nested \<Rightarrow> Inr (Some (ro_table nested)))) of
             Inl e \<Rightarrow> Inl e
           | Inr nested \<Rightarrow>
               (case build_entries tabs entries ancestors path of
                  Inl e \<Rightarrow> Inl e
                | Inr routes \<Rightarrow>
                    Inr (Entry (en_id entry) (en_priority entry) (en_handler entry) nested (en_matcher entry) # routes))))"
  by pat_completeness simp_all

termination
proof (relation "measures [
    \<lambda>c. case c of Inl (tabs, t, anc, path) \<Rightarrow> card ({..<length tabs} - anc)
              | Inr (tabs, es, anc, path) \<Rightarrow> card ({..<length tabs} - anc),
    \<lambda>c. case c of Inl _ \<Rightarrow> 0 | Inr (tabs, es, anc, path) \<Rightarrow> Suc (length es)]", goal_cases)
  case 1
  show ?case by (rule wf_measures)
next
  case (2 tabs t anc path)
  then show ?case using fewer_addresses_left [OF 2(2,1)] by simp
qed simp_all

definition Build ::
  "('h, 'x, 'req, 'k, 'r, 'p) tables \<Rightarrow> nat option \<Rightarrow> gerror + ('h, 'x, 'req, 'k, 'r, 'p) router" where
  "Build tabs table = build tabs table {} []"

end
