(* ===== verification/Route_Build.thy ===== *)
theory Route_Build
  imports Route_Table
begin

text \<open>
  What \<open>Build\<close> guarantees: the order of the compiled routes, the tree it compiles a table into, the rejection of mount
  cycles, and what the topology fingerprint determines.
\<close>

section \<open>The order is a sort by a key\<close>

text \<open>
  With the longest-prefix policy prefix routes come first, longer prefixes before shorter, then higher priority; without
  it higher priority comes first, then the prefix group, then longer prefixes. Ties keep declaration order.
\<close>

definition route_key :: "bool \<Rightarrow> int \<times> string \<times> int \<Rightarrow> int \<times> int \<times> int" where
  "route_key longest v = (case v of (priority, kind, len) \<Rightarrow>
     if longest then (routeGroup kind, - len, - priority) else (- priority, routeGroup kind, - len))"

lemma cmp_Compare_simps [simp]:
  "cmp_Compare a b < 0 \<longleftrightarrow> a < b" "cmp_Compare a b = 0 \<longleftrightarrow> a = b" "0 < cmp_Compare a b \<longleftrightarrow> b < a"
  by (auto simp: cmp_Compare_def)

lemma compareRoutes_less: "compareRoutes l r longest < 0 \<longleftrightarrow> route_key longest l < route_key longest r"
  by (cases l; cases r) (auto simp: compareRoutes_def route_key_def Let_def less_prod_def less_eq_prod_def)

lemma insert_stable_insort:
  assumes "\<And>a b. cmp a b < 0 \<longleftrightarrow> key a < (key b :: 'k :: linorder)"
  shows "insert_stable cmp x ys = insort_key key x ys"
  using assms by (induction ys) auto

lemma SortStableFunc_sort_key:
  assumes "\<And>a b. cmp a b < 0 \<longleftrightarrow> key a < (key b :: 'k :: linorder)"
  shows "SortStableFunc cmp xs = sort_key key xs"
  unfolding SortStableFunc_def sort_key_def by (induction xs) (simp_all add: insert_stable_insort [OF assms])

lemma sort_routes_eq: "sort_routes longest es = sort_key (\<lambda>e. route_key longest (sort_view e)) es"
  unfolding sort_routes_def by (rule SortStableFunc_sort_key) (rule compareRoutes_less)

section \<open>The tree a table stands for\<close>

inductive compiles ::
  "('h, 'x, 'req, 'k, 'r, 'p) tables \<Rightarrow> nat \<Rightarrow> ('h, 'x, 'req, 'k, 'r, 'p) built_table \<Rightarrow> bool"
  and compiles_entries ::
  "('h, 'x, 'req, 'k, 'r, 'p) tables \<Rightarrow> ('h, 'x, 'req, 'k, 'r, 'p) route_entry list \<Rightarrow>
   ('h, 'x, 'req, 'k, 'r, 'p) built_entry list \<Rightarrow> bool"
  for tabs where
  compiles_table: "t < length tabs \<Longrightarrow> compiles_entries tabs (tb_routes (tabs ! t)) routes \<Longrightarrow>
    routes \<noteq> [] \<or> tb_fallback (tabs ! t) \<noteq> None \<Longrightarrow>
    compiles tabs t (Built (sort_key (\<lambda>e. route_key (tb_longestPrefixWins (tabs ! t)) (sort_view e)) routes)
      (tb_fallback (tabs ! t)) (tb_longestPrefixWins (tabs ! t)))"
| compiles_Nil: "compiles_entries tabs [] []"
| compiles_leaf: "validateConfiguration e = None \<Longrightarrow> en_sub e = None \<Longrightarrow> compiles_entries tabs es bs \<Longrightarrow>
    compiles_entries tabs (e # es) (Entry (en_id e) (en_priority e) (en_handler e) None (en_matcher e) # bs)"
| compiles_mount: "validateConfiguration e = None \<Longrightarrow> en_sub e = Some s \<Longrightarrow> compiles tabs s nested \<Longrightarrow>
    compiles_entries tabs es bs \<Longrightarrow>
    compiles_entries tabs (e # es) (Entry (en_id e) (en_priority e) (en_handler e) (Some nested) (en_matcher e) # bs)"

text \<open>\<open>mounts tabs s t\<close>: table \<open>s\<close> is mounted in table \<open>t\<close>.\<close>

definition mounts :: "('h, 'x, 'req, 'k, 'r, 'p) tables \<Rightarrow> nat \<Rightarrow> nat \<Rightarrow> bool" where
  "mounts tabs s t \<longleftrightarrow> t < length tabs \<and> (\<exists>e \<in> set (tb_routes (tabs ! t)). en_sub e = Some s)"

lemma compiles_acc:
  "compiles tabs t bt \<Longrightarrow> Wellfounded.accp (mounts tabs) t"
  "compiles_entries tabs es bs \<Longrightarrow> \<forall>e \<in> set es. \<forall>s. en_sub e = Some s \<longrightarrow> Wellfounded.accp (mounts tabs) s"
proof (induction rule: compiles_compiles_entries.inducts)
  case (compiles_table t routes)
  show ?case
  proof (rule accpI)
    show "Wellfounded.accp (mounts tabs) s" if "mounts tabs s t" for s
      using that compiles_table.IH unfolding mounts_def by blast
  qed
qed simp_all

lemma accp_irrefl: "Wellfounded.accp r x \<Longrightarrow> \<not> r\<^sup>+\<^sup>+ x x"
proof (induction rule: accp.induct)
  case (accI x)
  show ?case
  proof
    assume "r\<^sup>+\<^sup>+ x x"
    then obtain y where y: "r\<^sup>*\<^sup>* x y" "r y x" by (metis tranclp.cases tranclp_into_rtranclp rtranclp.rtrancl_refl)
    then have "r\<^sup>+\<^sup>+ y y" by (metis rtranclp_into_tranclp2)
    with accI.IH y show False by blast
  qed
qed

section \<open>Build computes it\<close>

lemma finish_build_Inr:
  "finish_build table routes = Inr r \<longleftrightarrow> (routes \<noteq> [] \<or> tb_fallback table \<noteq> None) \<and>
     r = \<lparr>ro_table = Built (sort_key (\<lambda>e. route_key (tb_longestPrefixWins table) (sort_view e)) routes) (tb_fallback table)
             (tb_longestPrefixWins table),
          ro_fingerprint = fingerprintTable (Built (sort_key (\<lambda>e. route_key (tb_longestPrefixWins table) (sort_view e)) routes)
             (tb_fallback table) (tb_longestPrefixWins table))\<rparr>"
  by (auto simp: finish_build_def sort_routes_eq Let_def)

lemma build_sound:
  "build tabs table anc path = Inr r \<Longrightarrow> \<exists>t. table = Some t \<and> compiles tabs t (ro_table r) \<and>
     ro_fingerprint r = fingerprintTable (ro_table r)"
  "build_entries tabs es anc path = Inr bs \<Longrightarrow> compiles_entries tabs es bs"
proof (induction tabs table anc path and tabs es anc path arbitrary: r and bs rule: build_build_entries.induct)
  case (1 tabs anc path)
  then show ?case by simp
next
  case (2 tabs t anc path)
  have t: "t \<notin> anc" "\<not> length tabs \<le> t" using "2.prems" by (simp_all split: if_splits)
  obtain routes where routes: "build_entries tabs (tb_routes (tabs ! t)) (insert t anc) path = Inr routes"
    and fin: "finish_build (tabs ! t) routes = Inr r"
    using "2.prems" t by (simp split: sum.splits)
  have "compiles_entries tabs (tb_routes (tabs ! t)) routes" using "2.IH" [OF t routes] .
  then show ?case using fin t compiles_table [of t tabs routes] unfolding finish_build_Inr by simp
next
  case (3 tabs anc path)
  then show ?case by (simp add: compiles_Nil)
next
  case (4 tabs e es anc path)
  have v: "validateConfiguration e = None" using "4.prems" by (simp split: option.splits)
  show ?case
  proof (cases "en_sub e")
    case None
    then obtain bs' where "build_entries tabs es anc path = Inr bs'"
      "bs = Entry (en_id e) (en_priority e) (en_handler e) None (en_matcher e) # bs'"
      using "4.prems" v by (simp split: sum.splits)
    moreover from this have "compiles_entries tabs es bs'" using "4.IH"(2) [OF v] None by simp
    ultimately show ?thesis using None v compiles_leaf by simp
  next
    case (Some s)
    obtain n bs' where n: "build tabs (Some s) anc (appendRouteID path (en_id e)) = Inr n"
      and bs': "build_entries tabs es anc path = Inr bs'"
      "bs = Entry (en_id e) (en_priority e) (en_handler e) (Some (ro_table n)) (en_matcher e) # bs'"
      using "4.prems" v Some by (simp split: sum.splits)
    have "compiles tabs s (ro_table n)" using "4.IH"(1) [OF v Some n] by simp
    moreover have "compiles_entries tabs es bs'" using "4.IH"(2) [OF v _ bs'(1)] n Some by simp
    ultimately show ?thesis using Some v bs' compiles_mount by simp
  qed
qed

lemma build_complete:
  "compiles tabs t bt \<Longrightarrow> \<forall>anc path. (\<forall>a \<in> anc. (mounts tabs)\<^sup>+\<^sup>+ t a) \<longrightarrow>
     (\<exists>r. build tabs (Some t) anc path = Inr r \<and> ro_table r = bt)"
  "compiles_entries tabs es bs \<Longrightarrow> \<forall>anc path. (\<forall>e \<in> set es. \<forall>s. en_sub e = Some s \<longrightarrow> (\<forall>a \<in> anc. (mounts tabs)\<^sup>+\<^sup>+ s a)) \<longrightarrow>
     build_entries tabs es anc path = Inr bs"
proof (induction rule: compiles_compiles_entries.inducts)
  case (compiles_table t routes)
  show ?case
  proof (intro allI impI)
    fix anc path assume anc: "\<forall>a \<in> anc. (mounts tabs)\<^sup>+\<^sup>+ t a"
    have "Wellfounded.accp (mounts tabs) t"
      using compiles_acc(1) [OF compiles_compiles_entries.compiles_table] compiles_table(1,2,4) by blast
    then have t: "t \<notin> anc" using accp_irrefl anc by metis
    have "(mounts tabs)\<^sup>+\<^sup>+ s a" if "e \<in> set (tb_routes (tabs ! t))" "en_sub e = Some s" "a \<in> insert t anc" for e s a
    proof -
      have m: "mounts tabs s t" using that compiles_table(1) unfolding mounts_def by blast
      show ?thesis using m that(3) anc by (cases "a = t") (blast intro: tranclp_into_tranclp2)+
    qed
    then have "build_entries tabs (tb_routes (tabs ! t)) (insert t anc) path = Inr routes"
      using compiles_table.IH by blast
    then have "build tabs (Some t) anc path = finish_build (tabs ! t) routes"
      using t compiles_table(1) by simp
    then show "\<exists>r. build tabs (Some t) anc path = Inr r \<and> ro_table r =
        Built (sort_key (\<lambda>e. route_key (tb_longestPrefixWins (tabs ! t)) (sort_view e)) routes)
          (tb_fallback (tabs ! t)) (tb_longestPrefixWins (tabs ! t))"
      using compiles_table(4) by (simp add: finish_build_Inr)
  qed
next
  case compiles_Nil
  then show ?case by simp
next
  case (compiles_leaf e es bs)
  then show ?case by simp
next
  case (compiles_mount e s nested es bs)
  show ?case
  proof (intro allI impI)
    fix anc path assume anc: "\<forall>e' \<in> set (e # es). \<forall>s. en_sub e' = Some s \<longrightarrow> (\<forall>a \<in> anc. (mounts tabs)\<^sup>+\<^sup>+ s a)"
    then have "\<forall>a \<in> anc. (mounts tabs)\<^sup>+\<^sup>+ s a" using compiles_mount(2) by simp
    then obtain n where n: "build tabs (Some s) anc (appendRouteID path (en_id e)) = Inr n" "ro_table n = nested"
      using compiles_mount.IH(2) by blast
    moreover have "build_entries tabs es anc path = Inr bs" using compiles_mount.IH(4) anc by simp
    ultimately show "build_entries tabs (e # es) anc path =
        Inr (Entry (en_id e) (en_priority e) (en_handler e) (Some nested) (en_matcher e) # bs)"
      using compiles_mount(1,2) by simp
  qed
qed

lemma Build_iff:
  "Build tabs (Some t) = Inr r \<longleftrightarrow> compiles tabs t (ro_table r) \<and> ro_fingerprint r = fingerprintTable (ro_table r)"
proof
  assume "Build tabs (Some t) = Inr r"
  then show "compiles tabs t (ro_table r) \<and> ro_fingerprint r = fingerprintTable (ro_table r)"
    unfolding Build_def by (drule_tac build_sound(1)) simp
next
  assume c: "compiles tabs t (ro_table r) \<and> ro_fingerprint r = fingerprintTable (ro_table r)"
  then obtain r' where "build tabs (Some t) {} [] = Inr r'" "ro_table r' = ro_table r"
    using build_complete(1) by blast
  moreover from this have "ro_fingerprint r' = ro_fingerprint r" using c build_sound(1) by fastforce
  ultimately show "Build tabs (Some t) = Inr r" by (simp add: Build_def)
qed

section \<open>What the fingerprint sees of a table\<close>

text \<open>
  The topology of a compiled table: policy, presence of a fallback, and per route its id, priority, match kind, static
  key, the number of its decision group in order of first appearance, and the topology of what is mounted there.
\<close>

datatype topology = Topology bool bool "topo_entry list"
and topo_entry = TopoEntry string int string string nat "topology option"

fun topology_of :: "('h, 'x, 'req, 'k, 'r, 'p) built_table \<Rightarrow> nat list \<Rightarrow> topology \<times> nat list"
  and topo_entries_of :: "('h, 'x, 'req, 'k, 'r, 'p) built_entry list \<Rightarrow> nat list \<Rightarrow> topo_entry list \<times> nat list"
  and topo_entry_of :: "('h, 'x, 'req, 'k, 'r, 'p) built_entry \<Rightarrow> nat list \<Rightarrow> topo_entry \<times> nat list" where
  "topology_of (Built routes fallback longest) gs =
     (case topo_entries_of routes gs of (es, gs') \<Rightarrow> (Topology longest (fallback \<noteq> None) es, gs'))"
| "topo_entries_of [] gs = ([], gs)"
| "topo_entries_of (e # es) gs =
     (case topo_entry_of e gs of (t, gs1) \<Rightarrow> case topo_entries_of es gs1 of (ts, gs2) \<Rightarrow> (t # ts, gs2))"
| "topo_entry_of (Entry i priority handler nested matcher) gs =
     (case group_number (mt_group matcher) gs of (n, gs1) \<Rightarrow>
      case (case nested of None \<Rightarrow> (None, gs1) | Some t \<Rightarrow> (case topology_of t gs1 of (u, gs2) \<Rightarrow> (Some u, gs2))) of
        (below, gs2) \<Rightarrow> (TopoEntry i priority (mt_kind matcher) (mt_staticKey matcher) n below, gs2))"

definition topology :: "('h, 'x, 'req, 'k, 'r, 'p) built_table \<Rightarrow> topology" where
  "topology t = fst (topology_of t [])"

fun topo_parts :: "topology \<Rightarrow> string list"
  and topo_entry_parts :: "topo_entry \<Rightarrow> string list" where
  "topo_parts (Topology longest fb es) = [''routery-topology-v2'', FormatBool longest, FormatBool fb,
     Itoa (int (length es))] @ map (\<lambda>e. FingerprintSHA256 (topo_entry_parts e)) es"
| "topo_entry_parts (TopoEntry i priority kind key n below) = [i, Itoa priority, kind, key, Itoa (int n),
     (case below of None \<Rightarrow> ''leaf'' | Some t \<Rightarrow> FingerprintSHA256 (topo_parts t))]"

text \<open>Everything that is hashed on the way.\<close>

fun topo_inputs :: "topology \<Rightarrow> string set"
  and topo_entry_inputs :: "topo_entry \<Rightarrow> string set" where
  "topo_inputs (Topology longest fb es) =
     insert (frames (topo_parts (Topology longest fb es))) (\<Union>e \<in> set es. topo_entry_inputs e)"
| "topo_entry_inputs (TopoEntry i priority kind key n below) =
     insert (frames (topo_entry_parts (TopoEntry i priority kind key n below)))
       (case below of None \<Rightarrow> {} | Some t \<Rightarrow> topo_inputs t)"

text \<open>Sizes a Go program can have: lengths of strings below \<open>2 ^ 64\<close>, counts and priorities of type \<open>int\<close>.\<close>

fun topo_ok :: "topology \<Rightarrow> bool"
  and topo_entry_ok :: "topo_entry \<Rightarrow> bool" where
  "topo_ok (Topology longest fb es) \<longleftrightarrow> length es < 2 ^ 63 \<and> (\<forall>e \<in> set es. topo_entry_ok e)"
| "topo_entry_ok (TopoEntry i priority kind key n below) \<longleftrightarrow> length i < 2 ^ 64 \<and> \<bar>priority\<bar> \<le> 2 ^ 63 \<and> length kind < 2 ^ 64
     \<and> length key < 2 ^ 64 \<and> n < 2 ^ 63 \<and> (case below of None \<Rightarrow> True | Some t \<Rightarrow> topo_ok t)"

lemma fingerprintTree_topology:
  fixes t :: "('h, 'x, 'req, 'k, 'r, 'p) built_table" and es :: "('h, 'x, 'req, 'k, 'r, 'p) built_entry list"
    and e :: "('h, 'x, 'req, 'k, 'r, 'p) built_entry"
  shows "fingerprintTree t gs = (case topology_of t gs of (u, gs') \<Rightarrow> (FingerprintSHA256 (topo_parts u), gs'))"
  and "entries_parts es gs = (case topo_entries_of es gs of (us, gs') \<Rightarrow>
     (map (\<lambda>e. FingerprintSHA256 (topo_entry_parts e)) us, gs'))
   \<and> length (fst (topo_entries_of es gs)) = length es"
  and "entry_part e gs = (case topo_entry_of e gs of (u, gs') \<Rightarrow> (FingerprintSHA256 (topo_entry_parts u), gs'))"
proof (induction t gs and es gs and e gs rule: fingerprintTree_entries_parts_entry_part.induct)
  case (1 routes fallback longest gs)
  then show ?case by (cases "topo_entries_of routes gs") simp
next
  case (3 e es gs)
  obtain u gs1 where u: "topo_entry_of e gs = (u, gs1)" by fastforce
  obtain us gs2 where us: "topo_entries_of es gs1 = (us, gs2)" by fastforce
  then show ?case using 3 u by simp
next
  case (4 i priority handler nested matcher gs)
  obtain n gs1 where n: "group_number (mt_group matcher) gs = (n, gs1)" by fastforce
  show ?case
  proof (cases nested)
    case (Some t)
    obtain u gs2 where "topology_of t gs1 = (u, gs2)" by fastforce
    then show ?thesis using 4 n Some by simp
  qed (use n in simp)
qed simp

lemma fingerprintTable_topology: "fingerprintTable t = FingerprintSHA256 (topo_parts (topology t))"
  using fingerprintTree_topology(1) [of t "[]"] by (simp add: fingerprintTable_def topology_def split: prod.splits)

lemma length_nat_digits: "length (nat_digits n) \<le> Suc n"
proof (induction n rule: nat_digits.induct)
  case (1 n)
  then show ?case
  proof (cases "n < 10")
    case False
    then have "length (nat_digits (n div 10)) \<le> Suc (n div 10)" using 1 by simp
    moreover have "n div 10 < n" using False by simp
    ultimately show ?thesis using False by (simp add: nat_digits.simps [of n])
  qed (simp add: nat_digits.simps [of n])
qed

lemma length_Itoa: "\<bar>i\<bar> \<le> 2 ^ 63 \<Longrightarrow> length (Itoa i) < 2 ^ 64"
proof -
  assume i: "\<bar>i\<bar> \<le> 2 ^ 63"
  then have "nat \<bar>i\<bar> \<le> 2 ^ 63" by simp
  then show ?thesis using length_nat_digits [of "nat i"] length_nat_digits [of "nat (- i)"]
    by (auto simp: Itoa_def)
qed

lemma map_eq_or:
  assumes "map f xs = map f ys"
    and "\<And>x y. x \<in> set xs \<Longrightarrow> y \<in> set ys \<Longrightarrow> f x = f y \<Longrightarrow> x = y \<or> C x y"
  shows "xs = ys \<or> (\<exists>x \<in> set xs. \<exists>y \<in> set ys. C x y)"
  using assms
proof (induction xs arbitrary: ys)
  case (Cons x xs)
  then obtain y ys' where ys: "ys = y # ys'" "f x = f y" "map f xs = map f ys'" by (cases ys) auto
  have "x = y \<or> C x y" using Cons.prems(2) ys by simp
  moreover have "xs = ys' \<or> (\<exists>x \<in> set xs. \<exists>y \<in> set ys'. C x y)" using Cons ys by simp
  ultimately show ?case using ys by auto
qed simp

lemma topo_parts_small: "topo_ok a \<Longrightarrow> list_all (\<lambda>p. length p < 2 ^ 64) (topo_parts a)"
  using length_Itoa by (cases a) (auto simp: FormatBool_def list_all_iff)

lemma topo_entry_parts_small: "topo_entry_ok e \<Longrightarrow> list_all (\<lambda>p. length p < 2 ^ 64) (topo_entry_parts e)"
  using length_Itoa by (cases e) (auto split: option.splits)

definition collide :: "string set \<Rightarrow> string set \<Rightarrow> bool" where
  "collide X Y \<longleftrightarrow> (\<exists>x \<in> X. \<exists>y \<in> Y. sha256_collision x y)"

lemma collide_mono: "collide X Y \<Longrightarrow> X \<subseteq> X' \<Longrightarrow> Y \<subseteq> Y' \<Longrightarrow> collide X' Y'"
  by (auto simp: collide_def)

lemma topology_separated:
  "topo_ok a \<Longrightarrow> topo_ok b \<Longrightarrow> FingerprintSHA256 (topo_parts a) = FingerprintSHA256 (topo_parts b) \<Longrightarrow>
     a = b \<or> collide (topo_inputs a) (topo_inputs b)"
  "topo_entry_ok e \<Longrightarrow> topo_entry_ok f \<Longrightarrow>
     FingerprintSHA256 (topo_entry_parts e) = FingerprintSHA256 (topo_entry_parts f) \<Longrightarrow>
     e = f \<or> collide (topo_entry_inputs e) (topo_entry_inputs f)"
proof (induction a and e arbitrary: b and f rule: topology.induct topo_entry.induct)
  case (Topology longest fb es)
  obtain longest' fb' fs where b: "b = Topology longest' fb' fs" by (cases b)
  from fingerprint_eqD [OF Topology.prems(3) topo_parts_small topo_parts_small] Topology.prems(1,2)
  consider "topo_parts (Topology longest fb es) = topo_parts b"
    | "sha256_collision (frames (topo_parts (Topology longest fb es))) (frames (topo_parts b))" by blast
  then show ?case
  proof cases
    case 1
    then have same: "longest = longest'" "fb = fb'"
      and m: "map (\<lambda>e. FingerprintSHA256 (topo_entry_parts e)) es = map (\<lambda>e. FingerprintSHA256 (topo_entry_parts e)) fs"
      using b FormatBool_inj by auto
    have "es = fs \<or> (\<exists>e \<in> set es. \<exists>f \<in> set fs. collide (topo_entry_inputs e) (topo_entry_inputs f))"
      using Topology b by (intro map_eq_or [OF m]) simp
    then show ?thesis using same b by (auto simp: collide_def)
  next
    case 2
    then show ?thesis using b by (auto simp: collide_def simp del: topo_parts.simps)
  qed
next
  case (TopoEntry i priority kind key n below)
  obtain i' priority' kind' key' n' below' where f: "f = TopoEntry i' priority' kind' key' n' below'" by (cases f)
  from fingerprint_eqD [OF TopoEntry.prems(3) topo_entry_parts_small topo_entry_parts_small] TopoEntry.prems(1,2)
  consider "topo_entry_parts (TopoEntry i priority kind key n below) = topo_entry_parts f"
    | "sha256_collision (frames (topo_entry_parts (TopoEntry i priority kind key n below))) (frames (topo_entry_parts f))"
    by blast
  then show ?case
  proof cases
    case 1
    then have same: "i = i'" "priority = priority'" "kind = kind'" "key = key'" "n = n'"
      and below: "(case below of None \<Rightarrow> ''leaf'' | Some t \<Rightarrow> FingerprintSHA256 (topo_parts t))
        = (case below' of None \<Rightarrow> ''leaf'' | Some t \<Rightarrow> FingerprintSHA256 (topo_parts t))"
      using f Itoa_inj by (auto dest!: Itoa_inj)
    have leaf: "FingerprintSHA256 ps \<noteq> ''leaf''" for ps
      using length_FingerprintSHA256 [of ps] by (auto simp del: length_FingerprintSHA256)
    show ?thesis
    proof (cases below; cases below')
      fix t u assume tu: "below = Some t" "below' = Some u"
      then have "t = u \<or> collide (topo_inputs t) (topo_inputs u)"
        using TopoEntry below f by simp
      then show ?thesis using same f tu by (auto simp: collide_def)
    qed (use same f below leaf leaf [symmetric] in auto)
  next
    case 2
    then show ?thesis using f by (auto simp: collide_def simp del: topo_entry_parts.simps)
  qed
qed

section \<open>Properties\<close>

text \<open>
  C3 (equivalence). The stable sort of the routes by \<open>compareRoutes\<close> is the stable sort by one key: prefix group,
  descending prefix length, descending priority under the longest-prefix policy; descending priority, prefix group,
  descending prefix length otherwise. In particular no route is lost or duplicated and ties keep declaration order.
\<close>

theorem routes_are_sorted_by_key:
  "sort_routes longest es = sort_key (\<lambda>e. route_key longest (sort_view e)) es
   \<and> mset (sort_routes longest es) = mset es
   \<and> filter (\<lambda>e. route_key longest (sort_view e) = key) (sort_routes longest es)
     = filter (\<lambda>e. route_key longest (sort_view e) = key) es"
  unfolding sort_routes_eq by (simp add: sort_key_stable)

text \<open>
  C2 (refinement). \<open>Build\<close> returns a router exactly for the tree the table stands for: every entry valid, every mounted
  table compiled in its place, the routes of each table sorted, and no table empty; with that tree's fingerprint.
\<close>

theorem Build_compiles_the_tree:
  "Build tabs (Some t) = Inr r \<longleftrightarrow> compiles tabs t (ro_table r) \<and> ro_fingerprint r = fingerprintTable (ro_table r)"
  by (rule Build_iff)

text \<open>
  \<open>Build\<close> always returns, and a table that directly or through mounted tables reaches a table mounted,
  directly or indirectly, in itself is rejected with an error.
\<close>

theorem Build_rejects_mount_cycles:
  assumes "(mounts tabs)\<^sup>*\<^sup>* s t" "(mounts tabs)\<^sup>+\<^sup>+ s s"
  shows "\<exists>e. Build tabs (Some t) = Inl e"
proof (cases "Build tabs (Some t)")
  case (Inr r)
  then have "Wellfounded.accp (mounts tabs) t" using Build_iff compiles_acc(1) by blast
  then have "Wellfounded.accp (mounts tabs) s" using accp_downwards [OF _ assms(1)] by blast
  then show ?thesis using accp_irrefl assms(2) by metis
qed simp

text \<open>A table that mounts itself.\<close>

definition self_mounted :: "(nat, unit, nat, string, string, nat) tables" where
  "self_mounted = Mount 0 ''loop'' 1 None (Some 0) (snd (NewRouteTable []))"

theorem Build_rejects_mount_cycles_witness:
  "mounts self_mounted 0 0 \<and> (\<exists>e. Build self_mounted (Some 0) = Inl e)"
proof -
  have m: "mounts self_mounted 0 0"
    by (simp add: mounts_def self_mounted_def Mount_def add_entry_def NewRouteTable_def)
  then show ?thesis using Build_rejects_mount_cycles [of self_mounted 0 0] by blast
qed

text \<open>
  C8 (roundtrip). The topology fingerprint of a built router determines its topology: two tables with the same
  fingerprint have the same policy, fallback presence, routes with ids, priorities, match kinds, static keys and
  decision groups, and mounted topologies, unless two of the encodings hashed for them are a SHA-256 collision.
\<close>

theorem fingerprint_determines_topology:
  assumes "topo_ok (topology t)" "topo_ok (topology u)" "fingerprintTable t = fingerprintTable u"
  shows "topology t = topology u \<or> (\<exists>x \<in> topo_inputs (topology t). \<exists>y \<in> topo_inputs (topology u). sha256_collision x y)"
  using topology_separated(1) [OF assms(1,2)] assms(3) by (simp add: fingerprintTable_topology collide_def)

definition one_route :: "string \<Rightarrow> (nat, unit, nat, string, string, nat) built_table" where
  "one_route i = Built [Entry i 5 None None (predicateMatcher None)] None False"

theorem fingerprint_determines_topology_witness:
  "\<not> (fingerprintTable (one_route ''a'') = fingerprintTable (one_route ''b'') \<and>
      {(x, y). x \<in> topo_inputs (topology (one_route ''a'')) \<and> y \<in> topo_inputs (topology (one_route ''b'')) \<and>
        sha256_collision x y} = {})"
proof -
  have "topology (one_route i) = Topology False False [TopoEntry i 5 MatchKindPredicate '''' 0 None]" for i
    by (simp add: topology_def one_route_def predicateMatcher_def group_number_def)
  then show ?thesis
    using fingerprint_determines_topology [of "one_route ''a''" "one_route ''b''"]
    by (auto simp: MatchKindPredicate_def simp del: topo_inputs.simps)
qed

end
