(* ===== verification/Router.thy ===== *)
theory Router
  imports Route_Table Loops
begin

text \<open>
  \<open>router.go\<close> and \<open>sink.go\<close>: dispatching a request through a compiled table, with the events a sink observes. The
  loop over the routes of a table is \<open>dispatch_routes\<close>; its loop variables \<open>lastNext\<close> and \<open>hasNext\<close> are one option.
\<close>

section \<open>Events\<close>

record ('k, 'r, 'p) route_event =
  ev_Match :: route_match
  ev_Result :: "('k, 'r, 'p) route_result"
  ev_Err :: err

type_synonym ('h, 'x, 'k, 'r, 'p) sink = "('k, 'r, 'p) route_event \<Rightarrow> (('h, 'x) world_scheme, unit) proc"

definition cloneRouteMatch :: "route_match \<Rightarrow> route_match" where
  "cloneRouteMatch match = match\<lparr>rm_Path := [] @ rm_Path match\<rparr>"

definition emitRouteEvent ::
  "('h, 'x, 'k, 'r, 'p) sink option \<Rightarrow> route_match \<Rightarrow> ('k, 'r, 'p) route_result \<Rightarrow> err \<Rightarrow>
   (('h, 'x) world_scheme, unit) proc" where
  "emitRouteEvent sink match result e =
     (case sink of
        None \<Rightarrow> ret ()
      | Some observe \<Rightarrow> observe \<lparr>ev_Match = cloneRouteMatch match,
          ev_Result = result\<lparr>res_Match := cloneRouteMatch (res_Match result)\<rparr>, ev_Err = e\<rparr>)"

section \<open>Dispatch\<close>

definition noRouteResult :: "('k :: zero, 'r :: zero, 'p :: zero) route_result" where
  "noRouteResult = Next 0"

definition fallbackMatch :: "string list \<Rightarrow> int \<Rightarrow> route_match" where
  "fallbackMatch parentPath depth = zeroRouteMatch\<lparr>rm_RouteID := ''fallback'',
     rm_Path := appendRouteID parentPath ''fallback'', rm_Depth := depth, rm_Kind := MatchKindFallback\<rparr>"

definition entry_match ::
  "string \<Rightarrow> int \<Rightarrow> ('h, 'x, 'req) route_matcher \<Rightarrow> string list \<Rightarrow> int \<Rightarrow> match_data \<Rightarrow> route_match" where
  "entry_match i priority matcher parentPath depth data =
     \<lparr>rm_RouteID = i, rm_Path = appendRouteID parentPath i, rm_Priority = priority, rm_Depth = depth,
      rm_Kind = mt_kind matcher, rm_Key = md_key data, rm_Prefix = md_prefix data, rm_Remainder = md_remainder data,
      rm_DecisionReason = md_decisionReason data, rm_HasDecisionReason = md_hasDecisionReason data\<rparr>"

definition matchRoute ::
  "string \<Rightarrow> int \<Rightarrow> ('h, 'x, 'req) route_matcher \<Rightarrow> 'req route_call \<Rightarrow> string list \<Rightarrow> int \<Rightarrow>
   (('h, 'x) world_scheme, route_match \<times> bool \<times> err) proc" where
  "matchRoute i priority matcher call parentPath depth =
     (case mt_match matcher of
        None \<Rightarrow> (\<lambda>w. (Panic, w))
      | Some match \<Rightarrow> seq (match call) (\<lambda>(data, ok, e).
          if \<not> ok \<and> e = None then ret (zeroRouteMatch, False, None)
          else ret (entry_match i priority matcher parentPath depth data, ok, e)))"

definition dispatchHandler ::
  "'req route_call \<Rightarrow> ('h, 'x, 'req, 'k, 'r, 'p) handler option \<Rightarrow> route_match \<Rightarrow> ('h, 'x, 'k, 'r, 'p) sink option \<Rightarrow>
   (('h, 'x) world_scheme, ('k, 'r, 'p) route_result \<times> bool \<times> err) proc" where
  "dispatchHandler call handler match sink =
     (case handler of
        None \<Rightarrow> (\<lambda>w. (Panic, w))
      | Some h \<Rightarrow> seq (h (withMatch call match)) (\<lambda>(result, e). case e of
          Some x \<Rightarrow>
            let result = WithMatch (result\<lparr>res_Action := ActionAbort\<rparr>) match in
            seq (emitRouteEvent sink match result (Some x)) (\<lambda>_. ret (result, True, Some x))
        | None \<Rightarrow>
            (case validateReturnedResult (WithMatch result match) of
               (result, Some x) \<Rightarrow> seq (emitRouteEvent sink match result (Some x)) (\<lambda>_. ret (result, True, Some x))
             | (result, None) \<Rightarrow> seq (emitRouteEvent sink match result None) (\<lambda>_.
                 if res_Action result = ActionNext then ret (result, False, None) else ret (result, True, None)))))"

definition dispatchFallback ::
  "'req route_call \<Rightarrow> ('h, 'x, 'req, 'k, 'r, 'p) handler \<Rightarrow> string list \<Rightarrow> int \<Rightarrow> ('h, 'x, 'k, 'r, 'p) sink option \<Rightarrow>
   (('h, 'x) world_scheme, ('k, 'r, 'p) route_result \<times> err) proc" where
  "dispatchFallback call fallback parentPath depth sink =
     (let match = fallbackMatch parentPath depth in
      seq (fallback (withMatch call match)) (\<lambda>(result, e). case e of
        Some x \<Rightarrow>
          let result = WithMatch (result\<lparr>res_Action := ActionAbort\<rparr>) match in
          seq (emitRouteEvent sink match result (Some x)) (\<lambda>_. ret (result, Some x))
      | None \<Rightarrow>
          (case validateReturnedResult (WithMatch result match) of
             (result, Some x) \<Rightarrow> seq (emitRouteEvent sink match result (Some x)) (\<lambda>_. ret (result, Some x))
           | (result, None) \<Rightarrow> seq (emitRouteEvent sink match result None) (\<lambda>_. ret (result, None)))))"

text \<open>After the loop: the fallback, else the last \<open>ActionNext\<close> result, else no route.\<close>

definition dispatch_rest ::
  "'req route_call \<Rightarrow> ('h, 'x, 'req, 'k :: zero, 'r :: zero, 'p :: zero) handler option \<Rightarrow> string list \<Rightarrow> int \<Rightarrow>
   ('h, 'x, 'k, 'r, 'p) sink option \<Rightarrow> ('k, 'r, 'p) route_result option \<Rightarrow>
   (('h, 'x) world_scheme, ('k, 'r, 'p) route_result \<times> err) proc" where
  "dispatch_rest call fallback parentPath depth sink lastNext =
     (case fallback of
        Some h \<Rightarrow> seq (ctx_Err (rc_Context call)) (\<lambda>e. case e of
            Some x \<Rightarrow> ret (AbortResult, Some x)
          | None \<Rightarrow> dispatchFallback call h parentPath depth sink)
      | None \<Rightarrow> (case lastNext of Some r \<Rightarrow> ret (r, None) | None \<Rightarrow> ret (noRouteResult, None)))"

fun dispatchTable ::
  "('h \<Rightarrow> (('h, 'x) world_scheme, err) proc) \<Rightarrow> 'req route_call \<Rightarrow>
   ('h, 'x, 'req, 'k :: zero, 'r :: zero, 'p :: zero) built_table \<Rightarrow> string list \<Rightarrow> int \<Rightarrow>
   ('h, 'x, 'k, 'r, 'p) sink option \<Rightarrow> (('h, 'x) world_scheme, ('k, 'r, 'p) route_result \<times> err) proc"
  and dispatch_routes ::
  "('h \<Rightarrow> (('h, 'x) world_scheme, err) proc) \<Rightarrow> 'req route_call \<Rightarrow>
   ('h, 'x, 'req, 'k, 'r, 'p) built_entry list \<Rightarrow> ('h, 'x, 'req, 'k, 'r, 'p) handler option \<Rightarrow> string list \<Rightarrow> int \<Rightarrow>
   ('h, 'x, 'k, 'r, 'p) sink option \<Rightarrow> ('k, 'r, 'p) route_result option \<Rightarrow>
   (('h, 'x) world_scheme, ('k, 'r, 'p) route_result \<times> err) proc"
  and dispatchEntry ::
  "('h \<Rightarrow> (('h, 'x) world_scheme, err) proc) \<Rightarrow> 'req route_call \<Rightarrow>
   ('h, 'x, 'req, 'k, 'r, 'p) built_entry \<Rightarrow> string list \<Rightarrow> int \<Rightarrow> ('h, 'x, 'k, 'r, 'p) sink option \<Rightarrow>
   (('h, 'x) world_scheme, ('k, 'r, 'p) route_result \<times> bool \<times> err) proc" where
  "dispatchTable hostfn call (Built routes fallback longest) parentPath depth sink =
     seq (ctx_Err (rc_Context call)) (\<lambda>e. case e of
       Some x \<Rightarrow> ret (AbortResult, Some x)
     | None \<Rightarrow> dispatch_routes hostfn call routes fallback parentPath depth sink None)"
| "dispatch_routes hostfn call [] fallback parentPath depth sink lastNext =
     dispatch_rest call fallback parentPath depth sink lastNext"
| "dispatch_routes hostfn call (entry # entries) fallback parentPath depth sink lastNext =
     seq (ctx_Err (rc_Context call)) (\<lambda>e. case e of
       Some x \<Rightarrow> ret (AbortResult, Some x)
     | None \<Rightarrow> seq (dispatchEntry hostfn call entry parentPath depth sink) (\<lambda>(result, terminal, e). case e of
         Some x \<Rightarrow> ret (result, Some x)
       | None \<Rightarrow>
           if terminal then ret (result, None)
           else if res_Action result = ActionNext
           then seq (discardResult hostfn result None) (\<lambda>(closed, closeErr). case closeErr of
             Some x \<Rightarrow> ret (closed, Some x)
           | None \<Rightarrow> dispatch_routes hostfn call entries fallback parentPath depth sink (Some result))
           else dispatch_routes hostfn call entries fallback parentPath depth sink lastNext))"
| "dispatchEntry hostfn call (Entry i priority handler nested matcher) parentPath depth sink =
     seq (matchRoute i priority matcher call parentPath depth) (\<lambda>(match, ok, e). case e of
       Some x \<Rightarrow>
         let result = WithMatch AbortResult match in
         seq (emitRouteEvent sink match result (Some x)) (\<lambda>_. ret (result, True, Some x))
     | None \<Rightarrow>
         if \<not> ok then ret (zeroResult, False, None)
         else case nested of
           Some t \<Rightarrow> seq (dispatchTable hostfn (withMatch call match) t (rm_Path match) (depth + 1) sink)
             (\<lambda>(result, nestedErr). ret (result, res_Action result \<noteq> ActionNext \<or> nestedErr \<noteq> None, nestedErr))
         | None \<Rightarrow> dispatchHandler call handler match sink)"

definition DispatchWithSink ::
  "('h \<Rightarrow> (('h, 'x) world_scheme, err) proc) \<Rightarrow>
   ('h, 'x, 'req, 'k :: zero, 'r :: zero, 'p :: zero) router \<Rightarrow> ctx option \<Rightarrow> 'req \<Rightarrow>
   ('h, 'x, 'k, 'r, 'p) sink option \<Rightarrow> (('h, 'x) world_scheme, ('k, 'r, 'p) route_result \<times> err) proc" where
  "DispatchWithSink hostfn router ctx req sink w =
     (let ctx = (case ctx of None \<Rightarrow> Background | Some c \<Rightarrow> c) in
      case NewRouteCall (Some ctx) req w of (call, w1) \<Rightarrow> dispatchTable hostfn call (ro_table router) [] 0 sink w1)"

definition Dispatch ::
  "('h \<Rightarrow> (('h, 'x) world_scheme, err) proc) \<Rightarrow>
   ('h, 'x, 'req, 'k :: zero, 'r :: zero, 'p :: zero) router \<Rightarrow> ctx option \<Rightarrow> 'req \<Rightarrow>
   (('h, 'x) world_scheme, ('k, 'r, 'p) route_result \<times> err) proc" where
  "Dispatch hostfn router ctx req = DispatchWithSink hostfn router ctx req None"

definition Snapshot :: "('h, 'x, 'req, 'k, 'r, 'p) router \<Rightarrow> string list route_snapshot" where
  "Snapshot router = \<lparr>sn_Fingerprint = ro_fingerprint router, sn_State = snapshotState (ro_table router)\<rparr>"

section \<open>Results of a dispatch\<close>

text \<open>
  Route metadata of a result: none, or a path below the given one that ends in the route's id, with the depth one less
  than its length.
\<close>

definition match_below :: "string list \<Rightarrow> route_match \<Rightarrow> bool" where
  "match_below path m \<longleftrightarrow> m = zeroRouteMatch \<or>
     (\<exists>ids. rm_Path m = path @ ids \<and> ids \<noteq> [] \<and> last ids = rm_RouteID m \<and> rm_Depth m + 1 = int (length (rm_Path m)))"

lemma match_below_zero [simp]: "match_below path zeroRouteMatch"
  by (simp add: match_below_def)

lemma match_below_entry: "depth = int (length path) \<Longrightarrow> match_below path (entry_match i priority matcher path depth data)"
  by (simp add: match_below_def entry_match_def appendRouteID_def)

lemma match_below_fallback: "depth = int (length path) \<Longrightarrow> match_below path (fallbackMatch path depth)"
  by (simp add: match_below_def fallbackMatch_def appendRouteID_def zeroRouteMatch_def)

lemma match_below_nested: "match_below (path @ [i]) m \<Longrightarrow> match_below path m"
  unfolding match_below_def by (elim disjE exE) (auto intro!: exI)

definition good_outcome :: "string list \<Rightarrow> ('k, 'r, 'p) route_result \<times> err \<Rightarrow> bool" where
  "good_outcome path out \<longleftrightarrow> canonical out \<and> match_below path (res_Match (fst out))"

text \<open>What \<open>dispatchEntry\<close> returns: a canonical outcome with the flag set unless it is \<open>ActionNext\<close>, or a clean miss.\<close>

definition good_entry :: "string list \<Rightarrow> ('k :: zero, 'r :: zero, 'p :: zero) route_result \<times> bool \<times> err \<Rightarrow> bool" where
  "good_entry path out \<longleftrightarrow> (case out of (r, terminal, e) \<Rightarrow>
     r = zeroResult \<and> \<not> terminal \<and> e = None \<or>
     good_outcome path (r, e) \<and> (terminal \<longleftrightarrow> res_Action r \<noteq> ActionNext))"

lemma WithMatch_simps [simp]: "res_Match (WithMatch r m) = m" "res_Action (WithMatch r m) = res_Action r"
  "res_Lifetime (WithMatch r m) = res_Lifetime r"
  by (simp_all add: WithMatch_def)

lemma AbortResult_simps [simp]: "res_Action AbortResult = ActionAbort" "res_Match AbortResult = zeroRouteMatch"
  "res_Lifetime AbortResult = None"
  by (simp_all add: AbortResult_def)

lemma noRouteResult_simps [simp]: "res_Action noRouteResult = ActionNext" "res_Match noRouteResult = zeroRouteMatch"
  by (simp_all add: noRouteResult_def Next_def)

lemma validated_action: "validateReturnedResult r = (r', e) \<Longrightarrow>
   canonical (r', e) \<and> res_Match r' = res_Match r"
  using validateReturnedResult_canonical [of r] validate_keeps(4) [of r] by simp

lemma good_validated:
  "validateReturnedResult (WithMatch r0 m) = (r, e) \<Longrightarrow> match_below path m \<Longrightarrow> good_outcome path (r, e)"
  by (drule validated_action) (simp add: good_outcome_def)

lemma good_failed: "match_below path m \<Longrightarrow> good_outcome path (WithMatch (r\<lparr>res_Action := ActionAbort\<rparr>) m, Some x)"
  by (simp add: good_outcome_def)

lemma good_entryI:
  "good_outcome path (r, Some x) \<Longrightarrow> good_entry path (r, True, Some x)"
  "good_outcome path (r, None) \<Longrightarrow> res_Action r = ActionNext \<Longrightarrow> good_entry path (r, False, None)"
  "good_outcome path (r, None) \<Longrightarrow> res_Action r \<noteq> ActionNext \<Longrightarrow> good_entry path (r, True, None)"
  by (simp_all add: good_entry_def good_outcome_def)

lemma dispatchHandler_good:
  "match_below path m \<Longrightarrow> returns (good_entry path) (dispatchHandler call handler m sink)"
  unfolding dispatchHandler_def Let_def
  by (intro returns_intros returns_seq_any good_entryI) (auto intro: good_failed good_validated)

lemma dispatchFallback_good:
  assumes "depth = int (length path)"
  shows "returns (good_outcome path) (dispatchFallback call h path depth sink)"
  unfolding dispatchFallback_def Let_def using match_below_fallback [OF assms]
  by (intro returns_intros returns_seq_any) (auto intro: good_failed good_validated)

lemma good_abort: "good_outcome path (AbortResult, Some x)"
  by (simp add: good_outcome_def)

lemma dispatch_rest_good:
  assumes "depth = int (length path)" "pred_option (\<lambda>r. good_outcome path (r, None)) lastNext"
  shows "returns (good_outcome path) (dispatch_rest call fallback path depth sink lastNext)"
  unfolding dispatch_rest_def
  by (intro returns_intros returns_seq_any good_abort dispatchFallback_good [OF assms(1)])
    (use assms(2) in \<open>auto simp: good_outcome_def\<close>)

lemma discardResult_good:
  assumes "good_outcome path (r, None)"
  shows "returns (\<lambda>(c, e). pred_option (\<lambda>x. good_outcome path (c, Some x)) e) (discardResult hostfn r None)"
  unfolding discardResult_def
  by (intro returns_intros returns_seq_any) (use assms in \<open>auto simp: good_outcome_def errors_Join_def\<close>)

lemma matchRoute_good:
  assumes "depth = int (length path)"
  shows "returns (\<lambda>(m, ok, e). match_below path m \<and> (ok \<or> e \<noteq> None \<longrightarrow> rm_Path m = path @ [i]))
     (matchRoute i priority matcher call path depth)"
  unfolding matchRoute_def
  by (intro returns_intros returns_seq_any)
    (use match_below_entry [OF assms] in \<open>auto simp: entry_match_def appendRouteID_def\<close>)

lemma dispatch_good:
  fixes t :: "('h, 'x, 'req, 'k :: zero, 'r :: zero, 'p :: zero) built_table"
    and es :: "('h, 'x, 'req, 'k, 'r, 'p) built_entry list" and e :: "('h, 'x, 'req, 'k, 'r, 'p) built_entry"
  shows "\<lbrakk>depth = int (length path)\<rbrakk> \<Longrightarrow> returns (good_outcome path) (dispatchTable hostfn call t path depth sink)"
    and "\<lbrakk>depth = int (length path); pred_option (\<lambda>r. good_outcome path (r, None)) lastNext\<rbrakk> \<Longrightarrow>
      returns (good_outcome path) (dispatch_routes hostfn call es fallback path depth sink lastNext)"
    and "\<lbrakk>depth = int (length path)\<rbrakk> \<Longrightarrow> returns (good_entry path) (dispatchEntry hostfn call e path depth sink)"
proof (induction hostfn call t path depth sink and hostfn call es fallback path depth sink lastNext
    and hostfn call e path depth sink rule: dispatchTable_dispatch_routes_dispatchEntry.induct)
  case (1 hostfn call routes fallback longest path depth sink)
  then have "returns (good_outcome path) (dispatch_routes hostfn call routes fallback path depth sink None)" by simp
  then show ?case unfolding dispatchTable.simps by (intro returns_seq_any returns_option returns_ret good_abort)
next
  case (2 hostfn call fallback path depth sink lastNext)
  then show ?case by (simp add: dispatch_rest_good)
next
  case (3 hostfn call e es fallback path depth sink lastNext)
  have entry: "returns (good_entry path) (dispatchEntry hostfn call e path depth sink)" using 3 by simp
  have passed: "returns (good_outcome path) (dispatch_routes hostfn call es fallback path depth sink (Some r))"
    if "good_outcome path (r, None)" "res_Action r = ActionNext" for r
    using that 3 by fastforce
  have "res_Action (zeroResult :: ('k, 'r, 'p) route_result) \<noteq> ActionNext" by (simp add: zeroResult_def)
  then have missed: "returns (good_outcome path) (dispatch_routes hostfn call es fallback path depth sink lastNext)"
    using 3 by fastforce
  have closing: "returns (good_outcome path) (seq (discardResult hostfn r None) (\<lambda>(closed, closeErr). case closeErr of
       Some x \<Rightarrow> ret (closed, Some x)
     | None \<Rightarrow> dispatch_routes hostfn call es fallback path depth sink (Some r)))"
    if "good_outcome path (r, None)" "res_Action r = ActionNext" for r
    by (rule returns_seq [OF discardResult_good [OF that(1)]]) (use passed [OF that] in \<open>auto intro!: returns_intros\<close>)
  show ?case
    unfolding dispatch_routes.simps
  proof (rule returns_seq_any, intro returns_option returns_ret good_abort)
    show "returns (good_outcome path)
      (seq (dispatchEntry hostfn call e path depth sink) (\<lambda>(result, terminal, e). case e of
         Some x \<Rightarrow> ret (result, Some x)
       | None \<Rightarrow>
           if terminal then ret (result, None)
           else if res_Action result = ActionNext
           then seq (discardResult hostfn result None) (\<lambda>(closed, closeErr). case closeErr of
             Some x \<Rightarrow> ret (closed, Some x)
           | None \<Rightarrow> dispatch_routes hostfn call es fallback path depth sink (Some result))
           else dispatch_routes hostfn call es fallback path depth sink lastNext))"
      by (rule returns_seq [OF entry])
        (use missed closing in \<open>auto simp: good_entry_def good_outcome_def zeroResult_def intro!: returns_intros\<close>)
  qed
next
  case (4 hostfn call i priority handler nested matcher path depth sink)
  show ?case
    unfolding dispatchEntry.simps
  proof (rule returns_seq [OF matchRoute_good [OF "4.prems"]])
    fix v :: "route_match \<times> bool \<times> err"
    assume v: "case v of (m, ok, e) \<Rightarrow> match_below path m \<and> (ok \<or> e \<noteq> None \<longrightarrow> rm_Path m = path @ [i])"
    obtain m ok e where vm: "v = (m, ok, e)" by (cases v)
    have nested: "returns (good_entry path) (seq (dispatchTable hostfn (withMatch call m) t (rm_Path m) (depth + 1) sink)
        (\<lambda>(result, nestedErr). ret (result, res_Action result \<noteq> ActionNext \<or> nestedErr \<noteq> None, nestedErr)))"
      if "e = None" "ok" "nested = Some t" for t
    proof (rule returns_seq)
      have p: "rm_Path m = path @ [i]" using v vm that by simp
      have "returns (good_outcome (rm_Path m)) (dispatchTable hostfn (withMatch call m) t (rm_Path m) (depth + 1) sink)"
        by (rule "4.IH") (use that p "4.prems" vm in simp_all)
      then show "returns (good_outcome (path @ [i])) (dispatchTable hostfn (withMatch call m) t (rm_Path m) (depth + 1) sink)"
        using p by simp
      show "returns (good_entry path) (case a of (result, nestedErr) \<Rightarrow>
          ret (result, res_Action result \<noteq> ActionNext \<or> nestedErr \<noteq> None, nestedErr))"
        if "good_outcome (path @ [i]) a" for a :: "('k, 'r, 'p) route_result \<times> err"
        using that match_below_nested by (cases a; cases "snd a")
          (auto intro!: returns_intros simp: good_entry_def good_outcome_def)
    qed
    have failed: "good_entry path (WithMatch AbortResult m, True, Some x)" for x
      using v vm by (simp add: good_entry_def good_outcome_def)
    have miss: "good_entry path (zeroResult, False, None)" by (simp add: good_entry_def)
    show "returns (good_entry path) (case v of (match, ok, e) \<Rightarrow> case e of
       Some x \<Rightarrow>
         let result = WithMatch AbortResult match in
         seq (emitRouteEvent sink match result (Some x)) (\<lambda>_. ret (result, True, Some x))
     | None \<Rightarrow>
         if \<not> ok then ret (zeroResult, False, None)
         else case nested of
           Some t \<Rightarrow> seq (dispatchTable hostfn (withMatch call match) t (rm_Path match) (depth + 1) sink)
             (\<lambda>(result, nestedErr). ret (result, res_Action result \<noteq> ActionNext \<or> nestedErr \<noteq> None, nestedErr))
         | None \<Rightarrow> dispatchHandler call handler match sink)"
      unfolding vm prod.case Let_def
      using v vm by (intro returns_intros returns_seq_any failed miss nested dispatchHandler_good) auto
  qed
qed

section \<open>Routes that do not match\<close>

text \<open>A matcher that answers a call without touching the world.\<close>

definition answers :: "'req route_call \<Rightarrow> ('h, 'x, 'req) route_matcher \<Rightarrow> match_data \<Rightarrow> bool \<Rightarrow> bool" where
  "answers call matcher data ok \<longleftrightarrow> (\<exists>f. mt_match matcher = Some f \<and>
     (\<forall>w :: ('h, 'x) world_scheme. f call w = (Ret (data, ok, None), w)))"

lemma answers_matchRoute:
  assumes "answers call matcher data ok"
  shows "matchRoute i priority matcher call path depth w =
     (Ret (if ok then (entry_match i priority matcher path depth data, True, None) else (zeroRouteMatch, False, None)), w)"
  using assms by (auto simp: answers_def matchRoute_def seq_def)

lemma done_at_tick [simp]: "done_at (tick w) c = done_at w c"
  by (induction c) simp_all

lemma done_at_ticks [simp]: "done_at ((tick ^^ n) w) c = done_at w c"
  by (induction n) simp_all

lemma ctx_err_live: "done_at w c = None \<Longrightarrow> ctx_err w c = None"
  by (simp add: ctx_err_def)

lemma dispatch_skips_misses:
  assumes "\<forall>e \<in> set pre. \<exists>data. answers call (be_matcher e) data False" "done_at w (rc_Context call) = None"
  shows "dispatch_routes hostfn call (pre @ rest) fallback path depth sink l w =
     dispatch_routes hostfn call rest fallback path depth sink l ((tick ^^ length pre) w)"
  using assms
proof (induction pre arbitrary: w)
  case (Cons e pre)
  obtain i priority handler nested matcher where e: "e = Entry i priority handler nested matcher" by (cases e)
  obtain data where "answers call matcher data False" using Cons.prems(1) e by fastforce
  then have "dispatchEntry hostfn call e path depth sink v = (Ret (zeroResult, False, None), v)" for v
    using answers_matchRoute [of call matcher data False] e by (simp add: seq_def)
  moreover have "ctx_err (tick w) (rc_Context call) = None" using Cons.prems(2) by (simp add: ctx_err_live)
  ultimately have "dispatch_routes hostfn call ((e # pre) @ rest) fallback path depth sink l w =
      dispatch_routes hostfn call (pre @ rest) fallback path depth sink l (tick w)"
    by (simp add: seq_def zeroResult_def)
  then show ?case using Cons by (simp add: funpow_swap1)
qed simp

lemma dispatch_hit:
  assumes "answers call matcher data True" "done_at w (rc_Context call) = None"
    and "h (withMatch call (entry_match i priority matcher path depth data)) (tick w) = (Ret (r, None), w')"
    and "res_Action r = ActionStop"
  shows "dispatch_routes hostfn call (Entry i priority (Some h) None matcher # es) fallback path depth None l w =
     (Ret (WithMatch r (entry_match i priority matcher path depth data), None), w')"
proof -
  have "ctx_err (tick w) (rc_Context call) = None" using assms(2) by (simp add: ctx_err_live)
  moreover have "validateReturnedResult (WithMatch r m) = (WithMatch r m, None)" for m
    using assms(4) by (simp add: validateReturnedResult_def)
  ultimately show ?thesis
    using assms answers_matchRoute [OF assms(1)]
    by (simp add: seq_def dispatchHandler_def emitRouteEvent_def)
qed

section \<open>Decisions are taken once per call\<close>

lemma decisionForCall_cached:
  assumes "decisionForCall call g d w = (Ret v, w1)" "rc_state call = Some st" "w_decisions w2 st = w_decisions w1 st"
  shows "decisionForCall call g d' w2 = (Ret v, w2)"
proof (cases "map_of (w_decisions w st) (dg_addr g)")
  case None
  then obtain result e where "v = (result, e)"
    "map_of (w_decisions w1 st) (dg_addr g) = Some (CachedDecision result e)"
    using assms(1,2) by (auto simp: decisionForCall_def seq_eq_Ret store_decision_def split: prod.splits)
  then show ?thesis using assms(2,3) by (simp add: decisionForCall_def)
next
  case (Some c)
  then show ?thesis using assms by (cases c) (auto simp: decisionForCall_def)
qed

section \<open>Properties\<close>

text \<open>
  C6 (type). Every outcome of a dispatch is canonical (\<open>ActionAbort\<close> exactly with an error, otherwise \<open>ActionNext\<close> or
  \<open>ActionStop\<close>), whatever handlers, matchers and sink do, and its route metadata is either empty or a non-empty path that
  ends in the route's id, at the depth one less than its length.
\<close>

theorem Dispatch_outcome_wellformed:
  "case DispatchWithSink hostfn router ctx req sink w of
     (Ret (result, e), w') \<Rightarrow> canonical (result, e) \<and>
       (res_Match result = zeroRouteMatch \<or> rm_Path (res_Match result) \<noteq> [] \<and>
          last (rm_Path (res_Match result)) = rm_RouteID (res_Match result) \<and>
          rm_Depth (res_Match result) + 1 = int (length (rm_Path (res_Match result))))
   | (Panic, w') \<Rightarrow> True"
proof (cases "DispatchWithSink hostfn router ctx req sink w")
  case (Pair o1 w')
  show ?thesis
  proof (cases o1)
    case (Ret out)
    obtain call w1 where d: "dispatchTable hostfn call (ro_table router) [] 0 sink w1 = (Ret out, w')"
      using Pair Ret by (auto simp: DispatchWithSink_def Let_def split: prod.splits)
    have "returns (good_outcome []) (dispatchTable hostfn call (ro_table router) [] 0 sink)"
      by (rule dispatch_good(1)) simp
    from returnsD [OF this d] have "good_outcome [] out" .
    then show ?thesis using Pair Ret by (auto simp: good_outcome_def match_below_def)
  qed (use Pair in simp)
qed

text \<open>
  Within one route call a decision classifier is asked at most once: once it has been consulted, every
  later consultation for the same group answers the same decision and error without running any classifier, as long
  as the call's cache is left as it is.
\<close>

theorem decision_is_taken_once:
  assumes "decisionForCall call g d w = (Ret v, w1)" "rc_state call = Some st" "w_decisions w2 st = w_decisions w1 st"
  shows "decisionForCall call g d' w2 = (Ret v, w2)"
  using assms by (rule decisionForCall_cached)

definition example_group :: "(nat, unit, nat) decision_group" where
  "example_group = \<lparr>dg_addr = 3, dg_decision = None,
     dg_zero = \<lparr>rd_Key = VNil, rd_Matched = False, rd_Confidence = Fin 0, rd_Reason = VNil\<rparr>\<rparr>"

theorem decision_is_taken_once_witness:
  "\<exists>w1. decisionForCall (example_call\<lparr>rc_state := Some 0\<rparr>) example_group
       (\<lambda>_ _. ret (\<lparr>rd_Key = VInt ''int'' 1, rd_Matched = True, rd_Confidence = Fin 1, rd_Reason = VNil\<rparr>, None)) idle_world
     = (Ret (\<lparr>rd_Key = VInt ''int'' 1, rd_Matched = True, rd_Confidence = Fin 1, rd_Reason = VNil\<rparr>, None), w1)
   \<and> decisionForCall (example_call\<lparr>rc_state := Some 0\<rparr>) example_group (\<lambda>_ _ w. (Panic, w)) w1
     = (Ret (\<lparr>rd_Key = VInt ''int'' 1, rd_Matched = True, rd_Confidence = Fin 1, rd_Reason = VNil\<rparr>, None), w1)"
proof -
  let ?v = "(\<lparr>rd_Key = VInt ''int'' 1, rd_Matched = True, rd_Confidence = Fin 1, rd_Reason = VNil\<rparr>, None :: err)"
  let ?call = "example_call\<lparr>rc_state := Some 0\<rparr>"
  obtain w1 where 1: "decisionForCall ?call example_group (\<lambda>_ _. ret ?v) idle_world = (Ret ?v, w1)"
    by (simp add: decisionForCall_def idle_world_def seq_def)
  then show ?thesis using decision_is_taken_once [OF 1, of 0 w1] by (intro exI [of _ w1]) simp
qed

end
