(* ===== verification/Routing.thy ===== *)
theory Routing
  imports Router Route_Build
begin

text \<open>
  Building and dispatching together: which of the declared routes a built router hands a request to.
\<close>

section \<open>What a stable sort puts before an element\<close>

lemma insort_key_at:
  "\<exists>A B. insort_key f e ys = A @ e # B \<and> (\<forall>a \<in> set A. a \<in> set ys \<and> f a < (f e :: 'k :: linorder))"
proof (induction ys)
  case (Cons y ys)
  then obtain A B where ab: "insort_key f e ys = A @ e # B" "\<forall>a \<in> set A. a \<in> set ys \<and> f a < f e" by blast
  show ?case
  proof (cases "f e \<le> f y")
    case True
    then have "insort_key f e (y # ys) = [] @ e # (y # ys)" by simp
    then show ?thesis by (metis empty_iff list.set(1))
  next
    case False
    then have "insort_key f e (y # ys) = (y # A) @ e # B" using ab by simp
    moreover have "\<forall>a \<in> set (y # A). a \<in> set (y # ys) \<and> f a < f e" using ab False by auto
    ultimately show ?thesis by blast
  qed
qed simp

lemma insort_key_before:
  "f x \<le> (f e :: 'k :: linorder) \<Longrightarrow> \<exists>A'. insort_key f x (A @ e # B) = A' @ e # B \<and> set A' = insert x (set A)"
proof (induction A)
  case Nil
  then have "insort_key f x ([] @ e # B) = [x] @ e # B" by simp
  then show ?case by (metis list.simps(15))
next
  case (Cons a A)
  then obtain A' where A': "insort_key f x (A @ e # B) = A' @ e # B" "set A' = insert x (set A)" by blast
  show ?case
  proof (cases "f x \<le> f a")
    case True
    then have "insort_key f x ((a # A) @ e # B) = (x # a # A) @ e # B" by simp
    then show ?thesis by (metis list.simps(15))
  next
    case False
    then have "insort_key f x ((a # A) @ e # B) = (a # A') @ e # B" using A' by simp
    then show ?thesis using A' by (metis insert_commute list.simps(15))
  qed
qed

lemma insort_key_after:
  "f e < (f x :: 'k :: linorder) \<Longrightarrow> \<forall>a \<in> set A. f a \<le> f e \<Longrightarrow> insort_key f x (A @ e # B) = A @ e # insort_key f x B"
proof (induction A)
  case (Cons a A)
  then have "\<not> f x \<le> f a" using dual_order.strict_trans1 by auto
  then show ?case using Cons by simp
qed auto

lemma sort_key_around:
  "\<exists>A B. sort_key f (pre @ e # post) = A @ e # B \<and>
     (\<forall>a \<in> set A. a \<in> set pre \<and> f a \<le> f e \<or> a \<in> set post \<and> f a < (f e :: 'k :: linorder))"
proof (induction pre)
  case Nil
  then show ?case using insort_key_at [of f e "sort_key f post"] by simp
next
  case (Cons x pre)
  then obtain A B where ab: "sort_key f (pre @ e # post) = A @ e # B"
    and A: "\<forall>a \<in> set A. a \<in> set pre \<and> f a \<le> f e \<or> a \<in> set post \<and> f a < f e" by blast
  show ?case
  proof (cases "f x \<le> f e")
    case True
    then obtain A' where A': "insort_key f x (A @ e # B) = A' @ e # B" "set A' = insert x (set A)"
      using insort_key_before by metis
    then have "sort_key f ((x # pre) @ e # post) = A' @ e # B" using ab by simp
    moreover have "\<forall>a \<in> set A'. a \<in> set (x # pre) \<and> f a \<le> f e \<or> a \<in> set post \<and> f a < f e"
      using A A'(2) True by auto
    ultimately show ?thesis by metis
  next
    case False
    then have "insort_key f x (A @ e # B) = A @ e # insort_key f x B"
      using A by (intro insort_key_after) auto
    then have "sort_key f ((x # pre) @ e # post) = A @ e # insort_key f x B" using ab by simp
    moreover have "\<forall>a \<in> set A. a \<in> set (x # pre) \<and> f a \<le> f e \<or> a \<in> set post \<and> f a < f e"
      using A by auto
    ultimately show ?thesis by metis
  qed
qed

section \<open>Declared and compiled routes\<close>

definition declared_key :: "bool \<Rightarrow> ('h, 'x, 'req, 'k, 'r, 'p) route_entry \<Rightarrow> int \<times> int \<times> int" where
  "declared_key longest e = route_key longest (en_priority e, mt_kind (en_matcher e), mt_prefixLength (en_matcher e))"

definition compiled_from ::
  "('h, 'x, 'req, 'k, 'r, 'p) route_entry \<Rightarrow> ('h, 'x, 'req, 'k, 'r, 'p) built_entry \<Rightarrow> bool" where
  "compiled_from e b \<longleftrightarrow> be_id b = en_id e \<and> be_priority b = en_priority e \<and> be_handler b = en_handler e \<and>
     be_matcher b = en_matcher e \<and> (be_nested b = None \<longleftrightarrow> en_sub e = None)"

lemma compiles_entries_from: "compiles_entries tabs es bs \<Longrightarrow> list_all2 compiled_from es bs"
proof (induction es arbitrary: bs)
  case Nil
  then show ?case by (auto elim: compiles_entries.cases)
next
  case (Cons e es)
  from Cons.prems show ?case
    by (cases rule: compiles_entries.cases) (use Cons.IH in \<open>simp_all add: compiled_from_def\<close>)
qed

lemma compiled_key: "compiled_from e b \<Longrightarrow> route_key longest (sort_view b) = declared_key longest e"
  by (simp add: compiled_from_def declared_key_def sort_view_def)

lemma list_all2_pick:
  assumes "list_all2 P (pre @ e # post) bs"
  obtains pre' b post' where "bs = pre' @ b # post'" "list_all2 P pre pre'" "P e b" "list_all2 P post post'"
  using assms by (auto simp: list_all2_append1 list_all2_Cons1)

lemma list_all2_member: "list_all2 P xs ys \<Longrightarrow> y \<in> set ys \<Longrightarrow> \<exists>x \<in> set xs. P x y"
  by (metis in_set_conv_nth list_all2_conv_all_nth)

text \<open>\<open>misses\<close>: the matcher of the route answers the call with a clean no.\<close>

definition misses :: "'req route_call \<Rightarrow> ('h, 'x, 'req) route_matcher \<Rightarrow> bool" where
  "misses call m \<longleftrightarrow> (\<exists>data. answers call m data False)"

text \<open>
  \<open>best_route\<close>: the route \<open>e\<close>, declared between \<open>pre\<close> and \<open>post\<close>, is the one with the least key among those that do not
  miss, the first declared of them when keys are equal.
\<close>

definition best_route ::
  "bool \<Rightarrow> 'req route_call \<Rightarrow> ('h, 'x, 'req, 'k, 'r, 'p) route_entry list \<Rightarrow> ('h, 'x, 'req, 'k, 'r, 'p) route_entry \<Rightarrow>
   ('h, 'x, 'req, 'k, 'r, 'p) route_entry list \<Rightarrow> bool" where
  "best_route longest call pre e post \<longleftrightarrow>
     (\<forall>p \<in> set pre. misses call (en_matcher p) \<or> declared_key longest e < declared_key longest p) \<and>
     (\<forall>q \<in> set post. misses call (en_matcher q) \<or> declared_key longest e \<le> declared_key longest q)"

lemma sorted_routes_before_best:
  assumes "list_all2 compiled_from (pre @ e # post) bs" "best_route longest call pre e post"
  obtains A b B where "sort_key (\<lambda>b. route_key longest (sort_view b)) bs = A @ b # B" "compiled_from e b"
    "\<forall>a \<in> set A. misses call (be_matcher a)"
proof -
  let ?k = "\<lambda>b. route_key longest (sort_view b)"
  obtain pre' b post' where bs: "bs = pre' @ b # post'" "list_all2 compiled_from pre pre'" "compiled_from e b"
    "list_all2 compiled_from post post'" using assms(1) by (rule list_all2_pick)
  obtain A B where s: "sort_key ?k bs = A @ b # B"
    and A: "\<forall>a \<in> set A. a \<in> set pre' \<and> ?k a \<le> ?k b \<or> a \<in> set post' \<and> ?k a < ?k b"
    using sort_key_around [of ?k pre' b post'] bs(1) by blast
  have "misses call (be_matcher a)" if "a \<in> set A" for a
  proof -
    have one: "misses call (be_matcher a)"
      if "compiled_from x a" "misses call (en_matcher x) \<or> c" "\<not> c" for x c
      using that by (simp add: compiled_from_def)
    have k: "?k b = declared_key longest e" using compiled_key [OF bs(3)] .
    from A that consider "a \<in> set pre'" "?k a \<le> ?k b" | "a \<in> set post'" "?k a < ?k b" by blast
    then show ?thesis
    proof cases
      case 1
      then obtain x where x: "x \<in> set pre" "compiled_from x a" using list_all2_member [OF bs(2)] by blast
      then show ?thesis
        using assms(2) 1(2) k compiled_key [OF x(2), of longest]
        by (intro one [of x "declared_key longest e < declared_key longest x"]) (simp_all add: best_route_def)
    next
      case 2
      then obtain x where x: "x \<in> set post" "compiled_from x a" using list_all2_member [OF bs(4)] by blast
      then show ?thesis
        using assms(2) 2(2) k compiled_key [OF x(2), of longest]
        by (intro one [of x "declared_key longest e \<le> declared_key longest x"]) (simp_all add: best_route_def)
    qed
  qed
  then show thesis using that s bs(3) by blast
qed

lemma built_routes_before_best:
  assumes "Build tabs (Some t) = Inr router" "tb_routes (tabs ! t) = pre @ e # post"
    "best_route (tb_longestPrefixWins (tabs ! t)) call pre e post"
  obtains A b B where
    "ro_table router = Built (A @ b # B) (tb_fallback (tabs ! t)) (tb_longestPrefixWins (tabs ! t))"
    "compiled_from e b" "\<forall>a \<in> set A. misses call (be_matcher a)"
proof -
  have "compiles tabs t (ro_table router)" using assms(1) unfolding Build_iff by blast
  then obtain routes where r: "compiles_entries tabs (tb_routes (tabs ! t)) routes"
    "ro_table router = Built (sort_key (\<lambda>e. route_key (tb_longestPrefixWins (tabs ! t)) (sort_view e)) routes)
      (tb_fallback (tabs ! t)) (tb_longestPrefixWins (tabs ! t))"
    by (cases rule: compiles.cases) blast
  have "list_all2 compiled_from (pre @ e # post) routes"
    using compiles_entries_from [OF r(1)] assms(2) by simp
  from sorted_routes_before_best [OF this assms(3)] show thesis using that r(2) by metis
qed

lemma Dispatch_best:
  assumes "Build tabs (Some t) = Inr router" "tb_routes (tabs ! t) = pre @ e # post"
    "best_route (tb_longestPrefixWins (tabs ! t)) call pre e post" "en_sub e = None" "en_handler e = Some h"
    and call: "NewRouteCall (Some c) req w = (call, w1)" "done_at w1 c = None"
    and m: "answers call (en_matcher e) data True" "m = entry_match (en_id e) (en_priority e) (en_matcher e) [] 0 data"
    and h: "\<And>v. \<exists>v'. h (withMatch call m) v = (Ret (res, None), v')" "res_Action res = ActionStop"
  shows "\<exists>v v'. h (withMatch call m) v = (Ret (res, None), v') \<and>
    Dispatch hostfn router (Some c) req w = (Ret (WithMatch res m, None), v')"
proof -
  obtain A b B where b: "ro_table router = Built (A @ b # B) (tb_fallback (tabs ! t)) (tb_longestPrefixWins (tabs ! t))"
    "compiled_from e b" "\<forall>a \<in> set A. misses call (be_matcher a)"
    using assms(1,2,3) by (rule built_routes_before_best)
  have "b = Entry (en_id e) (en_priority e) (Some h) None (en_matcher e)"
    using b(2) assms(4,5) by (cases b) (simp add: compiled_from_def)
  note table = b(1) [unfolded this]
  have c: "rc_Context call = c" using call(1) by (auto simp: NewRouteCall_def Let_def)
  define w2 where "w2 = (tick ^^ length A) (tick w1)"
  have live: "done_at w2 (rc_Context call) = None" using call(2) c by (simp add: w2_def)
  obtain v' where v': "h (withMatch call m) (tick w2) = (Ret (res, None), v')" using h(1) by blast
  have "dispatch_routes hostfn call (A @ Entry (en_id e) (en_priority e) (Some h) None (en_matcher e) # B)
      (tb_fallback (tabs ! t)) [] 0 None None (tick w1) = (Ret (WithMatch res m, None), v')"
    using dispatch_skips_misses [of A call "tick w1"] b(3) call(2) c
      dispatch_hit [OF m(1) live _ h(2), of _ "en_id e" "en_priority e" "[]" 0] v' m(2)
    by (simp add: misses_def w2_def)
  then have "Dispatch hostfn router (Some c) req w = (Ret (WithMatch res m, None), v')"
    using call table c
    by (simp add: Dispatch_def DispatchWithSink_def ctx_Err_def ctx_err_live seq_def)
  then show ?thesis using v' by blast
qed

end
