(* ===== verification/Decision_Table.thy ===== *)
theory Decision_Table
  imports Router
begin

text \<open>
  \<open>decision_table.go\<close>: ordered decision tables, the handler built on one, and routes selected by its action.

  Actions and reasons are dynamic values; the zero values of their Go types are the parameter \<open>zero\<close>, an action and a
  reason. A \<open>DecisionTable\<close> is an interface: a table built here or one of the host. The type of built tables
  is not exported and \<open>Build\<close> never returns a nil pointer of it, so \<open>BuiltDecisionTable None\<close> only appears in \<open>Decide\<close>.
\<close>

section \<open>Tables\<close>

type_synonym ('h, 'x, 'i) case_matcher = "'i \<Rightarrow> (('h, 'x) world_scheme, bool \<times> err) proc"

record ('h, 'x, 'i) decision_case =
  dc_match :: "('h, 'x, 'i) case_matcher option"
  dc_action :: gval
  dc_reason :: gval
  dc_terminal :: bool

datatype ('h, 'x, 'i) decision_table =
    BuiltDecisionTable "('h, 'x, 'i) decision_case list option"
  | HostDecisionTable "'i \<Rightarrow> (('h, 'x) world_scheme, decision_result \<times> err) proc"

type_synonym ('h, 'x, 'i) decision_builder = "('h, 'x, 'i) decision_case list option"

definition NewDecisionTable :: "('h, 'x, 'i) decision_builder" where
  "NewDecisionTable = Some []"

definition CaseWithTerminal ::
  "('h, 'x, 'i) decision_builder \<Rightarrow> ('h, 'x, 'i) case_matcher option \<Rightarrow> gval \<Rightarrow> gval \<Rightarrow> bool \<Rightarrow>
   ('h, 'x, 'i) decision_builder" where
  "CaseWithTerminal builder match action reason terminal =
     (case builder of
        None \<Rightarrow> None
      | Some cases \<Rightarrow> Some (cases @ [\<lparr>dc_match = match, dc_action = action, dc_reason = reason, dc_terminal = terminal\<rparr>]))"

definition Case ::
  "('h, 'x, 'i) decision_builder \<Rightarrow> ('h, 'x, 'i) case_matcher option \<Rightarrow> gval \<Rightarrow> gval \<Rightarrow> ('h, 'x, 'i) decision_builder" where
  "Case builder match action reason = CaseWithTerminal builder match action reason True"

definition Build_decisions :: "('h, 'x, 'i) decision_builder \<Rightarrow> gerror + ('h, 'x, 'i) decision_table" where
  "Build_decisions builder =
     (case builder of
        None \<Rightarrow> Inl (configError ''decision table builder is nil'')
      | Some cases \<Rightarrow>
          if cases = [] then Inl ErrNoHandlers
          else case first_nil 0 (map dc_match cases) of
            Some i \<Rightarrow> Inl (configError (''decision table case at index '' @ Itoa (int i) @ '' has nil matcher''))
          | None \<Rightarrow> Inr (BuiltDecisionTable (Some cases)))"

definition NoDecision :: "gval \<times> gval \<Rightarrow> decision_result" where
  "NoDecision zero = \<lparr>dr_Matched = False, dr_Action = fst zero, dr_Reason = snd zero, dr_Terminal = False\<rparr>"

text \<open>One case of the loop in \<open>Decide\<close>; calling a nil matcher panics.\<close>

definition decide_turn ::
  "gval \<times> gval \<Rightarrow> 'i \<Rightarrow> ('h, 'x, 'i) decision_case \<Rightarrow> unit \<Rightarrow>
   (('h, 'x) world_scheme, (decision_result \<times> err) + unit) proc" where
  "decide_turn zero input item s =
     (case dc_match item of
        None \<Rightarrow> (\<lambda>w. (Panic, w))
      | Some match \<Rightarrow> seq (match input) (\<lambda>(matched, e). case e of
          Some x \<Rightarrow> ret (Inl (NoDecision zero, Some x))
        | None \<Rightarrow>
            if \<not> matched then ret (Inr ())
            else ret (Inl (\<lparr>dr_Matched = True, dr_Action = dc_action item, dr_Reason = dc_reason item,
                             dr_Terminal = dc_terminal item\<rparr>, None))))"

definition Decide ::
  "gval \<times> gval \<Rightarrow> ('h, 'x, 'i) decision_table \<Rightarrow> 'i \<Rightarrow> (('h, 'x) world_scheme, decision_result \<times> err) proc" where
  "Decide zero table input =
     (case table of
        HostDecisionTable decide \<Rightarrow> decide input
      | BuiltDecisionTable None \<Rightarrow> ret (NoDecision zero, Some (configError ''decision table is nil''))
      | BuiltDecisionTable (Some cases) \<Rightarrow>
          early_loop (decide_turn zero input) (\<lambda>_. ret (NoDecision zero, None)) cases ())"

definition DecisionTableHandler ::
  "gval \<times> gval \<Rightarrow> ('h, 'x, 'req) decision_table option \<Rightarrow>
   ('req route_call \<Rightarrow> decision_result \<Rightarrow> (('h, 'x) world_scheme, ('k, 'r, 'p) route_result \<times> err) proc) option \<Rightarrow>
   ('h, 'x, 'req, 'k :: zero, 'r :: zero, 'p :: zero) handler" where
  "DecisionTableHandler zero table handler =
     (case table of
        None \<Rightarrow> invalidRouteHandler (configError ''decision table is nil'')
      | Some t \<Rightarrow>
          (case handler of
             None \<Rightarrow> invalidRouteHandler (configError ''decision result handler is nil'')
           | Some h \<Rightarrow> (\<lambda>call. seq (Decide zero t (rc_Request call)) (\<lambda>(decision, e). case e of
               Some x \<Rightarrow> ret (AbortResult, Some x)
             | None \<Rightarrow> h call decision))))"

section \<open>Routes backed by a decision table\<close>

record ('h, 'x, 'req) table_group =
  tg_addr :: nat
  tg_table :: "('h, 'x, 'req) decision_table option"
  tg_zero :: "gval \<times> gval"

text \<open>\<open>OnDecisionTable\<close> allocates the group, here at the given address.\<close>

definition OnDecisionTable ::
  "nat \<Rightarrow> gval \<times> gval \<Rightarrow> nat option \<Rightarrow> ('h, 'x, 'req) decision_table option \<Rightarrow>
   nat option \<times> ('h, 'x, 'req) table_group option" where
  "OnDecisionTable addr zero table decisions = (table, Some \<lparr>tg_addr = addr, tg_table = decisions, tg_zero = zero\<rparr>)"

definition decisionTableForCall ::
  "'req route_call \<Rightarrow> ('h, 'x, 'req) table_group \<Rightarrow> ('h, 'x, 'req) decision_table \<Rightarrow>
   (('h, 'x) world_scheme, decision_result \<times> err) proc" where
  "decisionTableForCall call g table w =
     (case rc_state call of
        None \<Rightarrow> Decide (tg_zero g) table (rc_Request call) w
      | Some st \<Rightarrow>
          (case map_of (w_decisions w st) (tg_addr g) of
             Some (CachedTable result e) \<Rightarrow> (Ret (result, e), w)
           | Some (CachedDecision _ _) \<Rightarrow>
               (Ret (NoDecision (tg_zero g), Some (configError ''decision table cache type mismatch'')), w)
           | None \<Rightarrow> seq (Decide (tg_zero g) table (rc_Request call))
               (\<lambda>(result, e) w. (Ret (result, e), store_decision st (tg_addr g) (CachedTable result e) w)) w))"

definition decisionTopology :: "golib \<Rightarrow> ('h, 'x, 'req) table_group option \<Rightarrow> string" where
  "decisionTopology lib g =
     (case g of
        None \<Rightarrow> ''nil''
      | Some tg \<Rightarrow>
          (case tg_table tg of
             Some (BuiltDecisionTable (Some cases)) \<Rightarrow>
               FingerprintSHA256 (''routery-decision-table-v1'' # concat (map (\<lambda>c.
                 [topologyKey (gl_ValueOf lib) (dc_action c), topologyKey (gl_ValueOf lib) (dc_reason c),
                  FormatBool (dc_terminal c)]) cases))
           | _ \<Rightarrow> ''opaque-host-table''))"

definition decisionTableMatcher ::
  "golib \<Rightarrow> ('h, 'x, 'req) table_group option \<Rightarrow> gval \<Rightarrow> ('h, 'x, 'req) route_matcher" where
  "decisionTableMatcher lib g expected =
     \<lparr>mt_group = map_option tg_addr g, mt_kind = MatchKindTable,
      mt_match = Some (\<lambda>call. case Option.bind g (\<lambda>tg. map_option (\<lambda>t. (tg, t)) (tg_table tg)) of
         None \<Rightarrow> ret (zero_match_data, False, Some (configError ''decision table is nil''))
       | Some (tg, t) \<Rightarrow> seq (decisionTableForCall call tg t) (\<lambda>(result, e). case e of
           Some x \<Rightarrow> ret (zero_match_data, False, Some x)
         | None \<Rightarrow>
             if \<not> dr_Matched result \<or> \<not> go_eq (dr_Action result) expected then ret (zero_match_data, False, None)
             else ret (zero_match_data\<lparr>md_key := gl_Sprint lib (dr_Action result),
                         md_decisionReason := dr_Reason result, md_hasDecisionReason := True\<rparr>, True, None))),
      mt_staticKey = FingerprintSHA256 [topologyKey (gl_ValueOf lib) expected, decisionTopology lib g],
      mt_prefixLength = 0, mt_configErr = None\<rparr>"

definition Decision_Table_Case ::
  "golib \<Rightarrow> nat option \<times> ('h, 'x, 'req) table_group option \<Rightarrow> string \<Rightarrow> int \<Rightarrow> gval \<Rightarrow>
   ('h, 'x, 'req, 'k, 'r, 'p) handler option \<Rightarrow> ('h, 'x, 'req, 'k, 'r, 'p) tables \<Rightarrow>
   ('h, 'x, 'req, 'k, 'r, 'p) tables" where
  "Decision_Table_Case lib builder i priority action handler tabs =
     (case fst builder of
        None \<Rightarrow> tabs
      | Some t \<Rightarrow> add_entry t \<lparr>en_id = i, en_priority = priority, en_handler = handler, en_sub = None,
                   en_matcher = decisionTableMatcher lib (snd builder) action\<rparr> tabs)"

section \<open>The first case that applies decides\<close>

text \<open>\<open>cases_miss\<close>: the matchers of these cases, run in order, all answered no without error.\<close>

fun cases_miss :: "'i \<Rightarrow> ('h, 'x, 'i) decision_case list \<Rightarrow> ('h, 'x) world_scheme \<Rightarrow> ('h, 'x) world_scheme \<Rightarrow> bool" where
  "cases_miss input [] w w' \<longleftrightarrow> w' = w"
| "cases_miss input (c # cs) w w' \<longleftrightarrow>
     (\<exists>m w1. dc_match c = Some m \<and> m input w = (Ret (False, None), w1) \<and> cases_miss input cs w1 w')"

lemma decide_turn_Inr:
  "decide_turn zero input c s w = (Ret (Inr s'), w') \<longleftrightarrow> (\<exists>m. dc_match c = Some m \<and> m input w = (Ret (False, None), w'))"
  by (cases "dc_match c") (auto simp: decide_turn_def seq_eq_Ret split: option.splits if_splits)

text \<open>\<open>case_outcome\<close>: what a case that is not a clean miss makes \<open>Decide\<close> return, given its matcher's error.\<close>

definition case_outcome :: "gval \<times> gval \<Rightarrow> ('h, 'x, 'i) decision_case \<Rightarrow> err \<Rightarrow> decision_result \<times> err" where
  "case_outcome zero c e =
     (if e = None
      then (\<lparr>dr_Matched = True, dr_Action = dc_action c, dr_Reason = dc_reason c, dr_Terminal = dc_terminal c\<rparr>, None)
      else (NoDecision zero, e))"

lemma decide_turn_Inl:
  "decide_turn zero input c s w = (Ret (Inl out), w') \<longleftrightarrow>
     (\<exists>m b e. dc_match c = Some m \<and> m input w = (Ret (b, e), w') \<and> (b, e) \<noteq> (False, None) \<and> out = case_outcome zero c e)"
proof (cases "dc_match c")
  case None
  then show ?thesis by (simp add: decide_turn_def)
next
  case (Some m)
  then show ?thesis
    by (fastforce simp: decide_turn_def case_outcome_def seq_eq_Ret split: option.splits if_splits)
qed

lemma turns_miss: "turns (decide_turn zero input) cases s w s' w' \<longleftrightarrow> cases_miss input cases w w'"
  by (induction cases arbitrary: s w) (auto simp: turns_Cons_simps decide_turn_Inr)

lemma Decide_built:
  "Decide zero (BuiltDecisionTable (Some cases)) input w = (Ret out, w') \<longleftrightarrow>
     cases_miss input cases w w' \<and> out = (NoDecision zero, None) \<or>
     (\<exists>pre c post w1 m b e. cases = pre @ c # post \<and> cases_miss input pre w w1 \<and> dc_match c = Some m \<and>
        m input w1 = (Ret (b, e), w') \<and> (b, e) \<noteq> (False, None) \<and> out = case_outcome zero c e)"
  by (simp add: Decide_def early_loop_iff turns_miss decide_turn_Inl conj_commute eq_commute [of out])

lemma Build_decisions_Inr: "Build_decisions builder = Inr t \<longleftrightarrow>
   (\<exists>cases. builder = Some cases \<and> cases \<noteq> [] \<and> None \<notin> set (map dc_match cases) \<and> t = BuiltDecisionTable (Some cases))"
proof (cases builder)
  case (Some cs)
  show ?thesis
    by (cases "first_nil 0 (map dc_match cs)")
      (use Some first_nil_eq_None [of 0 "map dc_match cs"] in \<open>auto simp: Build_decisions_def\<close>)
qed (simp add: Build_decisions_def)

section \<open>Properties\<close>

text \<open>
  C7 (refinement). A built table refines the ordered rule list: \<open>Build\<close> succeeds exactly on a non-empty list of cases
  that all have a matcher, and the table then decides by the first case that is not a clean miss, after running the
  matchers before it in order: its error with no decision, or its action, reason and terminal flag. When every case
  misses there is no decision and no error.
\<close>

theorem Decide_refines_first_case:
  "(\<exists>t. Build_decisions builder = Inr t \<and> Decide zero t input w = (Ret out, w')) \<longleftrightarrow>
   (\<exists>cases. builder = Some cases \<and> cases \<noteq> [] \<and> None \<notin> set (map dc_match cases) \<and>
      (cases_miss input cases w w' \<and> out = (NoDecision zero, None) \<or>
       (\<exists>pre c post w1 m b e. cases = pre @ c # post \<and> cases_miss input pre w w1 \<and> dc_match c = Some m \<and>
          m input w1 = (Ret (b, e), w') \<and> (b, e) \<noteq> (False, None) \<and> out = case_outcome zero c e)))"
proof -
  have "(\<exists>t. Build_decisions builder = Inr t \<and> Decide zero t input w = (Ret out, w')) \<longleftrightarrow>
    (\<exists>cases. builder = Some cases \<and> cases \<noteq> [] \<and> None \<notin> set (map dc_match cases) \<and>
       Decide zero (BuiltDecisionTable (Some cases)) input w = (Ret out, w'))"
    unfolding Build_decisions_Inr by blast
  then show ?thesis unfolding Decide_built .
qed

end
