(* ===== verification/Registry.thy ===== *)
theory Registry
  imports Router Route_Build
begin

text \<open>
  \<open>registry.go\<close>: the mutable route registry, which rebuilds an immutable snapshot on every change.

  \<open>Register\<close> and \<open>Unregister\<close> run under the registry's mutex, so each is one atomic step on the state
  (\<open>specs\<close>, \<open>order\<close>, \<open>snapshot\<close>); \<open>Snapshot\<close> is one atomic load. A nil registry is \<open>None\<close>. Strings are their UTF-8 bytes.
  \<open>quote\<close> is what \<open>%q\<close> prints for a string.
\<close>

section \<open>Route ids\<close>

text \<open>The UTF-8 encodings of the runes for which \<open>unicode.IsSpace\<close> holds.\<close>

definition white_space :: "string list" where
  "white_space = map (map char_of)
     ([[9], [10], [11], [12], [13], [32], [194, 133], [194, 160], [225, 154, 128]]
      @ map (\<lambda>n. [226, 128, n]) [128, 129, 130, 131, 132, 133, 134, 135, 136, 137, 138, 168, 169, 175]
      @ [[226, 129, 159], [227, 128, 128 :: nat]])"

function trim_front :: "string list \<Rightarrow> string \<Rightarrow> string" where
  "trim_front ws s =
     (case find (\<lambda>p. p \<noteq> [] \<and> HasPrefix s p) ws of
        None \<Rightarrow> s
      | Some p \<Rightarrow> trim_front ws (drop (length p) s))"
  by pat_completeness auto

termination
proof (relation "measure (\<lambda>(ws, s). length s)", goal_cases)
  case (2 ws s p)
  then have "p \<noteq> []" "take (length p) s = p" by (auto simp: find_Some_iff HasPrefix_def)
  then show ?case by (cases s) auto
qed simp

declare trim_front.simps [simp del]

definition TrimSpace :: "string \<Rightarrow> string" where
  "TrimSpace s = rev (trim_front (map rev white_space) (rev (trim_front white_space s)))"

definition NormalizeRouteID :: "string \<Rightarrow> gerror + string" where
  "NormalizeRouteID i =
     (let normalized = TrimSpace i in
      if normalized = '''' then Inl (Wrapf ErrInvalidRouteID ''empty route id'') else Inr normalized)"

section \<open>Route specs\<close>

definition PrefixPolicyNone :: string where "PrefixPolicyNone = ''''"
definition PrefixPolicyPriority :: string where "PrefixPolicyPriority = ''priority''"
definition PrefixPolicyLongestPrefixWins :: string where "PrefixPolicyLongestPrefixWins = ''longest_prefix_wins''"

record ('h, 'x, 'req, 'k, 'r, 'p) route_spec =
  sp_id :: string
  sp_priority :: int
  sp_handler :: "('h, 'x, 'req, 'k, 'r, 'p) handler option"
  sp_matcher :: "('h, 'x, 'req) route_matcher"
  sp_prefixPolicy :: string

definition zero_matcher :: "('h, 'x, 'req) route_matcher" where
  "zero_matcher = \<lparr>mt_group = None, mt_kind = '''', mt_match = None, mt_staticKey = '''', mt_prefixLength = 0,
     mt_configErr = None\<rparr>"

definition zero_spec :: "('h, 'x, 'req, 'k, 'r, 'p) route_spec" where
  "zero_spec = \<lparr>sp_id = '''', sp_priority = 0, sp_handler = None, sp_matcher = zero_matcher, sp_prefixPolicy = ''''\<rparr>"

definition NewRouteSpec ::
  "string \<Rightarrow> int \<Rightarrow> ('h, 'x, 'req) matcher_fn option \<Rightarrow> ('h, 'x, 'req, 'k, 'r, 'p) handler option \<Rightarrow>
   ('h, 'x, 'req, 'k, 'r, 'p) route_spec" where
  "NewRouteSpec i priority match handler = \<lparr>sp_id = i, sp_priority = priority, sp_handler = handler,
     sp_matcher = predicateMatcher match, sp_prefixPolicy = PrefixPolicyNone\<rparr>"

definition ExactRouteSpec ::
  "golib \<Rightarrow> string \<Rightarrow> int \<Rightarrow> ('h, 'x, 'req) key_extractor option \<Rightarrow> gval \<Rightarrow>
   ('h, 'x, 'req, 'k, 'r, 'p) handler option \<Rightarrow> ('h, 'x, 'req, 'k, 'r, 'p) route_spec" where
  "ExactRouteSpec lib i priority extractor key handler = \<lparr>sp_id = i, sp_priority = priority, sp_handler = handler,
     sp_matcher = exactMatcher lib extractor key, sp_prefixPolicy = PrefixPolicyNone\<rparr>"

definition prefixRouteSpec ::
  "string \<Rightarrow> int \<Rightarrow> ('h, 'x, 'req) key_extractor option \<Rightarrow> gval \<Rightarrow> ('h, 'x, 'req, 'k, 'r, 'p) handler option \<Rightarrow> string \<Rightarrow>
   ('h, 'x, 'req, 'k, 'r, 'p) route_spec" where
  "prefixRouteSpec i priority extractor pfx handler policy = \<lparr>sp_id = i, sp_priority = priority, sp_handler = handler,
     sp_matcher = prefixMatcher extractor pfx, sp_prefixPolicy = policy\<rparr>"

definition PrefixRouteSpec ::
  "string \<Rightarrow> int \<Rightarrow> ('h, 'x, 'req) key_extractor option \<Rightarrow> gval \<Rightarrow> ('h, 'x, 'req, 'k, 'r, 'p) handler option \<Rightarrow>
   ('h, 'x, 'req, 'k, 'r, 'p) route_spec" where
  "PrefixRouteSpec i priority extractor pfx handler =
     prefixRouteSpec i priority extractor pfx handler PrefixPolicyPriority"

definition LongestPrefixRouteSpec ::
  "string \<Rightarrow> int \<Rightarrow> ('h, 'x, 'req) key_extractor option \<Rightarrow> gval \<Rightarrow> ('h, 'x, 'req, 'k, 'r, 'p) handler option \<Rightarrow>
   ('h, 'x, 'req, 'k, 'r, 'p) route_spec" where
  "LongestPrefixRouteSpec i priority extractor pfx handler =
     prefixRouteSpec i priority extractor pfx handler PrefixPolicyLongestPrefixWins"

definition validateRouteSpec ::
  "(string \<Rightarrow> string) \<Rightarrow> ('h, 'x, 'req, 'k, 'r, 'p) route_spec \<Rightarrow> gerror + string" where
  "validateRouteSpec quote spec =
     (case NormalizeRouteID (sp_id spec) of
        Inl e \<Rightarrow> Inl e
      | Inr normalizedID \<Rightarrow>
          if sp_handler spec = None then Inl (configError (''route '' @ normalizedID @ '' has nil handler''))
          else if mt_match (sp_matcher spec) = None
          then Inl (configError (''route '' @ normalizedID @ '' has invalid matcher''))
          else if sp_prefixPolicy spec \<in> {PrefixPolicyNone, PrefixPolicyPriority, PrefixPolicyLongestPrefixWins}
          then Inr normalizedID
          else Inl (Wrapf ErrConflictingPrefixPolicy (''unknown prefix policy '' @ quote (sp_prefixPolicy spec))))"

section \<open>Snapshots\<close>

record ('h, 'x, 'req, 'k, 'r, 'p) table_snapshot =
  ts_Router :: "('h, 'x, 'req, 'k, 'r, 'p) router option"
  ts_Fingerprint :: string
  ts_RouteIDs :: "string list"

definition emptyRouteTableSnapshot :: "('h, 'x, 'req, 'k, 'r, 'p) table_snapshot" where
  "emptyRouteTableSnapshot = \<lparr>ts_Router = None, ts_Fingerprint = FingerprintSHA256 [''empty-route-registry''],
     ts_RouteIDs = []\<rparr>"

definition cloneRouteTableSnapshot ::
  "('h, 'x, 'req, 'k, 'r, 'p) table_snapshot \<Rightarrow> ('h, 'x, 'req, 'k, 'r, 'p) table_snapshot" where
  "cloneRouteTableSnapshot snapshot = \<lparr>ts_Router = ts_Router snapshot, ts_Fingerprint = ts_Fingerprint snapshot,
     ts_RouteIDs = [] @ ts_RouteIDs snapshot\<rparr>"

definition spec_at ::
  "(string \<Rightarrow> ('h, 'x, 'req, 'k, 'r, 'p) route_spec option) \<Rightarrow> string \<Rightarrow> ('h, 'x, 'req, 'k, 'r, 'p) route_spec" where
  "spec_at specs i = (case specs i of Some s \<Rightarrow> s | None \<Rightarrow> zero_spec)"

definition spec_entry ::
  "('h, 'x, 'req, 'k, 'r, 'p) route_spec \<Rightarrow> ('h, 'x, 'req, 'k, 'r, 'p) route_entry" where
  "spec_entry spec = \<lparr>en_id = sp_id spec, en_priority = sp_priority spec, en_handler = sp_handler spec, en_sub = None,
     en_matcher = sp_matcher spec\<rparr>"

text \<open>
  The loop of \<open>buildRouteTableSnapshot\<close>: the policy seen so far, and the table under construction at address 0 of a
  table store of its own.
\<close>

fun collect ::
  "(string \<Rightarrow> ('h, 'x, 'req, 'k, 'r, 'p) route_spec option) \<Rightarrow> string list \<Rightarrow> string \<Rightarrow>
   ('h, 'x, 'req, 'k, 'r, 'p) tables \<Rightarrow> gerror + (string \<times> ('h, 'x, 'req, 'k, 'r, 'p) tables)" where
  "collect specs [] policy tabs = Inr (policy, tabs)"
| "collect specs (i # is) policy tabs =
     (let spec = spec_at specs i in
      if sp_prefixPolicy spec \<noteq> PrefixPolicyNone \<and> policy \<noteq> PrefixPolicyNone \<and> policy \<noteq> sp_prefixPolicy spec
      then Inl (Wrapf ErrConflictingPrefixPolicy (policy @ '' and '' @ sp_prefixPolicy spec))
      else collect specs is (if sp_prefixPolicy spec \<noteq> PrefixPolicyNone then sp_prefixPolicy spec else policy)
        (add_entry 0 (spec_entry spec) tabs))"

definition buildRouteTableSnapshot ::
  "string list \<Rightarrow> (string \<Rightarrow> ('h, 'x, 'req, 'k, 'r, 'p) route_spec option) \<Rightarrow>
   gerror + ('h, 'x, 'req, 'k, 'r, 'p) table_snapshot" where
  "buildRouteTableSnapshot order specs =
     (if order = [] then Inr emptyRouteTableSnapshot
      else case NewRouteTable [] of (table, tabs) \<Rightarrow>
        case collect specs order PrefixPolicyNone tabs of
          Inl e \<Rightarrow> Inl e
        | Inr (policy, tabs) \<Rightarrow>
            let tabs = tabs[table := (tabs ! table)\<lparr>tb_longestPrefixWins := (policy = PrefixPolicyLongestPrefixWins)\<rparr>] in
            case Build tabs (Some table) of
              Inl e \<Rightarrow> Inl e
            | Inr router \<Rightarrow>
                let routerSnapshot = Snapshot router in
                Inr \<lparr>ts_Router = Some router, ts_Fingerprint = sn_Fingerprint routerSnapshot,
                     ts_RouteIDs = [] @ sn_State routerSnapshot\<rparr>)"

section \<open>The registry\<close>

record ('h, 'x, 'req, 'k, 'r, 'p) registry =
  rg_specs :: "string \<Rightarrow> ('h, 'x, 'req, 'k, 'r, 'p) route_spec option"
  rg_order :: "string list"
  rg_snapshot :: "('h, 'x, 'req, 'k, 'r, 'p) table_snapshot"

definition NewRouteRegistry :: "('h, 'x, 'req, 'k, 'r, 'p) registry" where
  "NewRouteRegistry = \<lparr>rg_specs = Map.empty, rg_order = [], rg_snapshot = emptyRouteTableSnapshot\<rparr>"

definition Register ::
  "(string \<Rightarrow> string) \<Rightarrow> ('h, 'x, 'req, 'k, 'r, 'p) route_spec \<Rightarrow> ('h, 'x, 'req, 'k, 'r, 'p) registry option \<Rightarrow>
   err \<times> ('h, 'x, 'req, 'k, 'r, 'p) registry option" where
  "Register quote spec registry =
     (case registry of
        None \<Rightarrow> (Some (configError ''route registry is nil''), None)
      | Some rg \<Rightarrow>
          (case validateRouteSpec quote spec of
             Inl e \<Rightarrow> (Some e, registry)
           | Inr normalizedID \<Rightarrow>
               if rg_specs rg normalizedID \<noteq> None then (Some (Wrapf ErrDuplicateRoute normalizedID), registry)
               else
                 let nextSpecs = (rg_specs rg)(normalizedID \<mapsto> spec\<lparr>sp_id := normalizedID\<rparr>);
                     nextOrder = rg_order rg @ [normalizedID] in
                 case buildRouteTableSnapshot nextOrder nextSpecs of
                   Inl e \<Rightarrow> (Some e, registry)
                 | Inr snapshot \<Rightarrow>
                     (None, Some (rg\<lparr>rg_specs := nextSpecs, rg_order := nextOrder, rg_snapshot := snapshot\<rparr>))))"

definition Unregister ::
  "string \<Rightarrow> ('h, 'x, 'req, 'k, 'r, 'p) registry option \<Rightarrow> err \<times> ('h, 'x, 'req, 'k, 'r, 'p) registry option" where
  "Unregister i registry =
     (case registry of
        None \<Rightarrow> (Some (configError ''route registry is nil''), None)
      | Some rg \<Rightarrow>
          (case NormalizeRouteID i of
             Inl e \<Rightarrow> (Some e, registry)
           | Inr normalizedID \<Rightarrow>
               if rg_specs rg normalizedID = None then (Some (Wrapf ErrRouteNotFound normalizedID), registry)
               else
                 let nextSpecs = (rg_specs rg)(normalizedID := None);
                     nextOrder = filter (\<lambda>r. r \<noteq> normalizedID) (rg_order rg) in
                 case buildRouteTableSnapshot nextOrder nextSpecs of
                   Inl e \<Rightarrow> (Some e, registry)
                 | Inr snapshot \<Rightarrow>
                     (None, Some (rg\<lparr>rg_specs := nextSpecs, rg_order := nextOrder, rg_snapshot := snapshot\<rparr>))))"

definition Registry_Snapshot ::
  "('h, 'x, 'req, 'k, 'r, 'p) registry option \<Rightarrow> ('h, 'x, 'req, 'k, 'r, 'p) table_snapshot" where
  "Registry_Snapshot registry =
     (case registry of None \<Rightarrow> emptyRouteTableSnapshot | Some rg \<Rightarrow> cloneRouteTableSnapshot (rg_snapshot rg))"

definition Snapshot_DispatchWithSink ::
  "('h \<Rightarrow> (('h, 'x) world_scheme, err) proc) \<Rightarrow>
   ('h, 'x, 'req, 'k :: zero, 'r :: zero, 'p :: zero) table_snapshot \<Rightarrow> ctx option \<Rightarrow> 'req \<Rightarrow>
   ('h, 'x, 'k, 'r, 'p) sink option \<Rightarrow> (('h, 'x) world_scheme, ('k, 'r, 'p) route_result \<times> err) proc" where
  "Snapshot_DispatchWithSink hostfn snapshot ctx req sink =
     (case ts_Router snapshot of
        None \<Rightarrow> ret (AbortResult, Some ErrNoHandlers)
      | Some router \<Rightarrow> DispatchWithSink hostfn router ctx req sink)"

definition Snapshot_Dispatch ::
  "('h \<Rightarrow> (('h, 'x) world_scheme, err) proc) \<Rightarrow>
   ('h, 'x, 'req, 'k :: zero, 'r :: zero, 'p :: zero) table_snapshot \<Rightarrow> ctx option \<Rightarrow> 'req \<Rightarrow>
   (('h, 'x) world_scheme, ('k, 'r, 'p) route_result \<times> err) proc" where
  "Snapshot_Dispatch hostfn snapshot ctx req =
     (case ts_Router snapshot of
        None \<Rightarrow> ret (AbortResult, Some ErrNoHandlers)
      | Some router \<Rightarrow> Dispatch hostfn router ctx req)"

section \<open>Trimming\<close>

lemma trim_front_stops: "find (\<lambda>p. p \<noteq> [] \<and> HasPrefix (trim_front ws s) p) ws = None"
proof (induction ws s rule: trim_front.induct)
  case (1 ws s)
  show ?case
  proof (cases "find (\<lambda>p. p \<noteq> [] \<and> HasPrefix s p) ws")
    case None
    then show ?thesis by (simp add: trim_front.simps [of ws s])
  next
    case (Some p)
    then show ?thesis using "1.IH" by (simp add: trim_front.simps [of ws s])
  qed
qed

lemma trim_front_id: "find (\<lambda>p. p \<noteq> [] \<and> HasPrefix s p) ws = None \<Longrightarrow> trim_front ws s = s"
  by (simp add: trim_front.simps [of ws s])

lemma trim_front_suffix: "\<exists>t. s = t @ trim_front ws s"
proof (induction ws s rule: trim_front.induct)
  case (1 ws s)
  show ?case
  proof (cases "find (\<lambda>p. p \<noteq> [] \<and> HasPrefix s p) ws")
    case None
    then show ?thesis by (simp add: trim_front_id)
  next
    case (Some p)
    then obtain t where "drop (length p) s = t @ trim_front ws (drop (length p) s)" using "1.IH" by blast
    then have "s = (take (length p) s @ t) @ trim_front ws (drop (length p) s)"
      by (metis append_assoc append_take_drop_id)
    moreover have "trim_front ws s = trim_front ws (drop (length p) s)" using Some by (simp add: trim_front.simps [of ws s])
    ultimately show ?thesis by metis
  qed
qed

lemma HasPrefix_append: "HasPrefix s p \<Longrightarrow> HasPrefix (s @ t) p"
  unfolding HasPrefix_def by (cases "length p \<le> length s") (auto simp: take_all)

lemma TrimSpace_idem [simp]: "TrimSpace (TrimSpace s) = TrimSpace s"
proof -
  define t where "t = trim_front white_space s"
  obtain u where u: "rev t = u @ rev (TrimSpace s)"
    using trim_front_suffix [of "rev t" "map rev white_space"] by (auto simp: TrimSpace_def t_def)
  then have t: "t = TrimSpace s @ rev u" by (metis rev_append rev_rev_ident)
  have "find (\<lambda>p. p \<noteq> [] \<and> HasPrefix (TrimSpace s) p) white_space = None"
    using trim_front_stops [of white_space s] HasPrefix_append [of "TrimSpace s"] t
    unfolding find_None_iff t_def [symmetric] by (metis (no_types))
  then have front: "trim_front white_space (TrimSpace s) = TrimSpace s" by (rule trim_front_id)
  have "find (\<lambda>p. p \<noteq> [] \<and> HasPrefix (rev (TrimSpace s)) p) (map rev white_space) = None"
    using trim_front_stops [of "map rev white_space"] by (simp add: TrimSpace_def)
  then have "trim_front (map rev white_space) (rev (TrimSpace s)) = rev (TrimSpace s)" by (rule trim_front_id)
  then show ?thesis using front by (simp add: TrimSpace_def [of "TrimSpace s"])
qed

lemma NormalizeRouteID_Inr: "NormalizeRouteID i = Inr n \<longleftrightarrow> n = TrimSpace i \<and> n \<noteq> ''''"
  by (auto simp: NormalizeRouteID_def Let_def)

section \<open>Building a snapshot\<close>

definition leaf_entry :: "('h, 'x, 'req, 'k, 'r, 'p) route_entry \<Rightarrow> ('h, 'x, 'req, 'k, 'r, 'p) built_entry" where
  "leaf_entry e = Entry (en_id e) (en_priority e) (en_handler e) None (en_matcher e)"

lemma build_entries_flat:
  assumes "\<forall>e \<in> set es. en_sub e = None"
  shows "build_entries tabs es anc path = Inr bs \<longleftrightarrow>
    (\<forall>e \<in> set es. validateConfiguration e = None) \<and> bs = map leaf_entry es"
  using assms
proof (induction es arbitrary: bs)
  case (Cons e es)
  then show ?case
    by (cases "validateConfiguration e"; cases "build_entries tabs es anc path") (auto simp: leaf_entry_def)
qed auto

lemma Build_flat:
  assumes "\<forall>e \<in> set (tb_routes tab). en_sub e = None"
  shows "Build [tab] (Some 0) = Inr r \<longleftrightarrow>
    (\<forall>e \<in> set (tb_routes tab). validateConfiguration e = None) \<and> finish_build tab (map leaf_entry (tb_routes tab)) = Inr r"
proof (cases "build_entries [tab] (tb_routes tab) {0} []")
  case (Inl e)
  then show ?thesis using build_entries_flat [OF assms, of "[tab]" "{0}" "[]" "map leaf_entry (tb_routes tab)"]
    by (simp add: Build_def)
next
  case (Inr bs)
  then show ?thesis
    using build_entries_flat [OF assms, of "[tab]" "{0}" "[]" bs] by (simp add: Build_def)
qed

definition spec_policy :: "(string \<Rightarrow> ('h, 'x, 'req, 'k, 'r, 'p) route_spec option) \<Rightarrow> string \<Rightarrow> string" where
  "spec_policy specs i = sp_prefixPolicy (spec_at specs i)"

lemma collect_sound:
  "collect specs is policy tabs = Inr (p', tabs') \<Longrightarrow>
     (\<forall>i \<in> set is. spec_policy specs i = PrefixPolicyNone \<or> spec_policy specs i = p') \<and>
     (policy \<noteq> PrefixPolicyNone \<longrightarrow> p' = policy)"
  by (induction specs "is" policy tabs rule: collect.induct) (auto simp: spec_policy_def Let_def split: if_splits)

lemma collect_complete:
  assumes "\<forall>i \<in> set is. spec_policy specs i = PrefixPolicyNone \<or> spec_policy specs i = q"
    and "policy = PrefixPolicyNone \<or> policy = q"
  shows "\<exists>p'. collect specs is policy tabs = Inr (p', fold (\<lambda>i. add_entry 0 (spec_entry (spec_at specs i))) is tabs)"
  using assms by (induction specs "is" policy tabs rule: collect.induct) (auto simp: spec_policy_def Let_def)

lemma fold_add_entry:
  "fold (\<lambda>i. add_entry 0 (f i)) is [tab] = [tab\<lparr>tb_routes := tb_routes tab @ map f is\<rparr>]"
  by (induction "is" arbitrary: tab) (simp_all add: add_entry_def)


text \<open>
  \<open>buildable\<close>: every registered route is properly configured and no two declare different prefix policies. The table
  built then holds the registered routes in registration order before sorting.
\<close>

definition buildable :: "string list \<Rightarrow> (string \<Rightarrow> ('h, 'x, 'req, 'k, 'r, 'p) route_spec option) \<Rightarrow> bool" where
  "buildable order specs \<longleftrightarrow> (\<forall>i \<in> set order. validateConfiguration (spec_entry (spec_at specs i)) = None) \<and>
     (\<exists>q. \<forall>i \<in> set order. spec_policy specs i = PrefixPolicyNone \<or> spec_policy specs i = q)"

lemma buildable_subset: "buildable order specs \<Longrightarrow> set order' \<subseteq> set order \<Longrightarrow> buildable order' specs"
  unfolding buildable_def by blast

lemma spec_entry_sub [simp]: "en_sub (spec_entry s) = None"
  by (simp add: spec_entry_def)

lemma finish_build_ids: "finish_build tab (map leaf_entry es) = Inr r \<Longrightarrow>
   mset (snapshotState (ro_table r)) = mset (map en_id es)"
  by (auto simp: finish_build_Inr snapshotState_def leaf_entry_def comp_def image_mset.compositionality)

lemma collect_new_table:
  assumes "collect specs order PrefixPolicyNone [tab] = Inr (policy, tabs)"
  shows "tabs = [tab\<lparr>tb_routes := tb_routes tab @ map (\<lambda>i. spec_entry (spec_at specs i)) order\<rparr>]"
proof -
  have "\<forall>i \<in> set order. spec_policy specs i = PrefixPolicyNone \<or> spec_policy specs i = policy"
    using collect_sound [OF assms] by blast
  from collect_complete [OF this, of PrefixPolicyNone "[tab]"] show ?thesis
    using assms fold_add_entry [of "\<lambda>i. spec_entry (spec_at specs i)" order tab] by auto
qed

lemma build_snapshot_sound:
  assumes "buildRouteTableSnapshot order specs = Inr snap"
  shows "buildable order specs \<and> mset (ts_RouteIDs snap) = mset (map (\<lambda>i. sp_id (spec_at specs i)) order) \<and>
    (ts_Router snap = None \<longleftrightarrow> order = [])"
proof (cases "order = []")
  case True
  then show ?thesis using assms by (auto simp: buildRouteTableSnapshot_def emptyRouteTableSnapshot_def buildable_def)
next
  case False
  let ?tab = "\<lparr>tb_routes = [], tb_fallback = None, tb_longestPrefixWins = False\<rparr> :: ('a, 'b, 'c, 'd, 'e, 'f) route_table"
  obtain policy tabs where c: "collect specs order PrefixPolicyNone [?tab] = Inr (policy, tabs)"
    using assms False by (auto simp: buildRouteTableSnapshot_def NewRouteTable_def split: sum.splits)
  define tab where "tab = \<lparr>tb_routes = map (\<lambda>i. spec_entry (spec_at specs i)) order, tb_fallback = None,
    tb_longestPrefixWins = (policy = PrefixPolicyLongestPrefixWins)\<rparr>"
  have "tabs[0 := (tabs ! 0)\<lparr>tb_longestPrefixWins := (policy = PrefixPolicyLongestPrefixWins)\<rparr>] = [tab]"
    using collect_new_table [OF c] by (simp add: tab_def)
  then obtain r where r: "Build [tab] (Some 0) = Inr r" "ts_RouteIDs snap = snapshotState (ro_table r)" "ts_Router snap = Some r"
    using assms False c
    by (auto simp: buildRouteTableSnapshot_def NewRouteTable_def Let_def Snapshot_def split: sum.splits)
  have flat: "\<forall>e \<in> set (tb_routes tab). en_sub e = None" by (simp add: tab_def)
  have fin: "\<forall>e \<in> set (tb_routes tab). validateConfiguration e = None"
    "finish_build tab (map leaf_entry (tb_routes tab)) = Inr r"
    using r(1) unfolding Build_flat [OF flat] by blast+
  have "mset (ts_RouteIDs snap) = mset (map (\<lambda>i. sp_id (spec_at specs i)) order)"
    using finish_build_ids [OF fin(2)] r(2) by (simp add: tab_def spec_entry_def comp_def)
  moreover have "buildable order specs"
    using fin(1) collect_sound [OF c] unfolding buildable_def by (auto simp: tab_def)
  ultimately show ?thesis using r(3) False by simp
qed

lemma build_snapshot_complete:
  assumes "buildable order specs"
  shows "\<exists>snap. buildRouteTableSnapshot order specs = Inr snap"
proof (cases "order = []")
  case False
  let ?tab = "\<lparr>tb_routes = [], tb_fallback = None, tb_longestPrefixWins = False\<rparr> :: ('a, 'b, 'c, 'd, 'e, 'f) route_table"
  obtain policy tabs where c: "collect specs order PrefixPolicyNone [?tab] = Inr (policy, tabs)"
    using assms collect_complete [of order specs _ PrefixPolicyNone "[?tab]"] unfolding buildable_def by blast
  define tab where "tab = \<lparr>tb_routes = map (\<lambda>i. spec_entry (spec_at specs i)) order, tb_fallback = None,
    tb_longestPrefixWins = (policy = PrefixPolicyLongestPrefixWins)\<rparr>"
  have t: "tabs[0 := (tabs ! 0)\<lparr>tb_longestPrefixWins := (policy = PrefixPolicyLongestPrefixWins)\<rparr>] = [tab]"
    using collect_new_table [OF c] by (simp add: tab_def)
  have flat: "\<forall>e \<in> set (tb_routes tab). en_sub e = None" by (simp add: tab_def)
  have "\<exists>r. finish_build tab (map leaf_entry (tb_routes tab)) = Inr r"
    using False by (simp add: finish_build_def tab_def Let_def)
  then obtain r where "Build [tab] (Some 0) = Inr r"
    using assms unfolding Build_flat [OF flat] by (auto simp: buildable_def tab_def)
  then show ?thesis using c t False by (simp add: buildRouteTableSnapshot_def NewRouteTable_def Let_def)
qed (simp add: buildRouteTableSnapshot_def)

lemma collect_cong:
  "\<forall>i \<in> set is. specs i = specs' i \<Longrightarrow> collect specs is policy tabs = collect specs' is policy tabs"
  by (induction "is" arbitrary: policy tabs) (simp_all add: spec_at_def Let_def)

lemma build_snapshot_cong:
  "\<forall>i \<in> set order. specs i = specs' i \<Longrightarrow> buildRouteTableSnapshot order specs = buildRouteTableSnapshot order specs'"
  using collect_cong [of order specs specs' PrefixPolicyNone "snd (NewRouteTable [])"]
  by (simp add: buildRouteTableSnapshot_def NewRouteTable_def)


section \<open>The registry invariant\<close>

definition registry_inv :: "('h, 'x, 'req, 'k, 'r, 'p) registry \<Rightarrow> bool" where
  "registry_inv rg \<longleftrightarrow> distinct (rg_order rg) \<and> set (rg_order rg) = dom (rg_specs rg) \<and>
     (\<forall>i spec. rg_specs rg i = Some spec \<longrightarrow> sp_id spec = i \<and> NormalizeRouteID i = Inr i) \<and>
     buildRouteTableSnapshot (rg_order rg) (rg_specs rg) = Inr (rg_snapshot rg)"

inductive registry_step ::
  "(string \<Rightarrow> string) \<Rightarrow> ('h, 'x, 'req, 'k, 'r, 'p) registry \<Rightarrow> ('h, 'x, 'req, 'k, 'r, 'p) registry \<Rightarrow> bool" for quote where
  step_Register: "Register quote spec (Some rg) = (e, Some rg') \<Longrightarrow> registry_step quote rg rg'"
| step_Unregister: "Unregister i (Some rg) = (e, Some rg') \<Longrightarrow> registry_step quote rg rg'"

inductive_cases registry_stepE: "registry_step quote rg rg'"

lemma validateRouteSpec_Inr: "validateRouteSpec quote spec = Inr n \<longleftrightarrow>
   NormalizeRouteID (sp_id spec) = Inr n \<and> sp_handler spec \<noteq> None \<and> mt_match (sp_matcher spec) \<noteq> None \<and>
   sp_prefixPolicy spec \<in> {PrefixPolicyNone, PrefixPolicyPriority, PrefixPolicyLongestPrefixWins}"
  by (auto simp: validateRouteSpec_def split: sum.splits if_splits)

lemma Register_ok:
  "Register quote spec (Some rg) = (None, rg') \<longleftrightarrow>
     (\<exists>n snap. validateRouteSpec quote spec = Inr n \<and> rg_specs rg n = None \<and>
        buildRouteTableSnapshot (rg_order rg @ [n]) ((rg_specs rg)(n \<mapsto> spec\<lparr>sp_id := n\<rparr>)) = Inr snap \<and>
        rg' = Some (rg\<lparr>rg_specs := (rg_specs rg)(n \<mapsto> spec\<lparr>sp_id := n\<rparr>), rg_order := rg_order rg @ [n], rg_snapshot := snap\<rparr>))"
  by (auto simp: Register_def Let_def split: sum.splits if_splits)

lemma Register_fails: "Register quote spec (Some rg) = (Some e, rg') \<Longrightarrow> rg' = Some rg"
  by (auto simp: Register_def Let_def split: sum.splits if_splits)

lemma Unregister_ok:
  "Unregister i (Some rg) = (None, rg') \<longleftrightarrow>
     (\<exists>n snap. NormalizeRouteID i = Inr n \<and> rg_specs rg n \<noteq> None \<and>
        buildRouteTableSnapshot (filter (\<lambda>r. r \<noteq> n) (rg_order rg)) ((rg_specs rg)(n := None)) = Inr snap \<and>
        rg' = Some (rg\<lparr>rg_specs := (rg_specs rg)(n := None), rg_order := filter (\<lambda>r. r \<noteq> n) (rg_order rg), rg_snapshot := snap\<rparr>))"
  by (auto simp: Unregister_def Let_def split: sum.splits if_splits)

lemma Unregister_fails: "Unregister i (Some rg) = (Some e, rg') \<Longrightarrow> rg' = Some rg"
  by (auto simp: Unregister_def Let_def split: sum.splits if_splits)

lemma NormalizeRouteID_twice: "NormalizeRouteID i = Inr n \<Longrightarrow> NormalizeRouteID n = Inr n"
  by (auto simp: NormalizeRouteID_Inr)

lemma Register_inv:
  assumes "registry_inv rg" "Register quote spec (Some rg) = (e, Some rg')"
  shows "registry_inv rg'"
proof (cases e)
  case None
  with assms(2) have "Register quote spec (Some rg) = (None, Some rg')" by simp
  then obtain n snap where n: "validateRouteSpec quote spec = Inr n" "rg_specs rg n = None"
    and b: "buildRouteTableSnapshot (rg_order rg @ [n]) ((rg_specs rg)(n \<mapsto> spec\<lparr>sp_id := n\<rparr>)) = Inr snap"
    and rg': "rg' = rg\<lparr>rg_specs := (rg_specs rg)(n \<mapsto> spec\<lparr>sp_id := n\<rparr>), rg_order := rg_order rg @ [n], rg_snapshot := snap\<rparr>"
    unfolding Register_ok by blast
  have "n \<notin> set (rg_order rg)" using assms(1) n(2) unfolding registry_inv_def by blast
  moreover have "NormalizeRouteID n = Inr n" using n(1) NormalizeRouteID_twice unfolding validateRouteSpec_Inr by blast
  ultimately show ?thesis using assms(1) b unfolding rg' registry_inv_def by simp
next
  case (Some x)
  then show ?thesis using assms Register_fails by blast
qed

lemma Unregister_inv:
  assumes "registry_inv rg" "Unregister i (Some rg) = (e, Some rg')"
  shows "registry_inv rg'"
proof (cases e)
  case None
  with assms(2) have "Unregister i (Some rg) = (None, Some rg')" by simp
  then obtain n snap where n: "NormalizeRouteID i = Inr n" "rg_specs rg n \<noteq> None"
    and b: "buildRouteTableSnapshot (filter (\<lambda>r. r \<noteq> n) (rg_order rg)) ((rg_specs rg)(n := None)) = Inr snap"
    and rg': "rg' = rg\<lparr>rg_specs := (rg_specs rg)(n := None), rg_order := filter (\<lambda>r. r \<noteq> n) (rg_order rg), rg_snapshot := snap\<rparr>"
    unfolding Unregister_ok by blast
  have "set (filter (\<lambda>r. r \<noteq> n) (rg_order rg)) = dom ((rg_specs rg)(n := None))"
    using assms(1) unfolding registry_inv_def by auto
  then show ?thesis using assms(1) b unfolding rg' registry_inv_def by simp
next
  case (Some x)
  then show ?thesis using assms Unregister_fails by blast
qed

lemma NewRouteRegistry_inv: "registry_inv NewRouteRegistry"
  by (simp add: registry_inv_def NewRouteRegistry_def buildRouteTableSnapshot_def)

interpretation registries: invariant_system "\<lambda>rg. rg = NewRouteRegistry" "registry_step quote" registry_inv
proof
  show "rg = NewRouteRegistry \<Longrightarrow> registry_inv rg" for rg :: "('h, 'x, 'req, 'k, 'r, 'p) registry"
    by (simp add: NewRouteRegistry_inv)
  show "registry_inv rg \<Longrightarrow> registry_step quote rg rg' \<Longrightarrow> registry_inv rg'" for rg rg' :: "('h, 'x, 'req, 'k, 'r, 'p) registry"
    by (elim registry_stepE) (blast intro: Register_inv Unregister_inv)+
qed

lemma reachable_registry_inv: "reaches (registry_step quote) NewRouteRegistry rg \<Longrightarrow> registry_inv rg"
  by (rule registries.reachable_inv) simp_all

lemma registry_buildable: "registry_inv rg \<Longrightarrow> buildable (rg_order rg) (rg_specs rg)"
  using build_snapshot_sound unfolding registry_inv_def by blast

lemma spec_at_registered: "registry_inv rg \<Longrightarrow> i \<in> set (rg_order rg) \<Longrightarrow> sp_id (spec_at (rg_specs rg) i) = i"
  unfolding registry_inv_def spec_at_def by (auto split: option.splits)

text \<open>Taking a route away never makes the rest unbuildable.\<close>

lemma Unregister_total:
  assumes "registry_inv rg" "NormalizeRouteID i = Inr n" "n \<in> set (rg_order rg)"
  shows "\<exists>snap. buildRouteTableSnapshot (filter (\<lambda>r. r \<noteq> n) (rg_order rg)) ((rg_specs rg)(n := None)) = Inr snap"
proof -
  have "buildable (filter (\<lambda>r. r \<noteq> n) (rg_order rg)) (rg_specs rg)"
    using registry_buildable [OF assms(1)] by (rule buildable_subset) auto
  then obtain snap where "buildRouteTableSnapshot (filter (\<lambda>r. r \<noteq> n) (rg_order rg)) (rg_specs rg) = Inr snap"
    using build_snapshot_complete by blast
  moreover have "buildRouteTableSnapshot (filter (\<lambda>r. r \<noteq> n) (rg_order rg)) ((rg_specs rg)(n := None)) =
    buildRouteTableSnapshot (filter (\<lambda>r. r \<noteq> n) (rg_order rg)) (rg_specs rg)"
    by (rule build_snapshot_cong) simp
  ultimately show ?thesis by metis
qed


lemma buildable_snoc:
  "buildable (order @ [n]) specs \<longleftrightarrow> buildable order specs \<and> validateConfiguration (spec_entry (spec_at specs n)) = None \<and>
     (spec_policy specs n = PrefixPolicyNone \<or>
      (\<forall>i \<in> set order. spec_policy specs i = PrefixPolicyNone \<or> spec_policy specs i = spec_policy specs n))"
proof -
  have "(\<exists>q. (\<forall>i \<in> set order. P i = z \<or> P i = q) \<and> (P n = z \<or> P n = q)) \<longleftrightarrow>
    (\<exists>q. \<forall>i \<in> set order. P i = z \<or> P i = q) \<and> (P n = z \<or> (\<forall>i \<in> set order. P i = z \<or> P i = P n))"
    for P :: "string \<Rightarrow> string" and z
    by (cases "P n = z") auto
  then show ?thesis unfolding buildable_def by auto
qed

lemma buildable_cong: "\<forall>i \<in> set order. specs i = specs' i \<Longrightarrow> buildable order specs = buildable order specs'"
  unfolding buildable_def spec_policy_def spec_at_def by simp

text \<open>\<open>acceptable rg spec n\<close>: what \<open>Register\<close> asks of a spec whose id normalizes to \<open>n\<close>.\<close>

definition acceptable ::
  "('h, 'x, 'req, 'k, 'r, 'p) registry \<Rightarrow> ('h, 'x, 'req, 'k, 'r, 'p) route_spec \<Rightarrow> string \<Rightarrow> bool" where
  "acceptable rg spec n \<longleftrightarrow> n \<notin> set (rg_order rg) \<and> sp_handler spec \<noteq> None \<and> mt_match (sp_matcher spec) \<noteq> None \<and>
     mt_configErr (sp_matcher spec) = None \<and>
     sp_prefixPolicy spec \<in> {PrefixPolicyNone, PrefixPolicyPriority, PrefixPolicyLongestPrefixWins} \<and>
     (sp_prefixPolicy spec = PrefixPolicyNone \<or>
      (\<forall>i \<in> set (rg_order rg). spec_policy (rg_specs rg) i = PrefixPolicyNone \<or>
         spec_policy (rg_specs rg) i = sp_prefixPolicy spec))"

lemma acceptable_buildable:
  assumes "registry_inv rg" "n \<notin> set (rg_order rg)" "sp_handler spec \<noteq> None" "mt_match (sp_matcher spec) \<noteq> None"
  shows "buildable (rg_order rg @ [n]) ((rg_specs rg)(n \<mapsto> spec\<lparr>sp_id := n\<rparr>)) \<longleftrightarrow>
    mt_configErr (sp_matcher spec) = None \<and> (sp_prefixPolicy spec = PrefixPolicyNone \<or>
      (\<forall>i \<in> set (rg_order rg). spec_policy (rg_specs rg) i = PrefixPolicyNone \<or>
         spec_policy (rg_specs rg) i = sp_prefixPolicy spec))"
proof -
  let ?specs = "(rg_specs rg)(n \<mapsto> spec\<lparr>sp_id := n\<rparr>)"
  have "buildable (rg_order rg) ?specs"
    using registry_buildable [OF assms(1)] buildable_cong [of "rg_order rg" ?specs "rg_specs rg"] assms(2) by fastforce
  moreover have "spec_policy ?specs i = spec_policy (rg_specs rg) i" if "i \<in> set (rg_order rg)" for i
    using that assms(2) by (auto simp: spec_policy_def spec_at_def)
  moreover have "spec_policy ?specs n = sp_prefixPolicy spec" by (simp add: spec_policy_def spec_at_def)
  moreover have "validateConfiguration (spec_entry (spec_at ?specs n)) = None \<longleftrightarrow> mt_configErr (sp_matcher spec) = None"
    using assms(3,4) by (auto simp: validateConfiguration_def spec_entry_def spec_at_def)
  ultimately show ?thesis unfolding buildable_snoc by (metis (no_types))
qed

lemma Register_succeeds:
  assumes "registry_inv rg"
  shows "fst (Register quote spec (Some rg)) = None \<longleftrightarrow>
     (\<exists>n. NormalizeRouteID (sp_id spec) = Inr n \<and> acceptable rg spec n)"
proof -
  have "fst (Register quote spec (Some rg)) = None \<longleftrightarrow> (\<exists>rg'. Register quote spec (Some rg) = (None, rg'))"
    by (metis prod.collapse fst_conv)
  also have "\<dots> \<longleftrightarrow> (\<exists>n. validateRouteSpec quote spec = Inr n \<and> rg_specs rg n = None \<and>
      buildable (rg_order rg @ [n]) ((rg_specs rg)(n \<mapsto> spec\<lparr>sp_id := n\<rparr>)))"
    unfolding Register_ok using build_snapshot_sound build_snapshot_complete by blast
  also have "\<dots> \<longleftrightarrow> (\<exists>n. NormalizeRouteID (sp_id spec) = Inr n \<and> acceptable rg spec n)"
  proof (intro ex_cong1)
    fix n
    have "rg_specs rg n = None \<longleftrightarrow> n \<notin> set (rg_order rg)" using assms unfolding registry_inv_def by blast
    then show "validateRouteSpec quote spec = Inr n \<and> rg_specs rg n = None \<and>
        buildable (rg_order rg @ [n]) ((rg_specs rg)(n \<mapsto> spec\<lparr>sp_id := n\<rparr>)) \<longleftrightarrow>
      NormalizeRouteID (sp_id spec) = Inr n \<and> acceptable rg spec n"
      unfolding validateRouteSpec_Inr acceptable_def using acceptable_buildable [OF assms, of n spec] by blast
  qed
  finally show ?thesis .
qed

lemma Register_then_Unregister:
  assumes "registry_inv rg" "Register quote spec (Some rg) = (None, rg')"
  shows "Unregister (sp_id spec) rg' = (None, Some rg)"
proof -
  obtain n snap where n: "validateRouteSpec quote spec = Inr n" "rg_specs rg n = None"
    and rg': "rg' = Some (rg\<lparr>rg_specs := (rg_specs rg)(n \<mapsto> spec\<lparr>sp_id := n\<rparr>), rg_order := rg_order rg @ [n], rg_snapshot := snap\<rparr>)"
    using assms(2) unfolding Register_ok by blast
  have fresh: "n \<notin> set (rg_order rg)" using assms(1) n(2) unfolding registry_inv_def by blast
  then have "filter (\<lambda>r. r \<noteq> n) (rg_order rg @ [n]) = rg_order rg" by (auto simp: filter_id_conv)
  moreover have "(rg_specs rg)(n := None) = rg_specs rg" using n(2) by (simp add: fun_upd_idem)
  moreover have "buildRouteTableSnapshot (rg_order rg) (rg_specs rg) = Inr (rg_snapshot rg)"
    using assms(1) unfolding registry_inv_def by blast
  ultimately show ?thesis
    using n unfolding rg' validateRouteSpec_Inr by (simp add: Unregister_def Let_def)
qed

section \<open>Properties\<close>

text \<open>
  C4 (invariant). In every registry reachable by registering and unregistering, the registration order lists exactly the
  registered ids, each once and normalized; the published snapshot is the one built from the current routes, it lists
  the registered ids, and it has a router unless the registry is empty.
\<close>

theorem registry_reachable_invariant:
  assumes "reaches (registry_step quote) NewRouteRegistry rg"
  shows "distinct (rg_order rg) \<and> set (rg_order rg) = dom (rg_specs rg) \<and>
    (\<forall>i spec. rg_specs rg i = Some spec \<longrightarrow> sp_id spec = i \<and> NormalizeRouteID i = Inr i) \<and>
    buildRouteTableSnapshot (rg_order rg) (rg_specs rg) = Inr (Registry_Snapshot (Some rg)) \<and>
    mset (ts_RouteIDs (Registry_Snapshot (Some rg))) = mset (rg_order rg) \<and>
    (ts_Router (Registry_Snapshot (Some rg)) = None \<longleftrightarrow> rg_order rg = [])"
proof -
  have inv: "registry_inv rg" using reachable_registry_inv [OF assms] .
  have snap: "Registry_Snapshot (Some rg) = rg_snapshot rg"
    by (simp add: Registry_Snapshot_def cloneRouteTableSnapshot_def)
  have b: "buildRouteTableSnapshot (rg_order rg) (rg_specs rg) = Inr (rg_snapshot rg)"
    using inv unfolding registry_inv_def by blast
  have "map (\<lambda>i. sp_id (spec_at (rg_specs rg) i)) (rg_order rg) = rg_order rg"
    using spec_at_registered [OF inv] by (simp add: map_idI)
  then show ?thesis using build_snapshot_sound [OF b] b inv unfolding snap registry_inv_def by simp
qed

text \<open>
  C5 (error). Registration is all or nothing: in a reachable registry \<open>Register\<close> succeeds exactly for a spec whose id is
  not blank and not yet registered, with a handler, a usable matcher, no configuration error, and a known prefix policy
  that no registered route contradicts; in every other case it reports an error and leaves routes, order and snapshot
  as they were. \<open>Unregister\<close> succeeds exactly for a registered id and otherwise changes nothing.
\<close>

theorem registration_is_all_or_nothing:
  assumes "reaches (registry_step quote) NewRouteRegistry rg"
  shows "(case Register quote spec (Some rg) of
      (None, _) \<Rightarrow> \<exists>n. NormalizeRouteID (sp_id spec) = Inr n \<and> acceptable rg spec n
    | (Some _, rg') \<Rightarrow> rg' = Some rg \<and> \<not> (\<exists>n. NormalizeRouteID (sp_id spec) = Inr n \<and> acceptable rg spec n)) \<and>
   (case Unregister i (Some rg) of
      (None, _) \<Rightarrow> TrimSpace i \<in> set (rg_order rg)
    | (Some _, rg') \<Rightarrow> rg' = Some rg \<and> TrimSpace i \<notin> set (rg_order rg))"
proof
  have inv: "registry_inv rg" using reachable_registry_inv [OF assms] .
  obtain e rg' where r: "Register quote spec (Some rg) = (e, rg')" by fastforce
  then show "case Register quote spec (Some rg) of
      (None, _) \<Rightarrow> \<exists>n. NormalizeRouteID (sp_id spec) = Inr n \<and> acceptable rg spec n
    | (Some _, rg') \<Rightarrow> rg' = Some rg \<and> \<not> (\<exists>n. NormalizeRouteID (sp_id spec) = Inr n \<and> acceptable rg spec n)"
    using Register_succeeds [OF inv, of quote spec] Register_fails [of quote spec rg _ rg'] by (cases e) auto
  obtain e rg' where u: "Unregister i (Some rg) = (e, rg')" by fastforce
  have ids: "TrimSpace i \<in> set (rg_order rg) \<longleftrightarrow> (\<exists>n. NormalizeRouteID i = Inr n \<and> rg_specs rg n \<noteq> None)"
  proof -
    have d: "set (rg_order rg) = dom (rg_specs rg)"
      and n: "\<And>j spec. rg_specs rg j = Some spec \<Longrightarrow> NormalizeRouteID j = Inr j"
      using inv unfolding registry_inv_def by blast+
    have "TrimSpace i \<noteq> ''''" if "rg_specs rg (TrimSpace i) = Some sp" for sp
      using n [OF that] by (simp add: NormalizeRouteID_Inr)
    then show ?thesis unfolding d NormalizeRouteID_Inr by blast
  qed
  show "case Unregister i (Some rg) of
      (None, _) \<Rightarrow> TrimSpace i \<in> set (rg_order rg)
    | (Some _, rg') \<Rightarrow> rg' = Some rg \<and> TrimSpace i \<notin> set (rg_order rg)"
  proof (cases e)
    case None
    then have "Unregister i (Some rg) = (None, rg')" using u by simp
    then show ?thesis using None u ids unfolding Unregister_ok by auto
  next
    case (Some x)
    have "TrimSpace i \<notin> set (rg_order rg)"
    proof
      assume "TrimSpace i \<in> set (rg_order rg)"
      then obtain n where n: "NormalizeRouteID i = Inr n" "rg_specs rg n \<noteq> None" using ids by blast
      then have "n \<in> set (rg_order rg)" using inv unfolding registry_inv_def by blast
      then have "\<exists>rg''. Unregister i (Some rg) = (None, rg'')"
        unfolding Unregister_ok using Unregister_total [OF inv n(1)] n by blast
      then show False using u Some by simp
    qed
    then show ?thesis using u Some Unregister_fails [of i rg x rg'] by simp
  qed
qed

text \<open>
  Unregistering what was just registered brings a reachable registry back exactly: routes, order and
  published snapshot.
\<close>

theorem register_unregister_roundtrip:
  assumes "reaches (registry_step quote) NewRouteRegistry rg" "Register quote spec (Some rg) = (None, rg')"
  shows "Unregister (sp_id spec) rg' = (None, Some rg)"
  using Register_then_Unregister [OF reachable_registry_inv [OF assms(1)] assms(2)] .


definition example_spec :: "string \<Rightarrow> (nat, unit, nat, nat, nat, nat) route_spec" where
  "example_spec i = NewRouteSpec i 1 None (Some (\<lambda>_. ret (Handled 1 0 7, None)))"

lemma TrimSpace_a: "TrimSpace ''a'' = ''a''"
  by code_simp

lemma TrimSpace_blank: "TrimSpace '' '' = ''''"
  by code_simp

lemma example_registration:
  "\<exists>rg. Register id (example_spec ''a'') (Some NewRouteRegistry) = (None, Some rg) \<and> rg_order rg = [''a'']"
proof -
  have v: "validateRouteSpec id (example_spec ''a'') = Inr ''a''"
    by (simp add: validateRouteSpec_Inr NormalizeRouteID_Inr TrimSpace_a example_spec_def NewRouteSpec_def predicateMatcher_def)
  have "acceptable NewRouteRegistry (example_spec ''a'') ''a''"
    by (simp add: acceptable_def NewRouteRegistry_def example_spec_def NewRouteSpec_def predicateMatcher_def)
  then have "fst (Register id (example_spec ''a'') (Some NewRouteRegistry)) = None"
    using Register_succeeds [OF NewRouteRegistry_inv] v unfolding validateRouteSpec_Inr by blast
  then obtain rg' where r: "Register id (example_spec ''a'') (Some NewRouteRegistry) = (None, rg')"
    by (metis prod.collapse)
  from r v show ?thesis unfolding Register_ok by (auto simp: NewRouteRegistry_def)
qed

theorem registry_reachable_invariant_witness:
  "\<exists>rg. reaches (registry_step id) NewRouteRegistry (rg :: (nat, unit, nat, nat, nat, nat) registry) \<and> rg_order rg = [''a'']
     \<and> ts_RouteIDs (Registry_Snapshot (Some rg)) = [''a''] \<and> ts_Router (Registry_Snapshot (Some rg)) \<noteq> None"
proof -
  obtain rg :: "(nat, unit, nat, nat, nat, nat) registry"
    where rg: "Register id (example_spec ''a'') (Some NewRouteRegistry) = (None, Some rg)" "rg_order rg = [''a'']"
    using example_registration by blast
  have r: "reaches (registry_step id) NewRouteRegistry rg"
    using step_Register [OF rg(1)] reaches_refl by (rule reaches_step [rotated])
  from registry_reachable_invariant [OF r] have "mset (ts_RouteIDs (Registry_Snapshot (Some rg))) = mset [''a'']"
    "ts_Router (Registry_Snapshot (Some rg)) \<noteq> None" using rg(2) by simp_all
  then show ?thesis using r rg(2) by (intro exI [of _ rg]) simp
qed

theorem registration_is_all_or_nothing_witness:
  "Register id (example_spec '' '') (Some NewRouteRegistry) =
     (fst (Register id (example_spec '' '') (Some NewRouteRegistry)), Some NewRouteRegistry)"
proof -
  have "NormalizeRouteID '' '' = Inl (Wrapf ErrInvalidRouteID ''empty route id'')"
    by (simp add: NormalizeRouteID_def TrimSpace_blank)
  then have "\<not> (\<exists>n. NormalizeRouteID (sp_id (example_spec '' '')) = Inr n \<and> acceptable NewRouteRegistry (example_spec '' '') n)"
    by (simp add: example_spec_def NewRouteSpec_def)
  then show ?thesis
    using registration_is_all_or_nothing [OF reaches_refl [of "registry_step id"], of "example_spec '' ''" "''''"]
    by (cases "Register id (example_spec '' '') (Some NewRouteRegistry)") (simp split: option.splits)
qed

theorem register_unregister_roundtrip_witness:
  "\<exists>rg'. Register id (example_spec ''a'') (Some NewRouteRegistry) = (None, rg') \<and>
     Unregister ''a'' rg' = (None, Some NewRouteRegistry)"
proof -
  obtain rg where rg: "Register id (example_spec ''a'') (Some NewRouteRegistry) = (None, Some rg)"
    using example_registration by blast
  have "sp_id (example_spec ''a'') = ''a''" by (simp add: example_spec_def NewRouteSpec_def)
  then show ?thesis using rg register_unregister_roundtrip [OF reaches_refl rg] by (metis (no_types))
qed

end
