(* ===== verification/Binding.thy ===== *)
theory Binding
  imports Router
begin

text \<open>
  \<open>binding.go\<close>: route bindings and the freshness of their snapshots. A caller's freshness policy is an interface value,
  nil or a procedure.
\<close>

record binding_snapshot =
  bs_Match :: route_match
  bs_InputFingerprint :: string
  bs_Revision :: string
  bs_DecisionReason :: gval
  bs_HasDecisionReason :: bool

record ('b, 'v) route_binding =
  rb_Branch :: 'b
  rb_Binding :: 'v
  rb_Snapshot :: "binding_snapshot route_snapshot"

text \<open>\<open>%T:%v\<close> of a value.\<close>

definition type_and_value :: "golib \<Rightarrow> gval \<Rightarrow> string" where
  "type_and_value lib v = (case type_of v of None \<Rightarrow> ''<nil>'' | Some t \<Rightarrow> t) @ '':'' @ gl_Sprint lib v"

definition path_parts :: "string list \<Rightarrow> string list" where
  "path_parts ids = Itoa (int (length ids)) # ids"

definition binding_parts :: "golib \<Rightarrow> binding_snapshot \<Rightarrow> string list" where
  "binding_parts lib snapshot =
     (let m = bs_Match snapshot in
      [rm_RouteID m, FingerprintSHA256 (path_parts (rm_Path m)), Itoa (rm_Priority m), Itoa (rm_Depth m), rm_Kind m,
       rm_Key m, rm_Prefix m, rm_Remainder m, bs_InputFingerprint snapshot, bs_Revision snapshot,
       FormatBool (bs_HasDecisionReason snapshot), type_and_value lib (bs_DecisionReason snapshot)])"

definition fingerprintBindingSnapshot :: "golib \<Rightarrow> binding_snapshot \<Rightarrow> string" where
  "fingerprintBindingSnapshot lib snapshot = FingerprintSHA256 (binding_parts lib snapshot)"

definition NewRouteBinding ::
  "golib \<Rightarrow> 'b \<Rightarrow> 'v \<Rightarrow> route_match \<Rightarrow> string \<Rightarrow> string \<Rightarrow> ('b, 'v) route_binding" where
  "NewRouteBinding lib branch binding match inputFingerprint revision =
     (let state = \<lparr>bs_Match = cloneRouteMatch match, bs_InputFingerprint = inputFingerprint, bs_Revision = revision,
                   bs_DecisionReason = rm_DecisionReason match, bs_HasDecisionReason = rm_HasDecisionReason match\<rparr> in
      \<lparr>rb_Branch = branch, rb_Binding = binding,
       rb_Snapshot = \<lparr>sn_Fingerprint = fingerprintBindingSnapshot lib state, sn_State = state\<rparr>\<rparr>)"

definition HandledBinding ::
  "'k \<Rightarrow> 'r \<Rightarrow> ('b, 'v) route_binding \<Rightarrow> ('k, 'r, ('b, 'v) route_binding) route_result" where
  "HandledBinding kind reason binding = Handled kind reason binding"

type_synonym ('w, 's, 'c) freshness_policy = "('s route_snapshot \<Rightarrow> 'c \<Rightarrow> ('w, err) proc) option"

text \<open>The method of \<open>SnapshotFreshnessPolicyFunc\<close>.\<close>

definition ValidateSnapshot :: "('w, 's, 'c) freshness_policy \<Rightarrow> 's route_snapshot \<Rightarrow> 'c \<Rightarrow> ('w, err) proc" where
  "ValidateSnapshot fn snapshot current =
     (case fn of
        None \<Rightarrow> ret (Some (configError ''snapshot freshness policy is nil''))
      | Some f \<Rightarrow> f snapshot current)"

definition ValidateSnapshotFreshness ::
  "'s route_snapshot \<Rightarrow> 'c \<Rightarrow> ('w, 's, 'c) freshness_policy \<Rightarrow> ('w, err) proc" where
  "ValidateSnapshotFreshness snapshot current policy =
     (case policy of
        None \<Rightarrow> ret (Some (configError ''snapshot freshness policy is nil''))
      | Some validate \<Rightarrow> validate snapshot current)"

section \<open>What a binding's fingerprint determines\<close>

text \<open>Lengths a Go program can have.\<close>

definition small :: "golib \<Rightarrow> binding_snapshot \<Rightarrow> bool" where
  "small lib s \<longleftrightarrow> list_all (\<lambda>p. length p < 2 ^ 64) (binding_parts lib s) \<and>
     list_all (\<lambda>p. length p < 2 ^ 64) (path_parts (rm_Path (bs_Match s)))"

lemma binding_fingerprint_eqD:
  assumes "fingerprintBindingSnapshot lib s = fingerprintBindingSnapshot lib t" "small lib s" "small lib t"
    and nc: "\<not> sha256_collision (frames (binding_parts lib s)) (frames (binding_parts lib t))"
      "\<not> sha256_collision (frames (path_parts (rm_Path (bs_Match s)))) (frames (path_parts (rm_Path (bs_Match t))))"
  shows "(bs_Match s)\<lparr>rm_DecisionReason := VNil, rm_HasDecisionReason := False\<rparr> =
      (bs_Match t)\<lparr>rm_DecisionReason := VNil, rm_HasDecisionReason := False\<rparr> \<and>
    bs_InputFingerprint s = bs_InputFingerprint t \<and> bs_Revision s = bs_Revision t \<and>
    bs_HasDecisionReason s = bs_HasDecisionReason t \<and>
    type_and_value lib (bs_DecisionReason s) = type_and_value lib (bs_DecisionReason t)"
proof -
  have parts: "binding_parts lib s = binding_parts lib t"
    using assms fingerprint_eqD [of "binding_parts lib s" "binding_parts lib t"]
    unfolding fingerprintBindingSnapshot_def small_def by blast
  then have "FingerprintSHA256 (path_parts (rm_Path (bs_Match s))) = FingerprintSHA256 (path_parts (rm_Path (bs_Match t)))"
    by (simp add: binding_parts_def Let_def)
  then have "path_parts (rm_Path (bs_Match s)) = path_parts (rm_Path (bs_Match t))"
    using assms(2,3) nc(2) fingerprint_eqD unfolding small_def by blast
  then have "rm_Path (bs_Match s) = rm_Path (bs_Match t)" by (simp add: path_parts_def)
  then show ?thesis using parts
    by (cases "bs_Match s"; cases "bs_Match t") (auto simp: binding_parts_def Let_def dest: Itoa_inj FormatBool_inj)
qed

end
