(* ===== verification/Projection.thy ===== *)
theory Projection
  imports Router
begin

text \<open>
  \<open>projection.go\<close>: projecting dispatch results into values of the caller, and mapping errors. Projectors, error policies
  and routers are interface values, \<open>None\<close> when nil and otherwise their method. \<open>TypeOf\<close> stands for what \<open>reflect\<close> says
  about a payload: \<open>None\<close> for nil, else the text of its type. The zero value of the projection type is \<open>0\<close>.
\<close>

record payload_meta =
  py_HasPayload :: bool
  py_Type :: string

record ('k, 'r) projection_meta =
  pm_Action :: route_action
  pm_Kind :: 'k
  pm_Reason :: 'r
  pm_Match :: route_match
  pm_Payload :: payload_meta
  pm_Lifetime :: "nat option"

datatype error_stage = ErrorStageDispatch | ErrorStageProjection | ErrorStageSystem

record ('k, 'r, 'p) route_error =
  er_Stage :: error_stage
  er_Err :: gerror
  er_Result :: "('k, 'r, 'p) route_result"
  er_Match :: route_match

type_synonym ('w, 'k, 'r, 'p, 'j) projector =
  "(('k, 'r, 'p) route_result \<Rightarrow> ('w, 'j \<times> ('k, 'r) projection_meta \<times> err) proc) option"
type_synonym ('w, 'k, 'r, 'p, 'j) error_policy = "(('k, 'r, 'p) route_error \<Rightarrow> ('w, 'j \<times> err) proc) option"

definition payloadType :: "('p \<Rightarrow> string option) \<Rightarrow> 'p \<Rightarrow> bool \<Rightarrow> string" where
  "payloadType TypeOf payload hasPayload =
     (if \<not> hasPayload then '''' else case TypeOf payload of None \<Rightarrow> ''<nil>'' | Some t \<Rightarrow> t)"

definition DefaultProjectionMeta ::
  "('p \<Rightarrow> string option) \<Rightarrow> ('k, 'r, 'p) route_result \<Rightarrow> ('k, 'r) projection_meta" where
  "DefaultProjectionMeta TypeOf result = \<lparr>pm_Action = res_Action result, pm_Kind = res_Kind result,
     pm_Reason = res_Reason result, pm_Match = res_Match result,
     pm_Payload = \<lparr>py_HasPayload = res_HasPayload result,
       py_Type = payloadType TypeOf (res_Payload result) (res_HasPayload result)\<rparr>,
     pm_Lifetime = res_Lifetime result\<rparr>"

text \<open>The methods of the adapters \<open>OutcomeProjectorFunc\<close> and \<open>ErrorPolicyFunc\<close>, whose function may be nil.\<close>

definition Project ::
  "('p \<Rightarrow> string option) \<Rightarrow> ('w, 'k, 'r, 'p, 'j :: zero) projector \<Rightarrow> ('k, 'r, 'p) route_result \<Rightarrow>
   ('w, 'j \<times> ('k, 'r) projection_meta \<times> err) proc" where
  "Project TypeOf fn result =
     (case fn of
        None \<Rightarrow> ret (0, DefaultProjectionMeta TypeOf result, Some (configError ''outcome projector is nil''))
      | Some f \<Rightarrow> f result)"

definition HandleRouteError ::
  "('w, 'k, 'r, 'p, 'j :: zero) error_policy \<Rightarrow> ('k, 'r, 'p) route_error \<Rightarrow> ('w, 'j \<times> err) proc" where
  "HandleRouteError fn routeErr =
     (case fn of
        None \<Rightarrow> ret (0, Some (configError ''error policy is nil''))
      | Some f \<Rightarrow> f routeErr)"

definition ProjectRouteResult ::
  "('p \<Rightarrow> string option) \<Rightarrow> ('k, 'r, 'p) route_result \<Rightarrow> ('w, 'k, 'r, 'p, 'j :: zero) projector \<Rightarrow>
   ('w, 'j \<times> ('k, 'r) projection_meta \<times> err) proc" where
  "ProjectRouteResult TypeOf result projector =
     (case projector of
        None \<Rightarrow> ret (0, DefaultProjectionMeta TypeOf result, Some (configError ''outcome projector is nil''))
      | Some project \<Rightarrow> seq (project result) (\<lambda>(projection, meta, e).
          ret (projection, meta\<lparr>pm_Lifetime := res_Lifetime result\<rparr>, e)))"

definition handleProjectionError ::
  "('p \<Rightarrow> string option) \<Rightarrow> ('k, 'r, 'p) route_error \<Rightarrow> ('w, 'k, 'r, 'p, 'j :: zero) error_policy \<Rightarrow>
   ('w, 'j \<times> ('k, 'r) projection_meta \<times> err) proc" where
  "handleProjectionError TypeOf routeErr policy =
     (let meta = DefaultProjectionMeta TypeOf (er_Result routeErr) in
      case policy of
        None \<Rightarrow> ret (0, meta, Some (er_Err routeErr))
      | Some handle \<Rightarrow> seq (handle routeErr) (\<lambda>(mapped, e). ret (mapped, meta, e)))"

definition zeroRouteError :: "error_stage \<Rightarrow> gerror \<Rightarrow> ('k :: zero, 'r :: zero, 'p :: zero) route_error" where
  "zeroRouteError stage e =
     (let result = AbortResult in \<lparr>er_Stage = stage, er_Err = e, er_Result = result, er_Match = res_Match result\<rparr>)"

definition DispatchAndProject ::
  "('p \<Rightarrow> string option) \<Rightarrow> ctx option \<Rightarrow>
   (ctx option \<Rightarrow> 'req \<Rightarrow> ('w, ('k :: zero, 'r :: zero, 'p :: zero) route_result \<times> err) proc) option \<Rightarrow> 'req \<Rightarrow>
   ('w, 'k, 'r, 'p, 'j :: zero) projector \<Rightarrow> ('w, 'k, 'r, 'p, 'j) error_policy \<Rightarrow>
   ('w, 'j \<times> ('k, 'r) projection_meta \<times> err) proc" where
  "DispatchAndProject TypeOf ctx router req projector policy =
     (case router of
        None \<Rightarrow> handleProjectionError TypeOf (zeroRouteError ErrorStageSystem (configError ''router is nil'')) policy
      | Some dispatch \<Rightarrow> seq (dispatch ctx req) (\<lambda>(result, dispatchErr). case dispatchErr of
          Some x \<Rightarrow> handleProjectionError TypeOf
            \<lparr>er_Stage = ErrorStageDispatch, er_Err = x, er_Result = result, er_Match = res_Match result\<rparr> policy
        | None \<Rightarrow> seq (ProjectRouteResult TypeOf result projector) (\<lambda>(projection, meta, projectErr). case projectErr of
            Some x \<Rightarrow>
              (case policy of
                 None \<Rightarrow> ret (0, meta, Some x)
               | Some handle \<Rightarrow> seq (handle \<lparr>er_Stage = ErrorStageProjection, er_Err = x, er_Result = result,
                   er_Match = res_Match result\<rparr>) (\<lambda>(mapped, e). ret (mapped, meta, e)))
          | None \<Rightarrow> ret (projection, meta, None))))"

section \<open>The owner of the result survives projection\<close>

lemma ProjectRouteResult_owner:
  "returns (\<lambda>(projection, meta, e). pm_Lifetime meta = res_Lifetime result) (ProjectRouteResult TypeOf result projector)"
  unfolding ProjectRouteResult_def
  by (intro returns_intros returns_seq_any) (auto simp: DefaultProjectionMeta_def)

lemma handleProjectionError_owner:
  "returns (\<lambda>(projection, meta, e). pm_Lifetime meta = res_Lifetime (er_Result routeErr)) (handleProjectionError TypeOf routeErr policy)"
  unfolding handleProjectionError_def Let_def
  by (intro returns_intros returns_seq_any) (auto simp: DefaultProjectionMeta_def)

lemma projected_owner:
  "returns (\<lambda>(projection, meta, e). pm_Lifetime meta = res_Lifetime result)
     (seq (ProjectRouteResult TypeOf result projector) (\<lambda>(projection, meta, projectErr). case projectErr of
        Some x \<Rightarrow> (case policy of
           None \<Rightarrow> ret (0, meta, Some x)
         | Some handle \<Rightarrow> seq (handle (err x)) (\<lambda>(mapped, e). ret (mapped, meta, e)))
      | None \<Rightarrow> ret (projection, meta, None)))"
  by (rule returns_seq [OF ProjectRouteResult_owner]) (auto intro!: returns_intros returns_seq_any)

lemma DispatchAndProject_owner:
  assumes "DispatchAndProject TypeOf ctx (Some dispatch) req projector policy w = (Ret (projection, meta, e), w')"
  obtains result de w1 where "dispatch ctx req w = (Ret (result, de), w1)" "pm_Lifetime meta = res_Lifetime result"
proof -
  obtain v w1 where d: "dispatch ctx req w = (Ret v, w1)"
    using assms unfolding DispatchAndProject_def by (auto elim!: seq_RetE)
  obtain result de where v: "v = (result, de)" by (cases v)
  have "pm_Lifetime meta = res_Lifetime result"
  proof (cases de)
    case None
    with assms d v show ?thesis
      using returnsD [OF projected_owner] unfolding DispatchAndProject_def by fastforce
  next
    case (Some x)
    with assms d v show ?thesis
      using returnsD [OF handleProjectionError_owner] unfolding DispatchAndProject_def by fastforce
  qed
  with d v show thesis by (intro that) simp_all
qed

section \<open>Properties\<close>

text \<open>
  The owner of a dispatched result is never lost: whenever \<open>DispatchAndProject\<close> returns, dispatch returned a
  result and the metadata handed to the caller carries exactly that result's lifetime, whatever projector and error
  policy do and whether or not anything failed.
\<close>

theorem projection_hands_over_the_owner:
  assumes "DispatchAndProject TypeOf ctx (Some dispatch) req projector policy w = (Ret (projection, meta, e), w')"
  shows "\<exists>result de w1. dispatch ctx req w = (Ret (result, de), w1) \<and> pm_Lifetime meta = res_Lifetime result"
  using DispatchAndProject_owner [OF assms] by metis

theorem projection_hands_over_the_owner_witness:
  "\<exists>meta. DispatchAndProject (\<lambda>_. None) None
       (Some (\<lambda>_ _. ret ((Handled 1 0 7 :: (nat, nat, nat) route_result)\<lparr>res_Lifetime := Some 4\<rparr>, None))) (0 :: nat)
       (Some (\<lambda>_. ret (3 :: nat, DefaultProjectionMeta (\<lambda>_ :: nat. None) AbortResult, Some ErrNoHandlers))) None (0 :: nat)
     = (Ret (0, meta, Some ErrNoHandlers), 0) \<and> pm_Lifetime meta = Some 4"
proof -
  let ?d = "\<lambda>(_ :: ctx option) (_ :: nat).
    ret ((Handled 1 0 7 :: (nat, nat, nat) route_result)\<lparr>res_Lifetime := Some 4\<rparr>, None :: err) :: (nat, _) proc"
  obtain meta where m: "DispatchAndProject (\<lambda>_. None) None (Some ?d) 0
       (Some (\<lambda>_. ret (3 :: nat, DefaultProjectionMeta (\<lambda>_ :: nat. None) AbortResult, Some ErrNoHandlers))) None 0
     = (Ret (0, meta, Some ErrNoHandlers), 0)"
    by (simp add: DispatchAndProject_def ProjectRouteResult_def seq_def)
  from projection_hands_over_the_owner [OF m] have "pm_Lifetime meta = Some 4" by auto
  with m show ?thesis by blast
qed

end
