(* ===== verification/Policy_Selection.thy ===== *)
theory Policy_Selection
  imports Binding Loops
begin

text \<open>
  \<open>policy/selection.go\<close> and \<open>policy/affinity.go\<close>: choosing one candidate by hard eligibility, affinity and ranking, and
  revalidating the choice before it is dispatched.

  \<^item> Callbacks of the caller are procedures on the world, \<open>None\<close> when nil. Keys and scopes are compared with \<open>=\<close>.
  \<^item> The enumerations are bytes in Go: \<open>OtherStatus\<close> and \<open>OtherStrength\<close> stand for the values past the last name.
  \<^item> The zero candidate, what \<open>var binding\<close> declares, is the parameter \<open>zero\<close>.
\<close>

section \<open>Candidates and evaluations\<close>

definition ErrInvalidSelection :: gerror where
  "ErrInvalidSelection = Sentinel ''routery/policy: invalid selection''"

definition ErrNoSelection :: gerror where
  "ErrNoSelection = Sentinel ''routery/policy: no selected candidate''"

definition ErrAffinityScope :: gerror where
  "ErrAffinityScope = Sentinel ''routery/policy: invalid affinity scope''"

record refs =
  rf_Input :: string
  rf_Candidates :: string
  rf_Policy :: string
  rf_Estimates :: string

definition refs_Fingerprint :: "refs \<Rightarrow> string" where
  "refs_Fingerprint r = FingerprintSHA256 [rf_Input r, rf_Candidates r, rf_Policy r, rf_Estimates r]"

record ('key, 'scope, 'd) candidate =
  cd_Key :: 'key
  cd_Scope :: 'scope
  cd_Route :: string
  cd_Fingerprint :: string
  cd_Descriptor :: 'd

record 'i evaluation =
  ea_Input :: 'i
  ea_Now :: int
  ea_Deadline :: int
  ea_References :: refs
  ea_Seed :: "64 word"
  ea_SelectionID :: string

record 'r eligibility =
  el_Allowed :: bool
  el_Reason :: 'r

datatype rejection_stage = NotRejected | DomainRejected | AffinityRejected

record ('key, 'r) explanation =
  ex_Key :: 'key
  ex_Fingerprint :: string
  ex_Eligible :: bool
  ex_DomainEligible :: bool
  ex_Rejection :: rejection_stage
  ex_Reason :: 'r

datatype selection_status = NoEligible | Selected | AffinityUnavailable | OtherStatus nat

section \<open>Affinity\<close>

datatype strength = NoStrength | Preferred | Required | OtherStrength nat

datatype affinity_outcome = NoAffinity | Preserved | PreferenceBypassed | RequiredUnavailable

record ('w, 'key, 'scope, 'd) affinity =
  af_Strength :: strength
  af_Key :: 'key
  af_Scope :: 'scope
  af_TrustedScope :: 'scope
  af_ScopePresent :: bool
  af_Fingerprint :: string
  af_StateFingerprint :: string
  af_Expires :: int
  af_Compatible :: "(('key, 'scope, 'd) candidate \<Rightarrow> ('w, bool) proc) option"

definition sameStamp :: "('w, 'key, 'scope, 'd) affinity \<Rightarrow> ('w, 'key, 'scope, 'd) affinity \<Rightarrow> bool" where
  "sameStamp affinity current \<longleftrightarrow> af_Strength affinity = af_Strength current \<and> af_Key affinity = af_Key current \<and>
     af_Scope affinity = af_Scope current \<and> af_TrustedScope affinity = af_TrustedScope current \<and>
     af_ScopePresent affinity = af_ScopePresent current \<and> af_Fingerprint affinity = af_Fingerprint current \<and>
     af_StateFingerprint affinity = af_StateFingerprint current \<and> af_Expires affinity = af_Expires current"

definition active :: "('w, 'key, 'scope, 'd) affinity \<Rightarrow> int \<Rightarrow> bool" where
  "active affinity now \<longleftrightarrow> af_Expires affinity = 0 \<or> now < af_Expires affinity"

definition affinity_validate :: "('w, 'key, 'scope, 'd) affinity \<Rightarrow> int \<Rightarrow> err" where
  "affinity_validate affinity now =
     (case af_Strength affinity of
        OtherStrength _ \<Rightarrow> Some ErrAffinityScope
      | NoStrength \<Rightarrow> None
      | _ \<Rightarrow>
          if \<not> af_ScopePresent affinity \<or> af_Scope affinity \<noteq> af_TrustedScope affinity then Some ErrAffinityScope
          else if af_Strength affinity = Required \<and> (af_Fingerprint affinity = '''' \<or> af_StateFingerprint affinity = '''' \<or>
                    af_Compatible affinity = None \<or> \<not> active affinity now)
          then Some ErrAffinityScope
          else None)"

definition affinity_matches ::
  "('w, 'key, 'scope, 'd) affinity \<Rightarrow> ('key, 'scope, 'd) candidate \<Rightarrow> ('w, bool) proc" where
  "affinity_matches affinity c =
     (if cd_Key c \<noteq> af_Key affinity \<or> cd_Scope c \<noteq> af_Scope affinity then ret False
      else case af_Compatible affinity of None \<Rightarrow> ret True | Some compatible \<Rightarrow> compatible c)"

definition allows :: "('w, 'key, 'scope, 'd) affinity \<Rightarrow> ('key, 'scope, 'd) candidate \<Rightarrow> ('w, bool) proc" where
  "allows affinity c = (if af_Strength affinity \<noteq> Required then ret True else affinity_matches affinity c)"

definition preferred :: "('w, 'key, 'scope, 'd) affinity \<Rightarrow> ('key, 'scope, 'd) candidate \<Rightarrow> int \<Rightarrow> ('w, bool) proc" where
  "preferred affinity c now =
     (if af_Strength affinity \<noteq> Preferred then ret False
      else seq (affinity_matches affinity c) (\<lambda>m. ret (m \<and> active affinity now)))"

definition affinity_result ::
  "('w, 'key, 'scope, 'd) affinity \<Rightarrow> ('key, 'scope, 'd) candidate \<Rightarrow> int \<Rightarrow> ('w, affinity_outcome) proc" where
  "affinity_result affinity c now =
     (if af_Strength affinity = NoStrength then ret NoAffinity
      else if \<not> active affinity now then ret PreferenceBypassed
      else seq (affinity_matches affinity c) (\<lambda>m. ret (if m then Preserved else PreferenceBypassed)))"

section \<open>Selectors\<close>

record ('w, 'i, 'key, 'scope, 'd, 'r) selector =
  se_Validate :: "('i evaluation \<Rightarrow> ('w, err) proc) option"
  se_Freeze :: "('d \<Rightarrow> ('w, 'd) proc) option"
  se_Eligible :: "('i evaluation \<Rightarrow> ('key, 'scope, 'd) candidate \<Rightarrow> ('w, 'r eligibility \<times> err) proc) option"
  se_Rank :: "('i evaluation \<Rightarrow> ('key, 'scope, 'd) candidate \<Rightarrow> ('w, float64 \<times> err) proc) option"

record ('w, 'key, 'scope, 'd, 'r) selection =
  sl_Status :: selection_status
  sl_Binding :: "('key, ('key, 'scope, 'd) candidate) route_binding"
  sl_References :: refs
  sl_Explanation :: "('key, 'r) explanation list"
  sl_Affinity :: affinity_outcome
  sl_Seed :: "64 word"
  sl_SelectionID :: string
  sl_affinity :: "('w, 'key, 'scope, 'd) affinity"

text \<open>Calling a nil function panics.\<close>

definition nil_call :: "('w, 'a) proc" where
  "nil_call w = (Panic, w)"

definition effectiveEvaluation :: "ctx \<Rightarrow> 'i evaluation \<Rightarrow> 'i evaluation" where
  "effectiveEvaluation ctx ev =
     (case ctx_Deadline ctx of
        Some deadline \<Rightarrow>
          if ea_Deadline ev = 0 \<or> deadline < ea_Deadline ev then ev\<lparr>ea_Deadline := deadline\<rparr> else ev
      | None \<Rightarrow> ev)"

definition selector_validate ::
  "(('h, 'x) world_scheme, 'i, 'key, 'scope, 'd, 'r) selector \<Rightarrow> ctx \<Rightarrow> 'i evaluation \<Rightarrow>
   (('h, 'x) world_scheme, 'key, 'scope, 'd) affinity \<Rightarrow> (('h, 'x) world_scheme, err) proc" where
  "selector_validate sel ctx ev affinity =
     seq (ctx_Err ctx) (\<lambda>e. case e of
       Some x \<Rightarrow> ret (Some x)
     | None \<Rightarrow>
         if se_Freeze sel = None \<or> se_Eligible sel = None \<or> se_Rank sel = None \<or> ea_Now ev = 0 \<or>
            rf_Input (ea_References ev) = '''' \<or> rf_Candidates (ea_References ev) = '''' \<or> rf_Policy (ea_References ev) = ''''
         then ret (Some ErrInvalidSelection)
         else if (case ctx_Deadline ctx of
                    Some deadline \<Rightarrow> (ea_Deadline ev = 0 \<or> deadline < ea_Deadline ev) \<and> \<not> ea_Now ev < deadline
                  | None \<Rightarrow> False)
         then ret (Some DeadlineExceeded)
         else if ea_Deadline ev \<noteq> 0 \<and> \<not> ea_Now ev < ea_Deadline ev then ret (Some DeadlineExceeded)
         else seq (case se_Validate sel of None \<Rightarrow> ret None | Some validate \<Rightarrow> validate ev) (\<lambda>e. case e of
           Some x \<Rightarrow> ret (Some x)
         | None \<Rightarrow> ret (affinity_validate affinity (ea_Now ev))))"

text \<open>The loop of \<open>freezeCandidates\<close>: the keys seen and the candidates frozen so far.\<close>

definition freeze_turn ::
  "('w, 'i, 'key, 'scope, 'd, 'r) selector \<Rightarrow> ('key, 'scope, 'd) candidate \<Rightarrow> 'key set \<times> ('key, 'scope, 'd) candidate list \<Rightarrow>
   ('w, (gerror + ('key, 'scope, 'd) candidate list) + 'key set \<times> ('key, 'scope, 'd) candidate list) proc" where
  "freeze_turn sel c st =
     (case st of (keys, frozen) \<Rightarrow>
      if cd_Key c \<in> keys \<or> cd_Fingerprint c = '''' \<or> cd_Route c = '''' then ret (Inl (Inl ErrInvalidSelection))
      else case se_Freeze sel of
        None \<Rightarrow> nil_call
      | Some freeze \<Rightarrow> seq (freeze (cd_Descriptor c)) (\<lambda>d.
          ret (Inr (insert (cd_Key c) keys, frozen @ [c\<lparr>cd_Descriptor := d\<rparr>]))))"

definition freezeCandidates ::
  "('w, 'i, 'key, 'scope, 'd, 'r) selector \<Rightarrow> ('key, 'scope, 'd) candidate list \<Rightarrow>
   ('w, gerror + ('key, 'scope, 'd) candidate list) proc" where
  "freezeCandidates sel cands = early_loop (freeze_turn sel) (\<lambda>(keys, frozen). ret (Inr frozen)) cands ({}, [])"

definition selector_rank ::
  "('w, 'i, 'key, 'scope, 'd, 'r) selector \<Rightarrow> 'i evaluation \<Rightarrow> ('key, 'scope, 'd) candidate \<Rightarrow> ('w, float64 \<times> err) proc" where
  "selector_rank sel ev c =
     (case se_Rank sel of
        None \<Rightarrow> nil_call
      | Some rank \<Rightarrow> seq (rank ev c) (\<lambda>(score, e). case e of
          Some x \<Rightarrow> ret (Fin 0, Some x)
        | None \<Rightarrow> if score = NaN \<or> score = PosInf \<or> score = NegInf then ret (Fin 0, Some ErrInvalidSelection) else ret (score, None)))"

definition betterCandidate :: "int \<Rightarrow> float64 \<Rightarrow> float64 \<Rightarrow> bool \<Rightarrow> bool \<Rightarrow> bool" where
  "betterCandidate best score bestScore pref bestPref \<longleftrightarrow>
     best < 0 \<or> (pref \<and> \<not> bestPref) \<or> (pref = bestPref \<and> flt_less bestScore score)"

section \<open>Select\<close>

text \<open>
  One turn of the loop in \<open>Select\<close>. The loop variables are the explanations appended so far and \<open>best\<close>, \<open>bestScore\<close>,
  \<open>bestPreferred\<close>; an early return carries the explanations and the error.
\<close>

type_synonym ('key, 'r) select_state = "('key, 'r) explanation list \<times> int \<times> float64 \<times> bool"

definition select_turn ::
  "(('h, 'x) world_scheme, 'i, 'key, 'scope, 'd, 'r) selector \<Rightarrow> ctx \<Rightarrow> 'i evaluation \<Rightarrow>
   (('h, 'x) world_scheme, 'key, 'scope, 'd) affinity \<Rightarrow> nat \<times> ('key, 'scope, 'd) candidate \<Rightarrow>
   ('key, 'r) select_state \<Rightarrow>
   (('h, 'x) world_scheme, (('key, 'r) explanation list \<times> gerror + ('key, 'r) select_state) + ('key, 'r) select_state) proc" where
  "select_turn sel ctx ev affinity ic st =
     (case ic of (index, c) \<Rightarrow> case st of (explanation, best, bestScore, bestPreferred) \<Rightarrow>
      seq (ctx_Err ctx) (\<lambda>e. case e of
        Some x \<Rightarrow> ret (Inl (Inl (explanation, x)))
      | None \<Rightarrow> (case se_Eligible sel of
          None \<Rightarrow> nil_call
        | Some eligible \<Rightarrow> seq (eligible ev c) (\<lambda>(el, e). case e of
            Some x \<Rightarrow> ret (Inl (Inl (explanation, x)))
          | None \<Rightarrow> seq (if el_Allowed el then allows affinity c else ret False) (\<lambda>allowed.
              let stage = (if \<not> el_Allowed el then DomainRejected else if \<not> allowed then AffinityRejected else NotRejected);
                  explanation = explanation @ [\<lparr>ex_Key = cd_Key c, ex_Fingerprint = cd_Fingerprint c, ex_Eligible = allowed,
                    ex_DomainEligible = el_Allowed el, ex_Rejection = stage, ex_Reason = el_Reason el\<rparr>] in
              if \<not> allowed then ret (Inr (explanation, best, bestScore, bestPreferred))
              else seq (selector_rank sel ev c) (\<lambda>(score, e). case e of
                Some x \<Rightarrow> ret (Inl (Inl (explanation, x)))
              | None \<Rightarrow> seq (preferred affinity c (ea_Now ev)) (\<lambda>pref.
                  if betterCandidate best score bestScore pref bestPreferred
                  then ret (Inr (explanation, int index, score, pref))
                  else ret (Inr (explanation, best, bestScore, bestPreferred))))))))) "

definition zero_binding_snapshot :: "binding_snapshot route_snapshot" where
  "zero_binding_snapshot = \<lparr>sn_Fingerprint = '''', sn_State = \<lparr>bs_Match = zeroRouteMatch, bs_InputFingerprint = '''',
     bs_Revision = '''', bs_DecisionReason = VNil, bs_HasDecisionReason = False\<rparr>\<rparr>"

definition no_selection ::
  "('key, 'scope, 'd) candidate \<Rightarrow> 'i evaluation \<Rightarrow> ('w, 'key, 'scope, 'd) affinity \<Rightarrow>
   ('w, 'key, 'scope, 'd, 'r) selection" where
  "no_selection zero ev affinity = \<lparr>sl_Status = NoEligible,
     sl_Binding = \<lparr>rb_Branch = cd_Key zero, rb_Binding = zero, rb_Snapshot = zero_binding_snapshot\<rparr>,
     sl_References = ea_References ev, sl_Explanation = [], sl_Affinity = NoAffinity, sl_Seed = ea_Seed ev,
     sl_SelectionID = ea_SelectionID ev, sl_affinity = affinity\<rparr>"

definition chosen_match :: "('key, 'scope, 'd) candidate \<Rightarrow> route_match" where
  "chosen_match c = zeroRouteMatch\<lparr>rm_RouteID := cd_Route c, rm_Path := [cd_Route c], rm_Kind := MatchKindDecision\<rparr>"

text \<open>After the loop: no candidate, or the binding of the best one.\<close>

definition select_finish ::
  "golib \<Rightarrow> 'i evaluation \<Rightarrow> ('w, 'key, 'scope, 'd) affinity \<Rightarrow> ('key, 'scope, 'd) candidate list \<Rightarrow>
   ('w, 'key, 'scope, 'd, 'r) selection \<Rightarrow> int \<Rightarrow> ('w, ('w, 'key, 'scope, 'd, 'r) selection \<times> err) proc" where
  "select_finish lib ev affinity frozen result best =
     (if best < 0 then
        ret (if af_Strength affinity = Required
             then result\<lparr>sl_Status := AffinityUnavailable, sl_Affinity := RequiredUnavailable\<rparr> else result, None)
      else
        let chosen = frozen ! nat best in
        seq (affinity_result affinity chosen (ea_Now ev)) (\<lambda>ar.
          ret (result\<lparr>sl_Status := Selected,
            sl_Binding := NewRouteBinding lib (cd_Key chosen) chosen (chosen_match chosen) (rf_Input (ea_References ev))
              (refs_Fingerprint (ea_References ev)),
            sl_Affinity := ar\<rparr>, None)))"

definition Select ::
  "golib \<Rightarrow> ('key, 'scope, 'd) candidate \<Rightarrow> (('h, 'x) world_scheme, 'i, 'key, 'scope, 'd, 'r) selector \<Rightarrow> ctx \<Rightarrow>
   'i evaluation \<Rightarrow> ('key, 'scope, 'd) candidate list \<Rightarrow> (('h, 'x) world_scheme, 'key, 'scope, 'd) affinity \<Rightarrow>
   (('h, 'x) world_scheme, (('h, 'x) world_scheme, 'key, 'scope, 'd, 'r) selection \<times> err) proc" where
  "Select lib zero sel ctx ev0 cands affinity =
     (let ev = effectiveEvaluation ctx ev0; result = no_selection zero ev affinity in
      seq (selector_validate sel ctx ev affinity) (\<lambda>e. case e of
        Some x \<Rightarrow> ret (result, Some x)
      | None \<Rightarrow> seq (freezeCandidates sel cands) (\<lambda>f. case f of
          Inl x \<Rightarrow> ret (result, Some x)
        | Inr frozen \<Rightarrow>
            seq (early_loop (select_turn sel ctx ev affinity) (\<lambda>s. ret (Inr s)) (zip [0..<length frozen] frozen)
                  ([], -1, NegInf, False))
              (\<lambda>v. case v of
                 Inl (explanation, x) \<Rightarrow> ret (result\<lparr>sl_Explanation := explanation\<rparr>, Some x)
               | Inr (explanation, best, _, _) \<Rightarrow>
                   select_finish lib ev affinity frozen (result\<lparr>sl_Explanation := explanation\<rparr>) best))))"

section \<open>Using a selection\<close>

definition ValidateFreshness :: "('w, 'key, 'scope, 'd, 'r) selection \<Rightarrow> refs \<Rightarrow> ('w, err) proc" where
  "ValidateFreshness selection current =
     (if sl_Status selection \<noteq> Selected \<or> sl_References selection \<noteq> current then ret (Some ErrStaleSnapshot)
      else ValidateSnapshotFreshness (rb_Snapshot (sl_Binding selection)) current
        (Some (ValidateSnapshot (Some (\<lambda>snapshot refs.
          if bs_Revision (sn_State snapshot) \<noteq> refs_Fingerprint refs then ret (Some ErrStaleSnapshot) else ret None)))))"

definition Dispatch_selected ::
  "ctx \<Rightarrow> 'i \<Rightarrow> (('h, 'x) world_scheme, 'key, 'scope, 'd, 'r) selection \<Rightarrow> refs \<Rightarrow>
   (ctx \<Rightarrow> (('h, 'x) world_scheme, 'key, 'scope, 'd, 'r) selection \<Rightarrow> (('h, 'x) world_scheme, err) proc) option \<Rightarrow>
   (ctx \<Rightarrow> 'i \<Rightarrow> ('key, ('key, 'scope, 'd) candidate) route_binding \<Rightarrow>
     (('h, 'x) world_scheme, ('res :: zero) \<times> err) proc) option \<Rightarrow>
   (('h, 'x) world_scheme, 'res \<times> err) proc" where
  "Dispatch_selected ctx input selection current validate dispatch =
     seq (ctx_Err ctx) (\<lambda>e. case e of
       Some x \<Rightarrow> ret (0, Some x)
     | None \<Rightarrow>
         (case sl_Status selection of
            NoEligible \<Rightarrow> ret (0, Some ErrNoSelection)
          | AffinityUnavailable \<Rightarrow> ret (0, Some ErrNoSelection)
          | OtherStatus _ \<Rightarrow> ret (0, Some ErrInvalidSelection)
          | Selected \<Rightarrow>
              (case dispatch of
                 None \<Rightarrow> ret (0, Some ErrInvalidSelection)
               | Some run \<Rightarrow> (case validate of
                   None \<Rightarrow> ret (0, Some ErrInvalidSelection)
                 | Some check \<Rightarrow> seq (ValidateFreshness selection current) (\<lambda>e. case e of
                     Some x \<Rightarrow> ret (0, Some x)
                   | None \<Rightarrow> seq (check ctx selection) (\<lambda>e. case e of
                       Some x \<Rightarrow> ret (0, Some x)
                     | None \<Rightarrow> seq (ctx_Err ctx) (\<lambda>e. case e of
                         Some x \<Rightarrow> ret (0, Some x)
                       | None \<Rightarrow> run ctx input (sl_Binding selection))))))))"

text \<open>\<open>reason_value\<close> is a caller's reason as a dynamic value.\<close>

definition PinnedError :: "('r \<Rightarrow> gval) \<Rightarrow> 'r \<Rightarrow> gerror" where
  "PinnedError reason_value r = Typed ''*policy.PinnedError'' (reason_value r) [ErrStaleSnapshot]"

text \<open>The end of \<open>ValidatePinned\<close>, for the candidate with its descriptor frozen.\<close>

definition pinned_eligible ::
  "('r \<Rightarrow> gval) \<Rightarrow> (('h, 'x) world_scheme, 'i, 'key, 'scope, 'd, 'r) selector \<Rightarrow> ctx \<Rightarrow> 'i evaluation \<Rightarrow>
   (('h, 'x) world_scheme, 'key, 'scope, 'd, 'r) selection \<Rightarrow> ('key, 'scope, 'd) candidate \<Rightarrow>
   (('h, 'x) world_scheme, 'key, 'scope, 'd) affinity \<Rightarrow> (('h, 'x) world_scheme, err) proc" where
  "pinned_eligible reason_value sel ctx ev selection current affinity =
     (case se_Eligible sel of
        None \<Rightarrow> nil_call
      | Some eligible \<Rightarrow> seq (eligible ev current) (\<lambda>(el, e). case e of
          Some x \<Rightarrow> ret (Some x)
        | None \<Rightarrow>
            if \<not> el_Allowed el then ret (Some (PinnedError reason_value (el_Reason el)))
            else seq (seq (allows (sl_affinity selection) current)
                   (\<lambda>a. if \<not> a then ret False else allows affinity current)) (\<lambda>a.
              if \<not> a then ret (Some ErrStaleSnapshot)
              else seq (selector_rank sel ev current) (\<lambda>(_, e). case e of
                Some x \<Rightarrow> ret (Some x)
              | None \<Rightarrow> ctx_Err ctx))))"

definition ValidatePinned ::
  "('r \<Rightarrow> gval) \<Rightarrow> (('h, 'x) world_scheme, 'i, 'key, 'scope, 'd, 'r) selector \<Rightarrow> ctx \<Rightarrow> 'i evaluation \<Rightarrow>
   (('h, 'x) world_scheme, 'key, 'scope, 'd, 'r) selection \<Rightarrow> ('key, 'scope, 'd) candidate \<Rightarrow>
   (('h, 'x) world_scheme, 'key, 'scope, 'd) affinity \<Rightarrow> (('h, 'x) world_scheme, err) proc" where
  "ValidatePinned reason_value sel ctx ev0 selection current affinity =
     (let ev = effectiveEvaluation ctx ev0; pinned = rb_Binding (sl_Binding selection) in
      seq (ValidateFreshness selection (ea_References ev)) (\<lambda>e. case e of
        Some x \<Rightarrow> ret (Some x)
      | None \<Rightarrow>
          if \<not> sameStamp (sl_affinity selection) affinity then ret (Some ErrStaleSnapshot)
          else seq (selector_validate sel ctx ev affinity) (\<lambda>e. case e of
            Some x \<Rightarrow> ret (Some x)
          | None \<Rightarrow>
              if rb_Branch (sl_Binding selection) \<noteq> cd_Key pinned \<or> cd_Key current \<noteq> cd_Key pinned \<or>
                 cd_Scope current \<noteq> cd_Scope pinned \<or> cd_Route current \<noteq> cd_Route pinned \<or>
                 cd_Fingerprint current \<noteq> cd_Fingerprint pinned
              then ret (Some ErrStaleSnapshot)
              else (case se_Freeze sel of
                None \<Rightarrow> nil_call
              | Some freeze \<Rightarrow> seq (freeze (cd_Descriptor current)) (\<lambda>d.
                  pinned_eligible reason_value sel ctx ev selection (current\<lparr>cd_Descriptor := d\<rparr>) affinity)))))"


section \<open>A loop whose turns only compute\<close>

lemma early_loop_pure:
  assumes "\<And>x s w. x \<in> set xs \<Longrightarrow> L w \<Longrightarrow> turn x s w = (Ret (Inr (step x s)), upd w) \<and> L (upd w)" "L w"
  shows "early_loop turn fin xs s w = fin (fold step xs s) ((upd ^^ length xs) w) \<and> L ((upd ^^ length xs) w)"
  using assms
proof (induction xs arbitrary: s w)
  case (Cons x xs)
  have t: "turn x s w = (Ret (Inr (step x s)), upd w)" "L (upd w)" using Cons.prems by auto
  have "early_loop turn fin xs (step x s) (upd w) = fin (fold step xs (step x s)) ((upd ^^ length xs) (upd w)) \<and>
      L ((upd ^^ length xs) (upd w))"
    by (rule Cons.IH) (use Cons.prems(1) t(2) in auto)
  then show ?case using t by (simp add: funpow_swap1)
qed simp

section \<open>Selectors whose callbacks compute\<close>

text \<open>
  What \<open>Select\<close> documents of its callbacks: for a given evaluation they are functions of the candidate. \<open>F\<close>, \<open>E\<close> and
  \<open>R\<close> are what \<open>Freeze\<close>, \<open>Eligible\<close> and \<open>Rank\<close> compute.
\<close>

fun fin_value :: "float64 \<Rightarrow> rat" where
  "fin_value (Fin q) = q"
| "fin_value _ = 0"

definition is_fin :: "float64 \<Rightarrow> bool" where
  "is_fin x \<longleftrightarrow> x = Fin (fin_value x)"

locale pure_selector =
  fixes sel :: "(('h, 'x) world_scheme, 'i, 'key, 'scope, 'd, 'r) selector"
    and ev :: "'i evaluation"
    and F :: "'d \<Rightarrow> 'd"
    and E :: "('key, 'scope, 'd) candidate \<Rightarrow> 'r eligibility \<times> err"
    and R :: "('key, 'scope, 'd) candidate \<Rightarrow> float64 \<times> err"
  assumes freezes: "\<exists>f. se_Freeze sel = Some f \<and> (\<forall>d w. f d w = (Ret (F d), w))"
    and decides: "\<exists>f. se_Eligible sel = Some f \<and> (\<forall>c w. f ev c w = (Ret (E c), w))"
    and ranks: "\<exists>f. se_Rank sel = Some f \<and> (\<forall>c w. f ev c w = (Ret (R c), w))"
begin

definition frozen_of :: "('key, 'scope, 'd) candidate \<Rightarrow> ('key, 'scope, 'd) candidate" where
  "frozen_of c = c\<lparr>cd_Descriptor := F (cd_Descriptor c)\<rparr>"

lemma freeze_turn_pure:
  "freeze_turn sel c (keys, frozen) w =
     (if cd_Key c \<in> keys \<or> cd_Fingerprint c = '''' \<or> cd_Route c = '''' then (Ret (Inl (Inl ErrInvalidSelection)), w)
      else (Ret (Inr (insert (cd_Key c) keys, frozen @ [frozen_of c])), w))"
  using freezes by (auto simp: freeze_turn_def frozen_of_def seq_def)

lemma freeze_loop:
  assumes "\<And>k f w. fin (k, f) w = (Ret (Inr f), w)"
  shows "early_loop (freeze_turn sel) fin cands (keys, frozen) w =
     (Ret (if distinct (map cd_Key cands) \<and> set (map cd_Key cands) \<inter> keys = {} \<and>
              (\<forall>c \<in> set cands. cd_Fingerprint c \<noteq> '''' \<and> cd_Route c \<noteq> '''')
           then Inr (frozen @ map frozen_of cands) else Inl ErrInvalidSelection), w)"
proof (induction cands arbitrary: keys frozen)
  case (Cons c cands)
  then show ?case by (auto simp: seq_def freeze_turn_pure Cons.IH)
qed (simp add: assms)

lemma freezeCandidates_pure:
  "freezeCandidates sel cands w =
     (Ret (if distinct (map cd_Key cands) \<and> (\<forall>c \<in> set cands. cd_Fingerprint c \<noteq> '''' \<and> cd_Route c \<noteq> '''')
           then Inr (map frozen_of cands) else Inl ErrInvalidSelection), w)"
  by (simp add: freezeCandidates_def freeze_loop)

end

section \<open>The choice as a maximum\<close>

text \<open>
  \<open>M\<close> is what \<open>Compatible\<close> and the identity check compute together. A candidate is a contender when it is eligible and a
  required affinity allows it; its merit is its affinity preference first, then its score.
\<close>

definition pure_affinity :: "('w, 'key, 'scope, 'd) affinity \<Rightarrow> (('key, 'scope, 'd) candidate \<Rightarrow> bool) \<Rightarrow> bool" where
  "pure_affinity aff M \<longleftrightarrow> (\<forall>c w. affinity_matches aff c w = (Ret (M c), w))"

definition contender ::
  "(('key, 'scope, 'd) candidate \<Rightarrow> 'r eligibility \<times> err) \<Rightarrow> ('w, 'key, 'scope, 'd) affinity \<Rightarrow>
   (('key, 'scope, 'd) candidate \<Rightarrow> bool) \<Rightarrow> ('key, 'scope, 'd) candidate \<Rightarrow> bool" where
  "contender E aff M c \<longleftrightarrow> el_Allowed (fst (E c)) \<and> (if af_Strength aff = Required then M c else True)"

definition merit ::
  "'i evaluation \<Rightarrow> (('key, 'scope, 'd) candidate \<Rightarrow> float64 \<times> err) \<Rightarrow> ('w, 'key, 'scope, 'd) affinity \<Rightarrow>
   (('key, 'scope, 'd) candidate \<Rightarrow> bool) \<Rightarrow> ('key, 'scope, 'd) candidate \<Rightarrow> bool \<times> rat" where
  "merit ev R aff M c = (af_Strength aff = Preferred \<and> M c \<and> active aff (ea_Now ev), fin_value (fst (R c)))"

definition explain ::
  "(('key, 'scope, 'd) candidate \<Rightarrow> 'r eligibility \<times> err) \<Rightarrow> ('w, 'key, 'scope, 'd) affinity \<Rightarrow>
   (('key, 'scope, 'd) candidate \<Rightarrow> bool) \<Rightarrow> ('key, 'scope, 'd) candidate \<Rightarrow> ('key, 'r) explanation" where
  "explain E aff M c = \<lparr>ex_Key = cd_Key c, ex_Fingerprint = cd_Fingerprint c, ex_Eligible = contender E aff M c,
     ex_DomainEligible = el_Allowed (fst (E c)),
     ex_Rejection = (if \<not> el_Allowed (fst (E c)) then DomainRejected
       else if \<not> contender E aff M c then AffinityRejected else NotRejected),
     ex_Reason = el_Reason (fst (E c))\<rparr>"

text \<open>\<open>first_best\<close>: the contender at \<open>i\<close> beats the contenders before it and is not beaten by those after it.\<close>

definition first_best ::
  "('c \<Rightarrow> bool) \<Rightarrow> ('c \<Rightarrow> 'm :: linorder) \<Rightarrow> 'c list \<Rightarrow> nat \<Rightarrow> bool" where
  "first_best P m cs i \<longleftrightarrow> i < length cs \<and> P (cs ! i) \<and>
     (\<forall>j < length cs. P (cs ! j) \<longrightarrow> (if j < i then m (cs ! j) < m (cs ! i) else m (cs ! j) \<le> m (cs ! i)))"

lemma first_best_snoc_keep:
  "first_best P m cs i \<Longrightarrow> \<not> P c \<or> m c \<le> m (cs ! i) \<Longrightarrow> first_best P m (cs @ [c]) i"
  unfolding first_best_def by (auto simp: nth_append less_Suc_eq)

lemma first_best_snoc_new:
  assumes "P c" "\<forall>x \<in> set cs. P x \<longrightarrow> m x < m c"
  shows "first_best P m (cs @ [c]) (length cs)"
  using assms unfolding first_best_def by (auto simp: nth_append less_Suc_eq)

lemma first_best_beaten:
  "first_best P m cs i \<Longrightarrow> m (cs ! i) < m c \<Longrightarrow> x \<in> set cs \<Longrightarrow> P x \<Longrightarrow> m x < m c"
  unfolding first_best_def in_set_conv_nth by (metis dual_order.strict_trans1 nless_le)

definition select_step ::
  "'i evaluation \<Rightarrow> (('key, 'scope, 'd) candidate \<Rightarrow> 'r eligibility \<times> err) \<Rightarrow>
   (('key, 'scope, 'd) candidate \<Rightarrow> float64 \<times> err) \<Rightarrow> ('w, 'key, 'scope, 'd) affinity \<Rightarrow>
   (('key, 'scope, 'd) candidate \<Rightarrow> bool) \<Rightarrow> nat \<times> ('key, 'scope, 'd) candidate \<Rightarrow>
   ('key, 'r) select_state \<Rightarrow> ('key, 'r) select_state" where
  "select_step ev E R aff M ic st =
     (case ic of (index, c) \<Rightarrow> case st of (expl, best, bestScore, bestPreferred) \<Rightarrow>
      if contender E aff M c \<and> betterCandidate best (fst (R c)) bestScore (fst (merit ev R aff M c)) bestPreferred
      then (expl @ [explain E aff M c], int index, fst (R c), fst (merit ev R aff M c))
      else (expl @ [explain E aff M c], best, bestScore, bestPreferred))"

lemma better_merit:
  assumes "is_fin s" "is_fin s'" "0 \<le> b"
  shows "betterCandidate b s s' p p' \<longleftrightarrow> (p', fin_value s') < (p, fin_value s)"
  using assms by (cases s; cases s'; cases p; cases p') (auto simp: betterCandidate_def is_fin_def less_prod_def)

lemma select_fold:
  fixes cs :: "('key, 'scope, 'd) candidate list"
  assumes "\<forall>c \<in> set cs. contender E aff M c \<longrightarrow> is_fin (fst (R c))"
  shows "\<exists>best score pref. fold (select_step ev E R aff M) (zip [0..<length cs] cs) ([], -1, NegInf, False) =
       (map (explain E aff M) cs, best, score, pref) \<and>
     (best = -1 \<and> (\<forall>c \<in> set cs. \<not> contender E aff M c) \<or>
      (\<exists>i. best = int i \<and> first_best (contender E aff M) (merit ev R aff M) cs i \<and>
         score = fst (R (cs ! i)) \<and> pref = fst (merit ev R aff M (cs ! i))))"
  using assms
proof (induction cs rule: rev_induct)
  case (snoc c cs)
  let ?P = "contender E aff M" and ?m = "merit ev R aff M"
  from snoc obtain best score pref where st:
    "fold (select_step ev E R aff M) (zip [0..<length cs] cs) ([], -1, NegInf, False) = (map (explain E aff M) cs, best, score, pref)"
    and inv: "best = -1 \<and> (\<forall>c \<in> set cs. \<not> ?P c) \<or>
      (\<exists>i. best = int i \<and> first_best ?P ?m cs i \<and> score = fst (R (cs ! i)) \<and> pref = fst (?m (cs ! i)))" by auto
  have step: "fold (select_step ev E R aff M) (zip [0..<length (cs @ [c])] (cs @ [c])) ([], -1, NegInf, False) =
      select_step ev E R aff M (length cs, c) (map (explain E aff M) cs, best, score, pref)"
    using st by simp
  have old: "?m (cs ! i) = (pref, fin_value score)"
    if "score = fst (R (cs ! i))" "pref = fst (?m (cs ! i))" for i
    using that by (simp add: merit_def)
  obtain p where new: "?m c = (p, fin_value (fst (R c)))" by (simp add: merit_def)
  show ?case
  proof (cases "?P c \<and> betterCandidate best (fst (R c)) score (fst (?m c)) pref")
    case True
    have "?m x < ?m c" if x: "x \<in> set cs" "?P x" for x
    proof -
      obtain i where i: "best = int i" "first_best ?P ?m cs i" "score = fst (R (cs ! i))" "pref = fst (?m (cs ! i))"
        using inv x by blast
      have "cs ! i \<in> set cs" "?P (cs ! i)" using i(2) by (auto simp: first_best_def)
      then have "is_fin (fst (R c))" "is_fin score" using snoc.prems True i(3) by auto
      then have "(pref, fin_value score) < (fst (?m c), fin_value (fst (R c)))"
        using better_merit [of "fst (R c)" score best "fst (?m c)" pref] True i(1) by simp
      then have "?m (cs ! i) < ?m c" using old [OF i(3,4)] new by simp
      then show ?thesis by (rule first_best_beaten [OF i(2) _ x])
    qed
    then have "\<forall>x \<in> set cs. ?P x \<longrightarrow> ?m x < ?m c" by simp
    then have "first_best ?P ?m (cs @ [c]) (length cs)" using True first_best_snoc_new [of ?P c cs ?m] by simp
    moreover have "select_step ev E R aff M (length cs, c) (map (explain E aff M) cs, best, score, pref) =
      (map (explain E aff M) (cs @ [c]), int (length cs), fst (R c), fst (?m c))" using True by (simp add: select_step_def)
    moreover have "(cs @ [c]) ! length cs = c" by simp
    ultimately show ?thesis unfolding step by metis
  next
    case False
    have keep: "select_step ev E R aff M (length cs, c) (map (explain E aff M) cs, best, score, pref) =
      (map (explain E aff M) (cs @ [c]), best, score, pref)" using False by (auto simp: select_step_def)
    from inv show ?thesis
    proof (elim disjE conjE exE)
      assume "best = -1" "\<forall>c \<in> set cs. \<not> ?P c"
      moreover from this have "\<not> ?P c" using False by (simp add: betterCandidate_def)
      ultimately show ?thesis unfolding step keep by simp
    next
      fix i assume i: "best = int i" "first_best ?P ?m cs i" "score = fst (R (cs ! i))" "pref = fst (?m (cs ! i))"
      have bound: "\<not> ?P c \<or> ?m c \<le> ?m (cs ! i)"
      proof (cases "?P c")
        case True
        have "cs ! i \<in> set cs" "?P (cs ! i)" using i(2) by (auto simp: first_best_def)
        then have "is_fin (fst (R c))" "is_fin score" using snoc.prems True i(3) by auto
        then have "\<not> (pref, fin_value score) < (fst (?m c), fin_value (fst (R c)))"
          using better_merit [of "fst (R c)" score best "fst (?m c)" pref] True False i(1) by simp
        then have "\<not> ?m (cs ! i) < ?m c" using old [OF i(3,4)] new by simp
        then show ?thesis by (simp add: not_less)
      qed simp
      have "first_best ?P ?m (cs @ [c]) i" using first_best_snoc_keep [OF i(2) bound] .
      moreover have "(cs @ [c]) ! i = cs ! i" using i(2) by (simp add: first_best_def nth_append)
      ultimately show ?thesis unfolding step keep using i(1,3,4) by metis
    qed
  qed
qed (simp, blast)

context pure_selector
begin

lemma select_turn_pure:
  assumes "done_at w ctx = None" "pure_affinity aff M" "snd (E c) = None"
    and "contender E aff M c \<longrightarrow> snd (R c) = None \<and> is_fin (fst (R c))"
  shows "select_turn sel ctx ev aff (index, c) st w = (Ret (Inr (select_step ev E R aff M (index, c) st)), tick w)"
proof -
  obtain expl best score pref where st: "st = (expl, best, score, pref)" by (cases st)
  obtain el where el: "E c = (el, None)" using assms(3) by (cases "E c") auto
  have live: "ctx_err (tick w) ctx = None" using assms(1) by (simp add: ctx_err_live)
  obtain f where f: "se_Eligible sel = Some f" "\<forall>c w. f ev c w = (Ret (E c), w)" using decides by blast
  obtain g where g: "se_Rank sel = Some g" "\<forall>c w. g ev c w = (Ret (R c), w)" using ranks by blast
  have m: "affinity_matches aff c w = (Ret (M c), w)" for w using assms(2) by (simp add: pure_affinity_def)
  have allowed: "(if el_Allowed el then allows aff c else ret False) w = (Ret (contender E aff M c), w)" for w
    using m el by (simp add: allows_def contender_def)
  have p: "preferred aff c (ea_Now ev) w = (Ret (fst (merit ev R aff M c)), w)" for w
    using m by (auto simp: preferred_def merit_def seq_def)
  have r: "selector_rank sel ev c w = (Ret (R c), w)" if "contender E aff M c" for w
    using g assms(4) that by (cases "R c"; cases "fst (R c)") (auto simp: selector_rank_def seq_def is_fin_def)
  show ?thesis
  proof (cases "contender E aff M c")
    case True
    then obtain s where s: "R c = (s, None)" using assms(4) by (cases "R c") auto
    show ?thesis
      using True s live f(1) allowed p r [OF True]
      by (simp add: st select_turn_def select_step_def seq_def f(2) el explain_def Let_def contender_def)
  next
    case False
    then show ?thesis
      using live f(1) allowed
      by (simp add: st select_turn_def select_step_def seq_def f(2) el explain_def Let_def)
  qed
qed

lemma select_loop:
  assumes "done_at w ctx = None" "pure_affinity aff M" "\<forall>c \<in> set cs. snd (E c) = None"
    and "\<forall>c \<in> set cs. contender E aff M c \<longrightarrow> snd (R c) = None \<and> is_fin (fst (R c))"
  shows "early_loop (select_turn sel ctx ev aff) fin (zip [0..<length cs] cs) st w =
    fin (fold (select_step ev E R aff M) (zip [0..<length cs] cs) st) ((tick ^^ length cs) w)"
proof -
  have "early_loop (select_turn sel ctx ev aff) fin (zip [0..<length cs] cs) st w =
      fin (fold (select_step ev E R aff M) (zip [0..<length cs] cs) st) ((tick ^^ length (zip [0..<length cs] cs)) w) \<and>
      done_at ((tick ^^ length (zip [0..<length cs] cs)) w) ctx = None"
  proof (rule early_loop_pure [where L = "\<lambda>w. done_at w ctx = None"])
    fix x s and v :: "('h, 'x) world_scheme"
    assume x: "x \<in> set (zip [0..<length cs] cs)" "done_at v ctx = None"
    obtain index c where xc: "x = (index, c)" by (cases x)
    then have "c \<in> set cs" using x(1) by (auto dest: set_zip_rightD)
    with xc show "select_turn sel ctx ev aff x s v = (Ret (Inr (select_step ev E R aff M x s)), tick v) \<and>
        done_at (tick v) ctx = None"
      using x(2) assms(2,3,4) select_turn_pure [of v ctx aff M c index s] by simp
  qed (rule assms(1))
  then show ?thesis by simp
qed

end

section \<open>What Select returns\<close>

text \<open>The evaluation passes validation: \<open>valid_evaluation\<close> is the check of \<open>validate\<close> apart from the caller's own.\<close>

definition valid_evaluation ::
  "('w, 'i, 'key, 'scope, 'd, 'r) selector \<Rightarrow> ctx \<Rightarrow> 'i evaluation \<Rightarrow> ('w, 'key, 'scope, 'd) affinity \<Rightarrow> bool" where
  "valid_evaluation sel ctx ev aff \<longleftrightarrow> ea_Now ev \<noteq> 0 \<and> rf_Input (ea_References ev) \<noteq> '''' \<and>
     rf_Candidates (ea_References ev) \<noteq> '''' \<and> rf_Policy (ea_References ev) \<noteq> '''' \<and>
     (ea_Deadline ev \<noteq> 0 \<longrightarrow> ea_Now ev < ea_Deadline ev) \<and> affinity_validate aff (ea_Now ev) = None"

lemma effectiveEvaluation_simps [simp]:
  "ea_Now (effectiveEvaluation ctx ev) = ea_Now ev" "ea_References (effectiveEvaluation ctx ev) = ea_References ev"
  "ea_Input (effectiveEvaluation ctx ev) = ea_Input ev" "ea_Seed (effectiveEvaluation ctx ev) = ea_Seed ev"
  "ea_SelectionID (effectiveEvaluation ctx ev) = ea_SelectionID ev"
  by (simp_all add: effectiveEvaluation_def split: option.split)

lemma effectiveEvaluation_deadline:
  "ctx_Deadline ctx = Some deadline \<Longrightarrow> ea_Deadline (effectiveEvaluation ctx ev) \<noteq> 0 \<Longrightarrow>
   \<not> deadline < ea_Deadline (effectiveEvaluation ctx ev)"
  by (simp add: effectiveEvaluation_def)

lemma effectiveEvaluation_zero:
  "ctx_Deadline ctx = Some deadline \<Longrightarrow> ea_Deadline (effectiveEvaluation ctx ev) = 0 \<Longrightarrow> deadline = 0"
  by (simp add: effectiveEvaluation_def split: if_splits)

context pure_selector
begin

lemma validate_pure:
  assumes "valid_evaluation sel ctx ev aff" "done_at w ctx = None" "ev = effectiveEvaluation ctx ev0"
    and "ctx_Deadline ctx \<noteq> Some 0"
    and v: "case se_Validate sel of None \<Rightarrow> True | Some f \<Rightarrow> (\<forall>w. f ev w = (Ret None, w))"
  shows "selector_validate sel ctx ev aff w = (Ret None, tick w)"
proof -
  have live: "ctx_err (tick w) ctx = None" using assms(2) by (simp add: ctx_err_live)
  have some: "se_Freeze sel \<noteq> None" "se_Eligible sel \<noteq> None" "se_Rank sel \<noteq> None"
    using freezes decides ranks by auto
  have dl: "\<not> (case ctx_Deadline ctx of
      Some deadline \<Rightarrow> (ea_Deadline ev = 0 \<or> deadline < ea_Deadline ev) \<and> \<not> ea_Now ev < deadline | None \<Rightarrow> False)"
    using effectiveEvaluation_deadline [of ctx _ ev0] effectiveEvaluation_zero [of ctx _ ev0] assms(3,4)
    by (auto split: option.split)
  have val: "(case se_Validate sel of None \<Rightarrow> ret None | Some validate \<Rightarrow> validate ev) v = (Ret None, v)" for v
    using v by (cases "se_Validate sel") auto
  show ?thesis
    using assms(1) live some dl val by (auto simp: selector_validate_def valid_evaluation_def seq_def)
qed

lemma Select_pure:
  assumes valid: "valid_evaluation sel ctx ev aff" "ev = effectiveEvaluation ctx ev0" "ctx_Deadline ctx \<noteq> Some 0"
    "case se_Validate sel of None \<Rightarrow> True | Some f \<Rightarrow> (\<forall>w. f ev w = (Ret None, w))"
    and live: "done_at w ctx = None"
    and cands: "distinct (map cd_Key cands)" "\<forall>c \<in> set cands. cd_Fingerprint c \<noteq> '''' \<and> cd_Route c \<noteq> ''''"
    and pure: "pure_affinity aff M" "\<forall>c \<in> set (map frozen_of cands). snd (E c) = None"
      "\<forall>c \<in> set (map frozen_of cands). contender E aff M c \<longrightarrow> snd (R c) = None \<and> is_fin (fst (R c))"
  shows "\<exists>best score pref. fold (select_step ev E R aff M) (zip [0..<length cands] (map frozen_of cands)) ([], -1, NegInf, False) =
        (map (explain E aff M) (map frozen_of cands), best, score, pref) \<and>
      Select lib zero sel ctx ev0 cands aff w = select_finish lib ev aff (map frozen_of cands)
        ((no_selection zero ev aff)\<lparr>sl_Explanation := map (explain E aff M) (map frozen_of cands)\<rparr>) best
        ((tick ^^ length cands) (tick w)) \<and>
      (best = -1 \<and> (\<forall>c \<in> set (map frozen_of cands). \<not> contender E aff M c) \<or>
       (\<exists>i. best = int i \<and> first_best (contender E aff M) (merit ev R aff M) (map frozen_of cands) i))"
proof -
  let ?cs = "map frozen_of cands"
  have fin: "\<forall>c \<in> set ?cs. contender E aff M c \<longrightarrow> is_fin (fst (R c))" using pure(3) by blast
  from select_fold [OF fin, of ev] obtain best score pref where b:
    "fold (select_step ev E R aff M) (zip [0..<length ?cs] ?cs) ([], -1, NegInf, False) = (map (explain E aff M) ?cs, best, score, pref)"
    and best: "best = -1 \<and> (\<forall>c \<in> set ?cs. \<not> contender E aff M c) \<or>
      (\<exists>i. best = int i \<and> first_best (contender E aff M) (merit ev R aff M) ?cs i)" by blast
  have v: "selector_validate sel ctx ev aff w = (Ret None, tick w)"
    using validate_pure [OF valid(1) live valid(2,3,4)] .
  have f: "freezeCandidates sel cands (tick w) = (Ret (Inr ?cs), tick w)"
    using cands by (simp add: freezeCandidates_pure)
  have live1: "done_at (tick w) ctx = None" using live by simp
  have loop: "early_loop (select_turn sel ctx ev aff) (\<lambda>s. ret (Inr s)) (zip [0..<length ?cs] ?cs) ([], -1, NegInf, False) (tick w) =
      (Ret (Inr (map (explain E aff M) ?cs, best, score, pref)), (tick ^^ length ?cs) (tick w))"
    unfolding select_loop [OF live1 pure] b by simp
  have "Select lib zero sel ctx ev0 cands aff w = select_finish lib ev aff ?cs
      ((no_selection zero ev aff)\<lparr>sl_Explanation := map (explain E aff M) ?cs\<rparr>) best ((tick ^^ length ?cs) (tick w))"
    unfolding Select_def Let_def valid(2) [symmetric] using v f loop by (simp only: seq_Ret option.case sum.case prod.case)
  then show ?thesis using b best by (intro exI [of _ best] exI [of _ score] exI [of _ pref]) simp
qed

end

section \<open>Freshness\<close>

lemma ValidateFreshness_eq:
  "ValidateFreshness selection current w =
     (Ret (if sl_Status selection = Selected \<and> sl_References selection = current \<and>
             bs_Revision (sn_State (rb_Snapshot (sl_Binding selection))) = refs_Fingerprint current
           then None else Some ErrStaleSnapshot), w)"
  by (simp add: ValidateFreshness_def ValidateSnapshotFreshness_def ValidateSnapshot_def)

definition pinned_to :: "refs \<Rightarrow> ('w, 'key, 'scope, 'd, 'r) selection \<Rightarrow> bool" where
  "pinned_to refs s \<longleftrightarrow> sl_References s = refs \<and>
     (sl_Status s = Selected \<longrightarrow> bs_Revision (sn_State (rb_Snapshot (sl_Binding s))) = refs_Fingerprint refs \<and>
       rb_Branch (sl_Binding s) = cd_Key (rb_Binding (sl_Binding s)))"

lemma pinned_no_selection [simp]: "pinned_to (ea_References ev) ((no_selection zero ev aff)\<lparr>sl_Explanation := ex\<rparr>)"
  "pinned_to (ea_References ev) (no_selection zero ev aff)"
  by (simp_all add: pinned_to_def no_selection_def)

lemma select_finish_pinned:
  "returns (\<lambda>(s, e). pinned_to (ea_References ev) s)
     (select_finish lib ev aff frozen ((no_selection zero ev aff)\<lparr>sl_Explanation := ex\<rparr>) best)"
  unfolding select_finish_def Let_def
  by (intro returns_intros returns_seq_any) (auto simp: pinned_to_def no_selection_def NewRouteBinding_def Let_def)

lemma returns_sum:
  "(\<And>a. returns P (f a)) \<Longrightarrow> (\<And>b. returns P (g b)) \<Longrightarrow> returns P (case x of Inl a \<Rightarrow> f a | Inr b \<Rightarrow> g b)"
  by (cases x) auto

lemma Select_pinned:
  "returns (\<lambda>(s, e). pinned_to (ea_References ev0) s) (Select lib zero sel ctx ev0 cands aff)"
proof -
  let ?ev = "effectiveEvaluation ctx ev0"
  have refs: "ea_References ?ev = ea_References ev0" by simp
  note base = pinned_no_selection [where ev = ?ev, unfolded refs]
    and finish = select_finish_pinned [where ev = ?ev, unfolded refs]
  show ?thesis
    unfolding Select_def Let_def
    by (intro returns_seq_any returns_intros returns_sum finish) (simp_all add: base)
qed

section \<open>Guards\<close>

text \<open>Running on past \<open>if err != nil { return err }\<close> means the guarded call returned no error.\<close>

lemma guard_None:
  assumes "seq m (\<lambda>e. case e of Some x \<Rightarrow> ret (Some x) | None \<Rightarrow> k) w = (Ret None, w')"
  obtains w1 where "m w = (Ret None, w1)" "k w1 = (Ret None, w')"
  using assms by (auto elim!: seq_RetE split: option.splits)

lemma guard_result:
  assumes "seq m (\<lambda>e. case e of Some x \<Rightarrow> ret (z, Some x) | None \<Rightarrow> k) w = (Ret (a, None), w')"
  obtains w1 where "m w = (Ret None, w1)" "k w1 = (Ret (a, None), w')"
  using assms by (auto elim!: seq_RetE split: option.splits)

lemma check_None: "(if b then ret (Some x) else k) w = (Ret None, w') \<longleftrightarrow> \<not> b \<and> k w = (Ret None, w')"
  by simp

lemma nil_call_not_Ret [simp]: "nil_call w \<noteq> (Ret a, w')"
  by (simp add: nil_call_def)

text \<open>The identity \<open>ValidatePinned\<close> insists on, and the eligibility it finds.\<close>

definition same_identity :: "('w, 'key, 'scope, 'd, 'r) selection \<Rightarrow> ('key, 'scope, 'd) candidate \<Rightarrow> bool" where
  "same_identity selection current \<longleftrightarrow>
     (let pinned = rb_Binding (sl_Binding selection) in
      rb_Branch (sl_Binding selection) = cd_Key pinned \<and> cd_Key current = cd_Key pinned \<and> cd_Scope current = cd_Scope pinned \<and>
      cd_Route current = cd_Route pinned \<and> cd_Fingerprint current = cd_Fingerprint pinned)"

definition found_eligible ::
  "('w, 'i, 'key, 'scope, 'd, 'r) selector \<Rightarrow> 'i evaluation \<Rightarrow> ('key, 'scope, 'd) candidate \<Rightarrow> bool" where
  "found_eligible sel ev c \<longleftrightarrow> (\<exists>f el v v'. se_Eligible sel = Some f \<and> f ev c v = (Ret (el, None), v') \<and> el_Allowed el)"

lemma pinned_eligible_None:
  "pinned_eligible rv sel ctx ev selection current aff w = (Ret None, w') \<Longrightarrow> found_eligible sel ev current"
  unfolding pinned_eligible_def found_eligible_def
  by (cases "se_Eligible sel") (auto elim!: seq_RetE split: option.splits if_splits, blast)

lemma selector_validate_None:
  "selector_validate sel ctx ev aff w = (Ret None, w') \<Longrightarrow> affinity_validate aff (ea_Now ev) = None"
  unfolding selector_validate_def by (elim guard_None; simp only: check_None; elim conjE guard_None; simp)

lemma ValidatePinned_None:
  assumes "ValidatePinned rv sel ctx ev selection current aff w = (Ret None, w')"
  shows "sl_Status selection = Selected" "sl_References selection = ea_References ev" "same_identity selection current"
    "sameStamp (sl_affinity selection) aff" "affinity_validate aff (ea_Now ev) = None"
    "\<exists>d. found_eligible sel (effectiveEvaluation ctx ev) (current\<lparr>cd_Descriptor := d\<rparr>)"
  using assms [unfolded ValidatePinned_def Let_def]
  by - (elim guard_None; simp only: check_None; elim conjE guard_None;
      auto simp: check_None ValidateFreshness_eq same_identity_def Let_def
        elim!: seq_RetE split: if_splits option.splits dest: pinned_eligible_None selector_validate_None)+

text \<open>Whatever the callbacks do: the candidate \<open>Select\<close> binds was found eligible.\<close>

lemma select_turn_found:
  assumes "select_turn sel ctx ev aff (i, c) (ex, best, score, pref) w = (Ret (Inr (ex', best', score', pref')), w')"
  shows "best' = best \<or> best' = int i \<and> found_eligible sel ev c"
proof (cases "se_Eligible sel")
  case None
  then show ?thesis using assms by (auto simp: select_turn_def elim!: seq_RetE split: option.splits)
next
  case (Some f)
  then show ?thesis
    using assms by (auto simp: select_turn_def found_eligible_def Let_def elim!: seq_RetE split: option.splits if_splits) blast+
qed

lemma select_loop_found:
  assumes "early_loop (select_turn sel ctx ev aff) (\<lambda>s. ret (Inr s)) (zip [0..<length cs] cs) (ex, -1, score, pref) w
    = (Ret (Inr (ex', best, score', pref')), w')"
  shows "best < 0 \<or> (\<exists>i < length cs. best = int i \<and> found_eligible sel ev (cs ! i))"
proof -
  let ?P = "\<lambda>s w. case s of (ex, best, score, pref) \<Rightarrow> best < 0 \<or> (\<exists>i < length cs. best = int i \<and> found_eligible sel ev (cs ! i))"
  have turn: "?P s1 w1" if "x \<in> set (zip [0..<length cs] cs)" "?P s w" "select_turn sel ctx ev aff x s w = (Ret (Inr s1), w1)"
    for x s w s1 w1
  proof -
    obtain i c where x: "x = (i, c)" by (cases x)
    then have "i < length cs" "c = cs ! i" using that(1) by (auto simp: set_zip)
    then show ?thesis using that(2,3) x select_turn_found [of sel ctx ev aff i c] by (cases s; cases s1) force
  qed
  from assms show ?thesis
  proof (cases rule: early_loop_Ret)
    case (through s1 w1)
    then have "?P s1 w1"
      using turns_invariant [of "select_turn sel ctx ev aff" "zip [0..<length cs] cs" "(ex, -1, score, pref)" w s1 w1 ?P] turn
      by auto
    then show ?thesis using through by simp
  next
    case (early pre x post s1 w1)
    then show ?thesis
      by (cases x; cases s1) (auto simp: select_turn_def Let_def nil_call_def elim!: seq_RetE split: option.splits if_splits)
  qed
qed

lemma select_finish_binding:
  assumes "select_finish lib ev aff frozen result best w = (Ret (s, e), w')" "sl_Status result \<noteq> Selected" "sl_Status s = Selected"
  shows "0 \<le> best \<and> rb_Binding (sl_Binding s) = frozen ! nat best"
  using assms by (auto simp: select_finish_def Let_def NewRouteBinding_def elim!: seq_RetE split: if_splits)

lemma Select_found:
  assumes "Select lib zero sel ctx ev0 cands aff w = (Ret (s, e), w')" "sl_Status s = Selected"
  shows "found_eligible sel (effectiveEvaluation ctx ev0) (rb_Binding (sl_Binding s))"
proof -
  let ?ev = "effectiveEvaluation ctx ev0"
  have none: "s \<noteq> no_selection zero ?ev aff" "\<forall>ex. s \<noteq> (no_selection zero ?ev aff)\<lparr>sl_Explanation := ex\<rparr>"
    using assms(2) by (auto simp: no_selection_def)
  obtain ve w1 where "selector_validate sel ctx ?ev aff w = (Ret ve, w1)"
    and k1: "(case ve of Some x \<Rightarrow> ret (no_selection zero ?ev aff, Some x)
      | None \<Rightarrow> seq (freezeCandidates sel cands) (\<lambda>f. case f of
          Inl x \<Rightarrow> ret (no_selection zero ?ev aff, Some x)
        | Inr frozen \<Rightarrow>
            seq (early_loop (select_turn sel ctx ?ev aff) (\<lambda>s. ret (Inr s)) (zip [0..<length frozen] frozen)
                  ([], -1, NegInf, False))
              (\<lambda>v. case v of
                 Inl (explanation, x) \<Rightarrow> ret ((no_selection zero ?ev aff)\<lparr>sl_Explanation := explanation\<rparr>, Some x)
               | Inr (explanation, best, _, _) \<Rightarrow>
                   select_finish lib ?ev aff frozen ((no_selection zero ?ev aff)\<lparr>sl_Explanation := explanation\<rparr>) best))) w1 = (Ret (s, e), w')"
    using assms(1) unfolding Select_def Let_def by (rule seq_RetE)
  have "ve = None" using k1 none by (cases ve) auto
  with k1 obtain frozen w2 where k2: "seq (early_loop (select_turn sel ctx ?ev aff) (\<lambda>s. ret (Inr s)) (zip [0..<length frozen] frozen)
                  ([], -1, NegInf, False))
              (\<lambda>v. case v of
                 Inl (explanation, x) \<Rightarrow> ret ((no_selection zero ?ev aff)\<lparr>sl_Explanation := explanation\<rparr>, Some x)
               | Inr (explanation, best, _, _) \<Rightarrow>
                   select_finish lib ?ev aff frozen ((no_selection zero ?ev aff)\<lparr>sl_Explanation := explanation\<rparr>) best) w2 = (Ret (s, e), w')"
    using none by (auto elim!: seq_RetE split: sum.splits)
  then obtain ex best sc pf w3 where l: "early_loop (select_turn sel ctx ?ev aff) (\<lambda>s. ret (Inr s)) (zip [0..<length frozen] frozen)
                  ([], -1, NegInf, False) w2 = (Ret (Inr (ex, best, sc, pf)), w3)"
    and f: "select_finish lib ?ev aff frozen ((no_selection zero ?ev aff)\<lparr>sl_Explanation := ex\<rparr>) best w3 = (Ret (s, e), w')"
    using none by (auto elim!: seq_RetE split: sum.splits) blast
  have "0 \<le> best" "rb_Binding (sl_Binding s) = frozen ! nat best"
    using select_finish_binding [OF f _ assms(2)] by (auto simp: no_selection_def)
  then show ?thesis using select_loop_found [OF l] by auto
qed

lemma Select_best:
  assumes "pure_selector sel ev F E R" "ev = effectiveEvaluation ctx ev0" "valid_evaluation sel ctx ev aff"
    "ctx_Deadline ctx \<noteq> Some 0" "case se_Validate sel of None \<Rightarrow> True | Some f \<Rightarrow> (\<forall>w. f ev w = (Ret None, w))"
    "done_at w ctx = None"
    "distinct (map cd_Key cands)" "\<forall>c \<in> set cands. cd_Fingerprint c \<noteq> '''' \<and> cd_Route c \<noteq> ''''"
    "pure_affinity aff M" "frozen = map (\<lambda>c. c\<lparr>cd_Descriptor := F (cd_Descriptor c)\<rparr>) cands"
    "\<forall>c \<in> set frozen. snd (E c) = None"
    "\<forall>c \<in> set frozen. contender E aff M c \<longrightarrow> snd (R c) = None \<and> is_fin (fst (R c))"
  shows "\<exists>result w'. Select lib zero sel ctx ev0 cands aff w = (Ret (result, None), w') \<and>
    sl_Explanation result = map (explain E aff M) frozen \<and>
    (if \<exists>c \<in> set frozen. contender E aff M c
     then sl_Status result = Selected \<and> (\<exists>i. first_best (contender E aff M) (merit ev R aff M) frozen i \<and>
       rb_Binding (sl_Binding result) = frozen ! i)
     else sl_Status result = (if af_Strength aff = Required then AffinityUnavailable else NoEligible))"
proof -
  have fr: "frozen = map (pure_selector.frozen_of F) cands"
    using assms(10) pure_selector.frozen_of_def [OF assms(1)] by simp
  from pure_selector.Select_pure [OF assms(1,3,2,4,5,6,7,8,9) assms(11,12) [unfolded fr], of lib zero]
  obtain best where sel: "Select lib zero sel ctx ev0 cands aff w = select_finish lib ev aff frozen
        ((no_selection zero ev aff)\<lparr>sl_Explanation := map (explain E aff M) frozen\<rparr>) best ((tick ^^ length cands) (tick w))"
    and best: "best = -1 \<and> (\<forall>c \<in> set frozen. \<not> contender E aff M c) \<or>
       (\<exists>i. best = int i \<and> first_best (contender E aff M) (merit ev R aff M) frozen i)"
    unfolding fr [symmetric] by blast
  have ar: "\<exists>a. affinity_result aff c now v = (Ret a, v)" for c now v
    using assms(9) by (auto simp: affinity_result_def pure_affinity_def seq_def)
  from best show ?thesis
  proof (elim disjE conjE exE)
    assume none: "best = -1" "\<forall>c \<in> set frozen. \<not> contender E aff M c"
    then show ?thesis unfolding sel by (auto simp: select_finish_def no_selection_def)
  next
    fix i assume i: "best = int i" "first_best (contender E aff M) (merit ev R aff M) frozen i"
    then have "\<exists>c \<in> set frozen. contender E aff M c" by (auto simp: first_best_def)
    moreover obtain a where "affinity_result aff (frozen ! i) (ea_Now ev) ((tick ^^ length cands) (tick w)) =
      (Ret a, (tick ^^ length cands) (tick w))" using ar by blast
    ultimately show ?thesis
      unfolding sel using i by (auto simp: select_finish_def no_selection_def NewRouteBinding_def Let_def seq_def)
  qed
qed

section \<open>Properties\<close>

text \<open>
  C9 (functional). With callbacks that compute, a live context and valid input, \<open>Select\<close> explains every candidate in
  declaration order and returns the best contender: eligible, allowed by a required affinity, preferred by affinity
  before score, the highest score, the first declared among equals. Without a contender it reports that none is
  eligible, or that the required affinity is unavailable.
\<close>

theorem Select_chooses_best:
  assumes "pure_selector sel ev F E R" "ev = effectiveEvaluation ctx ev0" "valid_evaluation sel ctx ev aff"
    "ctx_Deadline ctx \<noteq> Some 0" "case se_Validate sel of None \<Rightarrow> True | Some f \<Rightarrow> (\<forall>w. f ev w = (Ret None, w))"
    "done_at w ctx = None"
    "distinct (map cd_Key cands)" "\<forall>c \<in> set cands. cd_Fingerprint c \<noteq> '''' \<and> cd_Route c \<noteq> ''''"
    "pure_affinity aff M" "frozen = map (\<lambda>c. c\<lparr>cd_Descriptor := F (cd_Descriptor c)\<rparr>) cands"
    "\<forall>c \<in> set frozen. snd (E c) = None"
    "\<forall>c \<in> set frozen. contender E aff M c \<longrightarrow> snd (R c) = None \<and> is_fin (fst (R c))"
  shows "\<exists>result w'. Select lib zero sel ctx ev0 cands aff w = (Ret (result, None), w') \<and>
    sl_Explanation result = map (explain E aff M) frozen \<and>
    (if \<exists>c \<in> set frozen. contender E aff M c
     then sl_Status result = Selected \<and> (\<exists>i. first_best (contender E aff M) (merit ev R aff M) frozen i \<and>
       rb_Binding (sl_Binding result) = frozen ! i)
     else sl_Status result = (if af_Strength aff = Required then AffinityUnavailable else NoEligible))"
  using assms by (rule Select_best)

text \<open>
  A selection made by \<open>Select\<close> is fresh exactly for the references it was made for: validating it
  against any others reports a stale snapshot.
\<close>

theorem selection_fresh_iff:
  assumes "Select lib zero sel ctx ev cands aff w = (Ret (selection, e), w')" "sl_Status selection = Selected"
  shows "ValidateFreshness selection current v =
    (Ret (if current = ea_References ev then None else Some ErrStaleSnapshot), v)"
proof -
  have "pinned_to (ea_References ev) selection" using returnsD [OF Select_pinned assms(1)] by simp
  then show ?thesis using assms(2) by (auto simp: ValidateFreshness_eq pinned_to_def)
qed


lemma Dispatch_selected_ok:
  assumes "Dispatch_selected ctx input selection current (Some check) (Some run) w = (Ret (out, None), w')"
  obtains w1 w2 where "sl_Status selection = Selected" "sl_References selection = current" "check ctx selection w1 = (Ret None, w2)"
    "ctx_err (tick w2) ctx = None" "run ctx input (sl_Binding selection) (tick w2) = (Ret (out, None), w')"
proof -
  have sel: "sl_Status selection = Selected"
    using assms unfolding Dispatch_selected_def by (elim guard_result) (simp split: selection_status.splits)
  from assms show thesis
    unfolding Dispatch_selected_def sel selection_status.case option.case
    by (elim guard_result) (auto simp: ValidateFreshness_eq sel split: if_splits intro: that [OF sel])
qed

text \<open>
  A selection that is dispatched under \<open>ValidatePinned\<close> with success was run on what was selected: its
  references are the current ones and those of the evaluation, the current candidate has the selected key, scope, route
  and fingerprint under an unchanged affinity stamp, it was found eligible again just before, and the context was live.
\<close>

theorem dispatch_runs_the_pinned_candidate:
  assumes "Dispatch_selected ctx input selection refs (Some (\<lambda>c s. ValidatePinned rv sel c ev s current aff)) (Some run) w
    = (Ret (out, None), w')"
  shows "sl_Status selection = Selected \<and> sl_References selection = refs \<and> refs = ea_References ev \<and>
    same_identity selection current \<and> sameStamp (sl_affinity selection) aff \<and>
    (\<exists>d. found_eligible sel (effectiveEvaluation ctx ev) (current\<lparr>cd_Descriptor := d\<rparr>)) \<and>
    (\<exists>v. ctx_err v ctx = None \<and> run ctx input (sl_Binding selection) v = (Ret (out, None), w'))"
proof -
  obtain w1 w2 where "sl_Status selection = Selected" "sl_References selection = refs"
    and p: "ValidatePinned rv sel ctx ev selection current aff w1 = (Ret None, w2)"
    and "ctx_err (tick w2) ctx = None" "run ctx input (sl_Binding selection) (tick w2) = (Ret (out, None), w')"
    using assms by (rule Dispatch_selected_ok)
  then show ?thesis using ValidatePinned_None [OF p] by auto
qed

section \<open>An example\<close>

text \<open>Two candidates with scores 1 and 2 and no affinity; everything is eligible.\<close>

definition demo_selector :: "((nat, unit) world_scheme, nat, nat, nat, nat, nat) selector" where
  "demo_selector = \<lparr>se_Validate = None, se_Freeze = Some ret, se_Eligible = Some (\<lambda>_ _. ret (\<lparr>el_Allowed = True, el_Reason = 0\<rparr>, None)),
     se_Rank = Some (\<lambda>_ c. ret (Fin (rat_of_nat (cd_Key c)), None))\<rparr>"

definition demo_candidate :: "nat \<Rightarrow> (nat, nat, nat) candidate" where
  "demo_candidate k = \<lparr>cd_Key = k, cd_Scope = 0, cd_Route = ''r'', cd_Fingerprint = ''f'', cd_Descriptor = 0\<rparr>"

definition demo_affinity :: "((nat, unit) world_scheme, nat, nat, nat) affinity" where
  "demo_affinity = \<lparr>af_Strength = NoStrength, af_Key = 0, af_Scope = 0, af_TrustedScope = 0, af_ScopePresent = False,
     af_Fingerprint = '''', af_StateFingerprint = '''', af_Expires = 0, af_Compatible = None\<rparr>"

definition demo_evaluation :: "nat evaluation" where
  "demo_evaluation = \<lparr>ea_Input = 0, ea_Now = 5, ea_Deadline = 0,
     ea_References = \<lparr>rf_Input = ''i'', rf_Candidates = ''c'', rf_Policy = ''p'', rf_Estimates = ''''\<rparr>, ea_Seed = 0,
     ea_SelectionID = ''''\<rparr>"

lemmas demo_defs = demo_selector_def demo_candidate_def demo_affinity_def demo_evaluation_def

lemma demo_evaluation_effective: "effectiveEvaluation Background demo_evaluation = demo_evaluation"
  by (simp add: effectiveEvaluation_def)

interpretation demo: pure_selector demo_selector demo_evaluation "\<lambda>d. d" "\<lambda>_. (\<lparr>el_Allowed = True, el_Reason = 0\<rparr>, None)"
  "\<lambda>c. (Fin (rat_of_nat (cd_Key c)), None)"
  by unfold_locales (auto simp: demo_selector_def)

definition demo_matches :: "(nat, nat, nat) candidate \<Rightarrow> bool" where
  "demo_matches c \<longleftrightarrow> cd_Key c = 0 \<and> cd_Scope c = 0"

lemma demo_pure_affinity: "pure_affinity demo_affinity demo_matches"
  by (auto simp: pure_affinity_def affinity_matches_def demo_affinity_def demo_matches_def)

definition demo_lib :: golib where
  "demo_lib = \<lparr>gl_ValueOf = (\<lambda>_. undefined), gl_Sprint = (\<lambda>_. ''''), gl_FormatFloat = (\<lambda>_. '''')\<rparr>"

theorem Select_chooses_best_witness:
  "\<exists>result w'. Select demo_lib (demo_candidate 0) demo_selector Background demo_evaluation
       [demo_candidate 1, demo_candidate 2] demo_affinity idle_world = (Ret (result, None), w') \<and>
     sl_Status result = Selected \<and> rb_Binding (sl_Binding result) = demo_candidate 2"
proof -
  have frozen: "map (\<lambda>c. c\<lparr>cd_Descriptor := cd_Descriptor c\<rparr>) cs = cs" for cs :: "(nat, nat, nat) candidate list" by simp
  have "\<exists>result w'. Select demo_lib (demo_candidate 0) demo_selector Background demo_evaluation
       [demo_candidate 1, demo_candidate 2] demo_affinity idle_world = (Ret (result, None), w') \<and>
    sl_Explanation result = map (explain (\<lambda>_. (\<lparr>el_Allowed = True, el_Reason = 0\<rparr>, None)) demo_affinity demo_matches)
      [demo_candidate 1, demo_candidate 2] \<and>
    (if \<exists>c \<in> set [demo_candidate 1, demo_candidate 2]. contender (\<lambda>_. (\<lparr>el_Allowed = True, el_Reason = 0 :: nat\<rparr>, None)) demo_affinity demo_matches c
     then sl_Status result = Selected \<and>
       (\<exists>i. first_best (contender (\<lambda>_. (\<lparr>el_Allowed = True, el_Reason = 0 :: nat\<rparr>, None)) demo_affinity demo_matches)
           (merit demo_evaluation (\<lambda>c. (Fin (rat_of_nat (cd_Key c)), None)) demo_affinity demo_matches)
           [demo_candidate 1, demo_candidate 2] i \<and>
         rb_Binding (sl_Binding result) = [demo_candidate 1, demo_candidate 2] ! i)
     else sl_Status result = (if af_Strength demo_affinity = Required then AffinityUnavailable else NoEligible))"
    by (rule Select_chooses_best [OF demo.pure_selector_axioms demo_evaluation_effective [symmetric]])
      (auto simp: demo_defs valid_evaluation_def affinity_validate_def demo_pure_affinity [unfolded demo_affinity_def] is_fin_def)
  moreover have "i = 1" if "first_best (contender (\<lambda>_. (\<lparr>el_Allowed = True, el_Reason = 0 :: nat\<rparr>, None)) demo_affinity demo_matches)
      (merit demo_evaluation (\<lambda>c. (Fin (rat_of_nat (cd_Key c)), None)) demo_affinity demo_matches)
      [demo_candidate 1, demo_candidate 2] i" for i
    using that by (auto simp: first_best_def demo_defs contender_def merit_def less_Suc_eq)
  moreover have "\<exists>c \<in> set [demo_candidate 1, demo_candidate 2].
      contender (\<lambda>_. (\<lparr>el_Allowed = True, el_Reason = 0 :: nat\<rparr>, None)) demo_affinity demo_matches c"
    by (auto simp: contender_def demo_affinity_def)
  ultimately show ?thesis by fastforce
qed


theorem selection_fresh_iff_witness:
  "\<exists>result w' (v :: (nat, unit) world_scheme). Select demo_lib (demo_candidate 0) demo_selector Background demo_evaluation
       [demo_candidate 1, demo_candidate 2] demo_affinity idle_world = (Ret (result, None), w') \<and>
     ValidateFreshness result (ea_References demo_evaluation) v = (Ret None, v) \<and>
     ValidateFreshness result ((ea_References demo_evaluation)\<lparr>rf_Policy := ''q''\<rparr>) v = (Ret (Some ErrStaleSnapshot), v)"
proof -
  have "\<exists>result w'. Select demo_lib (demo_candidate 0) demo_selector Background demo_evaluation
       [demo_candidate 1, demo_candidate 2] demo_affinity idle_world = (Ret (result, None), w') \<and>
     sl_Status result = Selected"
    by (simp add: Select_def Let_def effectiveEvaluation_def selector_validate_def freezeCandidates_def freeze_turn_def
        seq_def demo_defs affinity_validate_def select_turn_def allows_def preferred_def selector_rank_def
        betterCandidate_def select_finish_def affinity_result_def ctx_err_live)
  then obtain result w' where s: "Select demo_lib (demo_candidate 0) demo_selector Background demo_evaluation
       [demo_candidate 1, demo_candidate 2] demo_affinity idle_world = (Ret (result, None), w')" "sl_Status result = Selected"
    by blast
  have "(ea_References demo_evaluation)\<lparr>rf_Policy := ''q''\<rparr> \<noteq> ea_References demo_evaluation"
    by (simp add: demo_evaluation_def)
  then show ?thesis using s selection_fresh_iff [OF s, of _ idle_world]
    by (intro exI [of _ result] exI [of _ w'] exI [of _ idle_world]) simp
qed

definition demo_selection :: "((nat, unit) world_scheme, nat, nat, nat, nat) selection" where
  "demo_selection = \<lparr>sl_Status = Selected,
     sl_Binding = NewRouteBinding demo_lib 2 (demo_candidate 2) (chosen_match (demo_candidate 2)) ''i''
       (refs_Fingerprint (ea_References demo_evaluation)),
     sl_References = ea_References demo_evaluation, sl_Explanation = [], sl_Affinity = NoAffinity, sl_Seed = 0,
     sl_SelectionID = '''', sl_affinity = demo_affinity\<rparr>"

theorem dispatch_runs_the_pinned_candidate_witness:
  "\<exists>w' v. Dispatch_selected Background (0 :: nat) demo_selection (ea_References demo_evaluation)
       (Some (\<lambda>c s. ValidatePinned (\<lambda>_. VNil) demo_selector c demo_evaluation s (demo_candidate 2) demo_affinity))
       (Some (\<lambda>_ _ b. ret (cd_Key (rb_Binding b), None))) idle_world = (Ret (2, None), w') \<and>
     same_identity demo_selection (demo_candidate 2) \<and>
     (\<lambda>b. ret (cd_Key (rb_Binding b), None)) (sl_Binding demo_selection) v = (Ret (2 :: nat, None :: err), w')"
proof -
  have "\<exists>w'. Dispatch_selected Background (0 :: nat) demo_selection (ea_References demo_evaluation)
       (Some (\<lambda>c s. ValidatePinned (\<lambda>_. VNil) demo_selector c demo_evaluation s (demo_candidate 2) demo_affinity))
       (Some (\<lambda>_ _ b. ret (cd_Key (rb_Binding b), None))) idle_world = (Ret (2, None), w')"
    by (simp add: Dispatch_selected_def ValidateFreshness_eq ValidatePinned_def Let_def demo_selection_def NewRouteBinding_def
        effectiveEvaluation_def sameStamp_def selector_validate_def pinned_eligible_def allows_def selector_rank_def
        affinity_validate_def demo_defs seq_def ctx_err_live refs_Fingerprint_def)
  then obtain w' where "Dispatch_selected Background (0 :: nat) demo_selection (ea_References demo_evaluation)
       (Some (\<lambda>c s. ValidatePinned (\<lambda>_. VNil) demo_selector c demo_evaluation s (demo_candidate 2) demo_affinity))
       (Some (\<lambda>_ _ b. ret (cd_Key (rb_Binding b), None))) idle_world = (Ret (2, None), w')" by blast
  from this dispatch_runs_the_pinned_candidate [OF this] show ?thesis by auto
qed

end
