(* ===== verification/Model_Policy.thy ===== *)
theory Model_Policy
  imports Policy_Selection
begin

text \<open>
  \<open>policy/model/model.go\<close>: the selector for model candidates, with hard constraints from descriptors and ranking over
  estimates that are still valid.

  Maps are HOL maps (a nil map and an empty one look up alike, and the code never tells them apart for the caller other
  than by looking up), pointers to facts are options, and cloning is the identity on these values. The enumerations are
  bytes: \<open>OtherMetric\<close> and \<open>OtherPolicy\<close> stand for the values past the last name.
\<close>

section \<open>Facts\<close>

definition ErrInvalidConstraints :: gerror where
  "ErrInvalidConstraints = Sentinel ''routery/policy/model: invalid constraints''"

definition ErrEstimateUnavailable :: gerror where
  "ErrEstimateUnavailable = Sentinel ''routery/policy/model: estimate unavailable''"

definition ErrStaleDescriptor :: gerror where
  "ErrStaleDescriptor = Sentinel ''routery/policy/model: stale descriptor''"

datatype model_reason = Eligible | CapabilityMissing | ContextTooSmall | DataPolicyMismatch | QualityMissing | QualityTooLow

datatype metric = FirstFragment | InterFragment | FullResponse | Throughput | OtherMetric nat

definition known_metric :: "metric \<Rightarrow> bool" where
  "known_metric m \<longleftrightarrow> m \<in> {FirstFragment, InterFragment, FullResponse, Throughput}"

record measurement =
  ms_Identity :: string
  ms_Source :: string
  ms_ObservedAt :: int
  ms_ValidUntil :: int
  ms_Window :: int
  ms_Samples :: "64 word"

record cost =
  co_Amount :: float64
  co_Unit :: string
  co_Currency :: string
  co_Measurement :: measurement

record performance =
  pf_Value :: float64
  pf_Unit :: string
  pf_Percentile :: float64
  pf_CacheRegime :: string
  pf_Measurement :: measurement

record quality =
  qu_Task :: string
  qu_Score :: float64
  qu_Measurement :: measurement

record estimates =
  es_Cost :: "cost option"
  es_Performance :: "metric \<Rightarrow> performance option"
  es_Quality :: "quality option"

record 'c descriptor =
  de_Capabilities :: "'c \<Rightarrow> bool option"
  de_ContextWindow :: "64 word"
  de_Residency :: string
  de_RetainsData :: "bool option"
  de_FreshUntil :: int
  de_Estimates :: estimates

record 'c model_request =
  mq_Policy :: string
  mq_Task :: string
  mq_Tokens :: "64 word"
  mq_Required :: "'c list"
  mq_Residencies :: "string list"
  mq_AllowRetention :: bool
  mq_MinimumQuality :: "float64 option"

datatype optional_policy = IgnoreOptional | RejectOptional | DefaultOptional | OtherPolicy nat

record model_config =
  mc_Policy :: string
  mc_Optional :: optional_policy
  mc_RequireCost :: bool
  mc_RequirePerformance :: "metric list"
  mc_Defaults :: estimates

definition zero_estimates :: estimates where
  "zero_estimates = \<lparr>es_Cost = None, es_Performance = Map.empty, es_Quality = None\<rparr>"

section \<open>Validity of estimates\<close>

definition fresh :: "measurement \<Rightarrow> int \<Rightarrow> bool" where
  "fresh m now \<longleftrightarrow> ms_Identity m \<noteq> '''' \<and> ms_Source m \<noteq> '''' \<and> \<not> now < ms_ObservedAt m \<and>
     ms_ObservedAt m \<noteq> 0 \<and> now < ms_ValidUntil m"

definition validNumber :: "float64 \<Rightarrow> bool" where
  "validNumber value \<longleftrightarrow> value \<noteq> NaN \<and> value \<noteq> PosInf \<and> value \<noteq> NegInf \<and> flt_le (Fin 0) value"

definition validCost :: "cost option \<Rightarrow> int \<Rightarrow> bool" where
  "validCost cost now \<longleftrightarrow> (case cost of None \<Rightarrow> False
     | Some c \<Rightarrow> co_Unit c \<noteq> '''' \<and> validNumber (co_Amount c) \<and> fresh (co_Measurement c) now)"

definition validQuality :: "quality option \<Rightarrow> int \<Rightarrow> bool" where
  "validQuality quality now \<longleftrightarrow> (case quality of None \<Rightarrow> False
     | Some q \<Rightarrow> qu_Task q \<noteq> '''' \<and> validNumber (qu_Score q) \<and> flt_le (qu_Score q) (Fin 1) \<and>
         ms_Samples (qu_Measurement q) > 0 \<and> fresh (qu_Measurement q) now)"

definition validPerformance :: "performance \<Rightarrow> int \<Rightarrow> bool" where
  "validPerformance value now \<longleftrightarrow> validNumber (pf_Value value) \<and> pf_Unit value \<noteq> '''' \<and> validNumber (pf_Percentile value) \<and>
     flt_le (pf_Percentile value) (Fin 100) \<and> pf_CacheRegime value \<noteq> '''' \<and> ms_Samples (pf_Measurement value) > 0 \<and>
     ms_Window (pf_Measurement value) > 0 \<and> fresh (pf_Measurement value) now"

definition validTaskQuality :: "quality option \<Rightarrow> int \<Rightarrow> string \<Rightarrow> bool" where
  "validTaskQuality quality now task \<longleftrightarrow>
     task \<noteq> '''' \<and> validQuality quality now \<and> (case quality of None \<Rightarrow> False | Some q \<Rightarrow> qu_Task q = task)"

definition cloneEstimates :: "estimates \<Rightarrow> estimates" where
  "cloneEstimates e = \<lparr>es_Cost = (case es_Cost e of None \<Rightarrow> None | Some c \<Rightarrow> Some c),
     es_Performance = es_Performance e,
     es_Quality = (case es_Quality e of None \<Rightarrow> None | Some q \<Rightarrow> Some q)\<rparr>"

definition withDefaults :: "estimates \<Rightarrow> estimates \<Rightarrow> int \<Rightarrow> string \<Rightarrow> estimates" where
  "withDefaults effective declared now task =
     (let defaults = cloneEstimates declared in
      \<lparr>es_Cost = (if es_Cost effective = None \<and> validCost (es_Cost defaults) now then es_Cost defaults else es_Cost effective),
       es_Performance = (\<lambda>m. case es_Performance effective m of
           Some p \<Rightarrow> Some p
         | None \<Rightarrow> (case es_Performance defaults m of
             Some p \<Rightarrow> if known_metric m \<and> validPerformance p now then Some p else None
           | None \<Rightarrow> None)),
       es_Quality = (if es_Quality effective = None \<and> validTaskQuality (es_Quality defaults) now task
          then es_Quality defaults else es_Quality effective)\<rparr>)"

definition effectiveEstimates :: "estimates \<Rightarrow> model_config \<Rightarrow> int \<Rightarrow> string \<Rightarrow> estimates \<times> err" where
  "effectiveEstimates est config now task =
     (let cloned = cloneEstimates est;
          sanitized = \<lparr>es_Cost = (if \<not> validCost (es_Cost cloned) now then None else es_Cost cloned),
            es_Performance = (\<lambda>m. case es_Performance cloned m of
                Some p \<Rightarrow> if \<not> known_metric m \<or> \<not> validPerformance p now then None else Some p
              | None \<Rightarrow> None),
            es_Quality = (if \<not> validTaskQuality (es_Quality cloned) now task then None else es_Quality cloned)\<rparr>;
          effective = (if mc_Optional config = DefaultOptional
            then withDefaults sanitized (mc_Defaults config) now task else sanitized)
      in if mc_Optional config \<noteq> IgnoreOptional \<and> mc_RequireCost config \<and> es_Cost effective = None
         then (zero_estimates, Some ErrEstimateUnavailable)
         else if mc_Optional config \<noteq> IgnoreOptional \<and> list_ex (\<lambda>m. es_Performance effective m = None) (mc_RequirePerformance config)
         then (zero_estimates, Some ErrEstimateUnavailable)
         else (effective, None))"

section \<open>Hard constraints\<close>

definition zero_eligibility :: "model_reason eligibility" where
  "zero_eligibility = \<lparr>el_Allowed = False, el_Reason = Eligible\<rparr>"

definition eligibility_of :: "'c model_request evaluation \<Rightarrow> 'c descriptor \<Rightarrow> model_reason eligibility \<times> err" where
  "eligibility_of ev d =
     (let input = ea_Input ev in
      if de_FreshUntil d = 0 \<or> \<not> ea_Now ev < de_FreshUntil d then (zero_eligibility, Some ErrStaleDescriptor)
      else if list_ex (\<lambda>c. de_Capabilities d c \<noteq> Some True) (mq_Required input)
      then (\<lparr>el_Allowed = False, el_Reason = CapabilityMissing\<rparr>, None)
      else if mq_Tokens input > de_ContextWindow d then (\<lparr>el_Allowed = False, el_Reason = ContextTooSmall\<rparr>, None)
      else if (mq_Residencies input \<noteq> [] \<and> de_Residency d \<notin> set (mq_Residencies input)) \<or>
              (\<not> mq_AllowRetention input \<and> (de_RetainsData d = None \<or> de_RetainsData d = Some True))
      then (\<lparr>el_Allowed = False, el_Reason = DataPolicyMismatch\<rparr>, None)
      else case mq_MinimumQuality input of
        Some minimum \<Rightarrow>
          (case es_Quality (de_Estimates d) of
             None \<Rightarrow> (\<lparr>el_Allowed = False, el_Reason = QualityMissing\<rparr>, None)
           | Some q \<Rightarrow>
               if \<not> validQuality (Some q) (ea_Now ev) \<or> qu_Task q \<noteq> mq_Task input
               then (\<lparr>el_Allowed = False, el_Reason = QualityMissing\<rparr>, None)
               else if flt_less (qu_Score q) minimum then (\<lparr>el_Allowed = False, el_Reason = QualityTooLow\<rparr>, None)
               else (\<lparr>el_Allowed = True, el_Reason = Eligible\<rparr>, None))
      | None \<Rightarrow> (\<lparr>el_Allowed = True, el_Reason = Eligible\<rparr>, None))"

section \<open>The selector\<close>

definition model_validate :: "model_config \<Rightarrow> bool \<Rightarrow> 'c model_request evaluation \<Rightarrow> err" where
  "model_validate config has_rank ev =
     (if \<not> has_rank \<or> mc_Policy config = '''' \<or> mq_Policy (ea_Input ev) \<noteq> mc_Policy config \<or>
         (case mc_Optional config of OtherPolicy _ \<Rightarrow> True | _ \<Rightarrow> False)
      then Some ErrInvalidConstraints
      else if (case mq_MinimumQuality (ea_Input ev) of
                 None \<Rightarrow> False
               | Some minimum \<Rightarrow> mq_Task (ea_Input ev) = '''' \<or> \<not> validNumber minimum \<or> flt_less (Fin 1) minimum)
      then Some ErrInvalidConstraints
      else if list_ex (\<lambda>m. \<not> known_metric m) (mc_RequirePerformance config) then Some ErrInvalidConstraints
      else None)"

definition freeze_descriptor :: "'c descriptor \<Rightarrow> 'c descriptor" where
  "freeze_descriptor d = d\<lparr>de_Estimates := cloneEstimates (de_Estimates d),
     de_RetainsData := (case de_RetainsData d of None \<Rightarrow> None | Some r \<Rightarrow> Some r)\<rparr>"

definition model_Selector ::
  "model_config \<Rightarrow>
   ('c model_request evaluation \<Rightarrow> ('key, 'scope, 'c descriptor) candidate \<Rightarrow> ('w, float64 \<times> err) proc) option \<Rightarrow>
   ('w, 'c model_request, 'key, 'scope, 'c descriptor, model_reason) selector" where
  "model_Selector config0 rank =
     (let config = config0\<lparr>mc_Defaults := cloneEstimates (mc_Defaults config0)\<rparr> in
      \<lparr>se_Validate = Some (\<lambda>ev. ret (model_validate config (rank \<noteq> None) ev)),
       se_Freeze = Some (\<lambda>d. ret (freeze_descriptor d)),
       se_Eligible = Some (\<lambda>ev c. ret (eligibility_of ev (cd_Descriptor c))),
       se_Rank = Some (\<lambda>ev c.
         (case effectiveEstimates (de_Estimates (cd_Descriptor c)) config (ea_Now ev) (mq_Task (ea_Input ev)) of
            (_, Some x) \<Rightarrow> ret (Fin 0, Some x)
          | (est, None) \<Rightarrow> (case rank of
              None \<Rightarrow> nil_call
            | Some rk \<Rightarrow> rk ev (c\<lparr>cd_Descriptor := (cd_Descriptor c)\<lparr>de_Estimates := est\<rparr>\<rparr>))))\<rparr>)"

section \<open>Cloning\<close>

lemma cloneEstimates_id [simp]: "cloneEstimates e = e"
  by (cases e) (simp add: cloneEstimates_def split: option.split)

lemma freeze_descriptor_id [simp]: "freeze_descriptor d = d"
  by (cases d) (simp add: freeze_descriptor_def split: option.split)

section \<open>What the selector guarantees\<close>

text \<open>\<open>meets ev d\<close>: the descriptor satisfies every hard constraint of the request, on facts that are fresh at \<open>ea_Now\<close>.\<close>

definition meets :: "'c model_request evaluation \<Rightarrow> 'c descriptor \<Rightarrow> bool" where
  "meets ev d \<longleftrightarrow>
     ea_Now ev < de_FreshUntil d \<and> (\<forall>c \<in> set (mq_Required (ea_Input ev)). de_Capabilities d c = Some True) \<and>
     mq_Tokens (ea_Input ev) \<le> de_ContextWindow d \<and>
     (mq_Residencies (ea_Input ev) = [] \<or> de_Residency d \<in> set (mq_Residencies (ea_Input ev))) \<and>
     (mq_AllowRetention (ea_Input ev) \<or> de_RetainsData d = Some False) \<and>
     (case mq_MinimumQuality (ea_Input ev) of
        None \<Rightarrow> True
      | Some minimum \<Rightarrow> \<exists>q. es_Quality (de_Estimates d) = Some q \<and> validQuality (Some q) (ea_Now ev) \<and>
          qu_Task q = mq_Task (ea_Input ev) \<and> \<not> flt_less (qu_Score q) minimum)"

lemma eligibility_allowed: "el_Allowed (fst (eligibility_of ev d)) \<longleftrightarrow> de_FreshUntil d \<noteq> 0 \<and> meets ev d"
  unfolding eligibility_of_def meets_def Let_def
  by (cases "mq_MinimumQuality (ea_Input ev)"; cases "es_Quality (de_Estimates d)"; cases "de_RetainsData d")
    (auto simp: zero_eligibility_def list_ex_iff not_less split: if_splits)

lemma found_eligible_model:
  "found_eligible (model_Selector config rank) ev c \<Longrightarrow> meets ev (cd_Descriptor c)"
  unfolding found_eligible_def model_Selector_def Let_def using eligibility_allowed [of ev "cd_Descriptor c"] by auto

text \<open>What the rank callback computes on, when it computes.\<close>

definition model_rank ::
  "model_config \<Rightarrow> ('c model_request evaluation \<Rightarrow> ('key, 'scope, 'c descriptor) candidate \<Rightarrow> float64 \<times> err) \<Rightarrow>
   'c model_request evaluation \<Rightarrow> ('key, 'scope, 'c descriptor) candidate \<Rightarrow> float64 \<times> err" where
  "model_rank config rk ev c =
     (case effectiveEstimates (de_Estimates (cd_Descriptor c)) config (ea_Now ev) (mq_Task (ea_Input ev)) of
        (_, Some x) \<Rightarrow> (Fin 0, Some x)
      | (est, None) \<Rightarrow> rk ev (c\<lparr>cd_Descriptor := (cd_Descriptor c)\<lparr>de_Estimates := est\<rparr>\<rparr>))"

interpretation models: pure_selector
  "model_Selector config (Some (\<lambda>ev c. ret (rk ev c))) ::
     (('h, 'x) world_scheme, 'c model_request, 'key, 'scope, 'c descriptor, model_reason) selector"
  ev freeze_descriptor "\<lambda>c. eligibility_of ev (cd_Descriptor c)" "model_rank config rk ev"
  for config rk ev
  by unfold_locales
    (simp_all add: model_Selector_def Let_def model_rank_def split: prod.split option.split)

text \<open>\<open>sound_estimates\<close>: only valid estimates of known metrics, and quality for the task at hand.\<close>

definition sound_estimates :: "int \<Rightarrow> string \<Rightarrow> estimates \<Rightarrow> bool" where
  "sound_estimates now task e \<longleftrightarrow> (es_Cost e = None \<or> validCost (es_Cost e) now) \<and>
     (es_Quality e = None \<or> validTaskQuality (es_Quality e) now task) \<and>
     (\<forall>m p. es_Performance e m = Some p \<longrightarrow> known_metric m \<and> validPerformance p now)"

lemma withDefaults_sound:
  assumes "sound_estimates now task e"
  shows "sound_estimates now task (withDefaults e d now task)"
  using assms unfolding sound_estimates_def withDefaults_def Let_def by (auto split: option.splits if_splits)

lemma effectiveEstimates_cases:
  assumes "effectiveEstimates est config now task = (e, None)"
  obtains s where "sound_estimates now task s"
    "e = (if mc_Optional config = DefaultOptional then withDefaults s (mc_Defaults config) now task else s)"
    "mc_Optional config = IgnoreOptional \<or> \<not> (mc_RequireCost config \<and> es_Cost e = None)"
    "mc_Optional config = IgnoreOptional \<or> \<not> list_ex (\<lambda>m. es_Performance e m = None) (mc_RequirePerformance config)"
proof -
  let ?s = "\<lparr>es_Cost = (if \<not> validCost (es_Cost est) now then None else es_Cost est),
            es_Performance = (\<lambda>m. case es_Performance est m of
                Some p \<Rightarrow> if \<not> known_metric m \<or> \<not> validPerformance p now then None else Some p
              | None \<Rightarrow> None),
            es_Quality = (if \<not> validTaskQuality (es_Quality est) now task then None else es_Quality est)\<rparr>"
  have "sound_estimates now task ?s"
    unfolding sound_estimates_def by (auto split: option.splits if_splits)
  then show thesis
    using assms that [of ?s] unfolding effectiveEstimates_def Let_def cloneEstimates_id
    by (simp only: prod.inject split: if_splits) auto
qed

lemma effectiveEstimates_sound:
  assumes "effectiveEstimates est config now task = (e, None)"
  shows "sound_estimates now task e \<and> (mc_Optional config = IgnoreOptional \<or>
    (mc_RequireCost config \<longrightarrow> es_Cost e \<noteq> None) \<and> (\<forall>m \<in> set (mc_RequirePerformance config). es_Performance e m \<noteq> None))"
  using assms by (cases rule: effectiveEstimates_cases) (auto simp: list_ex_iff intro: withDefaults_sound split: if_splits)


section \<open>Properties\<close>

text \<open>
  C10 (safety). Whatever the rank callback and the affinity do, a selection that the model selector reports as selected is
  bound to a candidate whose descriptor meets every hard constraint of the request: fresh at the evaluation's time, every
  required capability present, a context window for the tokens, an allowed residency, no unwanted or unknown retention,
  and, for a minimum quality, a valid measurement of the descriptor itself for the request's task at or above it.
\<close>

theorem model_selection_meets_constraints:
  assumes "Select lib zero (model_Selector config rank) ctx ev cands aff w = (Ret (selection, e), w')"
    "sl_Status selection = Selected"
  shows "meets (effectiveEvaluation ctx ev) (cd_Descriptor (rb_Binding (sl_Binding selection)))"
  using Select_found [OF assms] by (rule found_eligible_model)

text \<open>
  The model selector's rank either reports that a required estimate is unavailable or calls the host's rank
  on the same candidate with estimates that are all valid at the evaluation's time, for known metrics and for the task of
  the request, and that hold every estimate the configuration requires.
\<close>

theorem rank_sees_valid_estimates:
  "\<exists>r est. se_Rank (model_Selector config (Some rk)) = Some r \<and> sound_estimates (ea_Now ev) (mq_Task (ea_Input ev)) est \<and>
     (r ev c = ret (Fin 0, Some ErrEstimateUnavailable) \<or>
      r ev c = rk ev (c\<lparr>cd_Descriptor := (cd_Descriptor c)\<lparr>de_Estimates := est\<rparr>\<rparr>) \<and>
      (mc_Optional config = IgnoreOptional \<or> (mc_RequireCost config = False \<or> (\<exists>x. es_Cost est = Some x)) \<and>
         set (mc_RequirePerformance config) \<subseteq> dom (es_Performance est)))"
proof -
  let ?eff = "effectiveEstimates (de_Estimates (cd_Descriptor c)) config (ea_Now ev) (mq_Task (ea_Input ev))"
  have z: "sound_estimates (ea_Now ev) (mq_Task (ea_Input ev)) zero_estimates"
    by (simp add: sound_estimates_def zero_estimates_def)
  show ?thesis
  proof (cases "snd ?eff")
    case None
    then obtain est where e: "?eff = (est, None)" by (cases ?eff) simp
    show ?thesis using effectiveEstimates_sound [OF e] e
      by (intro exI conjI [rotated]) (auto simp: model_Selector_def Let_def)
  next
    case (Some x)
    then have "x = ErrEstimateUnavailable" by (auto simp: effectiveEstimates_def Let_def split: if_splits)
    with Some obtain est where e: "?eff = (est, Some ErrEstimateUnavailable)" by (cases ?eff) simp
    show ?thesis using z e by (intro exI [of _ zero_estimates] exI conjI [rotated]) (auto simp: model_Selector_def Let_def)
  qed
qed

section \<open>An example\<close>

definition demo_descriptor :: "64 word \<Rightarrow> nat descriptor" where
  "demo_descriptor window = \<lparr>de_Capabilities = [1 \<mapsto> True], de_ContextWindow = window, de_Residency = ''eu'',
     de_RetainsData = Some False, de_FreshUntil = 9, de_Estimates = zero_estimates\<rparr>"

definition demo_model :: "nat \<Rightarrow> 64 word \<Rightarrow> (nat, nat, nat descriptor) candidate" where
  "demo_model k window = \<lparr>cd_Key = k, cd_Scope = 0, cd_Route = ''r'', cd_Fingerprint = ''f'',
     cd_Descriptor = demo_descriptor window\<rparr>"

definition demo_request :: "nat model_request evaluation" where
  "demo_request = \<lparr>ea_Input = \<lparr>mq_Policy = ''p'', mq_Task = '''', mq_Tokens = 10, mq_Required = [1], mq_Residencies = [''eu''],
       mq_AllowRetention = False, mq_MinimumQuality = None\<rparr>, ea_Now = 5, ea_Deadline = 0,
     ea_References = \<lparr>rf_Input = ''i'', rf_Candidates = ''c'', rf_Policy = ''p'', rf_Estimates = ''''\<rparr>, ea_Seed = 0,
     ea_SelectionID = ''''\<rparr>"

definition demo_config :: model_config where
  "demo_config = \<lparr>mc_Policy = ''p'', mc_Optional = IgnoreOptional, mc_RequireCost = False, mc_RequirePerformance = [],
     mc_Defaults = zero_estimates\<rparr>"

definition model_affinity :: "((nat, unit) world_scheme, nat, nat, nat descriptor) affinity" where
  "model_affinity = \<lparr>af_Strength = NoStrength, af_Key = 0, af_Scope = 0, af_TrustedScope = 0, af_ScopePresent = False,
     af_Fingerprint = '''', af_StateFingerprint = '''', af_Expires = 0, af_Compatible = None\<rparr>"

lemmas demo_model_defs = demo_descriptor_def demo_model_def demo_request_def demo_config_def

theorem model_selection_meets_constraints_witness:
  "\<exists>selection w'. Select demo_lib (demo_model 0 0) (model_Selector demo_config (Some (\<lambda>_ c. ret (Fin 1, None)))) Background
       demo_request [demo_model 1 4, demo_model 2 32] model_affinity idle_world = (Ret (selection, None), w') \<and>
     sl_Status selection = Selected \<and> rb_Binding (sl_Binding selection) = demo_model 2 32 \<and>
     meets demo_request (cd_Descriptor (rb_Binding (sl_Binding selection)))"
proof -
  have "\<exists>selection w'. Select demo_lib (demo_model 0 0) (model_Selector demo_config (Some (\<lambda>_ c. ret (Fin 1, None)))) Background
       demo_request [demo_model 1 4, demo_model 2 32] model_affinity idle_world = (Ret (selection, None), w') \<and>
     sl_Status selection = Selected \<and> rb_Binding (sl_Binding selection) = demo_model 2 32"
    by (simp add: Select_def Let_def effectiveEvaluation_def selector_validate_def freezeCandidates_def freeze_turn_def
        seq_def demo_model_defs model_affinity_def affinity_validate_def select_turn_def allows_def preferred_def selector_rank_def
        betterCandidate_def select_finish_def affinity_result_def ctx_err_live model_Selector_def model_validate_def
        eligibility_of_def effectiveEstimates_def zero_estimates_def NewRouteBinding_def)
  then show ?thesis
    using model_selection_meets_constraints [where ev = demo_request and ctx = Background]
    by (fastforce simp: effectiveEvaluation_def)
qed

end
