(* ===== verification/Diverging.thy ===== *)
theory Diverging
  imports Loops
begin

text \<open>
  Procedures that may not return: \<open>None\<close> is a call that runs forever. A \<open>for\<close> loop without a condition is
  \<open>loop_forever\<close>, the least solution of its unfolding; what its runs keep is shown by induction on that
  fixpoint, and that it ends by a measure every turn that goes on decreases.
\<close>

type_synonym ('w, 'a) lproc = "'w \<Rightarrow> ('a outcome \<times> 'w) option"

definition lift :: "('w, 'a) proc \<Rightarrow> ('w, 'a) lproc" where
  "lift m w = Some (m w)"

definition lseq :: "('w, 'a) lproc \<Rightarrow> ('a \<Rightarrow> ('w, 'b) lproc) \<Rightarrow> ('w, 'b) lproc" where
  "lseq m f w =
     (case m w of None \<Rightarrow> None | Some (Ret a, w1) \<Rightarrow> f a w1 | Some (Panic, w1) \<Rightarrow> Some (Panic, w1))"

partial_function (option) loop_forever :: "('s \<Rightarrow> ('w, 'o + 's) lproc) \<Rightarrow> 's \<Rightarrow> ('w, 'o) lproc" where
  "loop_forever turn s w =
     (case turn s w of
        None \<Rightarrow> None
      | Some (Panic, w1) \<Rightarrow> Some (Panic, w1)
      | Some (Ret v, w1) \<Rightarrow> (case v of Inl out \<Rightarrow> Some (Ret out, w1) | Inr s1 \<Rightarrow> loop_forever turn s1 w1))"

text \<open>Go's \<open>defer\<close>: \<open>d\<close> runs after \<open>m\<close> also when \<open>m\<close> panics.\<close>

definition with_defer :: "('w, 'a) proc \<Rightarrow> ('w, unit) proc \<Rightarrow> ('w, 'a) proc" where
  "with_defer m d w = (case m w of (r, w1) \<Rightarrow> (case d w1 of (Ret _, w2) \<Rightarrow> (r, w2) | (Panic, w2) \<Rightarrow> (Panic, w2)))"

definition lwith_defer :: "('w, 'a) lproc \<Rightarrow> ('w, unit) proc \<Rightarrow> ('w, 'a) lproc" where
  "lwith_defer m d w = (case m w of None \<Rightarrow> None
     | Some (r, w1) \<Rightarrow> Some (case d w1 of (Ret _, w2) \<Rightarrow> (r, w2) | (Panic, w2) \<Rightarrow> (Panic, w2)))"

section \<open>Evaluation\<close>

lemma lift_apply [simp]: "lift m w = Some (m w)"
  by (simp add: lift_def)

lemma lseq_None [simp]: "m w = None \<Longrightarrow> lseq m f w = None"
  by (simp add: lseq_def)

lemma lseq_Some_Ret [simp]: "m w = Some (Ret a, w1) \<Longrightarrow> lseq m f w = f a w1"
  by (simp add: lseq_def)

lemma lseq_Some_Panic [simp]: "m w = Some (Panic, w1) \<Longrightarrow> lseq m f w = Some (Panic, w1)"
  by (simp add: lseq_def)

lemma lseq_RetE:
  assumes "lseq m f w = Some (Ret b, w2)"
  obtains a w1 where "m w = Some (Ret a, w1)" "f a w1 = Some (Ret b, w2)"
  using assms by (auto simp: lseq_def split: option.splits prod.splits outcome.splits)

lemma lseq_NoneE:
  assumes "lseq m f w = None"
  obtains (first) "m w = None" | (second) a w1 where "m w = Some (Ret a, w1)" "f a w1 = None"
  using assms by (auto simp: lseq_def split: option.splits prod.splits outcome.splits)

lemma lseq_cases:
  assumes "lseq m f w = Some (r, w2)"
  obtains (panic) "m w = Some (Panic, w2)" "r = Panic" | (ret) a w1 where "m w = Some (Ret a, w1)" "f a w1 = Some (r, w2)"
  using assms by (auto simp: lseq_def split: option.splits prod.splits outcome.splits)

lemma lseq_same:
  assumes "lseq m f w = Some (Ret x, w')" "\<And>a w1. f a w1 = Some (Ret x, w') \<Longrightarrow> g a w1 = Some (Ret x, w')"
  shows "lseq m g w = Some (Ret x, w')"
  using assms by (auto elim!: lseq_RetE)

lemma with_defer_Ret:
  assumes "with_defer m d w = (Ret a, w2)"
  obtains w1 where "m w = (Ret a, w1)" "d w1 = (Ret (), w2)"
  using assms by (auto simp: with_defer_def split: prod.splits outcome.splits)

lemma lwith_defer_Ret:
  assumes "lwith_defer m d w = Some (Ret a, w2)"
  obtains w1 where "m w = Some (Ret a, w1)" "d w1 = (Ret (), w2)"
  using assms by (auto simp: lwith_defer_def split: prod.splits outcome.splits option.splits)

text \<open>
  A run of the loop: whatever holds before and is kept by the turns that go on holds before its last turn, which returned
  or panicked.
\<close>

inductive goes_on :: "('s \<Rightarrow> ('w, 'o + 's) lproc) \<Rightarrow> 's \<Rightarrow> 'w \<Rightarrow> 's \<Rightarrow> 'w \<Rightarrow> bool" for turn where
  goes_refl: "goes_on turn s w s w"
| goes_turn: "turn s w = Some (Ret (Inr s1), w1) \<Longrightarrow> goes_on turn s1 w1 s2 w2 \<Longrightarrow> goes_on turn s w s2 w2"

lemma loop_forever_ends:
  assumes "loop_forever turn s w = Some y"
  shows "\<exists>s1 w1. goes_on turn s w s1 w1 \<and>
    (\<exists>w'. turn s1 w1 = Some (Panic, w') \<and> y = (Panic, w') \<or> (\<exists>out. turn s1 w1 = Some (Ret (Inl out), w') \<and> y = (Ret out, w')))"
  using assms
proof (rule loop_forever.raw_induct [rotated], goal_cases)
  case (1 rec turn s w y)
  obtain r w1 where t: "turn s w = Some (r, w1)" using 1(2) by (cases "turn s w") auto
  consider "r = Panic" | out where "r = Ret (Inl out)" | s1 where "r = Ret (Inr s1)"
    by (metis outcome.exhaust sum.exhaust)
  then show ?case
  proof cases
    case 3
    then have "rec turn s1 w1 = Some y" using 1(2) t by simp
    from 1(1) [OF this] show ?thesis using t 3 by (blast intro: goes_turn)
  qed (use 1(2) t in \<open>auto intro: goes_refl\<close>)
qed

lemma goes_on_keeps:
  assumes "goes_on turn s w s1 w1" "P s w" "\<And>s w s1 w1. P s w \<Longrightarrow> turn s w = Some (Ret (Inr s1), w1) \<Longrightarrow> P s1 w1"
  shows "P s1 w1"
  using assms by (induction rule: goes_on.induct) blast+

lemma loop_forever_run:
  assumes "loop_forever turn s w = Some (r, w')" "P s w"
    and "\<And>s w s1 w1. P s w \<Longrightarrow> turn s w = Some (Ret (Inr s1), w1) \<Longrightarrow> P s1 w1"
  obtains (panics) s1 w1 where "P s1 w1" "turn s1 w1 = Some (Panic, w')" "r = Panic"
  | (returns) s1 w1 out where "P s1 w1" "turn s1 w1 = Some (Ret (Inl out), w')" "r = Ret out"
proof -
  obtain s1 w1 where g: "goes_on turn s w s1 w1"
    and "turn s1 w1 = Some (Panic, w') \<and> r = Panic \<or> (\<exists>out. turn s1 w1 = Some (Ret (Inl out), w') \<and> r = Ret out)"
    using loop_forever_ends [OF assms(1)] by auto
  moreover have "P s1 w1" using g assms(2,3) by (rule goes_on_keeps)
  ultimately show thesis using panics returns by blast
qed

section \<open>What runs keep\<close>

context frame_relation
begin

definition lkeeps :: "('w, 'a) lproc \<Rightarrow> bool" where
  "lkeeps m \<longleftrightarrow> (\<forall>w r w'. m w = Some (r, w') \<longrightarrow> R w w')"

lemma lkeepsI: "(\<And>w r w'. m w = Some (r, w') \<Longrightarrow> R w w') \<Longrightarrow> lkeeps m"
  by (simp add: lkeeps_def)

lemma lkeepsD: "lkeeps m \<Longrightarrow> m w = Some (r, w') \<Longrightarrow> R w w'"
  by (simp add: lkeeps_def)

lemma keeps_at: "keeps m \<Longrightarrow> R w (snd (m w))"
  by (simp add: keeps_def)

lemma lkeeps_lift: "keeps m \<Longrightarrow> lkeeps (lift m)"
  by (auto simp: lkeeps_def dest: keepsD)

lemma lkeeps_lseq:
  assumes "lkeeps m" "\<And>a. lkeeps (f a)"
  shows "lkeeps (lseq m f)"
proof (rule lkeepsI)
  fix w r w' assume "lseq m f w = Some (r, w')"
  then show "R w w'"
    by (cases rule: lseq_cases) (use assms in \<open>auto dest!: lkeepsD intro: frame_trans\<close>)
qed

lemma lkeeps_if: "(b \<Longrightarrow> lkeeps m) \<Longrightarrow> (\<not> b \<Longrightarrow> lkeeps n) \<Longrightarrow> lkeeps (if b then m else n)"
  by simp

lemma lkeeps_option:
  "(x = None \<Longrightarrow> lkeeps m) \<Longrightarrow> (\<And>a. x = Some a \<Longrightarrow> lkeeps (f a)) \<Longrightarrow> lkeeps (case x of None \<Rightarrow> m | Some a \<Rightarrow> f a)"
  by (cases x) auto

lemma lkeeps_prod: "(\<And>a b. x = (a, b) \<Longrightarrow> lkeeps (f a b)) \<Longrightarrow> lkeeps (case x of (a, b) \<Rightarrow> f a b)"
  by (cases x) auto

lemma keeps_with_defer: "keeps m \<Longrightarrow> keeps d \<Longrightarrow> keeps (with_defer m d)"
  by (rule keepsI) (auto simp: with_defer_def split: prod.splits outcome.splits dest: keepsD intro: frame_trans)

lemma lkeeps_with_defer: "lkeeps m \<Longrightarrow> keeps d \<Longrightarrow> lkeeps (lwith_defer m d)"
  by (rule lkeepsI)
    (auto simp: lwith_defer_def split: prod.splits outcome.splits option.splits dest!: lkeepsD keepsD intro: frame_trans)

lemma lkeeps_loop_forever:
  assumes "\<And>s. lkeeps (turn s)"
  shows "lkeeps (loop_forever turn s)"
proof (rule lkeepsI)
  fix w r w' assume "loop_forever turn s w = Some (r, w')"
  then show "R w w'"
    by (cases rule: loop_forever_run [where P = "\<lambda>_ v. R w v"])
      (use assms in \<open>auto dest!: lkeepsD intro: frame_refl frame_trans\<close>)
qed

end

section \<open>Loops that end\<close>

lemma loop_forever_returns:
  assumes "I s w"
    and "\<And>s w. I s w \<Longrightarrow> turn s w \<noteq> None"
    and "\<And>s w s1 w1. I s w \<Longrightarrow> turn s w = Some (Ret (Inr s1), w1) \<Longrightarrow> I s1 w1 \<and> \<mu> s1 w1 < (\<mu> s w :: nat)"
  shows "\<exists>y. loop_forever turn s w = Some y"
  using assms(1)
proof (induction "\<mu> s w" arbitrary: s w rule: less_induct)
  case less
  obtain r w1 where t: "turn s w = Some (r, w1)" using assms(2) [OF less.prems] by auto
  show ?case
  proof (cases r)
    case (Ret v)
    then show ?thesis
      using t less.hyps assms(3) [OF less.prems] by (cases v) (auto simp: loop_forever.simps [of turn s w])
  qed (use t in \<open>simp add: loop_forever.simps [of turn s w]\<close>)
qed

end
