(* ===== verification/Boundary.thy ===== *)
theory Boundary
  imports Diverging Quota Schedule Handlers
begin

text \<open>
  \<open>policy/execution/boundary.go\<close>: one physical dispatch with freshness checks, admission, accounting on a coordinator and
  settlement of its receipt.

  Coordinators and receipts are shared objects behind pointers: they live in heaps of an extension of the world, at
  addresses from its counter. Host functions stored in a receipt (\<open>Finish\<close>, \<open>CleanupContext\<close>) are values of a type
  \<open>'f\<close>, run by the fields of the parameter \<open>exec_host\<close>; the hook that closes a receipt with its result's lifetime is
  \<open>CloseReceipt\<close>. Host callbacks return or panic and may use receipts and coordinators as they like.

  A receipt gives up its mutex while it settles and lets others wait on the channel \<open>settling\<close>. In a sequential run a
  method would wait there only if a settlement's own callback entered the receipt again, which the comment on
  \<open>Admission\<close> forbids; the procedures below run in that sequential reading.

  \<open>run\<close> takes a function \<open>authorize\<close> that may loop and that changes variables of its caller: it is a procedure that
  may not return, and its captured variables are passed through as a value \<open>'s\<close>.
\<close>

section \<open>Data\<close>

definition ErrInvalidBoundary :: gerror where
  "ErrInvalidBoundary = Sentinel ''routery/execution: invalid boundary''"

datatype 'f exec_closure = CloseReceipt nat | HostClosure 'f

record 'f receipt =
  rt_coordinator :: nat
  rt_identity :: identity
  rt_finish :: "'f option"
  rt_cleanupContext :: "'f option"
  rt_closed :: bool
  rt_err :: err

record 'f exec_world = "'f exec_closure world" +
  xw_coords :: "nat \<Rightarrow> coordinator"
  xw_receipts :: "nat \<Rightarrow> 'f receipt"

record ('f, 'w) exec_host =
  xh_finish :: "'f \<Rightarrow> ctx \<Rightarrow> event \<Rightarrow> ('w, err) proc"
  xh_cleanupContext :: "'f \<Rightarrow> ('w, ctx option \<times> ('w, unit) proc option) proc"
  xh_closure :: "'f \<Rightarrow> ('w, err) proc"

record 'f admission_result =
  ad_Status :: admission
  ad_RetryAt :: int
  ad_Finish :: "'f option"

record ('k, 'r, 'p) exec_result =
  xr_Route :: "('k, 'r, 'p) route_result"
  xr_Admission :: admission
  xr_RetryAt :: int
  xr_Receipt :: "nat option"
  xr_Started :: bool
  xr_BudgetExhausted :: bool

record ('f, 'w, 'req, 'k, 'r, 'p) boundary =
  bd_Fresh :: "(ctx \<Rightarrow> 'req \<Rightarrow> ('w, err) proc) option"
  bd_Admit :: "(ctx \<Rightarrow> 'req \<Rightarrow> identity \<Rightarrow> ('w, 'f admission_result \<times> err) proc) option"
  bd_Dispatch :: "('req route_call \<Rightarrow> nat \<Rightarrow> ('w, ('k, 'r, 'p) route_result \<times> err) proc) option"
  bd_CleanupContext :: "'f option"

section \<open>Receipts\<close>

text \<open>A method of the coordinator at an address, under its mutex.\<close>

definition coord_call :: "nat \<Rightarrow> (coordinator \<Rightarrow> 'a \<times> coordinator) \<Rightarrow> (('f, 'x) exec_world_scheme, 'a) proc" where
  "coord_call c f w = (case f (xw_coords w c) of (a, c') \<Rightarrow> (Ret a, w\<lparr>xw_coords := (xw_coords w)(c := c')\<rparr>))"

definition upd_receipt :: "nat \<Rightarrow> ('f receipt \<Rightarrow> 'f receipt) \<Rightarrow> ('f, 'x) exec_world_scheme \<Rightarrow> ('f, 'x) exec_world_scheme" where
  "upd_receipt r f w = w\<lparr>xw_receipts := (xw_receipts w)(r := f (xw_receipts w r))\<rparr>"

definition coord_snapshot :: "nat \<Rightarrow> (('f, 'x) exec_world_scheme, event \<times> int \<times> err) proc" where
  "coord_snapshot r w =
     (Ret (Snapshot (xw_coords w (rt_coordinator (xw_receipts w r))) (rt_identity (xw_receipts w r))), w)"

definition set_err :: "nat \<Rightarrow> err \<Rightarrow> (('f, 'x) exec_world_scheme, err) proc" where
  "set_err r e w = (Ret e, upd_receipt r (\<lambda>R. R\<lparr>rt_err := e\<rparr>) w)"

definition finishSettlement ::
  "('f, ('f, 'x) exec_world_scheme) exec_host \<Rightarrow> nat \<Rightarrow> event \<Rightarrow> (('f, 'x) exec_world_scheme, err) proc" where
  "finishSettlement host r event w =
     (case rt_cleanupContext (xw_receipts w r) of
        None \<Rightarrow> (Panic, w)
      | Some cf \<Rightarrow>
          seq (xh_cleanupContext host cf) (\<lambda>(ctx, cancel).
            case (ctx, cancel) of
              (Some c, Some cn) \<Rightarrow>
                with_defer
                  (\<lambda>w. case rt_finish (xw_receipts w r) of
                     None \<Rightarrow> (Panic, w)
                   | Some f \<Rightarrow> seq (xh_finish host f c event) (set_err r) w) cn
            | (None, Some cn) \<Rightarrow> seq cn (\<lambda>_. set_err r (Some ErrInvalidBoundary))
            | (_, None) \<Rightarrow> set_err r (Some ErrInvalidBoundary)) w)"

definition settle ::
  "('f, ('f, 'x) exec_world_scheme) exec_host \<Rightarrow> nat \<Rightarrow> event \<Rightarrow> (('f, 'x) exec_world_scheme, err) proc" where
  "settle host r event w =
     (if rt_finish (xw_receipts w r) = None then (Ret None, w) else finishSettlement host r event w)"

definition Record ::
  "('f, ('f, 'x) exec_world_scheme) exec_host \<Rightarrow> nat \<Rightarrow> event \<Rightarrow> (('f, 'x) exec_world_scheme, err) proc" where
  "Record host r event w =
     (if ev_Identity event \<noteq> rt_identity (xw_receipts w r) then (Ret (Some ErrInvalidEvent), w)
      else seq (coord_snapshot r) (\<lambda>(previous, _, e).
        case e of
          Some x \<Rightarrow> ret (Some x)
        | None \<Rightarrow>
            (\<lambda>w. seq (coord_call (rt_coordinator (xw_receipts w r)) (\<lambda>c. Update c event)) (\<lambda>e w.
               case e of
                 Some x \<Rightarrow> (Ret (Some x), w)
               | None \<Rightarrow>
                   if rt_closed (xw_receipts w r) \<and> previous \<noteq> event then settle host r event w else (Ret None, w)) w)) w)"

definition Receipt_Snapshot :: "nat \<Rightarrow> (('f, 'x) exec_world_scheme, event \<times> int \<times> err) proc" where
  "Receipt_Snapshot r =
     seq (coord_snapshot r) (\<lambda>(event, remaining, e) w.
       (Ret (event, remaining, errors_Join [e, rt_err (xw_receipts w r)]), w))"

definition Receipt_Reconcile ::
  "('f, ('f, 'x) exec_world_scheme) exec_host \<Rightarrow> nat \<Rightarrow> (('f, 'x) exec_world_scheme, err) proc" where
  "Receipt_Reconcile host r w =
     (if \<not> rt_closed (xw_receipts w r) then (Ret (Some ErrInvalidEvent), w)
      else seq (coord_snapshot r) (\<lambda>(event, _, e). case e of Some x \<Rightarrow> ret (Some x) | None \<Rightarrow> settle host r event) w)"

definition Receipt_close ::
  "('f, ('f, 'x) exec_world_scheme) exec_host \<Rightarrow> nat \<Rightarrow> bool \<Rightarrow> (('f, 'x) exec_world_scheme, err) proc" where
  "Receipt_close host r notExecuted w =
     (if rt_closed (xw_receipts w r) then (Ret (rt_err (xw_receipts w r)), w)
      else seq (coord_snapshot r) (\<lambda>(event0, _, e).
        case e of
          Some x \<Rightarrow> ret (Some x)
        | None \<Rightarrow>
            let event = event0\<lparr>ev_Phase := Terminal, ev_Outcome := (if notExecuted then NotExecuted else ev_Outcome event0)\<rparr>
            in (\<lambda>w. seq (coord_call (rt_coordinator (xw_receipts w r)) (\<lambda>c. Update c event)) (\<lambda>e w.
                 case e of
                   Some x \<Rightarrow> (Ret (Some x), w)
                 | None \<Rightarrow> settle host r event (upd_receipt r (\<lambda>R. R\<lparr>rt_closed := True\<rparr>) w)) w)) w)"

text \<open>The closures a lifetime can hold here.\<close>

fun exec_hostfn ::
  "('f, ('f, 'x) exec_world_scheme) exec_host \<Rightarrow> 'f exec_closure \<Rightarrow> (('f, 'x) exec_world_scheme, err) proc" where
  "exec_hostfn host (CloseReceipt r) = seq (Receipt_close host r False) (\<lambda>_. ret None)"
| "exec_hostfn host (HostClosure f) = xh_closure host f"

text \<open>
  \<open>authorizeRepeat\<close>: nobody is settling, so \<open>lockAuthorization\<close> takes the mutex at once. \<open>cancelled\<close> is the \<open>Done\<close>
  channel of the context \<open>ctx\<close>; the \<open>select\<close> on it in \<open>AuthorizeRepeat\<close> observes whether it is closed.
\<close>

definition authorizeRepeat ::
  "nat \<Rightarrow> event \<Rightarrow> identity \<Rightarrow> replay \<Rightarrow> ctx \<Rightarrow> (('f, 'x) exec_world_scheme, err) proc \<Rightarrow>
   (('f, 'x) exec_world_scheme, decision \<times> err) proc" where
  "authorizeRepeat r expected next replay ctx checkStart w =
     (case rt_err (xw_receipts w r) of
        Some x \<Rightarrow> (Ret (zero_decision, Some x), w)
      | None \<Rightarrow>
          seq checkStart (\<lambda>e.
            case e of
              Some x \<Rightarrow> ret (zero_decision, Some x)
            | None \<Rightarrow>
                seq (ctx_Err ctx) (\<lambda>ce w.
                  coord_call (rt_coordinator (xw_receipts w r))
                    (\<lambda>c. AuthorizeRepeat c expected next replay (ce \<noteq> None)) w)) w)"

definition isControlError :: "err \<Rightarrow> bool" where
  "isControlError e \<longleftrightarrow> errors_Is e ErrInvalidEvent \<or> errors_Is e ErrInvalidBoundary \<or> errors_Is e ErrInvalidConfig"

section \<open>One physical dispatch\<close>

type_synonym ('s, 'w) authorizer = "('s \<Rightarrow> ('w, (bool \<times> err) \<times> 's) lproc) option"

definition Receipt_start ::
  "('f, ('f, 'x) exec_world_scheme) exec_host \<Rightarrow> nat \<Rightarrow> ('s, ('f, 'x) exec_world_scheme) authorizer \<Rightarrow> 's \<Rightarrow>
   (('f, 'x) exec_world_scheme, (bool \<times> err) \<times> 's) lproc" where
  "Receipt_start host r authorize s =
     (case authorize of
        Some f \<Rightarrow> f s
      | None \<Rightarrow> lift (seq (Receipt_Snapshot r) (\<lambda>(event, _, e).
          case e of
            Some x \<Rightarrow> ret ((False, Some x), s)
          | None \<Rightarrow> seq (Record host r (event\<lparr>ev_Phase := Dispatched\<rparr>)) (\<lambda>e. ret ((True, e), s)))))"

definition prepare ::
  "('f, ('f, 'x) exec_world_scheme, 'req, 'k, 'r, 'p) boundary \<Rightarrow> 'req route_call \<Rightarrow> identity \<Rightarrow>
   (('f, 'x) exec_world_scheme, 'f admission_result \<times> err) proc" where
  "prepare b call i =
     (let unreserved = \<lparr>ad_Status = Unreserved, ad_RetryAt = 0, ad_Finish = None\<rparr> in
      case bd_Fresh b of
        None \<Rightarrow> (\<lambda>w. (Panic, w))
      | Some fresh \<Rightarrow> seq (fresh (rc_Context call) (rc_Request call)) (\<lambda>e.
          case e of
            Some x \<Rightarrow> ret (unreserved, Some x)
          | None \<Rightarrow> seq (ctx_Err (rc_Context call)) (\<lambda>e.
              case e of
                Some x \<Rightarrow> ret (unreserved, Some x)
              | None \<Rightarrow>
                  (case bd_Admit b of
                     None \<Rightarrow> ret (unreserved, None)
                   | Some admit \<Rightarrow> seq (admit (rc_Context call) (rc_Request call) i) (\<lambda>(admission, e).
                       case e of
                         Some x \<Rightarrow> ret (admission, Some x)
                       | None \<Rightarrow>
                           if (case ad_Status admission of AdmissionOther _ \<Rightarrow> True | _ \<Rightarrow> False) \<or>
                              (ad_Status admission = Admitted \<and> ad_Finish admission = None)
                           then ret (admission, Some ErrInvalidBoundary)
                           else ret (admission, None))))))"

text \<open>Closing the receipt of an attempt that was not dispatched, with the error that stopped it.\<close>

definition close_unstarted ::
  "('f, ('f, 'x) exec_world_scheme) exec_host \<Rightarrow> ('k, 'r, 'p) exec_result \<Rightarrow> nat \<Rightarrow> err \<Rightarrow> 's \<Rightarrow>
   (('f, 'x) exec_world_scheme, ('k, 'r, 'p) exec_result \<times> err \<times> 's) proc" where
  "close_unstarted host result r e s = seq (Receipt_close host r True) (\<lambda>ce. ret (result, errors_Join [e, ce], s))"

definition dispatch_once ::
  "('f, ('f, 'x) exec_world_scheme) exec_host \<Rightarrow> ('f, ('f, 'x) exec_world_scheme, 'req, 'k, 'r, 'p) boundary \<Rightarrow>
   'req route_call \<Rightarrow> ('k, 'r, 'p) exec_result \<Rightarrow> nat \<Rightarrow> 's \<Rightarrow>
   (('f, 'x) exec_world_scheme, ('k, 'r, 'p) exec_result \<times> err \<times> 's) proc" where
  "dispatch_once host b call result r s w =
     (case bd_Dispatch b of
        None \<Rightarrow> (case Receipt_close host r False w of (_, w1) \<Rightarrow> (Panic, w1))
      | Some dispatch \<Rightarrow>
          (case dispatch call r w of
             (Panic, w1) \<Rightarrow> (case Receipt_close host r False w1 of (_, w2) \<Rightarrow> (Panic, w2))
           | (Ret (route, e), w1) \<Rightarrow>
               (case ValidateRouteResult route e of (route', e') \<Rightarrow>
                  let result' = result\<lparr>xr_Route := route'\<rparr> in
                  if res_Lifetime route' = None
                  then seq (Receipt_close host r False) (\<lambda>ce. ret (result', errors_Join [e', ce], s)) w1
                  else seq (OnClose (exec_hostfn host) (res_Lifetime route') (Some (HostFn (CloseReceipt r))))
                         (\<lambda>_. ret (result', e', s)) w1)))"

definition invoke ::
  "('f, ('f, 'x) exec_world_scheme) exec_host \<Rightarrow> ('f, ('f, 'x) exec_world_scheme, 'req, 'k, 'r, 'p) boundary \<Rightarrow>
   'req route_call \<Rightarrow> ('k, 'r, 'p) exec_result \<Rightarrow> nat \<Rightarrow> ('s, ('f, 'x) exec_world_scheme) authorizer \<Rightarrow> 's \<Rightarrow>
   (('f, 'x) exec_world_scheme, ('k, 'r, 'p) exec_result \<times> err \<times> 's) lproc" where
  "invoke host b call result r authorize s =
     (case bd_Fresh b of
        None \<Rightarrow> lift (\<lambda>w. (Panic, w))
      | Some fresh \<Rightarrow> lseq (lift (fresh (rc_Context call) (rc_Request call))) (\<lambda>e.
          case e of
            Some x \<Rightarrow> lift (close_unstarted host result r (Some x) s)
          | None \<Rightarrow> lseq (lift (ctx_Err (rc_Context call))) (\<lambda>e.
              case e of
                Some x \<Rightarrow> lift (close_unstarted host result r (Some x) s)
              | None \<Rightarrow> lseq (Receipt_start host r authorize s) (\<lambda>((allowed, e), s').
                  if e \<noteq> None \<or> \<not> allowed then lift (close_unstarted host result r e s')
                  else lift (dispatch_once host b call (result\<lparr>xr_Started := True\<rparr>) r s')))))"

definition zero_result :: "('k :: zero, 'r :: zero, 'p :: zero) exec_result" where
  "zero_result = \<lparr>xr_Route = AbortResult, xr_Admission = Unreserved, xr_RetryAt = 0, xr_Receipt = None,
     xr_Started = False, xr_BudgetExhausted = False\<rparr>"

definition new_receipt ::
  "nat \<Rightarrow> identity \<Rightarrow> 'f option \<Rightarrow> (('f, 'x) exec_world_scheme, nat) proc" where
  "new_receipt c i cleanup w =
     (Ret (w_fresh w), w\<lparr>xw_receipts := (xw_receipts w)(w_fresh w :=
          \<lparr>rt_coordinator = c, rt_identity = i, rt_finish = None, rt_cleanupContext = cleanup, rt_closed = False, rt_err = None\<rparr>),
        w_fresh := Suc (w_fresh w)\<rparr>)"

definition run ::
  "('f, ('f, 'x) exec_world_scheme) exec_host \<Rightarrow>
   ('f, ('f, 'x) exec_world_scheme, 'req, 'k :: zero, 'r :: zero, 'p :: zero) boundary \<Rightarrow>
   'req route_call \<Rightarrow> nat option \<Rightarrow> identity \<Rightarrow> ('s, ('f, 'x) exec_world_scheme) authorizer \<Rightarrow> 's \<Rightarrow>
   (('f, 'x) exec_world_scheme, ('k, 'r, 'p) exec_result \<times> err \<times> 's) lproc" where
  "run host b call coordinator i authorize s =
     (case coordinator of
        None \<Rightarrow> lift (ret (zero_result, Some ErrInvalidBoundary, s))
      | Some c \<Rightarrow>
          if bd_Fresh b = None \<or> bd_Dispatch b = None \<or> (bd_Admit b \<noteq> None \<and> bd_CleanupContext b = None)
          then lift (ret (zero_result, Some ErrInvalidBoundary, s))
          else lseq (lift (ctx_Err (rc_Context call))) (\<lambda>e.
            case e of
              Some x \<Rightarrow> lift (ret (zero_result, Some x, s))
            | None \<Rightarrow> lseq (lift (coord_call c (\<lambda>co. Begin co i))) (\<lambda>(start, e).
                let result = zero_result\<lparr>xr_BudgetExhausted := (e = None \<and> \<not> sr_Started start)\<rparr> in
                if e \<noteq> None \<or> \<not> sr_Started start then lift (ret (result, e, s))
                else lseq (lift (new_receipt c i (bd_CleanupContext b))) (\<lambda>r.
                  lseq (lift (prepare b call i)) (\<lambda>(admission, e).
                    let result' = result\<lparr>xr_Receipt := Some r, xr_Admission := ad_Status admission,
                          xr_RetryAt := ad_RetryAt admission\<rparr> in
                    lseq (lift (\<lambda>w. (Ret (), upd_receipt r (\<lambda>R. R\<lparr>rt_finish := ad_Finish admission\<rparr>) w))) (\<lambda>_.
                      case e of
                        Some x \<Rightarrow> lift (close_unstarted host result' r (Some x) s)
                      | None \<Rightarrow>
                          if ad_Status admission = Denied \<or> ad_Status admission = Deferred
                          then lift (seq (Receipt_close host r True) (\<lambda>ce. ret (result', ce, s)))
                          else invoke host b call result' r authorize s))))))"

text \<open>\<open>Run\<close> has no authorizer and no captured variables.\<close>

definition Run ::
  "('f, ('f, 'x) exec_world_scheme) exec_host \<Rightarrow>
   ('f, ('f, 'x) exec_world_scheme, 'req, 'k :: zero, 'r :: zero, 'p :: zero) boundary \<Rightarrow>
   'req route_call \<Rightarrow> nat option \<Rightarrow> identity \<Rightarrow> (('f, 'x) exec_world_scheme, ('k, 'r, 'p) exec_result \<times> err) lproc" where
  "Run host b call coordinator i =
     lseq (run host b call coordinator i None ()) (\<lambda>(result, e, _). lift (ret (result, e)))"


section \<open>Relations that do not see lifetimes\<close>

text \<open>
  An order on worlds that neither lifetimes nor contexts nor permits matter to is kept by every operation of a lifetime
  whose host closures keep it.
\<close>

locale lifetime_blind = frame_relation R for R :: "('h, 'x) world_scheme \<Rightarrow> ('h, 'x) world_scheme \<Rightarrow> bool" +
  assumes blind_life: "R w (upd_life l f w)"
    and blind_cancel: "R w (cancel c w)"
    and blind_permit: "R w (release_permit s w)"
begin

lemma blind_closure: "(\<And>h. keeps (hostfn h)) \<Longrightarrow> keeps (run_closure hostfn f)"
  by (cases f) (auto simp: keeps_def blind_cancel blind_permit)

lemma blind_hooks: "(\<And>h. keeps (hostfn h)) \<Longrightarrow> keeps (run_hooks hostfn fs)"
proof (induction fs)
  case (Cons f fs)
  have "keeps (seq (run_closure hostfn f) (\<lambda>_. run_hooks hostfn fs))"
    by (intro keeps_seq blind_closure Cons.IH Cons.prems)
  then show ?case by (simp add: keeps_def)
qed (simp add: keeps_def frame_refl)

lemma blind_OnClose:
  assumes "\<And>h. keeps (hostfn h)"
  shows "keeps (OnClose hostfn life fn)"
proof (rule keepsI)
  fix w
  have "keeps (seq (run_closure hostfn f) (\<lambda>_. ret ()))" for f
    by (intro keeps_seq blind_closure assms keeps_ret)
  then show "R w (snd (OnClose hostfn life fn w))"
    by (auto simp: OnClose_def keeps_def blind_life frame_refl split: option.splits)
qed

lemma blind_close_body:
  assumes "\<And>h. keeps (hostfn h)"
  shows "keeps (close_body hostfn l)"
proof (rule keepsI)
  fix w
  define clean where "clean = (case lt_cleanup (w_lifes w l) of
     None \<Rightarrow> (Ret (), w)
   | Some c \<Rightarrow> seq (run_closure hostfn c) (\<lambda>e w. (Ret (), upd_life l (\<lambda>L. L\<lparr>lt_closeErr := e\<rparr>) w)) w)"
  obtain r w1 where c: "clean = (r, w1)" by fastforce
  have "keeps (seq (run_closure hostfn c) (\<lambda>e w. (Ret (), upd_life l (\<lambda>L. L\<lparr>lt_closeErr := e\<rparr>) w)))" for c
    by (intro keeps_seq blind_closure assms keepsI) (simp add: blind_life)
  then have 1: "R w w1" using c unfolding clean_def by (auto simp: frame_refl split: option.splits dest: keepsD)
  have "R w1 (snd (close_body hostfn l w))"
    using c keeps_def [of "run_hooks hostfn (lt_hooks (w_lifes w1 l))"] blind_hooks [OF assms]
      frame_trans [OF blind_life [of w1 l "\<lambda>L. L\<lparr>lt_closed := True, lt_hooks := []\<rparr>"]]
    unfolding close_body_def clean_def by (simp add: Let_def split: prod.splits) (metis snd_conv)
  with 1 show "R w (snd (close_body hostfn l w))" by (rule frame_trans)
qed

lemma blind_Close:
  assumes "\<And>h. keeps (hostfn h)"
  shows "keeps (Close hostfn life)"
proof (rule keepsI)
  fix w
  have k: "keeps (seq (close_body hostfn l) (\<lambda>_ w. (Ret (lt_closeErr (w_lifes w l)), w)))" for l
    by (intro keeps_seq blind_close_body assms keepsI) (simp add: frame_refl)
  have "R w (snd (seq (close_body hostfn l) (\<lambda>_ w. (Ret (lt_closeErr (w_lifes w l)), w))
      (upd_life l (\<lambda>L. L\<lparr>lt_done := True\<rparr>) w)))" for l
    using frame_trans [OF blind_life [of w l "\<lambda>L. L\<lparr>lt_done := True\<rparr>"]] k [of l] by (simp add: keeps_def)
  then show "R w (snd (Close hostfn life w))"
    by (auto simp: Close_def frame_refl split: option.splits)
qed

end

section \<open>What execution never takes back\<close>

text \<open>
  Allocated coordinators only move along \<open>coord_le\<close> and keep their invariant; allocated receipts keep coordinator and
  identity and stay closed once closed; contexts keep to the two standard errors; and a receipt in order (its coordinator allocated and in order, its attempt
  recorded, terminal when it is closed) stays in order.
\<close>

definition recorded :: "('f, 'x) exec_world_scheme \<Rightarrow> nat \<Rightarrow> identity \<Rightarrow> event \<Rightarrow> bool" where
  "recorded w c i e \<longleftrightarrow> map_of (co_events (xw_coords w c)) (id_Attempt i) = Some e \<and> ev_Identity e = i"

definition receipt_ok :: "('f, 'x) exec_world_scheme \<Rightarrow> nat \<Rightarrow> bool" where
  "receipt_ok w r \<longleftrightarrow>
     (let R = xw_receipts w r; c = rt_coordinator R in
      c < w_fresh w \<and> coord_inv (xw_coords w c) \<and>
      (\<exists>e. recorded w c (rt_identity R) e \<and> (rt_closed R \<longrightarrow> ev_Phase e = Terminal)))"

definition receipt_le :: "'f receipt \<Rightarrow> 'f receipt \<Rightarrow> bool" where
  "receipt_le a b \<longleftrightarrow> rt_coordinator b = rt_coordinator a \<and> rt_identity b = rt_identity a \<and> (rt_closed a \<longrightarrow> rt_closed b)"

text \<open>\<open>context.Context\<close> promises that \<open>Err\<close> is one of these two.\<close>

definition std_contexts :: "('h, 'x) world_scheme \<Rightarrow> bool" where
  "std_contexts w \<longleftrightarrow> (\<forall>i t e. w_cancel w i = Some (t, e) \<longrightarrow> e = ContextCanceled \<or> e = DeadlineExceeded)"

definition exec_le :: "('f, 'x) exec_world_scheme \<Rightarrow> ('f, 'x) exec_world_scheme \<Rightarrow> bool" where
  "exec_le w v \<longleftrightarrow> w_fresh w \<le> w_fresh v \<and> (std_contexts w \<longrightarrow> std_contexts v) \<and>
     (\<forall>c < w_fresh w. coord_le (xw_coords w c) (xw_coords v c) \<and> (coord_inv (xw_coords w c) \<longrightarrow> coord_inv (xw_coords v c))) \<and>
     (\<forall>r < w_fresh w. receipt_le (xw_receipts w r) (xw_receipts v r) \<and> (receipt_ok w r \<longrightarrow> receipt_ok v r))"

interpretation exec_frame: frame_relation exec_le
proof
  show "exec_le w w" for w :: "('f, 'x) exec_world_scheme"
    by (auto simp: exec_le_def receipt_le_def intro: coord_frame.frame_refl)
next
  fix u v w :: "('f, 'x) exec_world_scheme"
  assume "exec_le u v" "exec_le v w"
  then show "exec_le u w"
    unfolding exec_le_def receipt_le_def by (force intro: coord_frame.frame_trans)
qed

lemmas exec_le_refl [simp] = exec_frame.frame_refl
lemmas exec_le_trans [trans] = exec_frame.frame_trans

lemma exec_le_same:
  assumes "xw_coords v = xw_coords w" "xw_receipts v = xw_receipts w" "w_fresh w \<le> w_fresh v" "std_contexts w \<longrightarrow> std_contexts v"
  shows "exec_le w v"
  using assms by (auto simp: exec_le_def receipt_le_def receipt_ok_def recorded_def Let_def intro: coord_frame.frame_refl)

lemma exec_same_simps [simp]:
  "xw_coords (tick w) = xw_coords w" "xw_receipts (tick w) = xw_receipts w"
  "xw_coords (upd_life l f w) = xw_coords w" "xw_receipts (upd_life l f w) = xw_receipts w"
  "w_fresh (upd_life l f w) = w_fresh w"
  "xw_coords (release_permit s w) = xw_coords w" "xw_receipts (release_permit s w) = xw_receipts w"
  "w_fresh (release_permit s w) = w_fresh w"
  by (simp_all add: tick_def upd_life_def release_permit_def)

lemma std_same [simp]: "std_contexts (tick w) = std_contexts w" "std_contexts (upd_life l f w) = std_contexts w"
  "std_contexts (release_permit s w) = std_contexts w" "std_contexts (w\<lparr>w_step := n\<rparr>) = std_contexts w"
  "std_contexts (w\<lparr>w_fresh := n\<rparr>) = std_contexts w" "std_contexts (w\<lparr>w_decisions := d\<rparr>) = std_contexts w"
  by (simp_all add: std_contexts_def upd_life_def release_permit_def)

lemma std_same_exec [simp]: "std_contexts (w\<lparr>xw_coords := cs\<rparr>) = std_contexts w"
  "std_contexts (w\<lparr>xw_receipts := rs\<rparr>) = std_contexts w" "std_contexts (upd_receipt r f w) = std_contexts w"
  by (simp_all add: std_contexts_def upd_receipt_def)

lemma std_cancel: "std_contexts w \<Longrightarrow> std_contexts (cancel c w)"
  by (cases c) (simp_all add: std_contexts_def)

lemma exec_cancel_simps [simp]:
  "xw_coords (cancel c w) = xw_coords w" "xw_receipts (cancel c w) = xw_receipts w" "w_fresh (cancel c w) = w_fresh w"
  by (cases c; simp)+

interpretation exec_blind: lifetime_blind exec_le
  by unfold_locales (simp_all add: exec_le_same std_cancel)


lemma terminal_stays:
  assumes "coord_inv d" "map_of (co_events d) k = Some f" "event_le e f" "ev_Phase e = Terminal"
  shows "ev_Phase f = Terminal"
proof -
  have "validEvent f" using assms(1,2) by (auto simp: coord_inv_def)
  then have "phase_code (ev_Phase f) \<le> phase_code Terminal" by (auto simp: validEvent_def split: if_splits)
  moreover have "phase_code Terminal \<le> phase_code (ev_Phase f)" using assms(3,4) by (auto simp: event_le_def)
  ultimately have "phase_code (ev_Phase f) = phase_code Terminal" by (rule antisym)
  then show ?thesis by (simp only: phase_code_inj)
qed

lemma recorded_mono:
  assumes "coord_le (xw_coords w c) (xw_coords v c)" "recorded w c i e"
  obtains f where "recorded v c i f" "event_le e f"
proof -
  have e: "map_of (co_events (xw_coords w c)) (id_Attempt i) = Some e" "ev_Identity e = i"
    using assms(2) by (simp_all add: recorded_def)
  from coord_le_lookup [OF assms(1) e(1)] obtain f
    where "map_of (co_events (xw_coords v c)) (id_Attempt i) = Some f" "event_le e f" by blast
  with e(2) show thesis by (intro that) (simp_all add: recorded_def event_le_def)
qed

lemma exec_le_coord:
  assumes "coord_le (xw_coords w c) co" "coord_inv (xw_coords w c) \<Longrightarrow> coord_inv co"
  shows "exec_le w (w\<lparr>xw_coords := (xw_coords w)(c := co)\<rparr>)" (is "exec_le w ?v")
proof -
  have le: "coord_le (xw_coords w d) (xw_coords ?v d)" and inv: "coord_inv (xw_coords w d) \<Longrightarrow> coord_inv (xw_coords ?v d)" for d
    using assms by (auto intro: coord_frame.frame_refl)
  have "receipt_ok ?v r" if ok: "receipt_ok w r" for r
  proof -
    let ?d = "rt_coordinator (xw_receipts w r)" and ?i = "rt_identity (xw_receipts w r)"
    obtain e where e: "recorded w ?d ?i e" "rt_closed (xw_receipts w r) \<longrightarrow> ev_Phase e = Terminal"
      and o: "?d < w_fresh w" "coord_inv (xw_coords w ?d)"
      using ok by (auto simp: receipt_ok_def Let_def)
    obtain f where f: "recorded ?v ?d ?i f" "event_le e f" using recorded_mono [OF le e(1)] .
    have "ev_Phase f = Terminal" if "ev_Phase e = Terminal"
      using terminal_stays [OF inv [OF o(2)] _ f(2) that] f(1) unfolding recorded_def by blast
    then show ?thesis using f e(2) o inv [OF o(2)] by (auto simp: receipt_ok_def Let_def)
  qed
  then show ?thesis using le inv by (auto simp: exec_le_def receipt_le_def)
qed

lemma keeps_coord_call:
  assumes "\<And>co. coord_step co (snd (f co))"
  shows "exec_frame.keeps (coord_call c f)"
proof (rule exec_frame.keepsI)
  fix w :: "('f, 'x) exec_world_scheme"
  have "exec_le w (w\<lparr>xw_coords := (xw_coords w)(c := snd (f (xw_coords w c)))\<rparr>)"
    by (rule exec_le_coord) (use assms in \<open>blast intro: coord_step_le coord_step_inv\<close>)+
  then show "exec_le w (snd (coord_call c f w))" by (cases "f (xw_coords w c)") (simp add: coord_call_def)
qed

lemma coord_steps:
  "coord_step co (snd (Begin co i))" "coord_step co (snd (Update co e))"
  "coord_step co (snd (AuthorizeRepeat co x n r b))"
  by (cases "Begin co i" "Update co e" "AuthorizeRepeat co x n r b" rule: prod.exhaust [case_product prod.exhaust prod.exhaust],
      auto intro: coord_step.intros)+

lemma exec_le_upd_receipt:
  assumes "\<And>R. rt_coordinator (f R) = rt_coordinator R \<and> rt_identity (f R) = rt_identity R \<and> rt_closed (f R) = rt_closed R"
  shows "exec_le w (upd_receipt r f w)"
  using assms
  by (auto simp: exec_le_def receipt_le_def receipt_ok_def recorded_def Let_def upd_receipt_def intro: coord_frame.frame_refl)

lemma keeps_coord_snapshot: "exec_frame.keeps (coord_snapshot r)"
  by (simp add: exec_frame.keeps_def coord_snapshot_def)

lemma keeps_set_err: "exec_frame.keeps (set_err r e)"
  by (simp add: exec_frame.keeps_def set_err_def exec_le_upd_receipt)

lemma keeps_panic: "exec_frame.keeps (\<lambda>w. (Panic, w))"
  by (simp add: exec_frame.keeps_def)

lemma keeps_ctx_Err_exec: "exec_frame.keeps (ctx_Err c)"
  by (simp add: exec_frame.keeps_def exec_le_same)

section \<open>Hosts that play by the rules\<close>

text \<open>The contract of the host's functions behind receipts: they move the world forward along \<open>exec_le\<close>.\<close>

locale lawful_exec_host =
  fixes host :: "('f, ('f, 'x) exec_world_scheme) exec_host"
  assumes finish_keeps: "exec_frame.keeps (xh_finish host f ctx event)"
    and cleanup_keeps: "exec_frame.keeps (xh_cleanupContext host f)"
    and cancel_keeps: "xh_cleanupContext host f w = (Ret (ctx', Some cn), w') \<Longrightarrow> exec_frame.keeps cn"
    and closure_keeps: "exec_frame.keeps (xh_closure host f)"
begin

lemma keeps_finishSettlement: "exec_frame.keeps (finishSettlement host r event)"
proof (rule exec_frame.keepsI)
  fix w :: "('f, 'x) exec_world_scheme"
  show "exec_le w (snd (finishSettlement host r event w))"
  proof (cases "rt_cleanupContext (xw_receipts w r)")
    case (Some cf)
    obtain v w1 where v: "xh_cleanupContext host cf w = (v, w1)" by fastforce
    have 1: "exec_le w w1" using exec_frame.keepsD [OF cleanup_keeps v] .
    show ?thesis
    proof (cases v)
      case (Ret p)
      obtain ctx cn where p: "p = (ctx, cn)" by fastforce
      have cn: "exec_frame.keeps cn'" if "cn = Some cn'" for cn'
        using cancel_keeps v Ret p that by blast
      have fin: "exec_frame.keeps (\<lambda>w. case rt_finish (xw_receipts w r) of
          None \<Rightarrow> (Panic, w) | Some f \<Rightarrow> seq (xh_finish host f c event) (set_err r) w)" for c
      proof (rule exec_frame.keepsI)
        fix w :: "('f, 'x) exec_world_scheme"
        have "exec_frame.keeps (seq (xh_finish host f c event) (set_err r))" for f
          by (intro exec_frame.keeps_seq finish_keeps keeps_set_err)
        then show "exec_le w (snd (case rt_finish (xw_receipts w r) of
          None \<Rightarrow> (Panic, w) | Some f \<Rightarrow> seq (xh_finish host f c event) (set_err r) w))"
          by (simp add: exec_frame.keeps_def split: option.split)
      qed
      have "exec_frame.keeps (case (ctx, cn) of
              (Some c, Some cn) \<Rightarrow>
                with_defer
                  (\<lambda>w. case rt_finish (xw_receipts w r) of
                     None \<Rightarrow> (Panic, w)
                   | Some f \<Rightarrow> seq (xh_finish host f c event) (set_err r) w) cn
            | (None, Some cn) \<Rightarrow> seq cn (\<lambda>_. set_err r (Some ErrInvalidBoundary))
            | (_, None) \<Rightarrow> set_err r (Some ErrInvalidBoundary))"
        using cn by (cases ctx; cases cn)
          (auto intro!: exec_frame.keeps_with_defer fin exec_frame.keeps_seq keeps_set_err)
      then have "exec_le w1 (snd (finishSettlement host r event w))"
        using v Ret p Some unfolding finishSettlement_def exec_frame.keeps_def by simp
      with 1 show ?thesis by (rule exec_le_trans)
    qed (use v Some 1 in \<open>simp add: finishSettlement_def\<close>)
  qed (simp add: finishSettlement_def)
qed

lemma keeps_settle: "exec_frame.keeps (settle host r event)"
  using keeps_finishSettlement by (auto simp: exec_frame.keeps_def settle_def)

end


lemma Snapshot_ok:
  "Snapshot c i = (e, n, None) \<longleftrightarrow>
     map_of (co_events c) (id_Attempt i) = Some e \<and> ev_Identity e = i \<and> n = co_limit c - int (length (co_events c))"
  by (auto simp: Snapshot_def split: option.splits if_splits)

lemma Update_stores: "Update c e = (None, c') \<Longrightarrow> map_of (co_events c') (id_Attempt (ev_Identity e)) = Some e"
  by (elim Update_cases) (auto simp: update_conv')

lemma coord_call_Ret: "coord_call c f w = (Ret a, w') \<longleftrightarrow>
   (\<exists>c'. f (xw_coords w c) = (a, c') \<and> w' = w\<lparr>xw_coords := (xw_coords w)(c := c')\<rparr>)"
  by (auto simp: coord_call_def split: prod.splits)

lemma coord_call_not_Panic [simp]: "coord_call c f w \<noteq> (Panic, w')"
  by (simp add: coord_call_def split: prod.split)

lemma Update_terminal:
  assumes "coord_inv c" "map_of (co_events c) (id_Attempt i) = Some e" "ev_Identity e = i"
  shows "fst (Update c (e\<lparr>ev_Phase := Terminal\<rparr>)) = None"
proof -
  have "validEvent e" using assms by (auto simp: coord_inv_def)
  then have "phase_code (ev_Phase e) \<le> 3" "validEvent (e\<lparr>ev_Phase := Terminal\<rparr>)"
    by (auto simp: validEvent_def split: if_splits)
  then show ?thesis using assms(2,3) by (simp add: Update_def)
qed

text \<open>Closing is recorded only once the attempt is terminal.\<close>

lemma exec_le_closed:
  assumes "recorded w (rt_coordinator (xw_receipts w r)) (rt_identity (xw_receipts w r)) e" "ev_Phase e = Terminal"
  shows "exec_le w (upd_receipt r (\<lambda>R. R\<lparr>rt_closed := True\<rparr>) w)"
  using assms
  by (auto simp: exec_le_def receipt_le_def receipt_ok_def recorded_def Let_def upd_receipt_def intro: coord_frame.frame_refl)

context lawful_exec_host
begin

lemma keeps_Record: "exec_frame.keeps (Record host r event)"
proof (rule exec_frame.keepsI)
  fix w :: "('f, 'x) exec_world_scheme"
  have update: "exec_frame.keeps (\<lambda>w. seq (coord_call (rt_coordinator (xw_receipts w r)) (\<lambda>c. Update c event)) (\<lambda>e w.
       case e of
         Some x \<Rightarrow> (Ret (Some x), w)
       | None \<Rightarrow> if rt_closed (xw_receipts w r) \<and> previous \<noteq> event then settle host r event w else (Ret None, w)) w)" for previous
  proof (rule exec_frame.keepsI)
    fix w :: "('f, 'x) exec_world_scheme"
    have "exec_frame.keeps (seq (coord_call c (\<lambda>c. Update c event)) (\<lambda>e w.
       case e of
         Some x \<Rightarrow> (Ret (Some x), w)
       | None \<Rightarrow> if rt_closed (xw_receipts w r) \<and> previous \<noteq> event then settle host r event w else (Ret None, w)))" for c
      by (intro exec_frame.keeps_seq keeps_coord_call coord_steps exec_frame.keepsI)
        (use keeps_settle in \<open>auto simp: exec_frame.keeps_def split: option.split\<close>)
    then show "exec_le w (snd (seq (coord_call (rt_coordinator (xw_receipts w r)) (\<lambda>c. Update c event)) (\<lambda>e w.
       case e of
         Some x \<Rightarrow> (Ret (Some x), w)
       | None \<Rightarrow> if rt_closed (xw_receipts w r) \<and> previous \<noteq> event then settle host r event w else (Ret None, w)) w))"
      by (simp add: exec_frame.keeps_def)
  qed
  have "exec_frame.keeps (seq (coord_snapshot r) (\<lambda>(previous, _, e).
        case e of
          Some x \<Rightarrow> ret (Some x)
        | None \<Rightarrow>
            (\<lambda>w. seq (coord_call (rt_coordinator (xw_receipts w r)) (\<lambda>c. Update c event)) (\<lambda>e w.
               case e of
                 Some x \<Rightarrow> (Ret (Some x), w)
               | None \<Rightarrow>
                   if rt_closed (xw_receipts w r) \<and> previous \<noteq> event then settle host r event w else (Ret None, w)) w)))"
    by (intro exec_frame.keeps_seq keeps_coord_snapshot exec_frame.keeps_prod exec_frame.keeps_option exec_frame.keeps_ret update)
  then show "exec_le w (snd (Record host r event w))"
    by (simp add: Record_def exec_frame.keeps_def)
qed

lemma keeps_Reconcile: "exec_frame.keeps (Receipt_Reconcile host r)"
proof (rule exec_frame.keepsI)
  fix w :: "('f, 'x) exec_world_scheme"
  have "exec_frame.keeps (seq (coord_snapshot r)
      (\<lambda>(event, _, e). case e of Some x \<Rightarrow> ret (Some x) | None \<Rightarrow> settle host r event))"
    by (intro exec_frame.keeps_seq keeps_coord_snapshot exec_frame.keeps_prod exec_frame.keeps_option exec_frame.keeps_ret keeps_settle)
  then show "exec_le w (snd (Receipt_Reconcile host r w))"
    by (simp add: Receipt_Reconcile_def exec_frame.keeps_def)
qed

text \<open>What \<open>close\<close> does to an open receipt: nothing, with an error, or close it in a state with the terminal event and settle.\<close>

lemma Receipt_close_cases:
  assumes "Receipt_close host r notExecuted w = (v, w')"
  obtains (again) "rt_closed (xw_receipts w r)" "w' = w"
  | (failed) x where "v = Ret (Some x)" "w' = w" "\<not> rt_closed (xw_receipts w r)" "notExecuted \<or> \<not> receipt_ok w r"
  | (closing) e w1 where "exec_le w w1" "rt_closed (xw_receipts w1 r)" "settle host r e w1 = (v, w')"
      "recorded w1 (rt_coordinator (xw_receipts w1 r)) (rt_identity (xw_receipts w1 r)) e" "ev_Phase e = Terminal"
      "notExecuted \<longrightarrow> ev_Outcome e = NotExecuted"
proof (cases "rt_closed (xw_receipts w r)")
  case True
  with assms show thesis by (intro again) (auto simp: Receipt_close_def)
next
  case False
  let ?c = "rt_coordinator (xw_receipts w r)" and ?i = "rt_identity (xw_receipts w r)"
  obtain event0 n e where s: "Snapshot (xw_coords w ?c) ?i = (event0, n, e)" by (metis prod_cases3)
  define event where "event = event0\<lparr>ev_Phase := Terminal, ev_Outcome := (if notExecuted then NotExecuted else ev_Outcome event0)\<rparr>"
  obtain ue c' where u: "Update (xw_coords w ?c) event = (ue, c')" by fastforce
  let ?w1 = "w\<lparr>xw_coords := (xw_coords w)(?c := c')\<rparr>"
  show thesis
  proof (cases "e = None \<and> ue = None")
    case True
    have id: "ev_Identity event = ?i" using s True by (simp add: Snapshot_ok event_def)
    have rec: "recorded ?w1 ?c ?i event"
      using Update_stores [of "xw_coords w ?c" event c'] u True id by (simp add: recorded_def)
    have "exec_le w ?w1"
      by (rule exec_le_coord) (use coord_step.step_update [OF u] in \<open>blast intro: coord_step_le coord_step_inv\<close>)+
    also have "exec_le ?w1 (upd_receipt r (\<lambda>R. R\<lparr>rt_closed := True\<rparr>) ?w1)"
      by (rule exec_le_closed [of _ _ event]) (use rec in \<open>simp_all add: event_def\<close>)
    finally show thesis
      using assms False s u True rec
      by (intro closing [of "upd_receipt r (\<lambda>R. R\<lparr>rt_closed := True\<rparr>) ?w1" event])
        (simp_all add: Receipt_close_def coord_snapshot_def coord_call_def Let_def event_def [symmetric] recorded_def upd_receipt_def,
         simp_all add: event_def)
  next
    case F: False
    have "ue \<noteq> None \<Longrightarrow> c' = xw_coords w ?c" using u by (elim Update_cases) auto
    moreover have "notExecuted \<or> \<not> receipt_ok w r"
    proof (rule ccontr)
      assume "\<not> ?thesis"
      then obtain e' where ok: "\<not> notExecuted" "coord_inv (xw_coords w ?c)" "recorded w ?c ?i e'"
        by (auto simp: receipt_ok_def Let_def)
      then have "e = None" "event0 = e'" using s by (auto simp: Snapshot_def recorded_def)
      moreover from this ok have "fst (Update (xw_coords w ?c) event) = None"
        using Update_terminal [OF ok(2), of ?i e'] unfolding recorded_def event_def by simp
      ultimately show False using F u by simp
    qed
    moreover have "\<exists>x. v = Ret (Some x) \<and> w' = w"
    proof (cases e)
      case None
      then obtain x where "ue = Some x" using F by auto
      then show ?thesis
        using assms False s u None calculation(1)
        by (auto simp: Receipt_close_def coord_snapshot_def coord_call_def Let_def event_def [symmetric])
    next
      case (Some x)
      then show ?thesis using assms False s by (auto simp: Receipt_close_def coord_snapshot_def)
    qed
    ultimately show thesis using False failed by auto
  qed
qed

end


context lawful_exec_host
begin

lemma keeps_close: "exec_frame.keeps (Receipt_close host r notExecuted)"
proof (rule exec_frame.keepsI)
  fix w :: "('f, 'x) exec_world_scheme"
  obtain v w' where c: "Receipt_close host r notExecuted w = (v, w')" by fastforce
  then have "exec_le w w'"
    by (cases rule: Receipt_close_cases) (auto dest: exec_frame.keepsD [OF keeps_settle] intro: exec_le_trans)
  with c show "exec_le w (snd (Receipt_close host r notExecuted w))" by simp
qed

lemma keeps_hostfn: "exec_frame.keeps (exec_hostfn host h)"
  by (cases h) (auto intro!: exec_frame.keeps_seq keeps_close exec_frame.keeps_ret closure_keeps)

lemma keeps_OnClose_exec: "exec_frame.keeps (OnClose (exec_hostfn host) life fn)"
  by (rule exec_blind.blind_OnClose) (rule keeps_hostfn)

lemma keeps_Close_exec: "exec_frame.keeps (Close (exec_hostfn host) life)"
  by (rule exec_blind.blind_Close) (rule keeps_hostfn)

lemma closed_after:
  assumes "Receipt_close host r notExecuted w = (v, w')" "r < w_fresh w" "\<And>x. v \<noteq> Ret (Some x)"
  shows "rt_closed (xw_receipts w' r)"
  using assms(1)
proof (cases rule: Receipt_close_cases)
  case (closing e w1)
  have "exec_le w1 w'" using exec_frame.keepsD [OF keeps_settle closing(3)] .
  moreover have "r < w_fresh w1" using closing(1) assms(2) by (simp add: exec_le_def)
  ultimately show ?thesis using closing(2) by (simp add: exec_le_def receipt_le_def)
qed (use assms(3) in auto)

text \<open>Closing the receipt of an attempt whose record is in order always closes it, whatever its settlement does.\<close>

lemma close_closes:
  assumes c: "Receipt_close host r False w = (v, w')" and ok: "receipt_ok w r" and r: "r < w_fresh w"
  shows "rt_closed (xw_receipts w' r)"
  using c
proof (cases rule: Receipt_close_cases)
  case (failed x)
  then show ?thesis using ok by simp
next
  case (closing e w1)
  have "exec_le w1 w'" using exec_frame.keepsD [OF keeps_settle closing(3)] .
  moreover have "r < w_fresh w1" using closing(1) r by (simp add: exec_le_def)
  ultimately show ?thesis using closing(2) by (simp add: exec_le_def receipt_le_def)
qed simp

end

section \<open>Boundaries that play by the rules\<close>

locale lawful_boundary = lawful_exec_host host
  for host :: "('f, ('f, 'x) exec_world_scheme) exec_host" +
  fixes b :: "('f, ('f, 'x) exec_world_scheme, 'req, 'k :: zero, 'r :: zero, 'p :: zero) boundary"
  assumes fresh_keeps: "bd_Fresh b = Some fresh \<Longrightarrow> exec_frame.keeps (fresh ctx req)"
    and admit_keeps: "bd_Admit b = Some admit \<Longrightarrow> exec_frame.keeps (admit ctx req i)"
    and dispatch_keeps: "bd_Dispatch b = Some dispatch \<Longrightarrow> exec_frame.keeps (dispatch call rcpt)"
begin

lemma keeps_prepare: "exec_frame.keeps (prepare b call i)"
proof -
  have "exec_frame.keeps (\<lambda>w :: ('f, 'x) exec_world_scheme. (Panic, w))" by (simp add: exec_frame.keeps_def)
  then show ?thesis
    unfolding prepare_def Let_def
    by (intro exec_frame.keeps_option exec_frame.keeps_seq exec_frame.keeps_ret exec_frame.keeps_prod exec_frame.keeps_if
        keeps_ctx_Err_exec) (auto intro: fresh_keeps admit_keeps)
qed

lemma keeps_close_unstarted: "exec_frame.keeps (close_unstarted host result r e s)"
  unfolding close_unstarted_def by (intro exec_frame.keeps_seq keeps_close exec_frame.keeps_ret)

lemma keeps_close_then: "exec_frame.keeps (seq (Receipt_close host r n) (\<lambda>ce. ret (f ce)))"
  by (intro exec_frame.keeps_seq keeps_close exec_frame.keeps_ret)

lemma keeps_OnClose_then: "exec_frame.keeps (seq (OnClose (exec_hostfn host) l g) (\<lambda>_. ret z))"
  by (intro exec_frame.keeps_seq keeps_OnClose_exec exec_frame.keeps_ret)

lemma keeps_dispatch_once: "exec_frame.keeps (dispatch_once host b call result r s)"
proof (rule exec_frame.keepsI)
  fix w :: "('f, 'x) exec_world_scheme"
  have closing: "exec_le w (snd (Receipt_close host r False w))" for w :: "('f, 'x) exec_world_scheme"
    using keeps_close by (simp add: exec_frame.keeps_def)
  show "exec_le w (snd (dispatch_once host b call result r s w))"
  proof (cases "bd_Dispatch b")
    case None
    then show ?thesis using closing [of w] by (cases "Receipt_close host r False w") (simp add: dispatch_once_def)
  next
    case (Some dispatch)
    obtain v w1 where d: "dispatch call r w = (v, w1)" by fastforce
    have 1: "exec_le w w1" using exec_frame.keepsD [OF dispatch_keeps [OF Some] d] .
    have "exec_le w1 (snd (dispatch_once host b call result r s w))"
    proof (cases v)
      case Panic
      then show ?thesis using closing [of w1] d Some by (cases "Receipt_close host r False w1") (simp add: dispatch_once_def)
    next
      case (Ret re)
      then show ?thesis
        using d Some
        by (cases re) (simp add: dispatch_once_def Let_def keeps_close_then [unfolded exec_frame.keeps_def, rule_format]
            keeps_OnClose_then [unfolded exec_frame.keeps_def, rule_format] split: prod.split)
    qed
    with 1 show ?thesis by (rule exec_le_trans)
  qed
qed

end


text \<open>
  \<open>begun w c i r w1\<close>: between \<open>w\<close> and \<open>w1\<close> the attempt \<open>i\<close>, unknown before, was begun on the coordinator \<open>c\<close> and given
  the receipt \<open>r\<close>, which is in order.
\<close>

definition begun :: "('f, 'x) exec_world_scheme \<Rightarrow> nat \<Rightarrow> identity \<Rightarrow> nat \<Rightarrow> ('f, 'x) exec_world_scheme \<Rightarrow> bool" where
  "begun w c i r w1 \<longleftrightarrow> exec_le w w1 \<and> w_fresh w \<le> r \<and> r < w_fresh w1 \<and> receipt_ok w1 r \<and>
     rt_coordinator (xw_receipts w1 r) = c \<and> rt_identity (xw_receipts w1 r) = i \<and>
     map_of (co_events (xw_coords w c)) (id_Attempt i) = None"

lemma begun_le:
  assumes "begun w c i r w1" "exec_le w1 w2"
  shows "begun w c i r w2"
proof -
  have "exec_le w w2" using assms exec_le_trans by (auto simp: begun_def)
  then show ?thesis using assms by (auto simp: begun_def exec_le_def receipt_le_def)
qed

lemma keeps_new_receipt: "exec_frame.keeps (new_receipt c i cl)"
  by (rule exec_frame.keepsI)
    (auto simp: new_receipt_def exec_le_def receipt_le_def receipt_ok_def recorded_def Let_def intro: coord_frame.frame_refl)

lemma begun_new_receipt:
  assumes "Begin (xw_coords w c) i = ((start, None), co)" "sr_Started start" "c < w_fresh w" "coord_inv (xw_coords w c)"
    "w1 = w\<lparr>xw_coords := (xw_coords w)(c := co)\<rparr>" "new_receipt c i cl w1 = (Ret r, w2)"
  shows "begun w c i r w2"
proof -
  have st: "coord_step (xw_coords w c) co" using coord_step.step_begin [OF assms(1)] .
  have "exec_le w w1"
    unfolding assms(5) by (rule exec_le_coord) (use st in \<open>blast intro: coord_step_le coord_step_inv\<close>)+
  then have "exec_le w w2" using exec_frame.keepsD [OF keeps_new_receipt assms(6)] exec_le_trans by blast
  moreover have "coord_inv co" using coord_step_inv [OF st assms(4)] .
  moreover have "map_of (co_events (xw_coords w c)) (id_Attempt i) = None"
      "\<exists>ev. map_of (co_events co) (id_Attempt i) = Some ev \<and> ev_Identity ev = i"
    using assms(1,2) by (auto elim!: Begin_cases simp: update_conv')
  ultimately show ?thesis
    using assms(3,5,6) by (auto simp: begun_def new_receipt_def receipt_ok_def recorded_def Let_def)
qed

lemma zero_result_budget [simp]: "zero_result\<lparr>xr_BudgetExhausted := False\<rparr> = zero_result"
  by (simp add: zero_result_def)

context lawful_boundary
begin

lemma lkeeps_start:
  assumes "\<And>f s. authorize = Some f \<Longrightarrow> exec_frame.lkeeps (f s)"
  shows "exec_frame.lkeeps (Receipt_start host r authorize s)"
  unfolding Receipt_start_def Receipt_Snapshot_def
  by (intro exec_frame.lkeeps_option exec_frame.lkeeps_lift exec_frame.keeps_seq exec_frame.keeps_prod exec_frame.keeps_option
      exec_frame.keeps_ret keeps_Record keeps_coord_snapshot assms)
    (auto simp: exec_frame.keeps_def)

lemma lkeeps_invoke:
  assumes "\<And>f s. authorize = Some f \<Longrightarrow> exec_frame.lkeeps (f s)"
  shows "exec_frame.lkeeps (invoke host b call result r authorize s)"
proof -
  show ?thesis
    unfolding invoke_def
    by (intro exec_frame.lkeeps_option exec_frame.lkeeps_lseq exec_frame.lkeeps_lift keeps_ctx_Err_exec lkeeps_start assms
        exec_frame.lkeeps_prod exec_frame.lkeeps_if keeps_close_unstarted keeps_dispatch_once keeps_panic)
      (auto intro!: exec_frame.lkeeps_lift keeps_close_unstarted keeps_dispatch_once intro: fresh_keeps)
qed

lemma lkeeps_run:
  assumes "\<And>f s. authorize = Some f \<Longrightarrow> exec_frame.lkeeps (f s)"
  shows "exec_frame.lkeeps (run host b call coordinator i authorize s)"
proof -
  have fin: "exec_frame.keeps (\<lambda>w :: ('f, 'x) exec_world_scheme. (Ret (), upd_receipt r (\<lambda>R. R\<lparr>rt_finish := g\<rparr>) w))" for r g
    by (simp add: exec_frame.keeps_def exec_le_upd_receipt)
  show ?thesis
    unfolding run_def Let_def
    by (intro exec_frame.lkeeps_option exec_frame.lkeeps_lseq exec_frame.lkeeps_lift keeps_ctx_Err_exec keeps_new_receipt
        exec_frame.lkeeps_prod exec_frame.lkeeps_if keeps_close_unstarted exec_frame.keeps_ret keeps_coord_call coord_steps
        keeps_prepare keeps_close_then fin lkeeps_invoke assms)
qed

text \<open>What a run consists of.\<close>

lemma run_begun:
  assumes "run host b call (Some c) i authorize s w = Some (Ret (res, e, s'), w')" "c < w_fresh w" "coord_inv (xw_coords w c)"
  obtains (refused) "xr_Receipt res = None" "\<not> xr_Started res" "xr_Route res = AbortResult"
      "xw_coords w' = xw_coords w" "xw_receipts w' = xw_receipts w" "w_fresh w' = w_fresh w" "s' = s"
  | (closed) r w1 res0 x where "begun w c i r w1" "close_unstarted host res0 r (Some x) s w1 = (Ret (res, e, s'), w')"
      "res0 = zero_result\<lparr>xr_Receipt := Some r, xr_Admission := xr_Admission res0, xr_RetryAt := xr_RetryAt res0\<rparr>"
  | (denied) r w1 where "begun w c i r w1" "Receipt_close host r True w1 = (Ret e, w')" "s' = s"
      "res = zero_result\<lparr>xr_Receipt := Some r, xr_Admission := xr_Admission res, xr_RetryAt := xr_RetryAt res\<rparr>"
  | (invoked) r w1 res0 where "begun w c i r w1" "invoke host b call res0 r authorize s w1 = Some (Ret (res, e, s'), w')"
      "res0 = zero_result\<lparr>xr_Receipt := Some r, xr_Admission := xr_Admission res0, xr_RetryAt := xr_RetryAt res0\<rparr>"
proof (cases "bd_Fresh b = None \<or> bd_Dispatch b = None \<or> (bd_Admit b \<noteq> None \<and> bd_CleanupContext b = None) \<or>
    ctx_err (tick w) (rc_Context call) \<noteq> None")
  case True
  with assms(1) show thesis
    by (intro refused) (auto simp: run_def zero_result_def split: if_splits)
next
  case False
  then have valid: "(bd_Fresh b = None \<or> bd_Dispatch b = None \<or> (bd_Admit b \<noteq> None \<and> bd_CleanupContext b = None)) = False"
    and live: "ctx_err (tick w) (rc_Context call) = None" by blast+
  obtain start be co where B: "Begin (xw_coords w c) i = ((start, be), co)" by (metis surj_pair)
  let ?w0 = "(tick w)\<lparr>xw_coords := (xw_coords w)(c := co)\<rparr>"
  have tick: "exec_le w (tick w)" by (simp add: exec_le_same)
  show thesis
  proof (cases "be = None \<and> sr_Started start")
    case F: False
    then have "co = xw_coords w c" using B by (elim Begin_cases) auto
    then show thesis
      using assms(1) False B F by (intro refused) (auto simp: run_def zero_result_def coord_call_def Let_def split: if_splits)
  next
    case T: True
    obtain r w1 where r: "new_receipt c i (bd_CleanupContext b) ?w0 = (Ret r, w1)" by (simp add: new_receipt_def)
    have b1: "begun (tick w) c i r w1"
      by (rule begun_new_receipt [OF _ _ _ _ _ r]) (use B T assms(2,3) in auto)
    have "begun w c i r w1" using b1 tick exec_le_trans by (auto simp: begun_def)
    then have b2: "begun w c i r v" if "exec_le w1 v" for v using begun_le that by blast
    let ?res = "\<lambda>ad. zero_result\<lparr>xr_Receipt := Some r, xr_Admission := ad_Status ad, xr_RetryAt := ad_RetryAt ad\<rparr>"
    have "lseq (lift (prepare b call i)) (\<lambda>(admission, e).
        lseq (lift (\<lambda>w. (Ret (), upd_receipt r (\<lambda>R. R\<lparr>rt_finish := ad_Finish admission\<rparr>) w))) (\<lambda>_.
          case e of
            Some x \<Rightarrow> lift (close_unstarted host (?res admission) r (Some x) s)
          | None \<Rightarrow>
              if ad_Status admission = Denied \<or> ad_Status admission = Deferred
              then lift (seq (Receipt_close host r True) (\<lambda>ce. ret (?res admission, ce, s)))
              else invoke host b call (?res admission) r authorize s)) w1 = Some (Ret (res, e, s'), w')"
      using assms(1) live B T r unfolding run_def option.case valid if_False by (simp add: coord_call_def Let_def)
    then obtain admission pe w2 where p: "prepare b call i w1 = (Ret (admission, pe), w2)"
      and rest: "(case pe of
            Some x \<Rightarrow> lift (close_unstarted host (?res admission) r (Some x) s)
          | None \<Rightarrow>
              if ad_Status admission = Denied \<or> ad_Status admission = Deferred
              then lift (seq (Receipt_close host r True) (\<lambda>ce. ret (?res admission, ce, s)))
              else invoke host b call (?res admission) r authorize s)
            (upd_receipt r (\<lambda>R. R\<lparr>rt_finish := ad_Finish admission\<rparr>) w2) = Some (Ret (res, e, s'), w')"
      by (auto elim!: lseq_RetE)
    let ?w3 = "upd_receipt r (\<lambda>R. R\<lparr>rt_finish := ad_Finish admission\<rparr>) w2"
    have "exec_le w1 w2" using exec_frame.keepsD [OF keeps_prepare p] .
    also have "exec_le w2 ?w3" by (rule exec_le_upd_receipt) simp
    finally have b3: "begun w c i r ?w3" by (rule b2)
    show thesis
    proof (cases pe)
      case (Some x)
      then show thesis using rest b3 by (intro closed [of r ?w3 "?res admission" x]) (simp_all add: zero_result_def)
    next
      case None
      show thesis
      proof (cases "ad_Status admission = Denied \<or> ad_Status admission = Deferred")
        case True
        then show thesis using rest None b3
          by (intro denied [of r ?w3]) (auto simp: zero_result_def elim!: seq_RetE)
      next
        case False
        then show thesis using rest None b3 by (intro invoked [of r ?w3 "?res admission"]) (simp_all add: zero_result_def)
      qed
    qed
  qed
qed

end


text \<open>Either the attempt was stopped before dispatch and its receipt closed, or it was started and dispatched.\<close>

lemma invoke_cases:
  assumes "invoke host b call res0 r authorize s w = Some (Ret (res, e, s'), w')"
  obtains (stopped) e0 s0 w1 where "close_unstarted host res0 r e0 s0 w1 = (Ret (res, e, s'), w')"
      "(\<exists>x. e0 = Some x \<and> s0 = s) \<or> (\<exists>v a. Receipt_start host r authorize s v = Some (Ret ((a, e0), s0), w1) \<and> (e0 = None \<longrightarrow> \<not> a))"
      "lawful_boundary host b \<longrightarrow> exec_frame.lkeeps (Receipt_start host r authorize s) \<longrightarrow> exec_le w w1"
  | (started) w1 w2 where "Receipt_start host r authorize s w1 = Some (Ret ((True, None), s'), w2)"
      "dispatch_once host b call (res0\<lparr>xr_Started := True\<rparr>) r s' w2 = (Ret (res, e, s'), w')"
      "lawful_boundary host b \<longrightarrow> exec_frame.lkeeps (Receipt_start host r authorize s) \<longrightarrow> exec_le w w2"
      "lawful_boundary host b \<longrightarrow> exec_le w w1"
proof -
  obtain fresh where f: "bd_Fresh b = Some fresh"
    using assms by (cases "bd_Fresh b") (auto simp: invoke_def)
  obtain fe w1 where fe: "fresh (rc_Context call) (rc_Request call) w = (Ret fe, w1)"
    and k1: "(case fe of Some x \<Rightarrow> lift (close_unstarted host res0 r (Some x) s)
      | None \<Rightarrow> lseq (lift (ctx_Err (rc_Context call))) (\<lambda>e.
              case e of
                Some x \<Rightarrow> lift (close_unstarted host res0 r (Some x) s)
              | None \<Rightarrow> lseq (Receipt_start host r authorize s) (\<lambda>((allowed, e), s').
                  if e \<noteq> None \<or> \<not> allowed then lift (close_unstarted host res0 r e s')
                  else lift (dispatch_once host b call (res0\<lparr>xr_Started := True\<rparr>) r s')))) w1 = Some (Ret (res, e, s'), w')"
    using assms unfolding invoke_def f option.case by (elim lseq_RetE) auto
  have le: "exec_le w w1" "exec_le w (tick w1)" if "lawful_boundary host b"
    using exec_frame.keepsD [OF lawful_boundary.fresh_keeps [OF that f] fe] exec_le_trans [OF _ exec_le_same, of w w1 "tick w1"]
    by auto
  show thesis
  proof (cases fe)
    case (Some x)
    then show thesis using k1 le by (intro stopped [of "Some x" s w1]) auto
  next
    case fe_None: None
    show thesis
    proof (cases "ctx_err (tick w1) (rc_Context call)")
      case (Some x)
      then show thesis using k1 fe_None le by (intro stopped [of "Some x" s "tick w1"]) auto
    next
      case None
      with k1 fe_None obtain allowed se s0 w2
        where st: "Receipt_start host r authorize s (tick w1) = Some (Ret ((allowed, se), s0), w2)"
          and k2: "(if se \<noteq> None \<or> \<not> allowed then lift (close_unstarted host res0 r se s0)
                  else lift (dispatch_once host b call (res0\<lparr>xr_Started := True\<rparr>) r s0)) w2 = Some (Ret (res, e, s'), w')"
        by (auto elim!: lseq_RetE)
      have le2: "lawful_boundary host b \<longrightarrow> exec_frame.lkeeps (Receipt_start host r authorize s) \<longrightarrow> exec_le w w2"
        using le(2) st exec_le_trans by (blast dest: exec_frame.lkeepsD)
      show thesis
      proof (cases "se \<noteq> None \<or> \<not> allowed")
        case True
        then show thesis using k2 st le2 by (intro stopped [of se s0 w2]) auto
      next
        case False
        then have d: "dispatch_once host b call (res0\<lparr>xr_Started := True\<rparr>) r s0 w2 = (Ret (res, e, s'), w')" using k2 by simp
        then have "s' = s0"
          by (auto simp: dispatch_once_def Let_def elim!: seq_RetE split: option.splits prod.splits outcome.splits if_splits)
        with d False st le2 le(2) show thesis by (intro started [of "tick w1" w2]) auto
      qed
    qed
  qed
qed

lemma close_unstarted_result:
  "close_unstarted host res0 r e0 s0 w = (Ret (res, e, s'), w') \<Longrightarrow>
   res = res0 \<and> s' = s0 \<and> (\<exists>ce. Receipt_close host r True w = (Ret ce, w') \<and> e = errors_Join [e0, ce])"
  by (auto simp: close_unstarted_def elim!: seq_RetE)

lemma dispatch_once_result:
  assumes "dispatch_once host b call res0 r s w = (Ret (res, e, s'), w')"
  obtains dispatch route e0 w1 where "bd_Dispatch b = Some dispatch" "dispatch call r w = (Ret (route, e0), w1)"
    "xr_Route res = fst (ValidateRouteResult route e0)" "res = res0\<lparr>xr_Route := xr_Route res\<rparr>" "s' = s"
    "if res_Lifetime (xr_Route res) = None then (\<exists>ce. Receipt_close host r False w1 = (Ret ce, w') \<and> e = errors_Join [snd (ValidateRouteResult route e0), ce])
     else OnClose (exec_hostfn host) (res_Lifetime (xr_Route res)) (Some (HostFn (CloseReceipt r))) w1 = (Ret (), w') \<and>
       e = snd (ValidateRouteResult route e0)"
proof -
  obtain dispatch where d: "bd_Dispatch b = Some dispatch"
    using assms by (cases "bd_Dispatch b") (auto simp: dispatch_once_def split: prod.splits)
  obtain route e0 w1 where c: "dispatch call r w = (Ret (route, e0), w1)"
    using assms d by (cases "dispatch call r w" rule: prod.exhaust; cases "fst (dispatch call r w)")
      (auto simp: dispatch_once_def split: prod.splits)
  obtain route' e' where v: "ValidateRouteResult route e0 = (route', e')" by fastforce
  show thesis
  proof (cases "res_Lifetime route' = None")
    case True
    with assms d c v show thesis
      by (intro that [OF d c]) (auto simp: dispatch_once_def Let_def elim!: seq_RetE)
  next
    case False
    with assms d c v show thesis
      by (intro that [OF d c]) (auto simp: dispatch_once_def Let_def elim!: seq_RetE)
  qed
qed


section \<open>Every attempt is accounted for\<close>

definition pending_close :: "('f, 'x) exec_world_scheme \<Rightarrow> nat \<Rightarrow> nat option \<Rightarrow> bool" where
  "pending_close w r life \<longleftrightarrow> (\<exists>l. life = Some l \<and> HostFn (CloseReceipt r) \<in> set (lt_hooks (w_lifes w l)))"

text \<open>What is left of an attempt: nothing when it was refused, otherwise a receipt that is closed or will be.\<close>

definition accounted ::
  "('f, 'x) exec_world_scheme \<Rightarrow> nat \<Rightarrow> identity \<Rightarrow> ('k, 'r, 'p) exec_result \<Rightarrow> err \<Rightarrow> ('f, 'x) exec_world_scheme \<Rightarrow> bool" where
  "accounted w c i res e w' \<longleftrightarrow>
     (case xr_Receipt res of
        None \<Rightarrow> \<not> xr_Started res \<and> xw_coords w' c = xw_coords w c
      | Some r \<Rightarrow> begun w c i r w' \<and>
          (if xr_Started res then rt_closed (xw_receipts w' r) \<or> pending_close w' r (res_Lifetime (xr_Route res))
           else res_Lifetime (xr_Route res) = None \<and> (rt_closed (xw_receipts w' r) \<or> e \<noteq> None)))"

context lawful_boundary
begin

lemma hook_or_closed:
  assumes "OnClose (exec_hostfn host) life (Some (HostFn (CloseReceipt r))) w = (Ret (), w')" "life \<noteq> None"
    "receipt_ok w r" "r < w_fresh w"
  shows "rt_closed (xw_receipts w' r) \<or> pending_close w' r life"
proof -
  obtain l where l: "life = Some l" using assms(2) by blast
  show ?thesis
  proof (cases "lt_closed (w_lifes w l)")
    case True
    obtain ce w1 where c: "Receipt_close host r False w = (Ret ce, w1)" and "w' = w1"
      using assms(1) l True by (auto simp: OnClose_def elim!: seq_RetE)
    with close_closes [OF c assms(3,4)] show ?thesis by simp
  next
    case False
    then show ?thesis using assms(1) l by (auto simp: OnClose_def pending_close_def upd_life_def)
  qed
qed

lemma closed_unstarted:
  assumes "begun w c i r w1" "Receipt_close host r True w1 = (Ret ce, w')" "ce \<noteq> None \<longrightarrow> e \<noteq> None"
    "res = zero_result\<lparr>xr_Receipt := Some r, xr_Admission := ad, xr_RetryAt := ra\<rparr>"
  shows "accounted w c i res e w'"
proof -
  have "begun w c i r w'" using begun_le [OF assms(1)] exec_frame.keepsD [OF keeps_close assms(2)] by blast
  moreover have "rt_closed (xw_receipts w' r) \<or> ce \<noteq> None"
    using closed_after [OF assms(2)] assms(1) by (cases ce) (auto simp: begun_def)
  ultimately show ?thesis using assms(3,4) by (auto simp: accounted_def zero_result_def AbortResult_def)
qed

lemma started_accounted:
  assumes "begun w c i r w2" "dispatch_once host b call res0 r s w2 = (Ret (res, e, s'), w')"
    "xr_Receipt res0 = Some r" "xr_Started res0"
  shows "accounted w c i res e w'"
proof -
  obtain dispatch route e0 w3 where d: "bd_Dispatch b = Some dispatch" "dispatch call r w2 = (Ret (route, e0), w3)"
    and res: "res = res0\<lparr>xr_Route := xr_Route res\<rparr>"
    and k: "if res_Lifetime (xr_Route res) = None
      then (\<exists>ce. Receipt_close host r False w3 = (Ret ce, w') \<and> e = errors_Join [snd (ValidateRouteResult route e0), ce])
     else OnClose (exec_hostfn host) (res_Lifetime (xr_Route res)) (Some (HostFn (CloseReceipt r))) w3 = (Ret (), w') \<and>
       e = snd (ValidateRouteResult route e0)"
    using assms(2) by (rule dispatch_once_result)
  have b3: "begun w c i r w3" using begun_le [OF assms(1)] exec_frame.keepsD [OF dispatch_keeps [OF d(1)] d(2)] by blast
  then have ok: "receipt_ok w3 r" "r < w_fresh w3" by (auto simp: begun_def)
  have "exec_le w3 w'"
    using k exec_frame.keepsD [OF keeps_close] exec_frame.keepsD [OF keeps_OnClose_exec] by (auto split: if_splits)
  then have "begun w c i r w'" by (rule begun_le [OF b3])
  moreover have "rt_closed (xw_receipts w' r) \<or> pending_close w' r (res_Lifetime (xr_Route res))"
    using k close_closes [OF _ ok] hook_or_closed [OF _ _ ok] by (auto split: if_splits)
  moreover have "xr_Receipt res = Some r" "xr_Started res" using assms(3,4) by (subst res, simp)+
  ultimately show ?thesis by (simp add: accounted_def)
qed

lemma run_accounted:
  assumes "run host b call (Some c) i authorize s w = Some (Ret (res, e, s'), w')" "c < w_fresh w" "coord_inv (xw_coords w c)"
    "\<And>f s. authorize = Some f \<Longrightarrow> exec_frame.lkeeps (f s)"
  shows "accounted w c i res e w'"
  using assms(1-3)
proof (cases rule: run_begun)
  case refused
  then show ?thesis by (simp add: accounted_def)
next
  case (closed r w1 res0 x)
  from close_unstarted_result [OF closed(2)] obtain ce where "res = res0" "Receipt_close host r True w1 = (Ret ce, w')"
    "e = errors_Join [Some x, ce]" by blast
  then show ?thesis using closed_unstarted [OF closed(1) _ _ closed(3), of ce w' e] by simp
next
  case (denied r w1)
  then show ?thesis using closed_unstarted [OF denied(1,2)] by blast
next
  case (invoked r w1 res0)
  have law: "lawful_boundary host b" by unfold_locales
  have start: "exec_frame.lkeeps (Receipt_start host r authorize s)" using assms(4) by (rule lkeeps_start)
  from invoked(2) show ?thesis
  proof (cases rule: invoke_cases)
    case (stopped e0 s0 w2)
    have "begun w c i r w2" using begun_le [OF invoked(1)] stopped(3) law start by blast
    moreover from close_unstarted_result [OF stopped(1)] obtain ce where "res = res0" "Receipt_close host r True w2 = (Ret ce, w')"
      "e = errors_Join [e0, ce]" by blast
    ultimately show ?thesis using closed_unstarted [OF _ _ _ invoked(3), of w c i w2 ce w' e] by simp
  next
    case (started w2 w3)
    have "begun w c i r w3" using begun_le [OF invoked(1)] started(3) law start by blast
    moreover have "xr_Receipt (res0\<lparr>xr_Started := True\<rparr>) = Some r" by (subst invoked(3)) simp
    ultimately show ?thesis using started_accounted [OF _ started(2)] by simp
  qed
qed

end


lemma Run_run:
  assumes "Run host b call coordinator i w = Some (Ret (res, e), w')"
  shows "run host b call coordinator i None () w = Some (Ret (res, e, ()), w')"
  using assms unfolding Run_def by (auto elim!: lseq_RetE)

lemma invoke_other_dispatch:
  assumes "invoke host b call res0 r authorize s w = Some (Ret (res, e, s'), w')" "\<not> xr_Started res"
  shows "invoke host (b\<lparr>bd_Dispatch := d\<rparr>) call res0 r authorize s w = Some (Ret (res, e, s'), w')"
proof -
  have "xr_Started res" if "dispatch_once host b call (res0\<lparr>xr_Started := True\<rparr>) r s0 w0 = (Ret (res, e, s'), w')" for s0 w0
    using that by (elim dispatch_once_result) (metis exec_result.select_convs(5) exec_result.surjective exec_result.update_convs)
  with assms show ?thesis
    unfolding invoke_def by (auto simp: lseq_def split: option.splits prod.splits outcome.splits if_splits)
qed

section \<open>Properties\<close>

text \<open>
  C19 (safety). With callbacks that keep to the order of records, every run of a boundary that returns accounts for its
  attempt: either it was refused and the coordinator is untouched, or the identity was new and is now recorded with a
  receipt of its own. An attempt that was started leaves the receipt closed, with a terminal event, or waiting on the
  lifetime of its result; one that was not started owns nothing and leaves the receipt closed or an error.
\<close>

theorem Run_accounts_for_the_attempt:
  assumes "lawful_boundary host b" "Run host b call (Some c) i w = Some (Ret (res, e), w')"
    "c < w_fresh w" "coord_inv (xw_coords w c)"
  shows "accounted w c i res e w'"
  using lawful_boundary.run_accounted [OF assms(1) Run_run [OF assms(2)] assms(3,4)] by simp

text \<open>
  A run that reports its attempt as not started has not dispatched it: with any other dispatch function it
  would have returned the same result in the same state.
\<close>

theorem unstarted_attempts_are_never_dispatched:
  assumes "Run host b call coordinator i w = Some (Ret (res, e), w')" "bd_Dispatch b = Some d" "\<not> xr_Started res"
  shows "Run host (b\<lparr>bd_Dispatch := Some d'\<rparr>) call coordinator i w = Some (Ret (res, e), w')"
proof -
  have sel: "bd_Fresh (b\<lparr>bd_Dispatch := Some d'\<rparr>) = bd_Fresh b" "bd_Admit (b\<lparr>bd_Dispatch := Some d'\<rparr>) = bd_Admit b" by simp_all
  have prep: "prepare (b\<lparr>bd_Dispatch := Some d'\<rparr>) = prepare b" by (intro ext) (unfold prepare_def sel, rule refl)
  have inv: "invoke host (b\<lparr>bd_Dispatch := Some d'\<rparr>) call res0 r None s w1 = Some (Ret (res, e, s'), w')"
    if "invoke host b call res0 r None s w1 = Some (Ret (res, e, s'), w')" for res0 r and s s' :: unit and w1
    using invoke_other_dispatch [OF that assms(3)] .
  have "run host (b\<lparr>bd_Dispatch := Some d'\<rparr>) call coordinator i None () w = Some (Ret (res, e, ()), w')"
    using Run_run [OF assms(1)] assms(2) unfolding run_def prep
    by (auto simp: Let_def elim!: lseq_same split: option.splits if_splits prod.splits) (erule inv)+
  then show ?thesis by (simp add: Run_def)
qed


section \<open>An example\<close>

text \<open>A host that admits, reserves under one finish function and answers at once.\<close>

definition demo_host :: "(nat, (nat, unit) exec_world_scheme) exec_host" where
  "demo_host = \<lparr>xh_finish = (\<lambda>_ _ _. ret None), xh_cleanupContext = (\<lambda>_. ret (Some Background, Some (ret ()))),
     xh_closure = (\<lambda>_. ret None)\<rparr>"

definition demo_boundary :: "(nat, (nat, unit) exec_world_scheme, nat, nat, nat, nat) boundary" where
  "demo_boundary = \<lparr>bd_Fresh = Some (\<lambda>_ _. ret None),
     bd_Admit = Some (\<lambda>_ q _. ret (\<lparr>ad_Status = (if q = 0 then Denied else Admitted), ad_RetryAt = 0, ad_Finish = Some 7\<rparr>, None)),
     bd_Dispatch = Some (\<lambda>_ _. ret (Handled 1 0 5, None)), bd_CleanupContext = Some 3\<rparr>"

definition demo_coordinator :: coordinator where
  "demo_coordinator = \<lparr>co_operation = ''op'', co_limit = 2, co_events = []\<rparr>"

definition demo_exec_world :: "(nat, unit) exec_world_scheme" where
  "demo_exec_world = \<lparr>w_step = 0, w_clock = (\<lambda>_. 0), w_rand = (\<lambda>_. 0), w_cancel = (\<lambda>_. None), w_fresh = 1,
     w_lifes = (\<lambda>_. fresh_life), w_decisions = (\<lambda>_. []), w_counters = (\<lambda>_. 0),
     w_breakers = (\<lambda>_. \<lparr>cb_failures = 0, cb_state = cbClosed, cb_openedAt = 0, cb_probeInFlight = False, cb_generation = 0\<rparr>),
     w_semas = (\<lambda>_. \<lparr>sm_limit = 0, sm_used = 0\<rparr>), xw_coords = (\<lambda>_. demo_coordinator),
     xw_receipts = (\<lambda>_. \<lparr>rt_coordinator = 0, rt_identity = zero_identity, rt_finish = None, rt_cleanupContext = None,
        rt_closed = False, rt_err = None\<rparr>)\<rparr>"

definition demo_identity :: "string \<Rightarrow> identity" where
  "demo_identity a = \<lparr>id_Operation = ''op'', id_Attempt = a\<rparr>"

definition demo_call :: "nat \<Rightarrow> nat route_call" where
  "demo_call q = \<lparr>rc_Context = Background, rc_Request = q, rc_Match = zeroRouteMatch, rc_state = None\<rparr>"

lemmas demo_exec_defs = demo_host_def demo_boundary_def demo_coordinator_def demo_exec_world_def demo_identity_def demo_call_def

interpretation demo_boundary: lawful_boundary demo_host demo_boundary
  by unfold_locales (auto simp: demo_host_def demo_boundary_def intro: exec_frame.keeps_ret)

lemma demo_coordinator_inv: "coord_inv demo_coordinator"
  by (simp add: demo_coordinator_def coord_inv_def)

theorem Run_accounts_for_the_attempt_witness:
  "\<exists>res w'. Run demo_host demo_boundary (demo_call 1) (Some 0) (demo_identity ''a'') demo_exec_world = Some (Ret (res, None), w') \<and>
     xr_Started res \<and> xr_Receipt res = Some 1 \<and> rt_closed (xw_receipts w' 1) \<and>
     accounted demo_exec_world 0 (demo_identity ''a'') res None w'"
proof -
  have "\<exists>res w'. Run demo_host demo_boundary (demo_call 1) (Some 0) (demo_identity ''a'') demo_exec_world = Some (Ret (res, None), w') \<and>
     xr_Started res \<and> xr_Receipt res = Some 1 \<and> rt_closed (xw_receipts w' 1)"
    by (simp add: demo_exec_defs Run_def run_def lseq_def coord_call_def Begin_def Let_def new_receipt_def prepare_def seq_def
        ctx_err_def upd_receipt_def invoke_def Receipt_start_def Receipt_Snapshot_def coord_snapshot_def Snapshot_def Record_def
        Update_def validEvent_def dispatch_once_def ValidateRouteResult_def validateReturnedResult_def Handled_def
        Receipt_close_def settle_def finishSettlement_def with_defer_def set_err_def errors_Join_def tick_def zero_result_def)
  then obtain res w' where r: "Run demo_host demo_boundary (demo_call 1) (Some 0) (demo_identity ''a'') demo_exec_world = Some (Ret (res, None), w')"
    "xr_Started res" "xr_Receipt res = Some 1" "rt_closed (xw_receipts w' 1)" by blast
  have "accounted demo_exec_world 0 (demo_identity ''a'') res None w'"
    by (rule Run_accounts_for_the_attempt [OF demo_boundary.lawful_boundary_axioms r(1)])
      (simp_all add: demo_exec_world_def demo_coordinator_inv)
  with r show ?thesis by blast
qed

theorem unstarted_attempts_are_never_dispatched_witness:
  "\<exists>res w'. Run demo_host (demo_boundary\<lparr>bd_Dispatch := Some (\<lambda>_ _ w. (Panic, w))\<rparr>) (demo_call 0) (Some 0) (demo_identity ''a'')
       demo_exec_world = Some (Ret (res, None), w') \<and> xr_Admission res = Denied \<and> rt_closed (xw_receipts w' 1)"
proof -
  have "\<exists>res w'. Run demo_host demo_boundary (demo_call 0) (Some 0) (demo_identity ''a'') demo_exec_world = Some (Ret (res, None), w') \<and>
     \<not> xr_Started res \<and> xr_Admission res = Denied \<and> rt_closed (xw_receipts w' 1)"
    by (simp add: demo_exec_defs Run_def run_def lseq_def coord_call_def Begin_def Let_def new_receipt_def prepare_def seq_def
        ctx_err_def upd_receipt_def zero_result_def coord_snapshot_def Snapshot_def Update_def validEvent_def
        Receipt_close_def settle_def finishSettlement_def with_defer_def set_err_def)
  then obtain res w' where r: "Run demo_host demo_boundary (demo_call 0) (Some 0) (demo_identity ''a'') demo_exec_world = Some (Ret (res, None), w')"
    "\<not> xr_Started res" "xr_Admission res = Denied" "rt_closed (xw_receipts w' 1)" by blast
  have "bd_Dispatch demo_boundary = Some (\<lambda>_ _. ret (Handled 1 0 5, None))" by (simp add: demo_boundary_def)
  from unstarted_attempts_are_never_dispatched [OF r(1) this r(2)] r show ?thesis by blast
qed

end
