(* ===== verification/Sequence.thy ===== *)
theory Sequence
  imports Boundary
begin

text \<open>
  \<open>policy/execution/sequence.go\<close>: one retry owner over a boundary. \<open>Sequence_Run\<close> dispatches the initial step and repeats it
  only when the evidence, the schedule and an authorization on the coordinator permit it.

  The clock \<open>Now\<close> is a stream: the observation made at step \<open>n\<close> of the world sees \<open>now n\<close> (observations of contexts
  count as steps too), as in \<open>Schedule\<close>. The other callbacks are host procedures. Variables that Go's closures share by
  pointer (\<open>failure\<close> and \<open>decision\<close> of \<open>authorize\<close>) are passed through. Both loops have no bound in the code and are
  \<open>loop_forever\<close> here; that they end is a theorem.
\<close>

section \<open>Data\<close>

record 'req step =
  sp_Request :: 'req
  sp_Identity :: identity

record 'c failure =
  fl_Class :: 'c
  fl_Event :: event
  fl_Remaining :: int
  fl_Err :: err

record ('k, 'r, 'p) trace_entry =
  te_Identity :: identity
  te_Result :: "('k, 'r, 'p) exec_result"
  te_Err :: err

record ('c, 'k, 'r, 'p) sequence_result =
  sr_Last :: "('k, 'r, 'p) exec_result"
  sr_Trace :: "('k, 'r, 'p) trace_entry list"
  sr_Failure :: "'c failure option"
  sr_Decision :: decision
  sr_NestedAttemptsKnown :: bool

record ('f, 'w, 'req, 'c, 'k, 'r, 'p) sequence =
  sq_Boundary :: "('f, 'w, 'req, 'k, 'r, 'p) boundary"
  sq_Classify :: "(('k, 'r, 'p) exec_result \<Rightarrow> err \<Rightarrow> ('w, 'c \<times> err) proc) option"
  sq_Replay :: "('c failure \<Rightarrow> ('w, replay \<times> err) proc) option"
  sq_Schedule :: "('c failure \<Rightarrow> decision \<Rightarrow> ('w, schedule_input \<times> err) proc) option"
  sq_Next :: "(ctx \<Rightarrow> 'req step \<Rightarrow> decision \<Rightarrow> ('w, 'req step \<times> err) proc) option"
  sq_Now :: "(nat \<Rightarrow> int) option"
  sq_Wait :: "(ctx \<Rightarrow> int \<Rightarrow> ('w, err) proc) option"
  sq_Deadline :: int
  sq_DeadlineContext :: "(ctx \<Rightarrow> int \<Rightarrow> ('w, ctx option \<times> 'f exec_closure closure option) proc) option"
  sq_NestedAttemptsKnown :: bool

definition zero_replay :: replay where
  "zero_replay = \<lparr>rp_Retryable = False, rp_Replayable = False, rp_SafeDuplicate = False, rp_ResetProtocol = False,
     rp_CanReconcile = False, rp_UseFallback = False\<rparr>"

text \<open>The zero values of the \<open>Result\<close> and \<open>Failure\<close> structs.\<close>

definition empty_result :: "('k :: zero, 'r :: zero, 'p :: zero) exec_result" where
  "empty_result = \<lparr>xr_Route = zeroResult, xr_Admission = Denied, xr_RetryAt = 0, xr_Receipt = None,
     xr_Started = False, xr_BudgetExhausted = False\<rparr>"

definition zero_failure :: "'c :: zero failure" where
  "zero_failure = \<lparr>fl_Class = 0, fl_Event = zero_event, fl_Remaining = 0, fl_Err = None\<rparr>"

section \<open>Deadlines and the clock\<close>

definition earliestDeadline :: "ctx \<Rightarrow> int \<Rightarrow> int \<Rightarrow> int" where
  "earliestDeadline ctx first second =
     (let first' = (if second \<noteq> 0 \<and> (first = 0 \<or> second < first) then second else first) in
      case ctx_Deadline ctx of
        Some d \<Rightarrow> if first' = 0 \<or> d < first' then d else first'
      | None \<Rightarrow> first')"

definition stopDecision :: "decision \<Rightarrow> err \<Rightarrow> decision" where
  "stopDecision decision e = decision\<lparr>de_Action := Stop,
     de_Reason := (if errors_Is e ContextCanceled then Cancelled
       else if errors_Is e DeadlineExceeded then DeadlineExhausted else NotRetryable)\<rparr>"

definition isRepeat :: "action \<Rightarrow> bool" where
  "isRepeat action \<longleftrightarrow> action = Retry \<or> action = Fallback"

text \<open>One reading of the clock; calling a nil \<open>Now\<close> panics.\<close>

definition read_now :: "(nat \<Rightarrow> int) option \<Rightarrow> (('h, 'x) world_scheme, int) proc" where
  "read_now now w = (case now of None \<Rightarrow> (Panic, w) | Some clk \<Rightarrow> (Ret (clk (w_step (tick w))), tick w))"

definition checkStart ::
  "('f, ('f, 'x) exec_world_scheme, 'req, 'c, 'k, 'r, 'p) sequence \<Rightarrow> ctx \<Rightarrow> int \<Rightarrow> (('f, 'x) exec_world_scheme, err) proc" where
  "checkStart sq ctx notBefore =
     seq (ctx_Err ctx) (\<lambda>e.
       case e of
         Some x \<Rightarrow> ret (Some x)
       | None \<Rightarrow> seq (read_now (sq_Now sq)) (\<lambda>now. ret (
           case snd (AddDelay now 0) of
             Some x \<Rightarrow> Some x
           | None \<Rightarrow>
               (case (if sq_Deadline sq \<noteq> 0 then snd (AddDelay (sq_Deadline sq) 0) else None) of
                  Some x \<Rightarrow> Some x
                | None \<Rightarrow>
                    if notBefore \<noteq> 0 \<and> now < notBefore then Some ErrInvalidHint
                    else let deadline = earliestDeadline ctx (sq_Deadline sq) 0 in
                      if deadline \<noteq> 0 \<and> \<not> now < deadline then Some DeadlineExceeded else None))))"

text \<open>
  \<open>context.WithDeadline\<close>: just a cancelable child when the parent's deadline is sooner, done at once when the deadline has
  passed, otherwise done when its timer fires.
\<close>

definition WithDeadline :: "ctx \<Rightarrow> int \<Rightarrow> ('h, 'x) world_scheme \<Rightarrow> ctx \<times> ('h, 'x) world_scheme" where
  "WithDeadline parent d w =
     (if (case ctx_Deadline parent of Some p \<Rightarrow> p < d | None \<Rightarrow> False) then WithCancel parent w
      else (Ctx (w_fresh w) (Some d) parent,
        w\<lparr>w_cancel := (w_cancel w)(w_fresh w :=
            (if d \<le> time_Now w then Some (w_step w, DeadlineExceeded)
             else map_option (\<lambda>(t, _). (t, DeadlineExceeded)) (w_cancel w (w_fresh w)))),
          w_fresh := Suc (w_fresh w)\<rparr>))"

definition boundedContext ::
  "('f, ('f, 'x) exec_world_scheme) exec_host \<Rightarrow>
   ('f, ('f, 'x) exec_world_scheme, 'req, 'c, 'k, 'r, 'p) sequence \<Rightarrow> ctx \<Rightarrow>
   (('f, 'x) exec_world_scheme, gerror + (ctx \<times> 'f exec_closure closure)) proc" where
  "boundedContext host sq ctx =
     (let deadline = earliestDeadline ctx (sq_Deadline sq) 0 in
      if deadline = 0 then (\<lambda>w. case WithCancel ctx w of (bounded, w1) \<Rightarrow> (Ret (Inr (bounded, CancelFn bounded)), w1))
      else seq (case sq_DeadlineContext sq of
                  Some factory \<Rightarrow> factory ctx deadline
                | None \<Rightarrow> (\<lambda>w. case WithDeadline ctx deadline w of
                    (bounded, w1) \<Rightarrow> (Ret (Some bounded, Some (CancelFn bounded)), w1)))
        (\<lambda>(bounded, cancel).
           case (bounded, cancel) of
             (Some bd, Some cn) \<Rightarrow>
               if (case ctx_Deadline bd of None \<Rightarrow> True | Some actual \<Rightarrow> deadline < actual)
               then seq (run_closure (exec_hostfn host) cn) (\<lambda>_. ret (Inl ErrInvalidBoundary))
               else ret (Inr (bd, cn))
           | (None, Some cn) \<Rightarrow> seq (run_closure (exec_hostfn host) cn) (\<lambda>_. ret (Inl ErrInvalidBoundary))
           | (_, None) \<Rightarrow> ret (Inl ErrInvalidBoundary)))"

section \<open>Decisions\<close>

text \<open>A method call on \<open>last.Receipt\<close>; a nil receipt panics.\<close>

definition receipt_of :: "('k, 'r, 'p) exec_result \<Rightarrow> (nat \<Rightarrow> ('w, 'a) proc) \<Rightarrow> ('w, 'a) proc" where
  "receipt_of latest f w = (case xr_Receipt latest of None \<Rightarrow> (Panic, w) | Some r \<Rightarrow> f r w)"

definition terminalDecision :: "('k, 'r, 'p) exec_result \<Rightarrow> (('f, 'x) exec_world_scheme, decision) proc" where
  "terminalDecision latest =
     seq (case xr_Receipt latest of
            None \<Rightarrow> ret zero_event
          | Some r \<Rightarrow> seq (Receipt_Snapshot r) (\<lambda>(event, _, _). ret event))
       (\<lambda>event.
          let decision = zero_decision\<lparr>de_Action := Stop, de_Reason := ExecutionReturned, de_Event := event\<rparr> in
          ret (if xr_BudgetExhausted latest then decision\<lparr>de_Reason := BudgetExhausted\<rparr>
               else if xr_Admission latest = Denied then decision\<lparr>de_Reason := AdmissionDenied\<rparr>
               else if xr_Admission latest = Deferred
               then decision\<lparr>de_Action := Defer, de_Reason := AdmissionDeferred, de_NotBefore := xr_RetryAt latest\<rparr>
               else decision))"

definition completedDecision ::
  "('k, 'r, 'p) exec_result \<Rightarrow> identity \<Rightarrow> err \<Rightarrow> (('f, 'x) exec_world_scheme, decision) proc" where
  "completedDecision latest i e =
     seq (terminalDecision latest) (\<lambda>decision0.
       let decision = (if xr_Receipt latest = None
             then decision0\<lparr>de_Event := (de_Event decision0)\<lparr>ev_Identity := i\<rparr>\<rparr> else decision0)
       in ret (if e \<noteq> None then stopDecision decision e else decision))"

definition preflightDecision ::
  "decision \<Rightarrow> ('k, 'r, 'p) exec_result \<Rightarrow> identity \<Rightarrow> err \<Rightarrow> (('f, 'x) exec_world_scheme, decision) proc" where
  "preflightDecision decision latest i e =
     (if isRepeat (de_Action decision) then completedDecision latest i e else ret decision)"

text \<open>\<open>attempt.Decide\<close> with its own look at the context.\<close>

definition decide_ctx :: "ctx \<Rightarrow> event \<Rightarrow> int \<Rightarrow> replay \<Rightarrow> (('h, 'x) world_scheme, decision \<times> err) proc" where
  "decide_ctx ctx event remaining replay = seq (ctx_Err ctx) (\<lambda>ce. ret (Decide ce event remaining replay))"

text \<open>Calling a nil function panics.\<close>

definition call_fn :: "'a option \<Rightarrow> ('a \<Rightarrow> ('w, 'b) proc) \<Rightarrow> ('w, 'b) proc" where
  "call_fn fn k w = (case fn of None \<Rightarrow> (Panic, w) | Some f \<Rightarrow> k f w)"

definition Sequence_decide ::
  "('f, ('f, 'x) exec_world_scheme, 'req, 'c :: zero, 'k, 'r, 'p) sequence \<Rightarrow> ctx \<Rightarrow> ('k, 'r, 'p) exec_result \<Rightarrow> err \<Rightarrow>
   (('f, 'x) exec_world_scheme, 'c failure \<times> replay \<times> decision \<times> err) proc" where
  "Sequence_decide sq ctx latest runErr =
     seq (receipt_of latest Receipt_Snapshot) (\<lambda>(event, remaining, e).
       let failure = zero_failure\<lparr>fl_Event := event, fl_Remaining := remaining, fl_Err := runErr\<rparr> in
       case e of
         Some x \<Rightarrow> ret (failure, zero_replay, zero_decision, errors_Join [runErr, Some x])
       | None \<Rightarrow> seq (call_fn (sq_Classify sq) (\<lambda>classify. classify latest runErr)) (\<lambda>(cls, e).
           let failure' = failure\<lparr>fl_Class := cls\<rparr> in
           case e of
             Some x \<Rightarrow> ret (failure', zero_replay, zero_decision, Some x)
           | None \<Rightarrow> seq (call_fn (sq_Replay sq) (\<lambda>evidence. evidence failure')) (\<lambda>(replay, e).
               case e of
                 Some x \<Rightarrow> ret (failure', replay, zero_decision, Some x)
               | None \<Rightarrow> seq (decide_ctx ctx event remaining replay) (\<lambda>(decision, e).
                   if e \<noteq> None \<or> (de_Action decision \<noteq> Retry \<and> de_Action decision \<noteq> Fallback)
                   then ret (failure', replay, decision, e)
                   else seq (call_fn (sq_Schedule sq) (\<lambda>schedule. schedule failure' decision)) (\<lambda>(input, e).
                     case e of
                       Some x \<Rightarrow> ret (failure', replay, decision, Some x)
                     | None \<Rightarrow> seq (read_now (sq_Now sq)) (\<lambda>now.
                         let input' = input\<lparr>si_Now := now,
                               si_Deadline := earliestDeadline ctx (si_Deadline input) (sq_Deadline sq)\<rparr> in
                         case Schedule decision input' of (decision', e) \<Rightarrow> ret (failure', replay, decision', e)))))))"

section \<open>Authorizing a repeat\<close>

text \<open>
  One turn of \<open>authorize\<close>: it returns, with the new values of \<open>failure\<close> and \<open>decision\<close>, or goes on with the updated
  \<open>failure\<close> because the previous attempt's facts changed in between.
\<close>

definition authorize_turn ::
  "('f, ('f, 'x) exec_world_scheme, 'req, 'c, 'k, 'r, 'p) sequence \<Rightarrow> ctx \<Rightarrow> nat \<Rightarrow> identity \<Rightarrow> decision \<Rightarrow> 'c failure \<Rightarrow>
   (('f, 'x) exec_world_scheme, ((bool \<times> err) \<times> 'c failure \<times> decision) + 'c failure) proc" where
  "authorize_turn sq ctx previous next decision failure0 =
     seq (Receipt_Snapshot previous) (\<lambda>(event, remaining, e).
       let failure = failure0\<lparr>fl_Event := event, fl_Remaining := remaining\<rparr> in
       case e of
         Some x \<Rightarrow> ret (Inl ((False, Some x), failure, decision))
       | None \<Rightarrow>
           let evidence = failure\<lparr>fl_Remaining := remaining + 1\<rparr> in
           seq (call_fn (sq_Replay sq) (\<lambda>f. f evidence)) (\<lambda>(replay, e).
             case e of
               Some x \<Rightarrow> ret (Inl ((False, Some x), failure, decision))
             | None \<Rightarrow> seq (checkStart sq ctx 0) (\<lambda>e.
                 case e of
                   Some x \<Rightarrow> ret (Inl ((False, Some x), failure, decision))
                 | None \<Rightarrow> seq (decide_ctx ctx event (fl_Remaining evidence) replay) (\<lambda>(fresh, e).
                     case e of
                       Some x \<Rightarrow> ret (Inl ((False, Some x), failure, decision))
                     | None \<Rightarrow>
                         if (de_Action fresh = Retry \<or> de_Action fresh = Fallback) \<and> de_Action fresh \<noteq> de_Action decision
                         then ret (Inl ((False, Some ErrInvalidBoundary), failure, decision))
                         else seq (authorizeRepeat previous event next replay ctx (checkStart sq ctx 0)) (\<lambda>(fresh, e).
                           if errors_Is e ErrAuthorizationCancelled
                           then seq (ctx_Err ctx) (\<lambda>ce. ret (Inl ((False, ce), failure, decision)))
                           else if errors_Is e ErrEventChanged then ret (Inr failure)
                           else case e of
                             Some x \<Rightarrow> ret (Inl ((False, Some x), failure, decision))
                           | None \<Rightarrow>
                               let decision' = fresh\<lparr>de_NotBefore := de_NotBefore decision, de_Deadline := de_Deadline decision\<rparr>
                               in ret (Inl ((de_Action decision' = Retry \<or> de_Action decision' = Fallback, None), failure, decision')))))))"

definition Sequence_authorize ::
  "('f, ('f, 'x) exec_world_scheme, 'req, 'c, 'k, 'r, 'p) sequence \<Rightarrow> ctx \<Rightarrow> nat \<Rightarrow> identity \<Rightarrow>
   'c failure option \<times> decision \<Rightarrow>
   (('f, 'x) exec_world_scheme, (bool \<times> err) \<times> 'c failure option \<times> decision) lproc" where
  "Sequence_authorize sq ctx previous next s =
     (case s of
        (None, _) \<Rightarrow> lift (\<lambda>w. (Panic, w))
      | (Some failure, decision) \<Rightarrow>
          lseq (loop_forever (\<lambda>f. lift (authorize_turn sq ctx previous next decision f)) failure)
            (\<lambda>(v, failure', decision'). lift (ret (v, Some failure', decision'))))"


section \<open>Between two attempts\<close>

text \<open>\<open>attempt.Wait\<close> in the world: its clock readings and looks at the context are the next observations.\<close>

definition wait_until :: "(nat \<Rightarrow> int) option \<Rightarrow> ctx \<Rightarrow> int \<Rightarrow> (('h, 'x) world_scheme, err) lproc" where
  "wait_until now ctx notBefore w =
     (case Wait (map_option (\<lambda>clk j. clk (w_step w + Suc j)) now)
         (\<lambda>j. ctx_err (w\<lparr>w_step := w_step w + Suc j\<rparr>) ctx) notBefore of
        None \<Rightarrow> None
      | Some (e, n) \<Rightarrow> Some (Ret e, w\<lparr>w_step := w_step w + n\<rparr>))"

definition lreceipt_of :: "('k, 'r, 'p) exec_result \<Rightarrow> (nat \<Rightarrow> ('w, 'a) proc) \<Rightarrow> ('w, 'a) lproc" where
  "lreceipt_of latest f = lift (receipt_of latest f)"

text \<open>\<open>advance\<close> after \<open>boundedContext\<close>, with the bounded context in \<open>ctx\<close>.\<close>

definition advance_bounded ::
  "('f, ('f, 'x) exec_world_scheme) exec_host \<Rightarrow>
   ('f, ('f, 'x) exec_world_scheme, 'req, 'c, 'k, 'r, 'p) sequence \<Rightarrow> ctx \<Rightarrow> 'req step \<Rightarrow> ('k, 'r, 'p) exec_result \<Rightarrow>
   replay \<Rightarrow> decision \<Rightarrow> (('f, 'x) exec_world_scheme, 'req step \<times> decision \<times> err) lproc" where
  "advance_bounded host sq ctx step latest replay decision =
     lseq (lift (Close (exec_hostfn host) (res_Lifetime (xr_Route latest)))) (\<lambda>e.
       case e of
         Some x \<Rightarrow> lift (ret (step, decision, Some x))
       | None \<Rightarrow> lseq (lreceipt_of latest Receipt_Snapshot) (\<lambda>(_, _, e).
           case e of
             Some x \<Rightarrow> lift (ret (step, decision, Some x))
           | None \<Rightarrow>
               lseq (case sq_Wait sq of
                       Some wait \<Rightarrow> lift (wait ctx (de_NotBefore decision))
                     | None \<Rightarrow> wait_until (sq_Now sq) ctx (de_NotBefore decision)) (\<lambda>e.
                 case e of
                   Some x \<Rightarrow> lift (ret (step, decision, Some x))
                 | None \<Rightarrow> lseq (lift (checkStart sq ctx (de_NotBefore decision))) (\<lambda>e.
                     case e of
                       Some x \<Rightarrow> lift (ret (step, decision, Some x))
                     | None \<Rightarrow> lseq (lreceipt_of latest Receipt_Snapshot) (\<lambda>(event, remaining, e).
                         case e of
                           Some x \<Rightarrow> lift (ret (step, decision, Some x))
                         | None \<Rightarrow> lseq (lift (decide_ctx ctx event remaining replay)) (\<lambda>(fresh0, e).
                             let fresh = fresh0\<lparr>de_NotBefore := de_NotBefore decision, de_Deadline := de_Deadline decision\<rparr> in
                             if e \<noteq> None \<or> (de_Action fresh \<noteq> Retry \<and> de_Action fresh \<noteq> Fallback)
                             then lift (ret (step, fresh, e))
                             else lseq (lift (call_fn (sq_Next sq) (\<lambda>next. next ctx step fresh))) (\<lambda>(next, e).
                               case e of
                                 Some x \<Rightarrow> lift (ret (step, fresh, Some x))
                               | None \<Rightarrow>
                                   if id_Operation (sp_Identity next) \<noteq> id_Operation (sp_Identity step)
                                   then lift (ret (step, fresh, Some ErrInvalidEvent))
                                   else lift (ret (next, fresh, None)))))))))"

definition advance ::
  "('f, ('f, 'x) exec_world_scheme) exec_host \<Rightarrow>
   ('f, ('f, 'x) exec_world_scheme, 'req, 'c, 'k, 'r, 'p) sequence \<Rightarrow> ctx \<Rightarrow> 'req step \<Rightarrow> ('k, 'r, 'p) exec_result \<Rightarrow>
   replay \<Rightarrow> decision \<Rightarrow> (('f, 'x) exec_world_scheme, 'req step \<times> decision \<times> err) lproc" where
  "advance host sq ctx step latest replay decision =
     lseq (lift (boundedContext host sq ctx)) (\<lambda>v.
       case v of
         Inl x \<Rightarrow> lift (ret (step, decision, Some x))
       | Inr (bounded, cn) \<Rightarrow>
           lwith_defer (advance_bounded host sq bounded step latest replay decision)
             (seq (run_closure (exec_hostfn host) cn) (\<lambda>_. ret ())))"

section \<open>One step\<close>

text \<open>The boundary of one step: freshness is checked between two looks at the deadline.\<close>

definition step_boundary ::
  "('f, ('f, 'x) exec_world_scheme, 'req, 'c, 'k, 'r, 'p) sequence \<Rightarrow>
   ('f, ('f, 'x) exec_world_scheme, 'req, 'k, 'r, 'p) boundary" where
  "step_boundary sq = (sq_Boundary sq)\<lparr>bd_Fresh :=
     map_option (\<lambda>fresh ctx request.
       seq (checkStart sq ctx 0) (\<lambda>e.
         case e of
           Some x \<Rightarrow> ret (Some x)
         | None \<Rightarrow> seq (fresh ctx request) (\<lambda>e.
             case e of Some x \<Rightarrow> ret (Some x) | None \<Rightarrow> checkStart sq ctx 0)))
       (bd_Fresh (sq_Boundary sq))\<rparr>"

definition step_authorizer ::
  "('f, ('f, 'x) exec_world_scheme, 'req, 'c, 'k, 'r, 'p) sequence \<Rightarrow> ctx \<Rightarrow> ('k, 'r, 'p) exec_result option \<Rightarrow> identity \<Rightarrow>
   ('c failure option \<times> decision, ('f, 'x) exec_world_scheme) authorizer" where
  "step_authorizer sq bounded previous i =
     map_option (\<lambda>p s. case xr_Receipt p of
         None \<Rightarrow> lift (\<lambda>w. (Panic, w))
       | Some r \<Rightarrow> Sequence_authorize sq bounded r i s) previous"

text \<open>\<open>runStep\<close>: the context is cancelled at the end unless the result's lifetime takes it over.\<close>

definition hand_over ::
  "('f, ('f, 'x) exec_world_scheme) exec_host \<Rightarrow> 'f exec_closure closure \<Rightarrow>
   (('k, 'r, 'p) exec_result \<times> err \<times> 's) outcome \<Rightarrow>
   (('f, 'x) exec_world_scheme, ('k, 'r, 'p) exec_result \<times> err \<times> 's) proc" where
  "hand_over host cn v =
     (case v of
        Panic \<Rightarrow> seq (run_closure (exec_hostfn host) cn) (\<lambda>_ w. (Panic, w))
      | Ret (result, e, s) \<Rightarrow>
          if res_Lifetime (xr_Route result) \<noteq> None
          then (\<lambda>w. case OnClose (exec_hostfn host) (res_Lifetime (xr_Route result)) (Some cn) w of
                  (Ret _, w1) \<Rightarrow> (Ret (result, e, s), w1)
                | (Panic, w1) \<Rightarrow> seq (run_closure (exec_hostfn host) cn) (\<lambda>_ w. (Panic, w)) w1)
          else seq (run_closure (exec_hostfn host) cn) (\<lambda>_. ret (result, e, s)))"

definition runStep ::
  "('f, ('f, 'x) exec_world_scheme) exec_host \<Rightarrow>
   ('f, ('f, 'x) exec_world_scheme, 'req, 'c, 'k :: zero, 'r :: zero, 'p :: zero) sequence \<Rightarrow> ctx \<Rightarrow> nat option \<Rightarrow> 'req step \<Rightarrow>
   ('k, 'r, 'p) exec_result option \<Rightarrow> 'c failure option \<times> decision \<Rightarrow>
   (('f, 'x) exec_world_scheme, ('k, 'r, 'p) exec_result \<times> err \<times> 'c failure option \<times> decision) lproc" where
  "runStep host sq ctx coordinator step previous s =
     lseq (lift (boundedContext host sq ctx)) (\<lambda>v.
       case v of
         Inl x \<Rightarrow> lift (ret (empty_result, Some x, s))
       | Inr (bounded, cn) \<Rightarrow>
           (\<lambda>w. case NewRouteCall (Some bounded) (sp_Request step) w of (call, w1) \<Rightarrow>
              (case run host (step_boundary sq) call coordinator (sp_Identity step)
                  (step_authorizer sq bounded previous (sp_Identity step)) s w1 of
                 None \<Rightarrow> None
               | Some (v, w2) \<Rightarrow> Some (hand_over host cn v w2))))"

section \<open>The loop\<close>

type_synonym ('f, 'w, 'req, 'c, 'k, 'r, 'p) seq_state =
  "('f, 'w, 'req, 'c, 'k, 'r, 'p) sequence \<times> 'req step \<times> ('k, 'r, 'p) exec_result option \<times> ('c, 'k, 'r, 'p) sequence_result"

text \<open>What follows a started attempt that failed: decide, advance, and go on with the next step if that is permitted.\<close>

definition after_failure ::
  "('f, ('f, 'x) exec_world_scheme) exec_host \<Rightarrow>
   ('f, ('f, 'x) exec_world_scheme, 'req, 'c :: zero, 'k, 'r, 'p) sequence \<Rightarrow> ctx \<Rightarrow> 'req step \<Rightarrow>
   ('c, 'k, 'r, 'p) sequence_result \<Rightarrow> ('k, 'r, 'p) exec_result \<Rightarrow> err \<Rightarrow>
   (('f, 'x) exec_world_scheme,
    (('c, 'k, 'r, 'p) sequence_result \<times> err) + ('f, ('f, 'x) exec_world_scheme, 'req, 'c, 'k, 'r, 'p) seq_state) lproc" where
  "after_failure host sq ctx step result latest runErr =
     lseq (lift (Sequence_decide sq ctx latest runErr)) (\<lambda>(failure, replay, decision, e).
       let result1 = result\<lparr>sr_Failure := Some failure, sr_Decision := decision\<rparr> in
       case e of
         Some x \<Rightarrow> lift (ret (Inl (result1\<lparr>sr_Decision := stopDecision decision e\<rparr>, e)))
       | None \<Rightarrow>
           if \<not> isRepeat (de_Action decision) then lift (ret (Inl (result1, None)))
           else
             let sq' = sq\<lparr>sq_Deadline := earliestDeadline ctx (sq_Deadline sq) (de_Deadline decision)\<rparr> in
             lseq (advance host sq' ctx step latest replay decision) (\<lambda>(step', decision', e).
               lseq (lreceipt_of latest Receipt_Snapshot) (\<lambda>(event, remaining, _).
                 let result2 = result1\<lparr>sr_Decision := decision', sr_Failure := Some (failure\<lparr>fl_Event := event, fl_Remaining := remaining\<rparr>)\<rparr> in
                 case e of
                   Some x \<Rightarrow> lift (ret (Inl (result2\<lparr>sr_Decision := stopDecision decision' e\<rparr>, e)))
                 | None \<Rightarrow>
                     if \<not> isRepeat (de_Action decision') then lift (ret (Inl (result2, None)))
                     else lift (ret (Inr (sq', step', Some latest, result2))))))"

definition sequence_turn ::
  "('f, ('f, 'x) exec_world_scheme) exec_host \<Rightarrow> ctx \<Rightarrow> nat option \<Rightarrow>
   ('f, ('f, 'x) exec_world_scheme, 'req, 'c :: zero, 'k :: zero, 'r :: zero, 'p :: zero) seq_state \<Rightarrow>
   (('f, 'x) exec_world_scheme,
    (('c, 'k, 'r, 'p) sequence_result \<times> err) + ('f, ('f, 'x) exec_world_scheme, 'req, 'c, 'k, 'r, 'p) seq_state) lproc" where
  "sequence_turn host ctx coordinator state =
     (case state of (sq, step, previous, result) \<Rightarrow>
        lseq (lift (checkStart sq ctx 0)) (\<lambda>e.
          case e of
            Some x \<Rightarrow> lift (ret (Inl (result\<lparr>sr_Decision := stopDecision (sr_Decision result) e\<rparr>, e)))
          | None \<Rightarrow>
              lseq (runStep host sq ctx coordinator step previous (sr_Failure result, sr_Decision result))
                (\<lambda>(latest, runErr, failure, decision).
                  let result1 = result\<lparr>sr_Failure := failure, sr_Decision := decision,
                        sr_Trace := sr_Trace result @ [\<lparr>te_Identity = sp_Identity step, te_Result = latest, te_Err = runErr\<rparr>]\<rparr> in
                  if previous \<noteq> None \<and> \<not> xr_Started latest
                  then lift (seq (preflightDecision decision latest (sp_Identity step) runErr) (\<lambda>d.
                         ret (Inl (result1\<lparr>sr_Decision := d\<rparr>, runErr))))
                  else
                    let result2 = result1\<lparr>sr_Last := latest, sr_Failure := None\<rparr> in
                    if \<not> xr_Started latest \<or> runErr = None \<or> isControlError runErr
                    then lift (seq (completedDecision latest (sp_Identity step) runErr) (\<lambda>d.
                           ret (Inl (result2\<lparr>sr_Decision := d\<rparr>, runErr))))
                    else after_failure host sq ctx step result2 latest runErr)))"

definition Sequence_Run ::
  "('f, ('f, 'x) exec_world_scheme) exec_host \<Rightarrow>
   ('f, ('f, 'x) exec_world_scheme, 'req, 'c :: zero, 'k :: zero, 'r :: zero, 'p :: zero) sequence \<Rightarrow> ctx \<Rightarrow> nat option \<Rightarrow> 'req step \<Rightarrow>
   (('f, 'x) exec_world_scheme, ('c, 'k, 'r, 'p) sequence_result \<times> err) lproc" where
  "Sequence_Run host sq ctx coordinator step =
     (let result = \<lparr>sr_Last = empty_result, sr_Trace = [], sr_Failure = None, sr_Decision = zero_decision,
            sr_NestedAttemptsKnown = sq_NestedAttemptsKnown sq\<rparr> in
      if sq_Classify sq = None \<or> sq_Replay sq = None \<or> sq_Schedule sq = None \<or> sq_Next sq = None \<or> sq_Now sq = None
      then lift (ret (result, Some ErrInvalidBoundary))
      else loop_forever (sequence_turn host ctx coordinator)
        (sq\<lparr>sq_Deadline := earliestDeadline ctx (sq_Deadline sq) 0\<rparr>, step, None, result))"

end
