(* ===== verification/Sequence_Proofs.thy ===== *)
theory Sequence_Proofs
  imports Sequence
begin

text \<open>
  What \<open>Sequence_Run\<close> guarantees for hosts whose callbacks keep to the order of records: it ends, it stays within the
  coordinator's budget, and every attempt after the first was authorized on the coordinator.
\<close>

section \<open>Sequences that play by the rules\<close>

locale lawful_sequence = lawful_exec_host host
  for host :: "('f, ('f, 'x) exec_world_scheme) exec_host" +
  fixes sq :: "('f, ('f, 'x) exec_world_scheme, 'req, 'c :: zero, 'k :: zero, 'r :: zero, 'p :: zero) sequence"
  assumes boundary_lawful: "lawful_boundary host (sq_Boundary sq)"
    and classify_keeps: "sq_Classify sq = Some classify \<Longrightarrow> exec_frame.keeps (classify res e)"
    and replay_keeps: "sq_Replay sq = Some replay \<Longrightarrow> exec_frame.keeps (replay failure)"
    and schedule_keeps: "sq_Schedule sq = Some schedule \<Longrightarrow> exec_frame.keeps (schedule failure decision)"
    and next_keeps: "sq_Next sq = Some next \<Longrightarrow> exec_frame.keeps (next ctx step decision)"
    and wait_keeps: "sq_Wait sq = Some wait \<Longrightarrow> exec_frame.keeps (wait ctx t)"
    and factory_keeps: "sq_DeadlineContext sq = Some factory \<Longrightarrow> exec_frame.keeps (factory ctx t)"

lemma lawful_sequence_deadline:
  assumes "lawful_sequence host sq"
  shows "lawful_sequence host (sq\<lparr>sq_Deadline := d\<rparr>)"
  using assms by (simp add: lawful_sequence_def lawful_sequence_axioms_def)

lemma keeps_read_now: "exec_frame.keeps (read_now now)"
  by (rule exec_frame.keepsI) (auto simp: read_now_def exec_le_same split: option.split)

lemma keeps_checkStart: "exec_frame.keeps (checkStart sq ctx nb)"
  unfolding checkStart_def
  by (intro exec_frame.keeps_seq keeps_ctx_Err_exec exec_frame.keeps_option exec_frame.keeps_ret keeps_read_now)

lemma keeps_decide_ctx: "exec_frame.keeps (decide_ctx ctx event remaining replay)"
  unfolding decide_ctx_def by (intro exec_frame.keeps_seq keeps_ctx_Err_exec exec_frame.keeps_ret)

lemma keeps_Receipt_Snapshot: "exec_frame.keeps (Receipt_Snapshot r)"
  unfolding Receipt_Snapshot_def
  by (intro exec_frame.keeps_seq keeps_coord_snapshot exec_frame.keeps_prod) (simp add: exec_frame.keeps_def)

lemma keeps_receipt_of: "(\<And>r. exec_frame.keeps (f r)) \<Longrightarrow> exec_frame.keeps (receipt_of res f)"
  by (rule exec_frame.keepsI) (auto simp: receipt_of_def exec_frame.keeps_def split: option.split)

lemma keeps_call_fn: "(\<And>f. fn = Some f \<Longrightarrow> exec_frame.keeps (k f)) \<Longrightarrow> exec_frame.keeps (call_fn fn k)"
  by (rule exec_frame.keepsI) (auto simp: call_fn_def exec_frame.keeps_def split: option.split)

lemma keeps_authorizeRepeat:
  fixes check :: "(('f, 'x) exec_world_scheme, err) proc"
  assumes "exec_frame.keeps check"
  shows "exec_frame.keeps (authorizeRepeat r expected next replay ctx check)"
proof (rule exec_frame.keepsI)
  fix w :: "('f, 'x) exec_world_scheme"
  have "exec_frame.keeps (\<lambda>w :: ('f, 'x) exec_world_scheme. coord_call (rt_coordinator (xw_receipts w r)) (\<lambda>c. AuthorizeRepeat c expected next replay b) w)" for b
  proof (rule exec_frame.keepsI)
    fix w :: "('f, 'x) exec_world_scheme"
    show "exec_le w (snd (coord_call (rt_coordinator (xw_receipts w r)) (\<lambda>c. AuthorizeRepeat c expected next replay b) w))"
      by (rule exec_frame.keeps_at, rule keeps_coord_call, rule coord_steps)
  qed
  then have "exec_frame.keeps (seq check (\<lambda>e.
            case e of
              Some x \<Rightarrow> ret (zero_decision, Some x)
            | None \<Rightarrow>
                seq (ctx_Err ctx) (\<lambda>ce w.
                  coord_call (rt_coordinator (xw_receipts w r))
                    (\<lambda>c. AuthorizeRepeat c expected next replay (ce \<noteq> None)) w)))"
    by (intro exec_frame.keeps_seq exec_frame.keeps_option exec_frame.keeps_ret keeps_ctx_Err_exec assms)
  then show "exec_le w (snd (authorizeRepeat r expected next replay ctx check w))"
    unfolding authorizeRepeat_def by (cases "rt_err (xw_receipts w r)") (auto dest: exec_frame.keeps_at [of _ w] simp del: not_None_eq)
qed

lemma keeps_WithCancel: "exec_le w (snd (WithCancel ctx w))"
  by (rule exec_le_same) (simp_all add: WithCancel_def std_contexts_def)

lemma keeps_WithDeadline: "exec_le w (snd (WithDeadline ctx d w))"
proof (cases "case ctx_Deadline ctx of Some p \<Rightarrow> p < d | None \<Rightarrow> False")
  case True
  then show ?thesis by (simp add: WithDeadline_def keeps_WithCancel)
next
  case False
  then show ?thesis
    by (intro exec_le_same) (auto simp: WithDeadline_def std_contexts_def)
qed

lemma keeps_NewRouteCall: "exec_le w (snd (NewRouteCall ctx req w))"
  by (rule exec_le_same) (simp_all add: NewRouteCall_def std_contexts_def)

lemma lkeeps_wait_until: "exec_frame.lkeeps (wait_until now ctx nb)"
  by (rule exec_frame.lkeepsI) (auto simp: wait_until_def intro!: exec_le_same split: option.splits)

lemmas lkeeps_rules = exec_frame.lkeeps_lseq exec_frame.lkeeps_lift exec_frame.lkeeps_option exec_frame.lkeeps_prod exec_frame.lkeeps_if
  exec_frame.keeps_seq exec_frame.keeps_option exec_frame.keeps_prod exec_frame.keeps_if exec_frame.keeps_ret
  keeps_ctx_Err_exec keeps_checkStart keeps_decide_ctx keeps_Receipt_Snapshot keeps_receipt_of keeps_call_fn keeps_read_now

context lawful_sequence
begin

lemma keeps_run_closure_exec: "exec_frame.keeps (run_closure (exec_hostfn host) cn)"
  by (rule exec_blind.blind_closure) (rule keeps_hostfn)

lemma keeps_boundedContext: "exec_frame.keeps (boundedContext host sq ctx)"
proof -
  have 1: "exec_frame.keeps (\<lambda>w :: ('f, 'x) exec_world_scheme. case WithCancel ctx w of
      (bounded, w1) \<Rightarrow> (Ret (Inr (bounded, CancelFn bounded)), w1))"
    by (rule exec_frame.keepsI) (simp add: case_prod_beta keeps_WithCancel)
  have 2: "exec_frame.keeps (\<lambda>w :: ('f, 'x) exec_world_scheme. case WithDeadline ctx d w of
      (bounded, w1) \<Rightarrow> (Ret (Some bounded, Some (CancelFn bounded)), w1))" for d
    by (rule exec_frame.keepsI) (simp add: case_prod_beta keeps_WithDeadline)
  show ?thesis
    unfolding boundedContext_def Let_def
    by (intro exec_frame.keeps_if 1 exec_frame.keeps_seq exec_frame.keeps_option 2 exec_frame.keeps_prod factory_keeps)
      (auto intro!: exec_frame.keeps_seq keeps_run_closure_exec exec_frame.keeps_ret split: option.split)
qed

lemma keeps_Sequence_decide: "exec_frame.keeps (Sequence_decide sq ctx res e)"
  unfolding Sequence_decide_def Let_def
  by (intro lkeeps_rules classify_keeps replay_keeps schedule_keeps)

lemma keeps_authorize_turn: "exec_frame.keeps (authorize_turn sq ctx prev i decision failure)"
  unfolding authorize_turn_def Let_def
  by (intro lkeeps_rules replay_keeps keeps_authorizeRepeat)

lemma lkeeps_authorize: "exec_frame.lkeeps (Sequence_authorize sq ctx prev i s)"
proof -
  have "exec_frame.lkeeps (lseq (loop_forever (\<lambda>f. lift (authorize_turn sq ctx prev i decision f)) failure)
            (\<lambda>(v, failure', decision'). lift (ret (v, Some failure', decision'))))" for failure decision
    by (intro exec_frame.lkeeps_lseq exec_frame.lkeeps_loop_forever exec_frame.lkeeps_lift keeps_authorize_turn
        exec_frame.lkeeps_prod exec_frame.keeps_ret)
  then show ?thesis
    unfolding Sequence_authorize_def
    by (intro exec_frame.lkeeps_prod exec_frame.lkeeps_option exec_frame.lkeeps_lift keeps_panic)
qed

lemma lkeeps_advance: "exec_frame.lkeeps (advance host sq ctx step res replay decision)"
proof -
  have "exec_frame.lkeeps (advance_bounded host sq bounded step res replay decision)" for bounded
    unfolding advance_bounded_def lreceipt_of_def Let_def
    by (intro lkeeps_rules keeps_Close_exec lkeeps_wait_until wait_keeps next_keeps)
  then show ?thesis
    unfolding advance_def
    by (intro exec_frame.lkeeps_lseq exec_frame.lkeeps_lift keeps_boundedContext)
      (auto intro!: exec_frame.lkeeps_lift exec_frame.keeps_ret exec_frame.lkeeps_with_defer exec_frame.keeps_seq
        keeps_run_closure_exec split: sum.split)
qed

end

sublocale lawful_sequence \<subseteq> stepping: lawful_boundary host "step_boundary sq"
proof unfold_locales
  note b = lawful_boundary.fresh_keeps [OF boundary_lawful] lawful_boundary.admit_keeps [OF boundary_lawful]
    lawful_boundary.dispatch_keeps [OF boundary_lawful]
  show "exec_frame.keeps (fresh ctx req)" if fr: "bd_Fresh (step_boundary sq) = Some fresh" for fresh ctx req
  proof -
    obtain inner where "bd_Fresh (sq_Boundary sq) = Some inner" using fr by (auto simp: step_boundary_def)
    moreover from this have "exec_frame.keeps (inner c q)" for c q by (rule b(1))
    ultimately show ?thesis
      using fr by (auto simp: step_boundary_def intro!: exec_frame.keeps_seq keeps_checkStart exec_frame.keeps_option exec_frame.keeps_ret)
  qed
  show "exec_frame.keeps (admit ctx req i)" if "bd_Admit (step_boundary sq) = Some admit" for admit ctx req i
    using that b(2) by (simp add: step_boundary_def)
  show "exec_frame.keeps (dispatch call rcpt)" if "bd_Dispatch (step_boundary sq) = Some dispatch" for dispatch call rcpt
    using that b(3) by (simp add: step_boundary_def)
qed


section \<open>Authorization ends\<close>

text \<open>How far the facts of an attempt have gone; they can go on at most to 5.\<close>

definition event_rank :: "event \<Rightarrow> nat" where
  "event_rank e = phase_code (ev_Phase e) + (if ev_Committed e then 1 else 0) + (if ev_Outcome e = Unknown then 0 else 1)"

lemma event_rank_mono: "event_le e f \<Longrightarrow> event_rank e \<le> event_rank f"
  by (auto simp: event_rank_def event_le_def)

lemma event_rank_less:
  assumes "event_le e f" "e \<noteq> f"
  shows "event_rank e < event_rank f"
proof (rule ccontr)
  assume "\<not> ?thesis"
  then have "event_rank e = event_rank f" using event_rank_mono [OF assms(1)] by simp
  then have "phase_code (ev_Phase e) = phase_code (ev_Phase f) \<and> ev_Committed e = ev_Committed f \<and> ev_Outcome e = ev_Outcome f"
    using assms(1) by (auto simp: event_rank_def event_le_def split: if_splits)
  then have "e = f" using assms(1) by (simp add: event_le_def phase_code_inj)
  with assms(2) show False by simp
qed

lemma event_rank_bound: "validEvent e \<Longrightarrow> event_rank e \<le> 5"
  by (auto simp: event_rank_def validEvent_def split: if_splits)

definition event_of :: "('f, 'x) exec_world_scheme \<Rightarrow> nat \<Rightarrow> event" where
  "event_of w r = the (map_of (co_events (xw_coords w (rt_coordinator (xw_receipts w r)))) (id_Attempt (rt_identity (xw_receipts w r))))"

lemma event_of_ok:
  assumes "receipt_ok w r"
  shows "recorded w (rt_coordinator (xw_receipts w r)) (rt_identity (xw_receipts w r)) (event_of w r)" "validEvent (event_of w r)"
  using assms by (auto simp: receipt_ok_def recorded_def event_of_def Let_def coord_inv_def)

lemma event_of_le:
  assumes "exec_le w v" "receipt_ok w r" "r < w_fresh w"
  shows "event_le (event_of w r) (event_of v r)"
proof -
  let ?c = "rt_coordinator (xw_receipts w r)"
  have same: "rt_coordinator (xw_receipts v r) = ?c" "rt_identity (xw_receipts v r) = rt_identity (xw_receipts w r)"
    using assms by (auto simp: exec_le_def receipt_le_def)
  have "coord_le (xw_coords w ?c) (xw_coords v ?c)" using assms by (auto simp: exec_le_def receipt_ok_def Let_def)
  from recorded_mono [OF this event_of_ok(1) [OF assms(2)]] obtain f
    where f: "recorded v ?c (rt_identity (xw_receipts w r)) f" "event_le (event_of w r) f" .
  have "event_of v r = f" using f(1) unfolding event_of_def same recorded_def by simp
  with f(2) show ?thesis by simp
qed

text \<open>A repeat of the loop: the facts went on since they were read, or the receipt now has a settlement error.\<close>

definition auth_measure :: "('f, 'x) exec_world_scheme \<Rightarrow> nat \<Rightarrow> nat" where
  "auth_measure w r = 2 * (5 - event_rank (event_of w r)) + (if rt_err (xw_receipts w r) = None then 1 else 0)"

lemma Receipt_Snapshot_ok:
  "Receipt_Snapshot r w = (Ret (event, n, None), w') \<Longrightarrow>
     w' = w \<and> rt_err (xw_receipts w r) = None \<and>
     Snapshot (xw_coords w (rt_coordinator (xw_receipts w r))) (rt_identity (xw_receipts w r)) = (event, n, None)"
  by (auto simp: Receipt_Snapshot_def coord_snapshot_def seq_def split: prod.splits)

lemma checkStart_error:
  assumes "checkStart sq ctx nb w = (Ret (Some x), w')" "std_contexts w"
  shows "x = ContextCanceled \<or> x = DeadlineExceeded \<or> x = ErrInvalidHint"
proof -
  have dn: "done_at v c = Some (t, y) \<Longrightarrow> std_contexts v \<Longrightarrow> y = ContextCanceled \<or> y = DeadlineExceeded"
    for v :: "('a, 'b) exec_world_scheme" and c t y
  proof (induction c arbitrary: t y)
    case (Ctx i dl parent)
    have "w_cancel v i = Some (t', y') \<Longrightarrow> y' = ContextCanceled \<or> y' = DeadlineExceeded" for t' y'
      using Ctx.prems(2) unfolding std_contexts_def by blast
    then show ?case
      using Ctx.prems(1) Ctx.IH [OF _ Ctx.prems(2)]
      by (cases "w_cancel v i"; cases "done_at v parent") (auto split: if_splits)
  qed simp
  show ?thesis
    using assms dn [of "tick w"]
    by (auto simp: checkStart_def ctx_err_def read_now_def AddDelay_eq Let_def elim!: seq_RetE
        split: option.splits if_splits prod.splits)
qed

lemma event_changed:
  assumes "AuthorizeRepeat c expected next replay b = ((d, Some x), c')" "error_is x ErrEventChanged"
  shows "\<exists>p. map_of (co_events c) (id_Attempt (ev_Identity expected)) = Some p \<and> p \<noteq> expected \<and> c' = c"
proof -
  have "error_is ErrInvalidEvent ErrEventChanged = False" "error_is ErrAuthorizationCancelled ErrEventChanged = False"
    by (simp_all add: ErrInvalidEvent_def ErrEventChanged_def ErrAuthorizationCancelled_def)
  moreover have "decide e n r = (d, Some y) \<Longrightarrow> y = ErrInvalidEvent" for e n r d y
    by (auto simp: decide_def Let_def split: if_splits)
  ultimately show ?thesis
    using assms by (auto simp: AuthorizeRepeat_def split: if_splits option.splits prod.splits) blast
qed


context lawful_sequence
begin

text \<open>A turn of \<open>authorize\<close> refuses early or asks the coordinator for the facts it has just read.\<close>

lemma authorize_turn_cases:
  assumes "authorize_turn sq ctx r i decision failure0 w = (Ret X, w')"
  obtains (early) x fl where "X = Inl ((False, Some x), fl, decision)"
  | (asked) event n rp w1 d e w2 where "Receipt_Snapshot r w = (Ret (event, n, None), w)" "exec_le w w1"
      "\<exists>f v. sq_Replay sq = Some f \<and> f (failure0\<lparr>fl_Event := event, fl_Remaining := n + 1\<rparr>) w = (Ret (rp, None), v)"
      "authorizeRepeat r event i rp ctx (checkStart sq ctx 0) w1 = (Ret (d, e), w2)"
      "exec_le w2 w'"
      "X = Inr (failure0\<lparr>fl_Event := event, fl_Remaining := n\<rparr>) \<and> errors_Is e ErrEventChanged \<and> w' = w2 \<or>
       (\<exists>ce fl. X = Inl ((False, ce), fl, decision)) \<or>
       e = None \<and> w' = w2 \<and> X = Inl ((repeats (de_Action d), None), failure0\<lparr>fl_Event := event, fl_Remaining := n\<rparr>,
         d\<lparr>de_NotBefore := de_NotBefore decision, de_Deadline := de_Deadline decision\<rparr>)"
proof -
  obtain event n e w0 where s: "Receipt_Snapshot r w = (Ret (event, n, e), w0)"
    using assms unfolding authorize_turn_def by (auto elim!: seq_RetE)
  have w0: "w0 = w" using s by (auto simp: Receipt_Snapshot_def coord_snapshot_def seq_def split: prod.splits)
  define failure where "failure = failure0\<lparr>fl_Event := event, fl_Remaining := n\<rparr>"
  show thesis
  proof (cases e)
    case (Some x)
    then show thesis using assms s by (intro early) (auto simp: authorize_turn_def Let_def)
  next
    case e_None: None
    obtain rp re w1 where r1: "call_fn (sq_Replay sq) (\<lambda>f. f (failure\<lparr>fl_Remaining := n + 1\<rparr>)) w = (Ret (rp, re), w1)"
      and k1: "(case re of
               Some x \<Rightarrow> ret (Inl ((False, Some x), failure, decision))
             | None \<Rightarrow> seq (checkStart sq ctx 0) (\<lambda>e.
                 case e of
                   Some x \<Rightarrow> ret (Inl ((False, Some x), failure, decision))
                 | None \<Rightarrow> seq (decide_ctx ctx event (n + 1) rp) (\<lambda>(fresh, e).
                     case e of
                       Some x \<Rightarrow> ret (Inl ((False, Some x), failure, decision))
                     | None \<Rightarrow>
                         if (de_Action fresh = Retry \<or> de_Action fresh = Fallback) \<and> de_Action fresh \<noteq> de_Action decision
                         then ret (Inl ((False, Some ErrInvalidBoundary), failure, decision))
                         else seq (authorizeRepeat r event i rp ctx (checkStart sq ctx 0)) (\<lambda>(fresh, e).
                           if errors_Is e ErrAuthorizationCancelled
                           then seq (ctx_Err ctx) (\<lambda>ce. ret (Inl ((False, ce), failure, decision)))
                           else if errors_Is e ErrEventChanged then ret (Inr failure)
                           else case e of
                             Some x \<Rightarrow> ret (Inl ((False, Some x), failure, decision))
                           | None \<Rightarrow>
                               let decision' = fresh\<lparr>de_NotBefore := de_NotBefore decision, de_Deadline := de_Deadline decision\<rparr>
                               in ret (Inl ((de_Action decision' = Retry \<or> de_Action decision' = Fallback, None), failure, decision')))))) w1
         = (Ret X, w')"
      using assms s e_None w0 unfolding authorize_turn_def Let_def failure_def by (auto elim!: seq_RetE)
    have le1: "exec_le w w1"
      using r1 by (rule exec_frame.keepsD [rotated]) (intro keeps_call_fn replay_keeps)
    show thesis
    proof (cases re)
      case (Some x)
      then show thesis using k1 by (intro early) auto
    next
      case None
      with k1 obtain ce w2 where c: "checkStart sq ctx 0 w1 = (Ret ce, w2)" by (auto elim!: seq_RetE)
      have le2: "exec_le w1 w2" using exec_frame.keepsD [OF keeps_checkStart c] .
      show thesis
      proof (cases ce)
        case (Some x)
        then show thesis using k1 None c by (intro early) auto
      next
        case ce_None: None
        obtain fresh de where f: "decide_ctx ctx event (n + 1) rp w2 = (Ret (fresh, de), tick w2)"
          by (cases "Decide (ctx_err (tick w2) ctx) event (n + 1) rp") (simp add: decide_ctx_def)
        have le3: "exec_le w2 (tick w2)" by (simp add: exec_le_same)
        show thesis
        proof (cases "de \<noteq> None \<or> (de_Action fresh = Retry \<or> de_Action fresh = Fallback) \<and> de_Action fresh \<noteq> de_Action decision")
          case True
          then show thesis using k1 None c ce_None f by (cases de) (auto intro: early)
        next
          case False
          then have de: "de = None" "((de_Action fresh = Retry \<or> de_Action fresh = Fallback) \<and> de_Action fresh \<noteq> de_Action decision) = False"
            by auto
          obtain d ae w3 where a: "authorizeRepeat r event i rp ctx (checkStart sq ctx 0) (tick w2) = (Ret (d, ae), w3)"
            and k2: "(if errors_Is ae ErrAuthorizationCancelled
                           then seq (ctx_Err ctx) (\<lambda>ce. ret (Inl ((False, ce), failure, decision)))
                           else if errors_Is ae ErrEventChanged then ret (Inr failure)
                           else case ae of
                             Some x \<Rightarrow> ret (Inl ((False, Some x), failure, decision))
                           | None \<Rightarrow>
                               let decision' = d\<lparr>de_NotBefore := de_NotBefore decision, de_Deadline := de_Deadline decision\<rparr>
                               in ret (Inl ((de_Action decision' = Retry \<or> de_Action decision' = Fallback, None), failure, decision')))
                     w3 = (Ret X, w')"
            using k1 None c ce_None f de by (auto elim!: seq_RetE)
          have le: "exec_le w (tick w2)" using le1 le2 le3 exec_le_trans by blast
          show thesis
            by (rule asked [OF _ le _ a])
              (use s w0 e_None k2 r1 None in \<open>auto simp: failure_def repeats_def exec_le_same Let_def call_fn_def split: if_splits option.splits\<close>)
        qed
      qed
    qed
  qed
qed

end


text \<open>The coordinator says the facts changed, or the receipt has an error.\<close>

lemma authorizeRepeat_changed:
  assumes "authorizeRepeat r event i rp ctx (checkStart sq ctx' nb) w = (Ret (d, e), w')" "errors_Is e ErrEventChanged"
    "std_contexts w" "ev_Identity event = rt_identity (xw_receipts w r)"
  shows "w' = w \<and> rt_err (xw_receipts w r) \<noteq> None \<or>
    xw_coords w' = xw_coords w \<and> xw_receipts w' = xw_receipts w \<and> event_of w r \<noteq> event"
proof (cases "rt_err (xw_receipts w r)")
  case (Some x)
  then show ?thesis using assms(1) by (auto simp: authorizeRepeat_def)
next
  case None
  then obtain ce w1 where c: "checkStart sq ctx' nb w = (Ret ce, w1)"
    and k: "(case ce of Some x \<Rightarrow> ret (zero_decision, Some x)
       | None \<Rightarrow> seq (ctx_Err ctx) (\<lambda>ce w. coord_call (rt_coordinator (xw_receipts w r))
           (\<lambda>c. AuthorizeRepeat c event i rp (ce \<noteq> None)) w)) w1 = (Ret (d, e), w')"
    using assms(1) by (auto simp: authorizeRepeat_def simp del: not_None_eq elim!: seq_RetE)
  have ticks: "xw_coords w1 = xw_coords w \<and> xw_receipts w1 = xw_receipts w"
    using c by (auto simp: checkStart_def read_now_def elim!: seq_RetE split: option.splits)
  have "ce = None"
  proof (rule ccontr)
    assume "ce \<noteq> None"
    then obtain x where x: "ce = Some x" by blast
    then have "e = Some x" using k by simp
    moreover have "x = ContextCanceled \<or> x = DeadlineExceeded \<or> x = ErrInvalidHint"
      using checkStart_error c x assms(3) by blast
    ultimately show False
      using assms(2) by (auto simp: ErrEventChanged_def ContextCanceled_def DeadlineExceeded_def ErrInvalidHint_def)
  qed
  with k obtain c' where a: "AuthorizeRepeat (xw_coords w (rt_coordinator (xw_receipts w r))) event i rp (ctx_err (tick w1) ctx \<noteq> None) = ((d, e), c')"
    and w': "w' = (tick w1)\<lparr>xw_coords := (xw_coords w)(rt_coordinator (xw_receipts w r) := c')\<rparr>"
    using ticks by (auto simp: coord_call_Ret simp del: not_None_eq)
  obtain x where "e = Some x" "error_is x ErrEventChanged" using assms(2) by (cases e) auto
  with event_changed a have "c' = xw_coords w (rt_coordinator (xw_receipts w r))" "event_of w r \<noteq> event"
    unfolding event_of_def assms(4) [symmetric] by force+
  then show ?thesis using w' ticks by simp
qed

context lawful_sequence
begin

lemma authorize_turn_again:
  assumes "authorize_turn sq ctx r i decision f w = (Ret (Inr f'), w')" "receipt_ok w r" "r < w_fresh w" "std_contexts w"
  shows "auth_measure w' r < auth_measure w r"
  using assms(1)
proof (cases rule: authorize_turn_cases)
  case (asked event n rp w1 d e w2)
  then have again: "errors_Is e ErrEventChanged" "w' = w2" by auto
  have snap: "rt_err (xw_receipts w r) = None" "event_of w r = event" "ev_Identity event = rt_identity (xw_receipts w r)"
    using Receipt_Snapshot_ok [OF asked(1)] by (auto simp: event_of_def Snapshot_ok)
  have ok1: "receipt_ok w1 r" "r < w_fresh w1" "std_contexts w1" and id1: "rt_identity (xw_receipts w1 r) = rt_identity (xw_receipts w r)"
    using asked(2) assms(2-4) by (auto simp: exec_le_def receipt_le_def)
  have le: "event_le event (event_of w1 r)" using event_of_le [OF asked(2) assms(2,3)] snap by simp
  have bound: "event_rank (event_of w1 r) \<le> 5" using event_rank_bound event_of_ok(2) [OF ok1(1)] by blast
  from authorizeRepeat_changed [OF asked(4) again(1) ok1(3)] snap(3) id1
  have "w2 = w1 \<and> rt_err (xw_receipts w1 r) \<noteq> None \<or>
    xw_coords w2 = xw_coords w1 \<and> xw_receipts w2 = xw_receipts w1 \<and> event_of w1 r \<noteq> event" by simp
  then show ?thesis
  proof (elim disjE conjE)
    assume "w2 = w1" "rt_err (xw_receipts w1 r) \<noteq> None"
    then show ?thesis using again(2) snap event_rank_mono [OF le] by (auto simp: auth_measure_def)
  next
    assume same: "xw_coords w2 = xw_coords w1" "xw_receipts w2 = xw_receipts w1" and changed: "event_of w1 r \<noteq> event"
    have "event_rank event < event_rank (event_of w1 r)" using event_rank_less [OF le] changed by metis
    moreover have "event_of w2 r = event_of w1 r" by (simp add: event_of_def same)
    ultimately show ?thesis using again(2) snap bound by (auto simp: auth_measure_def)
  qed
qed auto

text \<open>So \<open>authorize\<close> returns, after at most a handful of turns.\<close>

lemma authorize_returns:
  assumes "receipt_ok w r" "r < w_fresh w" "std_contexts w"
  shows "Sequence_authorize sq ctx r i s w \<noteq> None"
proof -
  have "\<exists>y. loop_forever (\<lambda>f. lift (authorize_turn sq ctx r i decision f)) failure w = Some y" for decision failure
  proof (rule loop_forever_returns [where I = "\<lambda>_ w. receipt_ok w r \<and> r < w_fresh w \<and> std_contexts w" and \<mu> = "\<lambda>_ w. auth_measure w r"])
    fix f w f' w1
    assume I: "receipt_ok w r \<and> r < w_fresh w \<and> std_contexts w" "lift (authorize_turn sq ctx r i decision f) w = Some (Ret (Inr f'), w1)"
    have "exec_le w w1" using I(2) exec_frame.keepsD [OF keeps_authorize_turn] by auto
    then show "(receipt_ok w1 r \<and> r < w_fresh w1 \<and> std_contexts w1) \<and> auth_measure w1 r < auth_measure w r"
      using I authorize_turn_again [of ctx r i decision f w f' w1] by (auto simp: exec_le_def)
  qed (use assms in auto)
  then show ?thesis
    by (auto simp: Sequence_authorize_def lseq_def split: prod.splits option.splits outcome.splits) (metis option.distinct(1))+
qed

end


section \<open>Procedures that return from here on\<close>

definition ends :: "('f, 'x) exec_world_scheme \<Rightarrow> (('f, 'x) exec_world_scheme, 'a) lproc \<Rightarrow> bool" where
  "ends w m \<longleftrightarrow> (\<forall>v. exec_le w v \<longrightarrow> m v \<noteq> None)"

lemma ends_lift: "ends w (lift m)"
  by (simp add: ends_def)

lemma ends_lseq:
  assumes "ends w m" "exec_frame.lkeeps m" "\<And>a. ends w (f a)"
  shows "ends w (lseq m f)"
  unfolding ends_def
proof (intro allI impI notI)
  fix v assume v: "exec_le w v" "lseq m f v = None"
  from v(2) show False
  proof (cases rule: lseq_NoneE)
    case first
    then show ?thesis using assms(1) v(1) unfolding ends_def by blast
  next
    case (second a w1)
    have "exec_le w w1" using v(1) exec_frame.lkeepsD [OF assms(2) second(1)] by (rule exec_le_trans)
    then show ?thesis using assms(3) [of a] second(2) unfolding ends_def by blast
  qed
qed

lemma ends_if: "(b \<Longrightarrow> ends w m) \<Longrightarrow> (\<not> b \<Longrightarrow> ends w n) \<Longrightarrow> ends w (if b then m else n)"
  by simp

lemma ends_option: "(x = None \<Longrightarrow> ends w m) \<Longrightarrow> (\<And>a. x = Some a \<Longrightarrow> ends w (f a)) \<Longrightarrow> ends w (case x of None \<Rightarrow> m | Some a \<Rightarrow> f a)"
  by (cases x) auto

lemma ends_prod: "(\<And>a b. x = (a, b) \<Longrightarrow> ends w (f a b)) \<Longrightarrow> ends w (case x of (a, b) \<Rightarrow> f a b)"
  by (cases x) auto

lemma ends_defer: "ends w m \<Longrightarrow> ends w (lwith_defer m d)"
  by (auto simp: ends_def lwith_defer_def split: option.splits)

lemmas ends_rules = ends_lseq ends_lift ends_option ends_prod ends_if

context lawful_boundary
begin

lemma ends_run:
  assumes "\<And>f s. authorize = Some f \<Longrightarrow> exec_frame.lkeeps (f s) \<and> ends w (f s)"
  shows "ends w (run host b call coordinator i authorize s)"
proof -
  have start: "ends w (Receipt_start host r authorize s)" for r s
    unfolding Receipt_start_def using assms by (cases authorize) (auto intro: ends_lift)
  have invoke: "ends w (invoke host b call res r authorize s)" for res r
    unfolding invoke_def
    by (intro ends_rules start exec_frame.lkeeps_lift keeps_ctx_Err_exec lkeeps_start)
      (use assms in \<open>auto intro: fresh_keeps ends_lift\<close>)
  show ?thesis
    unfolding run_def Let_def
    by (intro ends_rules invoke exec_frame.lkeeps_lift keeps_ctx_Err_exec keeps_coord_call coord_steps keeps_new_receipt keeps_prepare)
      (simp add: exec_frame.keeps_def exec_le_upd_receipt)
qed

end

section \<open>The budget\<close>

lemma coord_inv_card: "coord_inv c \<Longrightarrow> length (co_events c) = card (dom (map_of (co_events c)))"
  by (metis coord_inv_def distinct_card dom_map_of_conv_image_fst length_map list.set_map)

text \<open>A new attempt on a coordinator uses up one place of its budget, whatever else happened meanwhile.\<close>

lemma events_grow:
  assumes "coord_inv c" "coord_inv d" "coord_le c d" "map_of (co_events c) k = None" "map_of (co_events d) k = Some e"
  shows "length (co_events c) < length (co_events d)"
proof -
  have "dom (map_of (co_events c)) \<subset> dom (map_of (co_events d))"
    using assms(3-5) by (force simp: coord_le_def)
  then show ?thesis
    using assms(1,2) by (simp add: coord_inv_card psubset_card_mono finite_dom_map_of)
qed

definition budget_left :: "('f, 'x) exec_world_scheme \<Rightarrow> nat \<Rightarrow> nat" where
  "budget_left w c = nat (co_limit (xw_coords w c) - int (length (co_events (xw_coords w c))))"

lemma begun_uses_budget:
  assumes "begun w c i r w1" "c < w_fresh w" "coord_inv (xw_coords w c)"
  shows "budget_left w1 c < budget_left w c"
proof -
  have le: "coord_le (xw_coords w c) (xw_coords w1 c)" and inv: "coord_inv (xw_coords w1 c)"
    using assms by (auto simp: begun_def exec_le_def)
  obtain e where "map_of (co_events (xw_coords w1 c)) (id_Attempt i) = Some e"
    using assms(1) by (auto simp: begun_def receipt_ok_def recorded_def Let_def)
  then have "length (co_events (xw_coords w c)) < length (co_events (xw_coords w1 c))"
    using events_grow [OF assms(3) inv le] assms(1) by (auto simp: begun_def)
  moreover have "co_limit (xw_coords w1 c) = co_limit (xw_coords w c)" using le by (simp add: coord_le_def)
  moreover have "int (length (co_events (xw_coords w1 c))) \<le> co_limit (xw_coords w1 c)" using inv by (simp add: coord_inv_def)
  ultimately show ?thesis by (simp add: budget_left_def)
qed


section \<open>One turn of the sequence\<close>

text \<open>The clock reaches every time in the end; needed only when the default wait is used.\<close>

definition clock_advances :: "(nat \<Rightarrow> int) option \<Rightarrow> bool" where
  "clock_advances now \<longleftrightarrow> (case now of None \<Rightarrow> True | Some clk \<Rightarrow> (\<forall>t. \<exists>n. \<forall>j \<ge> n. t \<le> clk j))"

lemma ends_wait_until:
  assumes "clock_advances now"
  shows "ends w (wait_until now ctx nb)"
proof -
  have "\<exists>r. Wait (map_option (\<lambda>clk j. clk (w_step v + Suc j)) now) d nb = Some r" for v :: "('a, 'b) exec_world_scheme" and d
  proof (cases now)
    case (Some clk)
    then obtain n where n: "\<And>j. n \<le> j \<Longrightarrow> nb \<le> clk j" using assms by (auto simp: clock_advances_def)
    have "\<exists>r. wait_loop (\<lambda>j. clk (w_step v + Suc j)) d nb 0 = Some r"
      by (rule wait_loop_returns [of n]) (use n in auto)
    then show ?thesis using Some by (simp add: Wait_def)
  qed (simp add: Wait_def)
  then show ?thesis unfolding ends_def wait_until_def by (auto split: option.splits) (metis option.distinct(1))
qed

text \<open>The state of the loop: the coordinator is in order, and so is the receipt of the previous attempt.\<close>

definition loop_ok ::
  "('f, ('f, 'x) exec_world_scheme) exec_host \<Rightarrow> nat \<Rightarrow>
   ('f, ('f, 'x) exec_world_scheme, 'req, 'c :: zero, 'k :: zero, 'r :: zero, 'p :: zero) seq_state \<Rightarrow> ('f, 'x) exec_world_scheme \<Rightarrow> bool" where
  "loop_ok host c state w \<longleftrightarrow>
     (case state of (sq, step, previous, result) \<Rightarrow>
        lawful_sequence host sq \<and> c < w_fresh w \<and> coord_inv (xw_coords w c) \<and> std_contexts w \<and>
        (\<forall>p. previous = Some p \<longrightarrow> (\<exists>r. xr_Receipt p = Some r \<and> r < w_fresh w \<and> receipt_ok w r \<and>
           rt_coordinator (xw_receipts w r) = c)))"

lemma loop_ok_le:
  assumes "loop_ok host c (sq, step, previous, result) w" "exec_le w v"
  shows "loop_ok host c (sq, step', previous, result') v"
  using assms by (force simp: loop_ok_def exec_le_def receipt_le_def)

context lawful_sequence
begin

lemma keeps_transfer:
  "exec_frame.keeps (\<lambda>w. case OnClose (exec_hostfn host) life (Some cn) w of
      (Ret _, w1) \<Rightarrow> (Ret z, w1) | (Panic, w1) \<Rightarrow> seq (run_closure (exec_hostfn host) cn) (\<lambda>_ w. (Panic, w)) w1)"
proof (rule exec_frame.keepsI)
  fix w :: "('f, 'x) exec_world_scheme"
  have panic: "exec_frame.keeps (seq (run_closure (exec_hostfn host) cn) (\<lambda>_ w. (Panic, w)))"
    by (intro exec_frame.keeps_seq keeps_run_closure_exec keeps_panic)
  obtain u w1 where o: "OnClose (exec_hostfn host) life (Some cn) w = (u, w1)" by fastforce
  have "exec_le w w1" using exec_frame.keepsD [OF keeps_OnClose_exec o] .
  then show "exec_le w (snd (case OnClose (exec_hostfn host) life (Some cn) w of
      (Ret _, w1) \<Rightarrow> (Ret z, w1) | (Panic, w1) \<Rightarrow> seq (run_closure (exec_hostfn host) cn) (\<lambda>_ w. (Panic, w)) w1))"
    using o exec_le_trans [OF _ exec_frame.keeps_at [OF panic]] by (cases u) auto
qed

lemma keeps_hand_over: "exec_frame.keeps (hand_over host cn v)"
  unfolding hand_over_def
  by (cases v) (auto intro!: keeps_transfer exec_frame.keeps_seq keeps_run_closure_exec keeps_panic exec_frame.keeps_ret)

end


lemma begun_from:
  assumes "exec_le w w1" "c < w_fresh w" "begun w1 c i r w2"
  shows "begun w c i r w2"
proof -
  have "coord_le (xw_coords w c) (xw_coords w1 c)" using assms(1,2) by (simp add: exec_le_def)
  then have "map_of (co_events (xw_coords w c)) (id_Attempt i) = None"
    using assms(3) coord_le_lookup [of "xw_coords w c" "xw_coords w1 c" "id_Attempt i"]
    by (cases "map_of (co_events (xw_coords w c)) (id_Attempt i)") (auto simp: begun_def)
  moreover have "exec_le w w2" using assms(1,3) exec_le_trans by (auto simp: begun_def)
  ultimately show ?thesis using assms by (auto simp: begun_def exec_le_def)
qed

text \<open>
  What it means that a repeat was authorized between two worlds: \<open>Replay\<close> was asked about recorded facts of the previous
  attempt, the coordinator, as it was afterwards, accepted the repeat against these facts on the evidence returned, and what it
  recorded by that is in the later world.
\<close>

definition authorized ::
  "('c failure \<Rightarrow> (('f, 'x) exec_world_scheme, replay \<times> err) proc) option \<Rightarrow> nat \<Rightarrow>
   ('f, 'x) exec_world_scheme \<Rightarrow> identity \<Rightarrow> identity \<Rightarrow> ('f, 'x) exec_world_scheme \<Rightarrow> bool" where
  "authorized evidence c w previous next w' \<longleftrightarrow>
     (\<exists>f failure v v' rp u d co'. evidence = Some f \<and> exec_le w v \<and> f failure v = (Ret (rp, None), v') \<and>
        ev_Identity (fl_Event failure) = previous \<and> exec_le v u \<and>
        AuthorizeRepeat (xw_coords u c) (fl_Event failure) next rp False = ((d, None), co') \<and> repeats (de_Action d) \<and>
        coord_le co' (xw_coords w' c))"

lemma authorizedI:
  assumes "evidence = Some f" "exec_le w v" "f failure v = (Ret (rp, None), v')" "ev_Identity (fl_Event failure) = previous"
    "exec_le v u" "AuthorizeRepeat (xw_coords u c) (fl_Event failure) next rp False = ((d, None), co')" "repeats (de_Action d)"
    "coord_le co' (xw_coords w' c)"
  shows "authorized evidence c w previous next w'"
  unfolding authorized_def using assms by (intro exI conjI)

lemma authorized_le:
  assumes "authorized evidence c w previous next w'" "exec_le w0 w" "exec_le w' v" "c < w_fresh w'"
  shows "authorized evidence c w0 previous next v"
proof -
  have "coord_le (xw_coords w' c) (xw_coords v c)" using assms(3,4) by (simp add: exec_le_def)
  moreover obtain f failure x x' rp u d co' where a: "evidence = Some f" "exec_le w x" "f failure x = (Ret (rp, None), x')"
      "ev_Identity (fl_Event failure) = previous" "exec_le x u"
      "AuthorizeRepeat (xw_coords u c) (fl_Event failure) next rp False = ((d, None), co')" "repeats (de_Action d)"
      "coord_le co' (xw_coords w' c)"
    using assms(1) unfolding authorized_def by (elim exE conjE)
  ultimately have "coord_le co' (xw_coords v c)" using coord_frame.frame_trans by blast
  with a(1) exec_le_trans [OF assms(2) a(2)] a(3-7) show ?thesis by (rule authorizedI)
qed

context lawful_sequence
begin

lemma lkeeps_authorizer: "step_authorizer sq bounded previous i = Some f \<Longrightarrow> exec_frame.lkeeps (f s)"
  by (auto simp: step_authorizer_def intro!: lkeeps_authorize exec_frame.lkeeps_lift keeps_panic split: option.split)

lemma lkeeps_runStep: "exec_frame.lkeeps (runStep host sq ctx coordinator step previous s)"
proof -
  have "exec_frame.lkeeps (\<lambda>w. case NewRouteCall (Some bounded) (sp_Request step) w of (call, w1) \<Rightarrow>
              (case run host (step_boundary sq) call coordinator (sp_Identity step)
                  (step_authorizer sq bounded previous (sp_Identity step)) s w1 of
                 None \<Rightarrow> None
               | Some (v, w2) \<Rightarrow> Some (hand_over host cn v w2)))" for bounded cn
  proof (rule exec_frame.lkeepsI)
    fix w r w'
    assume a: "(case NewRouteCall (Some bounded) (sp_Request step) w of (call, w1) \<Rightarrow>
              (case run host (step_boundary sq) call coordinator (sp_Identity step)
                  (step_authorizer sq bounded previous (sp_Identity step)) s w1 of
                 None \<Rightarrow> None
               | Some (v, w2) \<Rightarrow> Some (hand_over host cn v w2))) = Some (r, w')"
    obtain call w1 where n: "NewRouteCall (Some bounded) (sp_Request step) w = (call, w1)" by fastforce
    then obtain v w2 where rn: "run host (step_boundary sq) call coordinator (sp_Identity step)
        (step_authorizer sq bounded previous (sp_Identity step)) s w1 = Some (v, w2)" and h: "hand_over host cn v w2 = (r, w')"
      using a by (auto split: option.splits prod.splits)
    have "exec_le w w1" using keeps_NewRouteCall [of w "Some bounded" "sp_Request step"] n by simp
    also have "exec_le w1 w2" using exec_frame.lkeepsD [OF stepping.lkeeps_run rn] lkeeps_authorizer by blast
    also have "exec_le w2 w'" using exec_frame.keepsD [OF keeps_hand_over h] .
    finally show "exec_le w w'" .
  qed
  then show ?thesis
    unfolding runStep_def
    by (intro exec_frame.lkeeps_lseq exec_frame.lkeeps_lift keeps_boundedContext)
      (auto intro: exec_frame.lkeeps_lift exec_frame.keeps_ret split: sum.split)
qed

lemma ends_runStep:
  assumes "\<And>p r. previous = Some p \<Longrightarrow> xr_Receipt p = Some r \<Longrightarrow> r < w_fresh w \<and> receipt_ok w r" "std_contexts w"
  shows "ends w (runStep host sq ctx coordinator step previous s)"
proof -
  have auth: "exec_frame.lkeeps (f s) \<and> ends w (f s)" if f: "step_authorizer sq bounded previous i = Some f" for bounded i f s
  proof
    show "exec_frame.lkeeps (f s)" using lkeeps_authorizer [OF f] .
    obtain p where p: "previous = Some p" "f = (\<lambda>s. case xr_Receipt p of
         None \<Rightarrow> lift (\<lambda>w. (Panic, w))
       | Some r \<Rightarrow> Sequence_authorize sq bounded r i s)" using f by (auto simp: step_authorizer_def)
    show "ends w (f s)"
    proof (cases "xr_Receipt p")
      case (Some r)
      then have "Sequence_authorize sq bounded r i s v \<noteq> None" if "exec_le w v" for v
        using that assms(1) [OF p(1) Some] assms(2) by (intro authorize_returns) (auto simp: exec_le_def)
      then show ?thesis using p(2) Some by (simp add: ends_def)
    qed (simp add: p(2) ends_lift)
  qed
  have step: "ends w (\<lambda>w. case NewRouteCall (Some bounded) (sp_Request step) w of (call, w1) \<Rightarrow>
              (case run host (step_boundary sq) call coordinator (sp_Identity step)
                  (step_authorizer sq bounded previous (sp_Identity step)) s w1 of
                 None \<Rightarrow> None
               | Some (v, w2) \<Rightarrow> Some (hand_over host cn v w2)))" for bounded cn
    unfolding ends_def
  proof (intro allI impI)
    fix v assume v: "exec_le w v"
    obtain call w1 where n: "NewRouteCall (Some bounded) (sp_Request step) v = (call, w1)" by fastforce
    have "exec_le w w1" using v keeps_NewRouteCall [of v "Some bounded" "sp_Request step"] n exec_le_trans by (metis snd_conv)
    moreover have "ends w (run host (step_boundary sq) call coordinator (sp_Identity step)
        (step_authorizer sq bounded previous (sp_Identity step)) s)"
      by (rule stepping.ends_run) (rule auth)
    ultimately show "(case NewRouteCall (Some bounded) (sp_Request step) v of (call, w1) \<Rightarrow>
              (case run host (step_boundary sq) call coordinator (sp_Identity step)
                  (step_authorizer sq bounded previous (sp_Identity step)) s w1 of
                 None \<Rightarrow> None
               | Some (v, w2) \<Rightarrow> Some (hand_over host cn v w2))) \<noteq> None"
      using n by (auto simp: ends_def split: option.splits)
  qed
  show ?thesis
    unfolding runStep_def
    by (intro ends_lseq ends_lift exec_frame.lkeeps_lift keeps_boundedContext)
      (auto intro: ends_lift step split: sum.split)
qed

lemma ends_advance:
  assumes "sq_Wait sq \<noteq> None \<or> clock_advances (sq_Now sq)"
  shows "ends w (advance host sq ctx step res replay decision)"
proof -
  have "ends w (advance_bounded host sq bounded step res replay decision)" for bounded
    unfolding advance_bounded_def lreceipt_of_def Let_def
    by (intro ends_rules lkeeps_rules keeps_Close_exec next_keeps lkeeps_wait_until wait_keeps)
      (use assms in \<open>auto intro: ends_wait_until\<close>)
  then show ?thesis
    unfolding advance_def
    by (intro ends_lseq ends_lift exec_frame.lkeeps_lift keeps_boundedContext)
      (auto intro: ends_lift ends_defer split: sum.split)
qed

end


lemma authorizeRepeat_accepts:
  assumes "authorizeRepeat r event i rp ctx (checkStart sq ctx' nb) w = (Ret (d, None), w')" "repeats (de_Action d)"
  shows "\<exists>v. exec_le w v \<and> AuthorizeRepeat (xw_coords v (rt_coordinator (xw_receipts v r))) event i rp False =
    ((d, None), xw_coords w' (rt_coordinator (xw_receipts v r)))"
proof -
  obtain ce w1 where c: "checkStart sq ctx' nb w = (Ret ce, w1)"
    and k: "(case ce of Some x \<Rightarrow> ret (zero_decision, Some x)
       | None \<Rightarrow> seq (ctx_Err ctx) (\<lambda>ce w. coord_call (rt_coordinator (xw_receipts w r))
           (\<lambda>c. AuthorizeRepeat c event i rp (ce \<noteq> None)) w)) w1 = (Ret (d, None), w')"
    using assms(1) by (auto simp: authorizeRepeat_def simp del: not_None_eq elim!: seq_RetE split: option.splits)
  have "exec_le w (tick w1)" using exec_frame.keepsD [OF keeps_checkStart c] exec_le_trans [OF _ exec_le_same, of w w1 "tick w1"] by simp
  moreover have "ce = None" using k by (cases ce) auto
  with k obtain b where "AuthorizeRepeat (xw_coords (tick w1) (rt_coordinator (xw_receipts (tick w1) r))) event i rp b =
      ((d, None), xw_coords w' (rt_coordinator (xw_receipts (tick w1) r)))"
    by (auto simp: coord_call_Ret simp del: not_None_eq)
  moreover from this have "\<not> b" using assms(2) by (elim AuthorizeRepeat_cases) auto
  ultimately show ?thesis by (intro exI [of _ "tick w1"]) simp
qed

context lawful_sequence
begin

lemma authorize_accepts:
  assumes "Sequence_authorize sq ctx r i s w = Some (Ret ((True, None), s'), w')" "r < w_fresh w"
  shows "authorized (sq_Replay sq) (rt_coordinator (xw_receipts w r)) w (rt_identity (xw_receipts w r)) i w'"
proof -
  obtain failure decision where s: "s = (Some failure, decision)"
    using assms(1) by (cases s; cases "fst s") (auto simp: Sequence_authorize_def)
  obtain fl dc where l: "loop_forever (\<lambda>f. lift (authorize_turn sq ctx r i decision f)) failure w = Some (Ret ((True, None), fl, dc), w')"
    using assms(1) s by (auto simp: Sequence_authorize_def elim!: lseq_RetE)
  have steps: "exec_le w v1" if "exec_le w v" "lift (authorize_turn sq ctx r i decision f) v = Some (Ret (Inr f1), v1)" for f v f1 v1
    using that(1) exec_frame.lkeepsD [OF exec_frame.lkeeps_lift [OF keeps_authorize_turn] that(2)] by (rule exec_le_trans)
  obtain s1 w1 where w1: "exec_le w w1" and t: "authorize_turn sq ctx r i decision s1 w1 = (Ret (Inl ((True, None), fl, dc)), w')"
    by (rule loop_forever_run [OF l, where P = "\<lambda>_ v. exec_le w v"]) (use steps in auto)
  from t show ?thesis
  proof (cases rule: authorize_turn_cases)
      case (asked event n rp w2 d e w3)
      then have d: "e = None" "repeats (de_Action d)" by auto
      obtain f v where ev: "sq_Replay sq = Some f" "f (s1\<lparr>fl_Event := event, fl_Remaining := n + 1\<rparr>) w1 = (Ret (rp, None), v)"
        using asked(3) by blast
      obtain u where u: "exec_le w2 u" "AuthorizeRepeat (xw_coords u (rt_coordinator (xw_receipts u r))) event i rp False =
          ((d, None), xw_coords w3 (rt_coordinator (xw_receipts u r)))"
        using authorizeRepeat_accepts asked(4) d by blast
      have le: "exec_le w1 u" "exec_le w u" using u(1) asked(2) w1 exec_le_trans by blast+
      have co: "rt_coordinator (xw_receipts u r) = rt_coordinator (xw_receipts w r)" using le(2) assms(2) by (auto simp: exec_le_def receipt_le_def)
      have "ev_Identity event = rt_identity (xw_receipts w r)"
        using Receipt_Snapshot_ok [OF asked(1)] w1 assms(2) by (auto simp: Snapshot_ok exec_le_def receipt_le_def)
      moreover have "w' = w3" using asked(6) by auto
      ultimately show ?thesis
        using u(2) [unfolded co] d(2) le(1)
        by (intro authorizedI [OF ev(1) w1 ev(2), of _ u]) (simp_all, rule coord_frame.frame_refl)
  qed auto
qed

lemma hand_over_Ret: "hand_over host cn v w = (Ret x, w') \<Longrightarrow> v = Ret x"
  by (auto simp: hand_over_def elim!: seq_RetE split: outcome.splits if_splits prod.splits)

end


context lawful_sequence
begin

lemma runStep_started:
  assumes "runStep host sq ctx (Some c) step previous s w = Some (Ret (latest, e, s'), w')" "xr_Started latest"
    "c < w_fresh w" "coord_inv (xw_coords w c)"
  shows "\<exists>r. xr_Receipt latest = Some r \<and> begun w c (sp_Identity step) r w'" (is ?begun)
    and "previous = Some p \<Longrightarrow> xr_Receipt p = Some rp \<Longrightarrow> rp < w_fresh w \<Longrightarrow>
      rt_coordinator (xw_receipts w rp) = c \<Longrightarrow> authorized (sq_Replay sq) c w (rt_identity (xw_receipts w rp)) (sp_Identity step) w'"
      (is "_ \<Longrightarrow> _ \<Longrightarrow> _ \<Longrightarrow> _ \<Longrightarrow> ?auth")
proof -
  let ?i = "sp_Identity step"
  obtain bc wb where b: "boundedContext host sq ctx w = (Ret bc, wb)"
    using assms(1) by (auto simp: runStep_def elim!: lseq_RetE)
  obtain bounded cn where bc: "bc = Inr (bounded, cn)"
    using assms(1,2) b by (cases bc) (auto simp: runStep_def empty_result_def)
  obtain call w1 where n: "NewRouteCall (Some bounded) (sp_Request step) wb = (call, w1)" by fastforce
  obtain v w2 where rv: "run host (step_boundary sq) call (Some c) ?i (step_authorizer sq bounded previous ?i) s w1 = Some (v, w2)"
    and h: "hand_over host cn v w2 = (Ret (latest, e, s'), w')"
    using assms(1) b bc n by (auto simp: runStep_def split: option.splits prod.splits)
  have rn: "run host (step_boundary sq) call (Some c) ?i (step_authorizer sq bounded previous ?i) s w1 = Some (Ret (latest, e, s'), w2)"
    using rv hand_over_Ret [OF h] by simp
  have le: "exec_le w w1"
    using exec_frame.keepsD [OF keeps_boundedContext b] keeps_NewRouteCall [of wb "Some bounded" "sp_Request step"] n exec_le_trans by (metis snd_conv)
  have c1: "c < w_fresh w1" "coord_inv (xw_coords w1 c)" using le assms(3,4) by (auto simp: exec_le_def)
  have "accounted w1 c ?i latest e w2"
    using rn c1 lkeeps_authorizer by (rule stepping.run_accounted)
  then obtain r where r: "xr_Receipt latest = Some r" "begun w1 c ?i r w2"
    using assms(2) by (auto simp: accounted_def split: option.splits)
  then show ?begun
    using begun_from [OF le assms(3)] begun_le exec_frame.keepsD [OF keeps_hand_over h] by blast
  show ?auth if prev: "previous = Some p" "xr_Receipt p = Some rp" "rp < w_fresh w" "rt_coordinator (xw_receipts w rp) = c"
    using rn c1
  proof (cases rule: stepping.run_begun)
    case refused
    then show ?thesis using assms(2) by simp
  next
    case (closed r w3 res0 x)
    have "latest = res0" using close_unstarted_result [OF closed(2)] by simp
    then have "\<not> xr_Started latest" by (simp, subst closed(3)) (simp add: zero_result_def)
    then show ?thesis using assms(2) by simp
  next
    case (denied r w3)
    have "\<not> xr_Started latest" by (subst denied(4)) (simp add: zero_result_def)
    then show ?thesis using assms(2) by simp
  next
    case (invoked r w3 res0)
    from invoked(2) show ?thesis
    proof (cases rule: invoke_cases)
      case (stopped e0 s0 w4)
      have "latest = res0" using close_unstarted_result [OF stopped(1)] by simp
      then have "\<not> xr_Started latest" by (simp, subst invoked(3)) (simp add: zero_result_def)
      then show ?thesis using assms(2) by simp
    next
      case (started w4 w5)
      have auth: "Sequence_authorize sq bounded rp ?i s w4 = Some (Ret ((True, None), s'), w5)"
        using started(1) prev by (simp add: Receipt_start_def step_authorizer_def)
      have w4: "exec_le w w4"
        using le invoked(1) started(4) stepping.lawful_boundary_axioms exec_le_trans unfolding begun_def by blast
      with auth have "authorized (sq_Replay sq) (rt_coordinator (xw_receipts w4 rp)) w4 (rt_identity (xw_receipts w4 rp)) ?i w5"
        using prev(3) by (intro authorize_accepts) (simp_all add: exec_le_def)
      then have "authorized (sq_Replay sq) c w4 (rt_identity (xw_receipts w rp)) ?i w5"
        using w4 prev(3,4) by (simp add: exec_le_def receipt_le_def)
      moreover have "exec_le w5 w'"
        using exec_frame.keepsD [OF stepping.keeps_dispatch_once started(2)] exec_frame.keepsD [OF keeps_hand_over h] by (rule exec_le_trans)
      moreover have "c < w_fresh w5"
        using w4 assms(3) exec_frame.lkeepsD [OF lkeeps_authorize auth] by (auto simp: exec_le_def)
      ultimately show ?thesis using authorized_le w4 by blast
    qed
  qed
qed

end

section \<open>The attempts of a run\<close>

definition attempts_ok ::
  "('c failure \<Rightarrow> (('f, 'x) exec_world_scheme, replay \<times> err) proc) option \<Rightarrow> nat \<Rightarrow> ('f, 'x) exec_world_scheme \<Rightarrow>
   identity list \<Rightarrow> ('f, 'x) exec_world_scheme \<Rightarrow> bool" where
  "attempts_ok evidence c w0 ids w \<longleftrightarrow> distinct ids \<and> length ids + budget_left w c \<le> budget_left w0 c \<and>
     (\<forall>i \<in> set ids. map_of (co_events (xw_coords w0 c)) (id_Attempt i) = None \<and>
        map_of (co_events (xw_coords w c)) (id_Attempt i) \<noteq> None) \<and>
     (\<forall>k. Suc k < length ids \<longrightarrow> authorized evidence c w0 (ids ! k) (ids ! Suc k) w)"

lemma budget_left_le:
  assumes "exec_le w v" "c < w_fresh w" "coord_inv (xw_coords w c)"
  shows "budget_left v c \<le> budget_left w c"
proof -
  have le: "coord_le (xw_coords w c) (xw_coords v c)" and inv: "coord_inv (xw_coords v c)"
    using assms by (auto simp: exec_le_def)
  have "dom (map_of (co_events (xw_coords w c))) \<subseteq> dom (map_of (co_events (xw_coords v c)))"
    using le by (force simp: coord_le_def)
  then have "length (co_events (xw_coords w c)) \<le> length (co_events (xw_coords v c))"
    using assms(3) inv by (simp add: coord_inv_card card_mono finite_dom_map_of)
  then show ?thesis using le by (simp add: budget_left_def coord_le_def)
qed

lemma attempts_ok_le:
  assumes "attempts_ok ev c w0 ids w" "exec_le w v" "c < w_fresh w" "coord_inv (xw_coords w c)"
  shows "attempts_ok ev c w0 ids v"
proof -
  have "coord_le (xw_coords w c) (xw_coords v c)" using assms(2,3) by (simp add: exec_le_def)
  then have "map_of (co_events (xw_coords w c)) k \<noteq> None \<Longrightarrow> map_of (co_events (xw_coords v c)) k \<noteq> None" for k
    using coord_le_lookup by fastforce
  then show ?thesis
    using assms(1) budget_left_le [OF assms(2-4)] authorized_le [of ev c w0 _ _ w w0 v] assms(2,3)
    unfolding attempts_ok_def by auto
qed

lemma attempts_ok_snoc:
  assumes ok: "attempts_ok ev c w0 ids w" and b: "begun w c i r v" and c: "c < w_fresh w" "coord_inv (xw_coords w c)"
    and auth: "ids \<noteq> [] \<Longrightarrow> authorized ev c w (last ids) i v"
    and le: "exec_le w0 w" "c < w_fresh w0"
  shows "attempts_ok ev c w0 (ids @ [i]) v"
proof -
  have old: "attempts_ok ev c w0 ids v" using attempts_ok_le [OF ok _ c] b by (simp add: begun_def)
  have new: "map_of (co_events (xw_coords w c)) (id_Attempt i) = None" and c_v: "c < w_fresh v"
    using b c by (auto simp: begun_def exec_le_def)
  then have "i \<notin> set ids" using ok by (auto simp: attempts_ok_def)
  moreover have "length (ids @ [i]) + budget_left v c \<le> budget_left w0 c"
    using ok begun_uses_budget [OF b c] by (simp add: attempts_ok_def)
  moreover have "map_of (co_events (xw_coords w0 c)) (id_Attempt i) = None"
    using begun_from [OF le b] by (simp add: begun_def)
  moreover have "map_of (co_events (xw_coords v c)) (id_Attempt i) \<noteq> None"
    using b by (auto simp: begun_def receipt_ok_def recorded_def Let_def)
  moreover have "authorized ev c w0 ((ids @ [i]) ! k) ((ids @ [i]) ! Suc k) v" if "Suc k < length (ids @ [i])" for k
  proof (cases "Suc k < length ids")
    case True
    then show ?thesis using old by (simp add: attempts_ok_def nth_append)
  next
    case False
    then have "k = length ids - 1" "ids \<noteq> []" using that by auto
    then show ?thesis using authorized_le [OF auth le(1)] c_v by (simp add: nth_append last_conv_nth)
  qed
  ultimately show ?thesis using old by (auto simp: attempts_ok_def)
qed


context lawful_sequence
begin

lemma keeps_completedDecision: "exec_frame.keeps (completedDecision res i e)"
  unfolding completedDecision_def terminalDecision_def Let_def
  by (intro lkeeps_rules)

lemma keeps_preflightDecision: "exec_frame.keeps (preflightDecision d res i e)"
  unfolding preflightDecision_def by (intro lkeeps_rules keeps_completedDecision)

lemma lkeeps_after_failure: "exec_frame.lkeeps (after_failure host sq ctx step result latest e)"
  unfolding after_failure_def lreceipt_of_def Let_def
  by (intro lkeeps_rules keeps_Sequence_decide lawful_sequence.lkeeps_advance lawful_sequence_deadline lawful_sequence_axioms)

lemma ends_after_failure:
  assumes "sq_Wait sq \<noteq> None \<or> clock_advances (sq_Now sq)"
  shows "ends w (after_failure host sq ctx step result latest e)"
  unfolding after_failure_def lreceipt_of_def Let_def
  by (intro ends_rules lkeeps_rules keeps_Sequence_decide lawful_sequence.lkeeps_advance lawful_sequence.ends_advance
      lawful_sequence_deadline lawful_sequence_axioms)
    (use assms in auto)

lemma after_failure_result:
  assumes "after_failure host sq ctx step result latest e w = Some (Ret X, w')"
  shows "case X of
      Inl (res, _) \<Rightarrow> sr_Trace res = sr_Trace result
    | Inr (sq', step', previous, res) \<Rightarrow> sr_Trace res = sr_Trace result \<and> previous = Some latest \<and> (\<exists>d. sq' = sq\<lparr>sq_Deadline := d\<rparr>)"
  using assms unfolding after_failure_def Let_def
  by (auto elim!: lseq_RetE split: option.splits if_splits prod.splits) blast

lemma lkeeps_sequence_turn: "exec_frame.lkeeps (sequence_turn host ctx coordinator (sq, step, previous, result))"
  unfolding sequence_turn_def Let_def prod.case
  by (intro lkeeps_rules lkeeps_runStep keeps_preflightDecision keeps_completedDecision lkeeps_after_failure)

lemma ends_sequence_turn:
  assumes "loop_ok host c (sq, step, previous, result) w" "sq_Wait sq \<noteq> None \<or> clock_advances (sq_Now sq)"
  shows "ends w (sequence_turn host ctx coordinator (sq, step, previous, result))"
proof -
  have "ends w (runStep host sq ctx coordinator step previous s)" for s
    by (rule ends_runStep) (use assms(1) in \<open>auto simp: loop_ok_def\<close>)
  moreover have "ends w (after_failure host sq ctx step result' latest e)" for result' latest e
    using assms(2) by (rule ends_after_failure)
  ultimately show ?thesis
    unfolding sequence_turn_def Let_def prod.case
    by (intro ends_rules lkeeps_rules lkeeps_runStep)
qed

lemma sequence_turn_cases:
  assumes "sequence_turn host ctx coordinator (sq, step, previous, result) w = Some (Ret X, w')"
  obtains (blocked) res x where "X = Inl (res, x)" "sr_Trace res = sr_Trace result" "exec_le w w'"
  | (stepped) latest runErr s w1 w2 where "exec_le w w1" "exec_le w2 w'"
      "runStep host sq ctx coordinator step previous (sr_Failure result, sr_Decision result) w1 = Some (Ret (latest, runErr, s), w2)"
      "let trace = sr_Trace result @ [\<lparr>te_Identity = sp_Identity step, te_Result = latest, te_Err = runErr\<rparr>] in
       case X of
         Inl (res, _) \<Rightarrow> sr_Trace res = trace
       | Inr (sq', step', previous', res) \<Rightarrow> sr_Trace res = trace \<and> previous' = Some latest \<and> xr_Started latest \<and>
           (\<exists>d. sq' = sq\<lparr>sq_Deadline := d\<rparr>)"
proof -
  obtain ce w1 where c: "checkStart sq ctx 0 w = (Ret ce, w1)"
    using assms by (auto simp: sequence_turn_def elim!: lseq_RetE)
  have le1: "exec_le w w1" using exec_frame.keepsD [OF keeps_checkStart c] .
  show thesis
  proof (cases ce)
    case (Some x)
    then show thesis
      using assms c le1
      by (intro blocked [of "result\<lparr>sr_Decision := stopDecision (sr_Decision result) (Some x)\<rparr>" "Some x"]) (auto simp: sequence_turn_def)
  next
    case None
    have c': "lift (checkStart sq ctx 0) w = Some (Ret None, w1)" using c None by simp
    obtain latest runErr failure decision w2
      where r: "runStep host sq ctx coordinator step previous (sr_Failure result, sr_Decision result) w1 = Some (Ret (latest, runErr, failure, decision), w2)"
      using assms c None by (auto simp: sequence_turn_def elim!: lseq_RetE)
    define result1 where "result1 = result\<lparr>sr_Failure := failure, sr_Decision := decision,
        sr_Trace := sr_Trace result @ [\<lparr>te_Identity = sp_Identity step, te_Result = latest, te_Err = runErr\<rparr>]\<rparr>"
    have k: "(if previous \<noteq> None \<and> \<not> xr_Started latest
                  then lift (seq (preflightDecision decision latest (sp_Identity step) runErr) (\<lambda>d.
                         ret (Inl (result1\<lparr>sr_Decision := d\<rparr>, runErr))))
                  else
                    if \<not> xr_Started latest \<or> runErr = None \<or> isControlError runErr
                    then lift (seq (completedDecision latest (sp_Identity step) runErr) (\<lambda>d.
                           ret (Inl (result1\<lparr>sr_Last := latest, sr_Failure := None, sr_Decision := d\<rparr>, runErr))))
                    else after_failure host sq ctx step (result1\<lparr>sr_Last := latest, sr_Failure := None\<rparr>) latest runErr) w2 = Some (Ret X, w')"
      using assms unfolding sequence_turn_def Let_def prod.case lseq_Some_Ret [of "lift (checkStart sq ctx 0)", OF c'] option.case
        lseq_Some_Ret [of "runStep host sq ctx coordinator step previous (sr_Failure result, sr_Decision result)", OF r] result1_def
      by assumption
    have "exec_le w2 w'"
      using k
      by (auto split: if_splits elim!: seq_RetE dest: exec_frame.keepsD [OF keeps_preflightDecision]
          exec_frame.keepsD [OF keeps_completedDecision] exec_frame.lkeepsD [OF lkeeps_after_failure])
    moreover have "let trace = sr_Trace result @ [\<lparr>te_Identity = sp_Identity step, te_Result = latest, te_Err = runErr\<rparr>] in
       case X of
         Inl (res, _) \<Rightarrow> sr_Trace res = trace
       | Inr (sq', step', previous', res) \<Rightarrow> sr_Trace res = trace \<and> previous' = Some latest \<and> xr_Started latest \<and>
           (\<exists>d. sq' = sq\<lparr>sq_Deadline := d\<rparr>)"
      using k after_failure_result [of ctx step "result1\<lparr>sr_Last := latest, sr_Failure := None\<rparr>" latest runErr w2 X w']
      by (auto simp: result1_def split: if_splits sum.splits elim!: seq_RetE)
    ultimately show thesis using le1 r by (intro stepped [of w1 w2 latest runErr "(failure, decision)"])
  qed
qed

end


section \<open>The loop\<close>

definition started_ids :: "('k, 'r, 'p) trace_entry list \<Rightarrow> identity list" where
  "started_ids trace = map te_Identity (filter (\<lambda>t. xr_Started (te_Result t)) trace)"

lemma started_ids_simps [simp]: "started_ids [] = []"
  "started_ids (tr @ [t]) = started_ids tr @ (if xr_Started (te_Result t) then [te_Identity t] else [])"
  by (simp_all add: started_ids_def)

text \<open>The loop's invariant: all attempts so far were started, in order, and the previous one is the last of them.\<close>

definition loop_inv ::
  "('f, ('f, 'x) exec_world_scheme) exec_host \<Rightarrow> ('c failure \<Rightarrow> (('f, 'x) exec_world_scheme, replay \<times> err) proc) option \<Rightarrow>
   nat \<Rightarrow> ('f, 'x) exec_world_scheme \<Rightarrow>
   ('f, ('f, 'x) exec_world_scheme, 'req, 'c :: zero, 'k :: zero, 'r :: zero, 'p :: zero) seq_state \<Rightarrow> ('f, 'x) exec_world_scheme \<Rightarrow> bool" where
  "loop_inv host ev c w0 state w \<longleftrightarrow> loop_ok host c state w \<and> exec_le w0 w \<and> c < w_fresh w0 \<and>
     (case state of (sq, step, previous, result) \<Rightarrow>
        sq_Replay sq = ev \<and> length (started_ids (sr_Trace result)) = length (sr_Trace result) \<and>
        attempts_ok ev c w0 (started_ids (sr_Trace result)) w \<and>
        (case previous of
           None \<Rightarrow> started_ids (sr_Trace result) = []
         | Some p \<Rightarrow> started_ids (sr_Trace result) \<noteq> [] \<and>
             (\<exists>r. xr_Receipt p = Some r \<and> rt_identity (xw_receipts w r) = last (started_ids (sr_Trace result)))))"

text \<open>The step a turn takes, seen from the trace.\<close>

lemma turn_attempts:
  assumes inv: "loop_inv host ev c w0 (sq, step, previous, result) w" and le: "exec_le w w1"
    and r: "runStep host sq ctx (Some c) step previous s w1 = Some (Ret (latest, e, s'), w2)" "xr_Started latest"
  shows "attempts_ok ev c w0 (started_ids (sr_Trace result) @ [sp_Identity step]) w2"
    and "\<exists>r. xr_Receipt latest = Some r \<and> begun w1 c (sp_Identity step) r w2"
proof -
  have law: "lawful_sequence host sq" and c: "c < w_fresh w" "coord_inv (xw_coords w c)" and ev: "sq_Replay sq = ev"
    and w0: "exec_le w0 w" "c < w_fresh w0"
    using inv by (auto simp: loop_inv_def loop_ok_def)
  have c1: "c < w_fresh w1" "coord_inv (xw_coords w1 c)" using le c by (auto simp: exec_le_def)
  show b: "\<exists>r. xr_Receipt latest = Some r \<and> begun w1 c (sp_Identity step) r w2"
    using lawful_sequence.runStep_started(1) [OF law r c1] .
  have ok: "attempts_ok ev c w0 (started_ids (sr_Trace result)) w1"
    using attempts_ok_le [OF _ le c] inv by (auto simp: loop_inv_def)
  have "authorized ev c w1 (last (started_ids (sr_Trace result))) (sp_Identity step) w2" if ne: "started_ids (sr_Trace result) \<noteq> []"
  proof -
    obtain p rp where p: "previous = Some p" "xr_Receipt p = Some rp" "rp < w_fresh w" "rt_coordinator (xw_receipts w rp) = c"
      "rt_identity (xw_receipts w rp) = last (started_ids (sr_Trace result))"
      using inv ne by (cases previous) (auto simp: loop_inv_def loop_ok_def)
    then have "rp < w_fresh w1" "rt_coordinator (xw_receipts w1 rp) = c"
      "rt_identity (xw_receipts w1 rp) = last (started_ids (sr_Trace result))"
      using le by (auto simp: exec_le_def receipt_le_def)
    then show ?thesis using lawful_sequence.runStep_started(2) [OF law r c1 p(1,2)] ev by simp
  qed
  then show "attempts_ok ev c w0 (started_ids (sr_Trace result) @ [sp_Identity step]) w2"
    using b attempts_ok_snoc [OF ok _ c1] exec_le_trans [OF w0(1) le] w0(2) by blast
qed

lemma turn_goes_on:
  assumes inv: "loop_inv host ev c w0 state w" and t: "sequence_turn host ctx (Some c) state w = Some (Ret (Inr state'), w')"
  shows "loop_inv host ev c w0 state' w' \<and> budget_left w' c < budget_left w c \<and> (\<exists>d. fst state' = (fst state)\<lparr>sq_Deadline := d\<rparr>)"
proof -
  obtain sq step previous result where st: "state = (sq, step, previous, result)" by (metis prod_cases4)
  have law: "lawful_sequence host sq" using inv st by (simp add: loop_inv_def loop_ok_def)
  from t [unfolded st] show ?thesis
  proof (rule lawful_sequence.sequence_turn_cases [OF law])
    fix latest runErr s w1 w2
    assume w1: "exec_le w w1" and w2: "exec_le w2 w'"
      and r: "runStep host sq ctx (Some c) step previous (sr_Failure result, sr_Decision result) w1 = Some (Ret (latest, runErr, s), w2)"
      and "let trace = sr_Trace result @ [\<lparr>te_Identity = sp_Identity step, te_Result = latest, te_Err = runErr\<rparr>] in
       case Inr state' of
         Inl (res, _) \<Rightarrow> sr_Trace res = trace
       | Inr (sq', step', previous', res) \<Rightarrow> sr_Trace res = trace \<and> previous' = Some latest \<and> xr_Started latest \<and>
           (\<exists>d. sq' = sq\<lparr>sq_Deadline := d\<rparr>)"
    then obtain step' res d where state': "state' = (sq\<lparr>sq_Deadline := d\<rparr>, step', Some latest, res)"
      and tr: "sr_Trace res = sr_Trace result @ [\<lparr>te_Identity = sp_Identity step, te_Result = latest, te_Err = runErr\<rparr>]"
      and started: "xr_Started latest"
      by (cases state') (auto simp: Let_def)
    note a = turn_attempts [OF inv [unfolded st] w1 r started]
    obtain rc where rc: "xr_Receipt latest = Some rc" "begun w1 c (sp_Identity step) rc w2" using a(2) by blast
    have c: "c < w_fresh w" "coord_inv (xw_coords w c)" using inv st by (auto simp: loop_inv_def loop_ok_def)
    have le: "exec_le w w'" using w1 w2 rc(2) exec_le_trans unfolding begun_def by blast
    have b: "begun w c (sp_Identity step) rc w'" using begun_from [OF w1 c(1) begun_le [OF rc(2) w2]] .
    have c2: "c < w_fresh w2" "coord_inv (xw_coords w2 c)" using rc(2) w1 c by (auto simp: begun_def exec_le_def)
    have "loop_ok host c state' w'"
      using inv le c b rc(1) unfolding loop_inv_def st state' loop_ok_def
      by (auto simp: exec_le_def begun_def lawful_sequence_deadline)
    moreover have "attempts_ok ev c w0 (started_ids (sr_Trace result) @ [sp_Identity step]) w'"
      using attempts_ok_le [OF a(1) w2 c2] .
    ultimately have "loop_inv host ev c w0 state' w'"
      using inv le exec_le_trans rc(1) b started unfolding loop_inv_def st state'
      by (auto simp: tr begun_def)
    then show ?thesis using begun_uses_budget [OF b c] st state' by auto
  qed simp
qed

lemma turn_returns:
  fixes state :: "('f, ('f, 'x) exec_world_scheme, 'req, 'c :: zero, 'k :: zero, 'r :: zero, 'p :: zero) seq_state"
  assumes inv: "loop_inv host ev c w0 state w" and t: "sequence_turn host ctx (Some c) state w = Some (Ret (Inl (res, e)), w')"
  shows "attempts_ok ev c w0 (started_ids (sr_Trace res)) w' \<and> length (sr_Trace res) \<le> length (started_ids (sr_Trace res)) + 1"
proof -
  obtain sq step previous result where st: "state = (sq, step, previous, result)" by (metis prod_cases4)
  have law: "lawful_sequence host sq" and c: "c < w_fresh w" "coord_inv (xw_coords w c)"
    and old: "attempts_ok ev c w0 (started_ids (sr_Trace result)) w" "length (started_ids (sr_Trace result)) = length (sr_Trace result)"
    using inv st by (auto simp: loop_inv_def loop_ok_def)
  from t [unfolded st] show ?thesis
  proof (rule lawful_sequence.sequence_turn_cases [OF law])
    fix res' x assume "Inl (res, e) = (Inl (res', x) :: (_ + ('f, ('f, 'x) exec_world_scheme, 'req, 'c, 'k, 'r, 'p) seq_state))"
      "sr_Trace res' = sr_Trace result" "exec_le w w'"
    then show ?thesis using old attempts_ok_le [OF old(1) _ c] by simp
  next
    fix latest runErr s w1 w2
    assume w1: "exec_le w w1" and w2: "exec_le w2 w'"
      and r: "runStep host sq ctx (Some c) step previous (sr_Failure result, sr_Decision result) w1 = Some (Ret (latest, runErr, s), w2)"
      and "let trace = sr_Trace result @ [\<lparr>te_Identity = sp_Identity step, te_Result = latest, te_Err = runErr\<rparr>] in
       case Inl (res, e) :: (_ + ('f, ('f, 'x) exec_world_scheme, 'req, 'c, 'k, 'r, 'p) seq_state) of
         Inl (res, _) \<Rightarrow> sr_Trace res = trace
       | Inr (sq', step', previous', res) \<Rightarrow> sr_Trace res = trace \<and> previous' = Some latest \<and> xr_Started latest \<and>
           (\<exists>d. sq' = sq\<lparr>sq_Deadline := d\<rparr>)"
    then have tr: "sr_Trace res = sr_Trace result @ [\<lparr>te_Identity = sp_Identity step, te_Result = latest, te_Err = runErr\<rparr>]"
      by (simp add: Let_def)
    have le: "exec_le w1 w2" using exec_frame.lkeepsD [OF lawful_sequence.lkeeps_runStep [OF law] r] .
    have c1: "c < w_fresh w1" "coord_inv (xw_coords w1 c)" "c < w_fresh w2" "coord_inv (xw_coords w2 c)"
      using w1 le c by (auto simp: exec_le_def)
    have "attempts_ok ev c w0 (started_ids (sr_Trace res)) w2"
    proof (cases "xr_Started latest")
      case True
      then show ?thesis using turn_attempts(1) [OF inv [unfolded st] w1 r True] tr by simp
    next
      case False
      then show ?thesis using attempts_ok_le [OF attempts_ok_le [OF old(1) w1 c] le c1(1,2)] tr by simp
    qed
    then show ?thesis using attempts_ok_le [OF _ w2 c1(3,4)] tr old(2) by auto
  qed
qed


lemma loop_inv_start:
  assumes "lawful_sequence host sq" "c < w_fresh w" "coord_inv (xw_coords w c)" "std_contexts w" "sr_Trace result = []"
  shows "loop_inv host (sq_Replay sq) c w (sq\<lparr>sq_Deadline := d\<rparr>, step, None, result) w"
  using assms by (auto simp: loop_inv_def loop_ok_def attempts_ok_def lawful_sequence_deadline)

lemma Sequence_Run_attempts:
  fixes sq :: "('f, ('f, 'x) exec_world_scheme, 'req, 'c :: zero, 'k :: zero, 'r :: zero, 'p :: zero) sequence"
  assumes "lawful_sequence host sq" "Sequence_Run host sq ctx (Some c) step w = Some (Ret (res, e), w')"
    "c < w_fresh w" "coord_inv (xw_coords w c)" "std_contexts w"
  shows "attempts_ok (sq_Replay sq) c w (started_ids (sr_Trace res)) w' \<and>
    length (sr_Trace res) \<le> length (started_ids (sr_Trace res)) + 1"
proof (cases "sq_Classify sq = None \<or> sq_Replay sq = None \<or> sq_Schedule sq = None \<or> sq_Next sq = None \<or> sq_Now sq = None")
  case True
  then have "sr_Trace res = [] \<and> w' = w" using assms(2) by (auto simp: Sequence_Run_def Let_def)
  then show ?thesis by (simp add: attempts_ok_def)
next
  case False
  define result :: "('c, 'k, 'r, 'p) sequence_result" where
    "result = \<lparr>sr_Last = empty_result, sr_Trace = [], sr_Failure = None, sr_Decision = zero_decision,
       sr_NestedAttemptsKnown = sq_NestedAttemptsKnown sq\<rparr>"
  have l: "loop_forever (sequence_turn host ctx (Some c))
      (sq\<lparr>sq_Deadline := earliestDeadline ctx (sq_Deadline sq) 0\<rparr>, step, None, result) w = Some (Ret (res, e), w')"
    using assms(2) False by (simp add: Sequence_Run_def Let_def result_def)
  have "sr_Trace result = []" by (simp add: result_def)
  note start = loop_inv_start [OF assms(1,3-5) this]
  show ?thesis
  proof (rule loop_forever_run [OF l, where P = "loop_inv host (sq_Replay sq) c w"])
    show "loop_inv host (sq_Replay sq) c w (sq\<lparr>sq_Deadline := earliestDeadline ctx (sq_Deadline sq) 0\<rparr>, step, None, result) w"
      by (rule start)
  qed (auto dest: turn_goes_on turn_returns)
qed

section \<open>Properties\<close>

text \<open>
  C16 (termination). A sequence ends: with callbacks that keep to the order of records, on a coordinator in order, contexts
  with the standard errors and, if the default wait is used, a clock that reaches every time, \<open>Run\<close> returns or
  panics, although neither of its loops has a bound. Every turn that goes on uses up a place of the coordinator's
  budget, and every repeated look of an authorization sees attempt facts that have moved on.
\<close>

theorem Sequence_Run_terminates:
  assumes "lawful_sequence host sq" "sq_Wait sq \<noteq> None \<or> clock_advances (sq_Now sq)"
    "c < w_fresh w" "coord_inv (xw_coords w c)" "std_contexts w"
  shows "\<exists>v w'. Sequence_Run host sq ctx (Some c) step w = Some (v, w')"
proof -
  let ?I = "\<lambda>state v. loop_inv host (sq_Replay sq) c w state v \<and> (sq_Wait (fst state) \<noteq> None \<or> clock_advances (sq_Now (fst state)))"
  have "\<exists>y. loop_forever (sequence_turn host ctx (Some c)) (sq\<lparr>sq_Deadline := d\<rparr>, step, None, result) w = Some y"
    if "sr_Trace result = []" for d result
  proof (rule loop_forever_returns [where I = ?I and \<mu> = "\<lambda>_ v. budget_left v c"])
    show "?I (sq\<lparr>sq_Deadline := d\<rparr>, step, None, result) w"
      using loop_inv_start [OF assms(1,3-5) that] assms(2) by simp
  next
    fix state v assume I: "?I state v"
    obtain sq' step' previous result' where st: "state = (sq', step', previous, result')" by (metis prod_cases4)
    have "lawful_sequence host sq'" "loop_ok host c (sq', step', previous, result') v"
      using I st by (auto simp: loop_inv_def loop_ok_def)
    from lawful_sequence.ends_sequence_turn [OF this] show "sequence_turn host ctx (Some c) state v \<noteq> None"
      using I st by (auto simp: ends_def)
  next
    fix state v state' v' assume "?I state v" "sequence_turn host ctx (Some c) state v = Some (Ret (Inr state'), v')"
    then show "?I state' v' \<and> budget_left v' c < budget_left v c" using turn_goes_on [of host "sq_Replay sq" c w state v ctx state' v'] by auto
  qed
  then show ?thesis by (auto simp: Sequence_Run_def Let_def)
qed

text \<open>
  C18 (bounds). A sequence that returns has started at most as many attempts as the coordinator's budget had left, each
  under an identity of its own, and has tried at most one more.
\<close>

theorem sequence_stays_within_budget:
  assumes "lawful_sequence host sq" "Sequence_Run host sq ctx (Some c) step w = Some (Ret (res, e), w')"
    "c < w_fresh w" "coord_inv (xw_coords w c)" "std_contexts w"
  shows "distinct (started_ids (sr_Trace res)) \<and> length (started_ids (sr_Trace res)) \<le> budget_left w c \<and>
    length (sr_Trace res) \<le> length (started_ids (sr_Trace res)) + 1"
  using Sequence_Run_attempts [OF assms] by (simp add: attempts_ok_def)

text \<open>
  C17 (safety). No attempt after the first is started without authorization: for any two successive started attempts of
  a sequence, during the run \<open>Replay\<close> was asked about recorded facts of the first, and the coordinator then accepted the second
  against these facts on the evidence returned and recorded that it may be dispatched.
\<close>

theorem every_repeat_is_authorized:
  assumes "lawful_sequence host sq" "Sequence_Run host sq ctx (Some c) step w = Some (Ret (res, e), w')"
    "c < w_fresh w" "coord_inv (xw_coords w c)" "std_contexts w"
    and "Suc k < length (started_ids (sr_Trace res))"
  shows "authorized (sq_Replay sq) c w (started_ids (sr_Trace res) ! k) (started_ids (sr_Trace res) ! Suc k) w'"
  using Sequence_Run_attempts [OF assms(1-5)] assms(6) by (simp add: attempts_ok_def)

text \<open>
  A sequence over the example host whose first request fails and whose second one, made by \<open>Next\<close> under a new identity,
  succeeds.
\<close>

definition demo_sequence :: "(nat, (nat, unit) exec_world_scheme, nat, nat, nat, nat, nat) sequence" where
  "demo_sequence = \<lparr>sq_Boundary = demo_boundary\<lparr>bd_Dispatch := Some (\<lambda>call _.
       if rc_Request call = 1 then ret (AbortResult, Some (Sentinel ''failed'')) else ret (Handled 1 0 5, None))\<rparr>,
     sq_Classify = Some (\<lambda>_ _. ret (0, None)),
     sq_Replay = Some (\<lambda>_. ret (zero_replay\<lparr>rp_Retryable := True, rp_Replayable := True, rp_SafeDuplicate := True\<rparr>, None)),
     sq_Schedule = Some (\<lambda>_ _. ret (\<lparr>si_Now = 0, si_Backoff = 0,
       si_Hint = \<lparr>hi_Present = False, hi_NotBefore = 0, hi_Source = '''', hi_Clock = '''', hi_Uncertainty = 0\<rparr>,
       si_InvalidHint = RejectHint, si_Cooldown = 0, si_Deadline = 0\<rparr>, None)),
     sq_Next = Some (\<lambda>_ _ _. ret (\<lparr>sp_Request = 2, sp_Identity = demo_identity ''b''\<rparr>, None)),
     sq_Now = Some (\<lambda>_. 1000), sq_Wait = Some (\<lambda>_ _. ret None), sq_Deadline = 0, sq_DeadlineContext = None,
     sq_NestedAttemptsKnown = True\<rparr>"

definition demo_step :: "nat step" where
  "demo_step = \<lparr>sp_Request = 1, sp_Identity = demo_identity ''a''\<rparr>"

interpretation demo_sequence: lawful_sequence demo_host demo_sequence
proof -
  have "lawful_boundary demo_host (sq_Boundary demo_sequence)"
    by unfold_locales (auto simp: demo_sequence_def demo_host_def demo_boundary_def intro: exec_frame.keeps_ret)
  then show "lawful_sequence demo_host demo_sequence"
    by unfold_locales (auto simp: demo_sequence_def demo_boundary_def intro: exec_frame.keeps_ret)
qed

lemma demo_world_ok: "0 < w_fresh demo_exec_world" "coord_inv (xw_coords demo_exec_world 0)" "std_contexts demo_exec_world"
  by (simp_all add: demo_exec_world_def demo_coordinator_inv std_contexts_def)

lemmas run_defs = run_def lseq_def coord_call_def Begin_def Let_def new_receipt_def prepare_def seq_def
  ctx_err_def upd_receipt_def invoke_def Receipt_start_def Receipt_Snapshot_def coord_snapshot_def Snapshot_def Record_def
  Update_def validEvent_def dispatch_once_def ValidateRouteResult_def validateReturnedResult_def Handled_def
  Receipt_close_def settle_def finishSettlement_def with_defer_def set_err_def errors_Join_def tick_def zero_result_def

lemma demo_now: "AddDelay 1000 0 = (1000, None)" "validTimestamp 1000"
  by (simp_all add: AddDelay_eq validTimestamp_iff timestamp_end_def ns_per_day_def)

lemma demo_sequence_runs:
  "\<exists>res w'. Sequence_Run demo_host demo_sequence Background (Some 0) demo_step demo_exec_world =
     Some (Ret (res, None), w') \<and> started_ids (sr_Trace res) = [demo_identity ''a'', demo_identity ''b'']"
  by (simp add: demo_exec_defs demo_sequence_def demo_step_def Sequence_Run_def sequence_turn_def run_defs runStep_def boundedContext_def
      earliestDeadline_def checkStart_def read_now_def demo_now WithCancel_def step_boundary_def step_authorizer_def
      NewRouteCall_def hand_over_def after_failure_def Sequence_decide_def receipt_of_def zero_failure_def call_fn_def decide_ctx_def
      Decide_def decide_def zero_decision_def zero_replay_def Schedule_def isRepeat_def repeats_def isControlError_def
      advance_def advance_bounded_def lwith_defer_def lreceipt_of_def Close_def Sequence_authorize_def authorize_turn_def
      authorizeRepeat_def AuthorizeRepeat_def completedDecision_def terminalDecision_def
      AbortResult_def ErrInvalidEvent_def ErrInvalidBoundary_def ErrInvalidConfig_def zeroResult_def started_ids_def loop_forever.simps)

theorem Sequence_Run_terminates_witness:
  "\<exists>v w'. Sequence_Run demo_host demo_sequence Background (Some 0) demo_step demo_exec_world = Some (v, w')"
  by (rule Sequence_Run_terminates [OF demo_sequence.lawful_sequence_axioms _ demo_world_ok]) (simp add: demo_sequence_def)

theorem sequence_stays_within_budget_witness:
  "\<exists>res w'. Sequence_Run demo_host demo_sequence Background (Some 0) demo_step demo_exec_world = Some (Ret (res, None), w') \<and>
     length (started_ids (sr_Trace res)) = 2 \<and> length (started_ids (sr_Trace res)) \<le> budget_left demo_exec_world 0"
  using demo_sequence_runs sequence_stays_within_budget [OF demo_sequence.lawful_sequence_axioms _ demo_world_ok]
  by fastforce

theorem every_repeat_is_authorized_witness:
  "\<exists>w'. authorized (sq_Replay demo_sequence) 0 demo_exec_world (demo_identity ''a'') (demo_identity ''b'') w'"
proof -
  obtain res w' where r: "Sequence_Run demo_host demo_sequence Background (Some 0) demo_step demo_exec_world = Some (Ret (res, None), w')"
    "started_ids (sr_Trace res) = [demo_identity ''a'', demo_identity ''b'']" using demo_sequence_runs by blast
  from every_repeat_is_authorized [OF demo_sequence.lawful_sequence_axioms r(1) demo_world_ok, of 0] r(2)
  show ?thesis by auto
qed

end
