(* ===== verification/First_Success.thy ===== *)
theory First_Success
  imports Handlers
begin

text \<open>
  \<open>smart.go\<close>, \<open>FirstSuccessfulPayload\<close>: handlers run in parallel and the first successful payload wins.

  A call is a machine of its goroutines: the caller, which launches the branches and then collects, one goroutine per branch,
  and the one that drains late results once the caller has left. A step is what one of them does between two operations on
  shared objects (contexts, lifetimes, the channel \<open>results\<close>); \<open>others\<close> is whatever the handlers and the rest of the program
  do to the world meanwhile, along \<open>world_le\<close>. What a handler returns is not restricted. The channel is closed when every
  branch has sent, and its capacity is the number of branches, so sends never block. Closing a lifetime is one step here; how
  concurrent callers of one lifetime interleave is the subject of \<open>Lifetime_Machine\<close>. A panic in a cleanup that the draining
  goroutine runs ends the program: the machine then has no step.
\<close>

section \<open>Data\<close>

record ('k, 'r, 'p) completed =
  fc_index :: nat
  fc_result :: "('k, 'r, 'p) route_result"
  fc_err :: err

datatype branch = BranchReady | BranchBusy | BranchSent

text \<open>Where the caller is: launching, in the loop of \<open>collect\<close> with \<open>allErrors\<close> and \<open>last\<close>, or gone with its outcome.\<close>

datatype ('k, 'r, 'p) caller =
    Launching
  | Collecting "err list" "('k, 'r, 'p) route_result"
  | Gone "(('k, 'r, 'p) route_result \<times> err) outcome" "nat option"

text \<open>\<open>fs_taken\<close> keeps what has been received from the channel.\<close>

record ('w, 'k, 'r, 'p) first_state =
  fs_world :: 'w
  fs_branches :: "branch list"
  fs_contexts :: "ctx list"
  fs_results :: "('k, 'r, 'p) completed list"
  fs_taken :: "('k, 'r, 'p) completed list"
  fs_caller :: "('k, 'r, 'p) caller"

section \<open>The caller's operations\<close>

definition collect_received ::
  "('h \<Rightarrow> (('h, 'x) world_scheme, err) proc) \<Rightarrow> ctx list \<Rightarrow> ('k, 'r, 'p) completed \<Rightarrow> err list \<Rightarrow> ('k, 'r, 'p) route_result \<Rightarrow>
   (('h, 'x) world_scheme,
    ((('k, 'r, 'p) route_result \<times> err) \<times> nat option) + (err list \<times> ('k, 'r, 'p) route_result)) proc" where
  "collect_received hostfn cancels c allErrors latest =
     (if fc_err c \<noteq> None
      then seq (Close hostfn (res_Lifetime (fc_result c))) (\<lambda>_. ret (Inr (allErrors[fc_index c := fc_err c], latest)))
      else case validateReturnedResult (fc_result c) of
        (validated, Some x) \<Rightarrow>
          seq (Close hostfn (res_Lifetime (fc_result c))) (\<lambda>_. ret (Inl ((validated, Some x), None)))
      | (validated, None) \<Rightarrow>
          if res_Action validated \<noteq> ActionNext \<and> res_HasPayload validated
          then if res_Lifetime validated \<noteq> None
               then seq (OnClose hostfn (res_Lifetime validated) (Some (CancelFn (cancels ! fc_index c))))
                      (\<lambda>_. ret (Inl ((validated, None), Some (fc_index c))))
               else ret (Inl ((validated, None), None))
          else seq (Close hostfn (res_Lifetime validated)) (\<lambda>_. ret (Inr (allErrors, validated))))"

text \<open>\<open>releaseFirstSuccessfulPayload\<close>: cancel every branch but the winner, in order.\<close>

fun cancel_others :: "ctx list \<Rightarrow> nat \<Rightarrow> nat option \<Rightarrow> ('h, 'x) world_scheme \<Rightarrow> ('h, 'x) world_scheme" where
  "cancel_others [] i winner w = w"
| "cancel_others (c # cs) i winner w = cancel_others cs (Suc i) winner (if winner = Some i then w else cancel c w)"

definition leave ::
  "(('k, 'r, 'p) route_result \<times> err) outcome \<Rightarrow> nat option \<Rightarrow> ('h, 'x) world_scheme \<Rightarrow>
   (('h, 'x) world_scheme, 'k, 'r, 'p) first_state \<Rightarrow> (('h, 'x) world_scheme, 'k, 'r, 'p) first_state" where
  "leave out winner w s = s\<lparr>fs_world := cancel_others (fs_contexts s) 0 winner w, fs_caller := Gone out winner\<rparr>"

definition nobody_won :: "err list \<Rightarrow> ('k :: zero, 'r :: zero, 'p :: zero) route_result \<Rightarrow> ('k, 'r, 'p) route_result \<times> err" where
  "nobody_won allErrors latest =
     (WithMatch AbortResult (res_Match latest),
      case errors_Join allErrors of Some x \<Rightarrow> Some x | None \<Rightarrow> Some ErrNoSuccessfulOutcome)"

definition send :: "nat \<Rightarrow> ('k, 'r, 'p) route_result \<Rightarrow> err \<Rightarrow> ('w, 'k, 'r, 'p) first_state \<Rightarrow> ('w, 'k, 'r, 'p) first_state" where
  "send i res e s = s\<lparr>fs_branches := (fs_branches s)[i := BranchSent],
     fs_results := fs_results s @ [\<lparr>fc_index = i, fc_result = res, fc_err = e\<rparr>]\<rparr>"

text \<open>What happens to a received result, and the rest of the channel.\<close>

definition taking :: "('w, 'k, 'r, 'p) first_state \<Rightarrow> ('w, 'k, 'r, 'p) first_state" where
  "taking s = s\<lparr>fs_taken := fs_taken s @ [hd (fs_results s)], fs_results := tl (fs_results s)\<rparr>"

section \<open>The machine\<close>

inductive first_step ::
  "('h \<Rightarrow> (('h, 'x) world_scheme, err) proc) \<Rightarrow> ctx \<Rightarrow> nat \<Rightarrow>
   (('h, 'x) world_scheme, 'k :: zero, 'r :: zero, 'p :: zero) first_state \<Rightarrow>
   (('h, 'x) world_scheme, 'k, 'r, 'p) first_state \<Rightarrow> bool" for hostfn ctx n where
  launch: "fs_caller s = Launching \<Longrightarrow> length (fs_branches s) < n \<Longrightarrow> WithCancel ctx (fs_world s) = (c, w) \<Longrightarrow>
    first_step hostfn ctx n s (s\<lparr>fs_world := w, fs_branches := fs_branches s @ [BranchReady], fs_contexts := fs_contexts s @ [c]\<rparr>)"
| launched: "fs_caller s = Launching \<Longrightarrow> length (fs_branches s) = n \<Longrightarrow>
    first_step hostfn ctx n s (s\<lparr>fs_caller := Collecting (replicate n None) zeroResult\<rparr>)"
| branch_stops: "i < length (fs_branches s) \<Longrightarrow> fs_branches s ! i = BranchReady \<Longrightarrow>
    ctx_Err (fs_contexts s ! i) (fs_world s) = (Ret (Some x), w) \<Longrightarrow>
    first_step hostfn ctx n s (send i zeroResult (Some x) (s\<lparr>fs_world := w\<rparr>))"
| branch_starts: "i < length (fs_branches s) \<Longrightarrow> fs_branches s ! i = BranchReady \<Longrightarrow>
    ctx_Err (fs_contexts s ! i) (fs_world s) = (Ret None, w) \<Longrightarrow>
    first_step hostfn ctx n s (s\<lparr>fs_world := w, fs_branches := (fs_branches s)[i := BranchBusy]\<rparr>)"
| branch_returns: "i < length (fs_branches s) \<Longrightarrow> fs_branches s ! i = BranchBusy \<Longrightarrow>
    first_step hostfn ctx n s (send i res e s)"
| cancelled: "fs_caller s = Collecting allErrors latest \<Longrightarrow> ctx_Err ctx (fs_world s) = (Ret (Some x), w) \<Longrightarrow>
    first_step hostfn ctx n s (leave (Ret (AbortResult, Some x)) None w s)"
| collects: "fs_caller s = Collecting allErrors latest \<Longrightarrow> fs_results s = c # cs \<Longrightarrow>
    collect_received hostfn (fs_contexts s) c allErrors latest (fs_world s) = (Ret (Inr (allErrors', latest')), w) \<Longrightarrow>
    first_step hostfn ctx n s (taking s\<lparr>fs_world := w, fs_caller := Collecting allErrors' latest'\<rparr>)"
| decides: "fs_caller s = Collecting allErrors latest \<Longrightarrow> fs_results s = c # cs \<Longrightarrow>
    collect_received hostfn (fs_contexts s) c allErrors latest (fs_world s) = (Ret (Inl (out, winner)), w) \<Longrightarrow>
    first_step hostfn ctx n s (leave (Ret out) winner w (taking s))"
| panics: "fs_caller s = Collecting allErrors latest \<Longrightarrow> fs_results s = c # cs \<Longrightarrow>
    collect_received hostfn (fs_contexts s) c allErrors latest (fs_world s) = (Panic, w) \<Longrightarrow>
    first_step hostfn ctx n s (leave Panic None w (taking s))"
| exhausted: "fs_caller s = Collecting allErrors latest \<Longrightarrow> fs_results s = [] \<Longrightarrow> fs_branches s = replicate n BranchSent \<Longrightarrow>
    first_step hostfn ctx n s (leave (Ret (nobody_won allErrors latest)) None (fs_world s) s)"
| drains: "fs_caller s = Gone out winner \<Longrightarrow> fs_results s = c # cs \<Longrightarrow>
    Close hostfn (res_Lifetime (fc_result c)) (fs_world s) = (Ret e, w) \<Longrightarrow>
    first_step hostfn ctx n s (taking s\<lparr>fs_world := w\<rparr>)"

inductive first_run ::
  "('h \<Rightarrow> (('h, 'x) world_scheme, err) proc) \<Rightarrow> ctx \<Rightarrow> nat \<Rightarrow>
   (('h, 'x) world_scheme, 'k :: zero, 'r :: zero, 'p :: zero) first_state \<Rightarrow>
   (('h, 'x) world_scheme, 'k, 'r, 'p) first_state \<Rightarrow> bool" for hostfn ctx n where
  own: "first_step hostfn ctx n s t \<Longrightarrow> first_run hostfn ctx n s t"
| others: "world_le (fs_world s) w \<Longrightarrow> first_run hostfn ctx n s (s\<lparr>fs_world := w\<rparr>)"

text \<open>
  The combinator: the check of the handlers when it is built, the look at the context when it is called, and the state the
  machine starts in.
\<close>

definition first_start :: "'w \<Rightarrow> ('w, 'k, 'r, 'p) first_state" where
  "first_start w = \<lparr>fs_world = w, fs_branches = [], fs_contexts = [], fs_results = [], fs_taken = [], fs_caller = Launching\<rparr>"

definition FirstSuccessfulPayload ::
  "('h, 'x, 'req, 'k :: zero, 'r :: zero, 'p :: zero) handler option list \<Rightarrow> 'req route_call \<Rightarrow> ('h, 'x) world_scheme \<Rightarrow>
   ((('k, 'r, 'p) route_result \<times> err) outcome \<times> ('h, 'x) world_scheme) +
   (('h, 'x, 'req, 'k, 'r, 'p) handler list \<times> (('h, 'x) world_scheme, 'k, 'r, 'p) first_state)" where
  "FirstSuccessfulPayload handlers call w =
     (case validateRouteHandlers handlers ''first successful payload'' of
        Inl x \<Rightarrow> Inl (invalidRouteHandler x call w)
      | Inr validated \<Rightarrow>
          (case ctx_Err (rc_Context call) w of
             (Ret (Some x), w1) \<Rightarrow> Inl (Ret (AbortResult, Some x), w1)
           | (Ret None, w1) \<Rightarrow> Inr (validated, first_start w1)
           | (Panic, w1) \<Rightarrow> Inl (Panic, w1)))"

section \<open>Contexts that are done stay done\<close>

fun ctx_within :: "('h, 'x) world_scheme \<Rightarrow> ctx \<Rightarrow> bool" where
  "ctx_within w Background = True"
| "ctx_within w (Ctx i dl parent) = (i < w_fresh w \<and> ctx_within w parent)"

lemma ctx_within_le: "ctx_within w c \<Longrightarrow> world_le w v \<Longrightarrow> ctx_within v c"
  by (induction c) (auto simp: world_le_def)

definition due :: "(nat \<times> gerror) option \<Rightarrow> nat \<Rightarrow> bool" where
  "due m n \<longleftrightarrow> (case m of None \<Rightarrow> False | Some (t, _) \<Rightarrow> t \<le> n)"

lemma due_earlier [simp]: "due (earlier a b) n \<longleftrightarrow> due a n \<or> due b n"
  by (cases "(a, b)" rule: earlier.cases) (auto simp: due_def)

lemma ctx_err_due: "ctx_err w c \<noteq> None \<longleftrightarrow> due (done_at w c) (w_step w)"
  by (auto simp: ctx_err_def due_def split: option.splits if_splits)

lemma due_stays: "world_le w v \<Longrightarrow> ctx_within w c \<Longrightarrow> due (done_at w c) (w_step w) \<Longrightarrow> due (done_at v c) (w_step v)"
proof (induction c)
  case (Ctx i dl parent)
  have "due (w_cancel v i) (w_step v)" if "due (w_cancel w i) (w_step w)"
    using that Ctx.prems by (auto simp: due_def world_le_def split: option.splits)
  then show ?case using Ctx by auto
qed (simp add: due_def)

lemma ctx_err_stays:
  assumes "ctx_err w c \<noteq> None" "ctx_within w c" "world_le w v"
  shows "ctx_err v c \<noteq> None"
  using assms due_stays unfolding ctx_err_due by blast

lemma cancel_done: "c \<noteq> Background \<Longrightarrow> ctx_err (cancel c w) c \<noteq> None"
proof (cases c)
  case (Ctx i dl parent)
  show ?thesis
  proof (cases "ctx_err w c = None")
    case True
    then have "due (done_at (cancel c w) c) (w_step (cancel c w))" using Ctx by (simp add: due_def [of "Some _"])
    then show ?thesis unfolding ctx_err_due .
  next
    case False
    then have "cancel c w = w" using Ctx by auto
    then show ?thesis using False by simp
  qed
qed simp

lemma world_le_cancel_others: "world_le w (cancel_others cs i winner w)"
proof (induction cs arbitrary: i w)
  case (Cons c cs)
  show ?case using Cons.IH [of "cancel c w" "Suc i"] Cons.IH [of w "Suc i"] world_le_cancel [of w c] by (auto intro: world_le_trans)
qed simp

lemma cancel_others_done:
  assumes "k < length cs" "winner \<noteq> Some (i + k)" "\<And>c. c \<in> set cs \<Longrightarrow> c \<noteq> Background \<and> ctx_within w c"
  shows "ctx_err (cancel_others cs i winner w) (cs ! k) \<noteq> None"
  using assms
proof (induction cs arbitrary: i k w)
  case (Cons c cs)
  have within: "d \<in> set cs \<Longrightarrow> d \<noteq> Background \<and> ctx_within (cancel c w) d" for d
    using Cons.prems(3) [of d] by (simp add: ctx_within_le [OF _ world_le_cancel])
  show ?case
  proof (cases k)
    case 0
    have "ctx_err (cancel c w) c \<noteq> None" "ctx_within (cancel c w) c"
      using Cons.prems(3) [of c] by (simp_all add: cancel_done ctx_within_le [OF _ world_le_cancel] del: not_None_eq)
    then show ?thesis using 0 Cons.prems(2) by (simp add: ctx_err_stays [OF _ _ world_le_cancel_others] del: not_None_eq)
  next
    case (Suc j)
    then show ?thesis using Cons.IH [of j "Suc i" "cancel c w"] Cons.IH [of j "Suc i" w] Cons.prems within by auto
  qed
qed simp

section \<open>What a received result means\<close>

definition successful :: "('k, 'r, 'p) completed \<Rightarrow> bool" where
  "successful c \<longleftrightarrow> fc_err c = None \<and> res_Action (fc_result c) = ActionStop \<and> res_HasPayload (fc_result c)"

definition faulty :: "('k, 'r, 'p) completed \<Rightarrow> bool" where
  "faulty c \<longleftrightarrow> fc_err c = None \<and> snd (validateReturnedResult (fc_result c)) \<noteq> None"

text \<open>A result is released when it owns nothing or its lifetime's \<open>once\<close> is spent.\<close>

definition released :: "('h, 'x) world_scheme \<Rightarrow> ('k, 'r, 'p) completed \<Rightarrow> bool" where
  "released w c \<longleftrightarrow> (case res_Lifetime (fc_result c) of None \<Rightarrow> True | Some l \<Rightarrow> lt_done (w_lifes w l))"

lemma released_le: "released w c \<Longrightarrow> world_le w v \<Longrightarrow> released v c"
  by (auto simp: released_def world_le_def life_le_def split: option.splits)

lemma Close_releases:
  assumes "lawful_host hostfn" "Close hostfn (res_Lifetime (fc_result c)) w = (r, w')"
  shows "released w' c"
  using assms Close_done by (cases "res_Lifetime (fc_result c)") (auto simp: released_def)

lemma Close_seq_releases:
  assumes "lawful_host hostfn" "seq (Close hostfn (res_Lifetime (fc_result c))) (\<lambda>_. ret x) w = (r, w')"
  shows "released w' c" "r = Ret x \<or> r = Panic"
proof -
  obtain v w1 where c: "Close hostfn (res_Lifetime (fc_result c)) w = (v, w1)" by fastforce
  then have "w' = w1" "r = Ret x \<or> r = Panic" using assms(2) by (cases v; simp add: seq_def)+
  then show "released w' c" "r = Ret x \<or> r = Panic" using Close_releases [OF assms(1) c] by auto
qed

lemma OnClose_cancel: "\<exists>w'. OnClose hostfn life (Some (CancelFn c)) w = (Ret (), w')"
  by (auto simp: OnClose_def seq_def split: option.split)

lemma keeps_collect_received: "lawful_host hostfn \<Longrightarrow> world_frame.keeps (collect_received hostfn cs c errs latest)"
  unfolding collect_received_def
  by (intro world_frame.keeps_if world_frame.keeps_seq keeps_Close keeps_OnClose world_frame.keeps_ret world_frame.keeps_prod
      world_frame.keeps_option) auto

lemma collect_received_cases:
  assumes host: "lawful_host hostfn" and r: "collect_received hostfn cs c errs latest w = (r, w')"
  obtains (goes_on) "r = Ret (Inr (if fc_err c = None then errs else errs[fc_index c := fc_err c],
        if fc_err c = None then fc_result c else latest))" "\<not> successful c" "\<not> faulty c" "released w' c"
  | (won) "r = Ret (Inl ((fc_result c, None), if res_Lifetime (fc_result c) = None then None else Some (fc_index c)))" "successful c"
  | (fault) "r = Ret (Inl (validateReturnedResult (fc_result c), None))" "faulty c" "released w' c"
  | (panic) "r = Panic" "\<not> successful c" "released w' c"
proof (cases "fc_err c")
  case (Some x)
  then have "seq (Close hostfn (res_Lifetime (fc_result c))) (\<lambda>_. ret (Inr (errs[fc_index c := Some x], latest))) w = (r, w')"
    using r by (simp add: collect_received_def)
  from Close_seq_releases [OF host this] Some goes_on panic show thesis by (auto simp: successful_def faulty_def)
next
  case None
  obtain v e where v: "validateReturnedResult (fc_result c) = (v, e)" by fastforce
  then have life: "res_Lifetime v = res_Lifetime (fc_result c)" using validate_keeps(1) [of "fc_result c"] by simp
  show thesis
  proof (cases e)
    case (Some x)
    have "seq (Close hostfn (res_Lifetime (fc_result c))) (\<lambda>_. ret (Inl ((v, Some x), None))) w = (r, w')"
      using r None v Some by (simp add: collect_received_def)
    moreover have "faulty c" using None v Some by (simp add: faulty_def)
    moreover from this have "\<not> successful c" by (auto simp: faulty_def successful_def validateReturnedResult_def)
    ultimately show thesis using Close_seq_releases [OF host] v Some fault panic by fastforce
  next
    case e: None
    then have same: "v = fc_result c" and act: "res_Action v = ActionNext \<or> res_Action v = ActionStop"
      using v validate_ok_same [of "fc_result c"] validate_ok_iff [of "fc_result c"] by auto
    have ok: "\<not> faulty c" using None v e by (simp add: faulty_def)
    show thesis
    proof (cases "successful c")
      case True
      then have "r = Ret (Inl ((v, None), if res_Lifetime v = None then None else Some (fc_index c)))"
        using r None v e same OnClose_cancel [of hostfn "res_Lifetime v" "cs ! fc_index c" w]
        by (auto simp: collect_received_def successful_def)
      then show thesis using won True same by simp
    next
      case False
      then have "seq (Close hostfn (res_Lifetime (fc_result c))) (\<lambda>_. ret (Inr (errs, v))) w = (r, w')"
        using r None v e same act by (auto simp: collect_received_def successful_def)
      from Close_seq_releases [OF host this] show thesis using None False ok same goes_on panic by auto
    qed
  qed
qed

section \<open>The invariant\<close>

text \<open>The errors collected from the results received so far, and the last result received without an error.\<close>

definition errs_of :: "nat \<Rightarrow> ('k, 'r, 'p) completed list \<Rightarrow> err list" where
  "errs_of n cs = map (\<lambda>i. case find (\<lambda>c. fc_index c = i) cs of None \<Rightarrow> None | Some c \<Rightarrow> fc_err c) [0..<n]"

definition last_seen :: "('k :: zero, 'r :: zero, 'p :: zero) completed list \<Rightarrow> ('k, 'r, 'p) route_result" where
  "last_seen cs = foldl (\<lambda>r c. if fc_err c = None then fc_result c else r) zeroResult cs"

lemma last_seen_simps [simp]: "last_seen [] = zeroResult"
  "last_seen (cs @ [c]) = (if fc_err c = None then fc_result c else last_seen cs)"
  by (simp_all add: last_seen_def)

lemma errs_of_Nil [simp]: "errs_of n [] = replicate n None"
  by (simp add: errs_of_def map_replicate_const)

lemma find_snoc: "find P (xs @ [x]) = (case find P xs of Some y \<Rightarrow> Some y | None \<Rightarrow> if P x then Some x else None)"
  by (induction xs) auto

lemma errs_of_snoc:
  assumes "fc_index c \<notin> fc_index ` set cs"
  shows "errs_of n (cs @ [c]) = (if fc_err c = None then errs_of n cs else (errs_of n cs)[fc_index c := fc_err c])"
proof -
  have new: "find (\<lambda>d. fc_index d = fc_index c) cs = None" using assms unfolding find_None_iff by (metis imageI)
  show ?thesis
    by (rule nth_equalityI) (auto simp: errs_of_def find_snoc new nth_list_update split: option.split)
qed

definition open_end :: "('k, 'r, 'p) completed list \<Rightarrow> bool" where
  "open_end cs \<longleftrightarrow> (\<forall>c \<in> set cs. \<not> successful c \<and> \<not> faulty c)"

text \<open>
  Why the caller left with its outcome: the first result received that decides, or the end of the context, or, with all
  results received and none that decides, their errors.
\<close>

definition explained ::
  "ctx \<Rightarrow> nat \<Rightarrow> ('h, 'x) world_scheme \<Rightarrow> ('k :: zero, 'r :: zero, 'p :: zero) completed list \<Rightarrow>
   ('k, 'r, 'p) route_result \<Rightarrow> err \<Rightarrow> nat option \<Rightarrow> bool" where
  "explained ctx n w taken v e winner \<longleftrightarrow>
     (\<exists>pre c post. taken = pre @ c # post \<and> open_end pre \<and>
        (successful c \<and> v = fc_result c \<and> e = None \<and>
           winner = (if res_Lifetime v = None then None else Some (fc_index c)) \<or>
         faulty c \<and> (v, e) = validateReturnedResult (fc_result c) \<and> winner = None)) \<or>
     (ctx_err w ctx \<noteq> None \<and> v = AbortResult \<and> e \<noteq> None \<and> winner = None) \<or>
     (open_end taken \<and> fc_index ` set taken = {..<n} \<and> (v, e) = nobody_won (errs_of n taken) (last_seen taken) \<and> winner = None)"

definition inv_shape :: "ctx \<Rightarrow> nat \<Rightarrow> (('h, 'x) world_scheme, 'k, 'r, 'p) first_state \<Rightarrow> bool" where
  "inv_shape ctx n s \<longleftrightarrow> length (fs_contexts s) = length (fs_branches s) \<and> length (fs_branches s) \<le> n \<and>
     (fs_caller s = Launching \<or> length (fs_branches s) = n) \<and> ctx_within (fs_world s) ctx \<and>
     (\<forall>c \<in> set (fs_contexts s). c \<noteq> Background \<and> ctx_within (fs_world s) c)"

definition inv_sent :: "('w, 'k, 'r, 'p) first_state \<Rightarrow> bool" where
  "inv_sent s \<longleftrightarrow> distinct (map fc_index (fs_taken s @ fs_results s)) \<and>
     fc_index ` set (fs_taken s @ fs_results s) = {i. i < length (fs_branches s) \<and> fs_branches s ! i = BranchSent}"

definition inv_caller ::
  "ctx \<Rightarrow> nat \<Rightarrow> (('h, 'x) world_scheme, 'k :: zero, 'r :: zero, 'p :: zero) first_state \<Rightarrow> bool" where
  "inv_caller ctx n s \<longleftrightarrow>
     (case fs_caller s of
        Launching \<Rightarrow> fs_taken s = []
      | Collecting allErrors latest \<Rightarrow> allErrors = errs_of n (fs_taken s) \<and> latest = last_seen (fs_taken s) \<and>
          open_end (fs_taken s) \<and> (\<forall>c \<in> set (fs_taken s). released (fs_world s) c)
      | Gone out winner \<Rightarrow>
          (\<forall>c \<in> set (fs_taken s). released (fs_world s) c \<or> successful c \<and> out = Ret (fc_result c, None)) \<and>
          (\<forall>i < n. winner \<noteq> Some i \<longrightarrow> ctx_err (fs_world s) (fs_contexts s ! i) \<noteq> None) \<and>
          (case out of Panic \<Rightarrow> True | Ret (v, e) \<Rightarrow> explained ctx n (fs_world s) (fs_taken s) v e winner))"

definition first_inv ::
  "ctx \<Rightarrow> nat \<Rightarrow> (('h, 'x) world_scheme, 'k :: zero, 'r :: zero, 'p :: zero) first_state \<Rightarrow> bool" where
  "first_inv ctx n s \<longleftrightarrow> inv_shape ctx n s \<and> inv_sent s \<and> inv_caller ctx n s"

lemma first_inv_start: "ctx_within w ctx \<Longrightarrow> first_inv ctx n (first_start w)"
  by (simp add: first_inv_def inv_shape_def inv_sent_def inv_caller_def first_start_def)

lemma open_end_simps [simp]: "open_end []" "open_end (cs @ [c]) \<longleftrightarrow> open_end cs \<and> \<not> successful c \<and> \<not> faulty c"
  by (auto simp: open_end_def)

lemma explained_le:
  assumes "explained ctx n w taken v e winner" "world_le w w'" "ctx_within w ctx"
  shows "explained ctx n w' taken v e winner"
  using assms(1) ctx_err_stays [OF _ assms(3,2)] unfolding explained_def by blast

text \<open>The rest of the world may move on.\<close>

lemma first_inv_world:
  assumes "first_inv ctx n s" "world_le (fs_world s) w"
  shows "first_inv ctx n (s\<lparr>fs_world := w\<rparr>)"
proof -
  have shape: "inv_shape ctx n s" and sent: "inv_sent s" and cal: "inv_caller ctx n s" using assms(1) by (auto simp: first_inv_def)
  have within: "ctx_within (fs_world s) ctx" "\<And>c. c \<in> set (fs_contexts s) \<Longrightarrow> ctx_within (fs_world s) c"
    using shape by (auto simp: inv_shape_def)
  have rel: "released w c" if "c \<in> set (fs_taken s)" "released (fs_world s) c" for c
    using released_le [OF that(2) assms(2)] .
  have exp: "explained ctx n w (fs_taken s) v e winner" if "explained ctx n (fs_world s) (fs_taken s) v e winner" for v e winner
    using explained_le [OF that assms(2) within(1)] .
  have len: "length (fs_contexts s) = n" if "fs_caller s \<noteq> Launching" using shape that by (auto simp: inv_shape_def)
  have "inv_shape ctx n (s\<lparr>fs_world := w\<rparr>)"
    using shape ctx_within_le [OF _ assms(2)] by (auto simp: inv_shape_def)
  moreover have "inv_caller ctx n (s\<lparr>fs_world := w\<rparr>)"
  proof (cases "fs_caller s")
    case (Gone out winner)
    have "ctx_err w (fs_contexts s ! i) \<noteq> None" if "i < n" "winner \<noteq> Some i" for i
      using that cal Gone len within(2) by (intro ctx_err_stays [OF _ _ assms(2)]) (auto simp: inv_caller_def)
    then show ?thesis
      using cal Gone rel exp by (fastforce simp: inv_caller_def split: outcome.splits prod.splits)
  qed (use cal rel in \<open>auto simp: inv_caller_def\<close>)
  ultimately show ?thesis using sent by (simp add: first_inv_def inv_sent_def)
qed

lemma taken_index:
  assumes "inv_sent s" "fs_results s = c # cs"
  shows "fc_index c \<notin> fc_index ` set (fs_taken s)" "fc_index c < length (fs_branches s)"
  using assms by (auto simp: inv_sent_def)

lemma inv_sent_taking: "inv_sent s \<Longrightarrow> fs_results s = c # cs \<Longrightarrow> inv_sent (taking s)"
  by (auto simp: inv_sent_def taking_def)

lemma inv_sent_send:
  assumes "inv_sent s" "i < length (fs_branches s)" "fs_branches s ! i \<noteq> BranchSent"
  shows "inv_sent (send i res e s)"
proof -
  have set: "fc_index ` set (fs_taken s @ fs_results s) = {j. j < length (fs_branches s) \<and> fs_branches s ! j = BranchSent}"
    using assms(1) by (simp add: inv_sent_def)
  then have "i \<notin> fc_index ` set (fs_taken s @ fs_results s)" using assms(3) by simp
  moreover have "{j. j < length (fs_branches s) \<and> (fs_branches s)[i := BranchSent] ! j = BranchSent} =
      insert i {j. j < length (fs_branches s) \<and> fs_branches s ! j = BranchSent}"
    using assms(2) by (auto simp: nth_list_update)
  ultimately show ?thesis using assms(1) set by (auto simp: inv_sent_def send_def)
qed

lemma inv_sent_same:
  assumes "inv_sent s" "fs_taken t = fs_taken s" "fs_results t = fs_results s"
    "length (fs_branches s) \<le> length (fs_branches t)"
    "\<And>j. j < length (fs_branches t) \<Longrightarrow> fs_branches t ! j = BranchSent \<longleftrightarrow> j < length (fs_branches s) \<and> fs_branches s ! j = BranchSent"
  shows "inv_sent t"
  using assms by (auto simp: inv_sent_def)

lemma inv_caller_same:
  assumes "inv_caller ctx n s" "fs_caller t = fs_caller s" "fs_taken t = fs_taken s" "fs_contexts t = fs_contexts s" "fs_world t = fs_world s"
  shows "inv_caller ctx n t"
  using assms(1) unfolding inv_caller_def assms(2-5) .

text \<open>The caller leaves: its branches but the winner are cancelled.\<close>

lemma first_inv_leave:
  assumes "inv_shape ctx n s" "inv_sent s" "fs_caller s \<noteq> Launching" "world_le (fs_world s) w"
    and taken: "\<And>c. c \<in> set (fs_taken s) \<Longrightarrow> released w c \<or> successful c \<and> out = Ret (fc_result c, None)"
    and exp: "\<And>v e. out = Ret (v, e) \<Longrightarrow> explained ctx n w (fs_taken s) v e winner"
  shows "first_inv ctx n (leave out winner w s)"
proof -
  let ?w = "cancel_others (fs_contexts s) 0 winner w"
  have le: "world_le w ?w" by (rule world_le_cancel_others)
  have within: "ctx_within w ctx" "\<And>c. c \<in> set (fs_contexts s) \<Longrightarrow> c \<noteq> Background \<and> ctx_within w c"
    and len: "length (fs_contexts s) = n" "length (fs_branches s) = n"
    using assms(1,3) ctx_within_le [OF _ assms(4)] by (auto simp: inv_shape_def)
  have "inv_shape ctx n (leave out winner w s)"
    using within len ctx_within_le [OF _ le] by (auto simp: inv_shape_def leave_def)
  moreover have "inv_sent (leave out winner w s)"
    using assms(2) by (rule inv_sent_same) (auto simp: leave_def)
  moreover have "ctx_err ?w (fs_contexts s ! i) \<noteq> None" if "i < n" "winner \<noteq> Some i" for i
    using cancel_others_done [of i "fs_contexts s" winner 0 w] that len within(2) by simp
  moreover have "released ?w c \<or> successful c \<and> out = Ret (fc_result c, None)" if "c \<in> set (fs_taken s)" for c
    using taken [OF that] released_le [OF _ le] by blast
  moreover have "explained ctx n ?w (fs_taken s) v e winner" if "out = Ret (v, e)" for v e
    using explained_le [OF exp [OF that] le within(1)] .
  ultimately show ?thesis
    by (auto simp: first_inv_def inv_caller_def leave_def simp del: not_None_eq split: outcome.split)
qed

lemma explained_by:
  assumes "open_end pre" "successful c \<and> v = fc_result c \<and> e = None \<and> winner = (if res_Lifetime v = None then None else Some (fc_index c)) \<or>
         faulty c \<and> (v, e) = validateReturnedResult (fc_result c) \<and> winner = None"
  shows "explained ctx n w (pre @ [c]) v e winner"
  unfolding explained_def using assms by blast

lemma explained_more: "explained ctx n w taken v e winner \<Longrightarrow> length taken < n \<Longrightarrow> explained ctx n w (taken @ [c]) v e winner"
proof -
  assume e: "explained ctx n w taken v e winner" and l: "length taken < n"
  have "fc_index ` set taken \<noteq> {..<n}"
  proof
    assume "fc_index ` set taken = {..<n}"
    then have "n \<le> length taken" using card_image_le [of "set taken" fc_index] card_length [of taken] by simp
    then show False using l by simp
  qed
  then show ?thesis using e unfolding explained_def by fastforce
qed

lemma sent_bound:
  assumes "inv_sent s" "length (fs_branches s) \<le> n"
  shows "length (fs_taken s) + length (fs_results s) \<le> n"
proof -
  have "length (fs_taken s @ fs_results s) = card (fc_index ` set (fs_taken s @ fs_results s))"
    using assms(1) distinct_card [of "map fc_index (fs_taken s @ fs_results s)"] unfolding inv_sent_def by (metis length_map set_map)
  also have "\<dots> \<le> card {..<n}"
    using assms by (intro card_mono) (auto simp: inv_sent_def)
  finally show ?thesis by simp
qed

lemma first_inv_step:
  assumes host: "lawful_host hostfn" and inv: "first_inv ctx n s" and step: "first_step hostfn ctx n s t"
  shows "first_inv ctx n t"
  using step
proof cases
  case (launch c w)
  have le: "world_le (fs_world s) w" using launch(4) world_le_WithCancel [of "fs_world s" ctx] by simp
  have "first_inv ctx n (s\<lparr>fs_world := w\<rparr>)" using first_inv_world [OF inv le] .
  moreover have "c \<noteq> Background \<and> ctx_within w c"
    using launch(4) inv ctx_within_le [OF _ le, of ctx] by (auto simp: WithCancel_def first_inv_def inv_shape_def)
  moreover have "inv_sent t"
  proof (rule inv_sent_same [of s])
    show "inv_sent s" using inv by (simp add: first_inv_def)
    show "fs_branches t ! j = BranchSent \<longleftrightarrow> j < length (fs_branches s) \<and> fs_branches s ! j = BranchSent"
      if "j < length (fs_branches t)" for j
      using that by (cases "j < length (fs_branches s)") (simp_all add: launch(1) nth_append)
  qed (simp_all add: launch(1))
  ultimately show ?thesis using launch(2,3) unfolding launch(1) by (auto simp: first_inv_def inv_shape_def inv_caller_def)
next
  case launched
  then show ?thesis using inv by (auto simp: first_inv_def inv_shape_def inv_caller_def inv_sent_def)
next
  case (branch_stops i x w)
  have le: "world_le (fs_world s) w" using branch_stops(4) by auto
  have w: "first_inv ctx n (s\<lparr>fs_world := w\<rparr>)" using first_inv_world [OF inv le] .
  then have "inv_sent t" unfolding branch_stops(1)
    using branch_stops(2,3) by (intro inv_sent_send) (auto simp: first_inv_def)
  moreover have "inv_caller ctx n t" unfolding branch_stops(1)
    using w by - (rule inv_caller_same [of ctx n "s\<lparr>fs_world := w\<rparr>"], simp_all add: first_inv_def send_def)
  ultimately show ?thesis using w unfolding branch_stops(1) by (simp add: first_inv_def inv_shape_def send_def)
next
  case (branch_starts i w)
  have le: "world_le (fs_world s) w" using branch_starts(4) by auto
  have w: "first_inv ctx n (s\<lparr>fs_world := w\<rparr>)" using first_inv_world [OF inv le] .
  have "inv_sent t"
  proof (rule inv_sent_same [of s])
    show "inv_sent s" using inv by (simp add: first_inv_def)
    show "fs_branches t ! j = BranchSent \<longleftrightarrow> j < length (fs_branches s) \<and> fs_branches s ! j = BranchSent"
      if "j < length (fs_branches t)" for j
      using that branch_starts(2,3) by (cases "j = i") (simp_all add: branch_starts(1))
  qed (simp_all add: branch_starts(1))
  moreover have "inv_caller ctx n t" unfolding branch_starts(1)
    using w by - (rule inv_caller_same [of ctx n "s\<lparr>fs_world := w\<rparr>"], simp_all add: first_inv_def)
  ultimately show ?thesis using w unfolding branch_starts(1) by (simp add: first_inv_def inv_shape_def)
next
  case (branch_returns i res e)
  have "inv_sent t" unfolding branch_returns(1)
    using branch_returns(2,3) inv by (intro inv_sent_send) (auto simp: first_inv_def)
  moreover have "inv_caller ctx n t" unfolding branch_returns(1)
    using inv by - (rule inv_caller_same [of ctx n s], simp_all add: first_inv_def send_def)
  ultimately show ?thesis using inv unfolding branch_returns(1) by (simp add: first_inv_def inv_shape_def send_def)
next
  case (cancelled allErrors latest x w)
  have w: "w = tick (fs_world s)" "ctx_err w ctx = Some x" using cancelled(3) by auto
  show ?thesis unfolding cancelled(1)
  proof (rule first_inv_leave)
    show "released w c \<or> successful c \<and> Ret (AbortResult, Some x) = Ret (fc_result c, None)" if "c \<in> set (fs_taken s)" for c
      using inv that cancelled(2) by (auto simp: first_inv_def inv_caller_def w(1) intro: released_le)
  qed (use inv cancelled(2) w in \<open>auto simp: first_inv_def explained_def\<close>)
next
  case (collects allErrors latest c cs allErrors' latest' w)
  have le: "world_le (fs_world s) w" using world_frame.keepsD [OF keeps_collect_received [OF host] collects(4)] .
  have w: "first_inv ctx n (s\<lparr>fs_world := w\<rparr>)" using first_inv_world [OF inv le] .
  have "inv_sent t" using inv_sent_taking [of s, OF _ collects(3)] inv
    by (auto simp: collects(1) first_inv_def inv_sent_def)
  moreover have "inv_caller ctx n t"
    using host collects(4)
  proof (cases rule: collect_received_cases)
    case goes_on
    then show ?thesis
      using w collects(2,3) taken_index(1) [of s c cs] inv
      by (auto simp: collects(1) first_inv_def inv_caller_def taking_def errs_of_snoc)
  qed auto
  ultimately show ?thesis using w collects(2) by (auto simp: collects(1) first_inv_def inv_shape_def taking_def)
next
  case (decides allErrors latest c cs out winner w)
  have le: "world_le (fs_world s) w" using world_frame.keepsD [OF keeps_collect_received [OF host] decides(4)] .
  have open_taken: "open_end (fs_taken s)" and rel: "\<And>d. d \<in> set (fs_taken s) \<Longrightarrow> released w d"
    using inv decides(2) released_le [OF _ le] by (auto simp: first_inv_def inv_caller_def)
  have taken: "fs_taken (taking s) = fs_taken s @ [c]" using decides(3) by (simp add: taking_def)
  have st: "inv_shape ctx n (taking s)" "inv_sent (taking s)" "fs_caller (taking s) \<noteq> Launching" "world_le (fs_world (taking s)) w"
    using inv inv_sent_taking [of s, OF _ decides(3)] decides(2) le by (auto simp: first_inv_def inv_shape_def taking_def)
  show ?thesis unfolding decides(1)
    using host decides(4)
  proof (cases rule: collect_received_cases)
    case won
    show "first_inv ctx n (leave (Ret out) winner w (taking s))"
      using st by (rule first_inv_leave) (use won rel open_taken in \<open>auto simp: taken intro!: explained_by\<close>)
  next
    case fault
    show "first_inv ctx n (leave (Ret out) winner w (taking s))"
      using st by (rule first_inv_leave) (use fault rel open_taken in \<open>auto simp: taken intro!: explained_by\<close>)
  qed auto
next
  case (panics allErrors latest c cs w)
  have le: "world_le (fs_world s) w" using world_frame.keepsD [OF keeps_collect_received [OF host] panics(4)] .
  have rel: "\<And>d. d \<in> set (fs_taken s) \<Longrightarrow> released w d"
    using inv panics(2) released_le [OF _ le] by (auto simp: first_inv_def inv_caller_def)
  have "released w c" using host panics(4) by (cases rule: collect_received_cases) auto
  then show ?thesis unfolding panics(1)
    using inv inv_sent_taking [of s, OF _ panics(3)] panics(2,3) le rel
    by (intro first_inv_leave) (auto simp: first_inv_def inv_shape_def taking_def)
next
  case (exhausted allErrors latest)
  have "fc_index ` set (fs_taken s) = {..<n}"
    using inv exhausted(3,4) by (auto simp: first_inv_def inv_sent_def)
  then show ?thesis unfolding exhausted(1)
    using inv exhausted(2) by (intro first_inv_leave) (auto simp: first_inv_def inv_caller_def explained_def)
next
  case (drains out winner c cs e w)
  have le: "world_le (fs_world s) w" using world_frame.keepsD [OF keeps_Close [OF host] drains(4)] .
  have w: "first_inv ctx n (s\<lparr>fs_world := w\<rparr>)" using first_inv_world [OF inv le] .
  have "inv_sent t" using inv_sent_taking [of s, OF _ drains(3)] inv
    by (auto simp: drains(1) first_inv_def inv_sent_def)
  moreover have "length (fs_taken s) < n"
    using sent_bound [of s n] inv drains(3) by (auto simp: first_inv_def inv_shape_def)
  ultimately show ?thesis
    using w drains(2,3) Close_releases [OF host drains(4)] explained_more [of ctx n w "fs_taken s"]
    by (auto simp: drains(1) first_inv_def inv_shape_def inv_caller_def taking_def split: outcome.splits)
qed

interpretation first_system: invariant_system "\<lambda>s. \<exists>w. ctx_within w ctx \<and> s = first_start w" "first_run hostfn ctx n"
    "\<lambda>s. lawful_host hostfn \<longrightarrow> first_inv ctx n s" for hostfn ctx n
  by unfold_locales (auto intro: first_inv_start first_inv_step first_inv_world elim!: first_run.cases)

lemma first_reachable:
  assumes "lawful_host hostfn" "ctx_within w ctx" "reaches (first_run hostfn ctx n) (first_start w) s"
  shows "first_inv ctx n s"
  using first_system.reachable_inv [OF _ assms(3)] assms(1,2) by blast

section \<open>Progress\<close>

definition finished :: "nat \<Rightarrow> ('w, 'k, 'r, 'p) first_state \<Rightarrow> bool" where
  "finished n s \<longleftrightarrow> (\<exists>out winner. fs_caller s = Gone out winner) \<and> fs_results s = [] \<and> fs_branches s = replicate n BranchSent"

fun branch_work :: "branch \<Rightarrow> nat" where
  "branch_work BranchReady = 3"
| "branch_work BranchBusy = 2"
| "branch_work BranchSent = 0"

fun caller_work :: "('k, 'r, 'p) caller \<Rightarrow> nat" where
  "caller_work Launching = 2"
| "caller_work (Collecting _ _) = 1"
| "caller_work (Gone _ _) = 0"

text \<open>The steps that are left, at most.\<close>

definition first_work :: "nat \<Rightarrow> ('w, 'k, 'r, 'p) first_state \<Rightarrow> nat" where
  "first_work n s = 4 * (n - length (fs_branches s)) + sum_list (map branch_work (fs_branches s)) + length (fs_results s) +
     caller_work (fs_caller s)"

lemma branch_work_update:
  "i < length bs \<Longrightarrow> sum_list (map branch_work (bs[i := b])) + branch_work (bs ! i) = sum_list (map branch_work bs) + branch_work b"
proof (induction bs arbitrary: i)
  case (Cons a bs)
  then show ?case by (cases i) auto
qed simp

lemma first_step_work:
  assumes "first_step hostfn ctx n s t"
  shows "first_work n t < first_work n s"
  using assms
proof cases
  case (branch_stops i x w)
  then show ?thesis using branch_work_update [of i "fs_branches s" BranchSent] by (simp add: first_work_def send_def)
next
  case (branch_starts i w)
  then show ?thesis using branch_work_update [of i "fs_branches s" BranchBusy] by (simp add: first_work_def)
next
  case (branch_returns i res e)
  then show ?thesis using branch_work_update [of i "fs_branches s" BranchSent] by (simp add: first_work_def send_def)
qed (auto simp: first_work_def leave_def taking_def)

lemma first_start_work: "first_work n (first_start w) = 4 * n + 2"
  by (simp add: first_work_def first_start_def)

lemma reaches_work: "reaches (first_run hostfn ctx n) s t \<Longrightarrow> first_work n t \<le> first_work n s"
proof (induction rule: reaches.induct)
  case (reaches_step t u)
  from reaches_step.hyps(2) show ?case
  proof cases
    case own
    then show ?thesis using first_step_work reaches_step.IH by fastforce
  next
    case (others v)
    then show ?thesis using reaches_step.IH by (simp add: first_work_def)
  qed
qed simp

lemma replicate_or_other: "length xs = n \<Longrightarrow> xs = replicate n x \<or> (\<exists>i < n. xs ! i \<noteq> x)"
  by (metis in_set_conv_nth replicate_eqI)

lemma first_step_exists:
  assumes inv: "first_inv ctx n s" and closes: "\<And>life w. fst (Close hostfn life w) \<noteq> Panic" and more: "\<not> finished n s"
  shows "\<exists>t. first_step hostfn ctx n s t"
proof (cases "fs_caller s = Launching")
  case True
  show ?thesis
  proof (cases "length (fs_branches s) < n")
    case less: True
    obtain c w where "WithCancel ctx (fs_world s) = (c, w)" by fastforce
    then show ?thesis using launch [OF True less] by blast
  next
    case False
    then have "length (fs_branches s) = n" using inv by (auto simp: first_inv_def inv_shape_def)
    then show ?thesis using launched [OF True] by blast
  qed
next
  case False
  then have len: "length (fs_branches s) = n" using inv by (auto simp: first_inv_def inv_shape_def)
  show ?thesis
  proof (cases "fs_branches s = replicate n BranchSent")
    case True
    show ?thesis
    proof (cases "fs_results s")
      case Nil
      then obtain errs latest where "fs_caller s = Collecting errs latest"
        using False more True by (cases "fs_caller s") (auto simp: finished_def)
      then show ?thesis using exhausted [OF _ Nil True] by blast
    next
      case (Cons c cs)
      show ?thesis
      proof (cases "fs_caller s")
        case (Collecting errs latest)
        obtain r w where r: "collect_received hostfn (fs_contexts s) c errs latest (fs_world s) = (r, w)" by fastforce
        show ?thesis
        proof (cases r)
          case (Ret v)
          show ?thesis
          proof (cases v)
            case (Inl x)
            then show ?thesis using decides [OF Collecting Cons, of hostfn "fst x" "snd x" w] r Ret by auto
          next
            case (Inr x)
            then show ?thesis using collects [OF Collecting Cons, of hostfn "fst x" "snd x" w] r Ret by auto
          qed
        next
          case Panic
          then show ?thesis using panics [OF Collecting Cons] r by blast
        qed
      next
        case (Gone out winner)
        obtain e w where "Close hostfn (res_Lifetime (fc_result c)) (fs_world s) = (Ret e, w)"
          using closes by (metis outcome.exhaust prod.collapse)
        then show ?thesis using drains [OF Gone Cons] by blast
      qed (use False in simp)
    qed
  next
    case open_branch: False
    then obtain i where i: "i < length (fs_branches s)" "fs_branches s ! i \<noteq> BranchSent"
      using replicate_or_other [OF len] len by blast
    show ?thesis
    proof (cases "fs_branches s ! i")
      case BranchReady
      show ?thesis
        using branch_stops [OF i(1) BranchReady] branch_starts [OF i(1) BranchReady]
        by (cases "ctx_err (tick (fs_world s)) (fs_contexts s ! i)") (simp, blast)+
    next
      case BranchBusy
      then show ?thesis using branch_returns [OF i(1)] by blast
    qed (use i in simp)
  qed
qed

section \<open>Properties\<close>

text \<open>
  C25 (functional). The outcome of a call, in every interleaving: what is returned is the first result, in the order in which
  results are received, that carries a payload without error, or the first one that is malformed with the error that says so,
  or the end of the call's context, or, when all handlers have answered and none of this happened, the joined errors of the
  handlers in their order, and \<open>ErrNoSuccessfulOutcome\<close> if there are none.
\<close>

theorem first_success_explained:
  assumes "lawful_host hostfn" "ctx_within w ctx" "reaches (first_run hostfn ctx n) (first_start w) s"
    and "fs_caller s = Gone (Ret (v, e)) winner"
  shows "explained ctx n (fs_world s) (fs_taken s) v e winner"
  using first_reachable [OF assms(1-3)] assms(4) by (auto simp: first_inv_def inv_caller_def)

text \<open>
  C24 (safety). Only the returned result outlives the call: once the caller has left, in every interleaving, each result taken
  from the channel is released unless it is the successful one that was returned; the contexts of all branches are cancelled
  except the one that a returned lifetime keeps; and when all is done every branch's result, one for each, has been taken.
\<close>

theorem first_success_releases_losers:
  assumes "lawful_host hostfn" "ctx_within w ctx" "reaches (first_run hostfn ctx n) (first_start w) s"
    and "fs_caller s = Gone out winner"
  shows "(\<forall>c \<in> set (fs_taken s). released (fs_world s) c \<or> successful c \<and> out = Ret (fc_result c, None)) \<and>
    (\<forall>i < n. winner \<noteq> Some i \<longrightarrow> ctx_err (fs_world s) (fs_contexts s ! i) \<noteq> None) \<and>
    (finished n s \<longrightarrow> distinct (map fc_index (fs_taken s)) \<and> fc_index ` set (fs_taken s) = {..<n})"
  using first_reachable [OF assms(1-3)] assms(4)
  by (auto simp: first_inv_def inv_caller_def inv_sent_def finished_def simp del: not_None_eq)

text \<open>
  C26 (liveness). No call hangs: as long as it is not finished, the caller, a branch or the draining goroutine has a step, and
  every such step leaves less to do, of at most \<open>4 n + 2\<close> steps at the start. Handlers are assumed to return and cleanups
  not to panic.
\<close>

theorem first_success_ends:
  assumes "lawful_host hostfn" "ctx_within w ctx" "reaches (first_run hostfn ctx n) (first_start w) s"
    and "\<And>life v. fst (Close hostfn life v) \<noteq> Panic"
  shows "(finished n s \<or> (\<exists>t. first_step hostfn ctx n s t)) \<and>
    (\<forall>t. first_step hostfn ctx n s t \<longrightarrow> first_work n t < first_work n s) \<and> first_work n s \<le> 4 * n + 2"
proof -
  have "first_work n s \<le> 4 * n + 2"
    using reaches_work [OF assms(3)] by (simp add: first_start_work)
  then show ?thesis
    using first_step_exists [OF first_reachable [OF assms(1-3)] assms(4)] first_step_work by blast
qed

text \<open>
  A call with two branches: both are started, the second answers first and wins with a lifetime, the first then returns an
  error together with a lifetime of its own, which is drained.
\<close>

definition demo_winner :: "(nat, nat, nat) route_result" where
  "demo_winner = (Handled 1 0 7)\<lparr>res_Lifetime := Some 40\<rparr>"

definition demo_loser :: "(nat, nat, nat) completed" where
  "demo_loser = \<lparr>fc_index = 0, fc_result = AbortResult\<lparr>res_Lifetime := Some 41\<rparr>, fc_err = Some (Sentinel ''late'')\<rparr>"

definition quiet_host :: "nat \<Rightarrow> ((nat, unit) world_scheme, err) proc" where
  "quiet_host = (\<lambda>_. ret None)"

lemma quiet_host_lawful: "lawful_host quiet_host"
  by (simp add: lawful_host_def quiet_host_def world_frame.keeps_ret)

lemma quiet_closure: "\<exists>w'. run_closure quiet_host f w = (Ret None, w')"
  by (cases f) (simp_all add: quiet_host_def)

lemma quiet_hooks: "\<exists>w'. run_hooks quiet_host fs w = (Ret (), w')"
proof (induction fs arbitrary: w)
  case (Cons f fs)
  then show ?case using quiet_closure [of f w] by (auto simp: seq_def)
qed simp

lemma quiet_Close: "\<exists>e w'. Close quiet_host life w = (Ret e, w')"
proof (cases life)
  case (Some l)
  have "\<exists>w'. close_body quiet_host l v = (Ret (), w')" for v
  proof (cases "lt_cleanup (w_lifes v l)")
    case None
    then show ?thesis using quiet_hooks by (simp add: close_body_def Let_def)
  next
    case (Some f)
    obtain v1 where "run_closure quiet_host f v = (Ret None, v1)" using quiet_closure by blast
    then show ?thesis
      using Some quiet_hooks by (simp add: close_body_def Let_def seq_def)
  qed
  then show ?thesis using Some by (simp add: Close_def seq_def) (metis (mono_tags, lifting) case_prod_conv outcome.case(1))
qed simp

lemma demo_first_run:
  "\<exists>s. reaches (first_run quiet_host Background 2) (first_start idle_world) s \<and> fs_caller s = Gone (Ret (demo_winner, None)) (Some 1) \<and>
     fs_taken s = [\<lparr>fc_index = 1, fc_result = demo_winner, fc_err = None\<rparr>, demo_loser] \<and> finished 2 s"
proof -
  let ?R = "first_run quiet_host Background 2"
  let ?s0 = "first_start idle_world :: ((nat, unit) world_scheme, nat, nat, nat) first_state"
  let ?launch = "\<lambda>s :: ((nat, unit) world_scheme, nat, nat, nat) first_state.
     s\<lparr>fs_world := snd (WithCancel Background (fs_world s)), fs_branches := fs_branches s @ [BranchReady],
       fs_contexts := fs_contexts s @ [fst (WithCancel Background (fs_world s))]\<rparr>"
  let ?s2 = "?launch (?launch ?s0)"
  let ?s3 = "?s2\<lparr>fs_caller := Collecting (replicate 2 None) zeroResult\<rparr>"
  let ?start = "\<lambda>i s. s\<lparr>fs_world := tick (fs_world s), fs_branches := (fs_branches s)[i := BranchBusy]\<rparr>"
  let ?s5 = "?start 1 (?start 0 ?s3)"
  let ?s6 = "send 1 demo_winner None ?s5"
  let ?w = "snd (OnClose quiet_host (Some 40) (Some (CancelFn (fs_contexts ?s6 ! 1))) (fs_world ?s6))"
  let ?s7 = "leave (Ret (demo_winner, None)) (Some 1) ?w (taking ?s6)"
  let ?s8 = "send 0 (fc_result demo_loser) (fc_err demo_loser) ?s7"
  have live: "ctx_err (tick (fs_world s)) (fs_contexts s ! i) = None"
    if "s \<in> {?s3, ?start 0 ?s3}" "i < 2" for s :: "((nat, unit) world_scheme, nat, nat, nat) first_state" and i
    using that by (auto simp: first_start_def WithCancel_def idle_world_def ctx_err_def less_2_cases_iff)
  have "?R ?s0 (?launch ?s0)"
    by (intro own launch) (auto simp: first_start_def)
  moreover have "?R (?launch ?s0) ?s2"
    by (intro own launch) (auto simp: first_start_def)
  moreover have "?R ?s2 ?s3"
    by (intro own launched) (auto simp: first_start_def)
  moreover have "?R ?s3 (?start 0 ?s3)"
    using live [of ?s3 0] by (intro own branch_starts) (auto simp: first_start_def)
  moreover have "?R (?start 0 ?s3) ?s5"
    using live [of "?start 0 ?s3" 1] by (intro own branch_starts) (auto simp: first_start_def)
  moreover have "?R ?s5 ?s6"
    by (intro own branch_returns) (auto simp: first_start_def)
  moreover have "?R ?s6 ?s7"
    by (intro own decides)
      (auto simp: first_start_def send_def collect_received_def demo_winner_def Handled_def validateReturnedResult_def
        OnClose_def idle_world_def fresh_life_def WithCancel_def tick_def seq_def)
  moreover have "?R ?s7 ?s8"
    by (intro own branch_returns) (auto simp: first_start_def send_def leave_def taking_def)
  ultimately have 8: "reaches ?R ?s0 ?s8" by (meson reaches.intros)
  obtain e w where "Close quiet_host (res_Lifetime (fc_result demo_loser)) (fs_world ?s8) = (Ret e, w)" using quiet_Close by blast
  moreover have "fs_caller ?s8 = Gone (Ret (demo_winner, None)) (Some 1)" "fs_results ?s8 = [demo_loser]"
    by (simp_all add: first_start_def send_def leave_def taking_def demo_loser_def)
  ultimately have "?R ?s8 (taking ?s8\<lparr>fs_world := w\<rparr>)" by (intro own drains)
  then show ?thesis
    by (intro exI [of _ "taking ?s8\<lparr>fs_world := w\<rparr>"] conjI reaches_step [OF 8])
      (simp_all add: first_start_def send_def leave_def taking_def finished_def demo_loser_def numeral_2_eq_2)
qed

theorem first_success_explained_witness:
  "\<exists>s :: ((nat, unit) world_scheme, nat, nat, nat) first_state. explained Background 2 (fs_world s) [\<lparr>fc_index = 1, fc_result = demo_winner, fc_err = None\<rparr>, demo_loser] demo_winner None (Some 1) \<and>
     reaches (first_run quiet_host Background 2) (first_start idle_world) s"
proof -
  obtain s where s: "reaches (first_run quiet_host Background 2) (first_start idle_world) s" "fs_caller s = Gone (Ret (demo_winner, None)) (Some 1)"
    "fs_taken s = [\<lparr>fc_index = 1, fc_result = demo_winner, fc_err = None\<rparr>, demo_loser]" using demo_first_run by blast
  from first_success_explained [OF quiet_host_lawful _ s(1,2)] s show ?thesis by auto
qed

theorem first_success_releases_losers_witness:
  "\<exists>s :: ((nat, unit) world_scheme, nat, nat, nat) first_state. reaches (first_run quiet_host Background 2) (first_start idle_world) s \<and> finished 2 s \<and>
     released (fs_world s) demo_loser \<and> ctx_err (fs_world s) (fs_contexts s ! 0) \<noteq> None"
proof -
  obtain s where s: "reaches (first_run quiet_host Background 2) (first_start idle_world) s" "fs_caller s = Gone (Ret (demo_winner, None)) (Some 1)"
    "fs_taken s = [\<lparr>fc_index = 1, fc_result = demo_winner, fc_err = None\<rparr>, demo_loser]" "finished 2 s" using demo_first_run by blast
  have "\<not> successful demo_loser" by (simp add: successful_def demo_loser_def)
  then show ?thesis
    using first_success_releases_losers [OF quiet_host_lawful _ s(1,2)] s(1,3,4) by (intro exI [of _ s]) auto
qed

theorem first_success_ends_witness:
  "\<exists>t. first_step quiet_host Background 2 (first_start idle_world :: ((nat, unit) world_scheme, nat, nat, nat) first_state) t \<and> first_work 2 t < 10"
proof -
  let ?s = "first_start idle_world :: ((nat, unit) world_scheme, nat, nat, nat) first_state"
  have closes: "fst (Close quiet_host life v) \<noteq> Panic" for life v using quiet_Close [of life v] by auto
  have "\<not> finished 2 ?s" by (simp add: finished_def first_start_def)
  then obtain t where "first_step quiet_host Background 2 ?s t" "first_work 2 t < first_work 2 ?s"
    using first_success_ends [OF quiet_host_lawful _ reaches_refl closes, of idle_world Background 2] by auto
  then show ?thesis by (auto simp: first_start_work)
qed

end
