(* ===== verification/Race.thy ===== *)
theory Race
  imports Boundary Sequence First_Success "HOL-Library.Multiset"
begin

text \<open>
  \<open>policy/execution/race.go\<close>: several plans of one operation raced by a bounded number of workers, each attempt through a
  boundary of its own, with an explicit acceptance.

  The operations of the control block and of the journal, each under its mutex, and the procedures a worker runs are
  definitions; \<open>race_step\<close> is the machine of the workers inside \<open>FirstSuccessfulPayload\<close> together with \<open>Run\<close>, which waits for
  it and then decides. Between two of its steps a worker is at one of the points of \<open>worker\<close>. An attempt runs for as long as
  it likes next to the others: what it returns is what \<open>Boundary.Run\<close> returns from some world, and its effects are among the
  steps \<open>race_others\<close>, which move the world along \<open>world_le\<close> and \<open>exec_le\<close>. A panic in a worker's goroutine ends the program:
  the machine then has no step for it.
\<close>

section \<open>Data\<close>

record permissions =
  pm_Replayable :: bool
  pm_DuplicateCost :: bool
  pm_ReadOnly :: bool
  pm_DuplicateEffects :: bool

datatype acceptance_profile = CompleteOnly | EarlyOwned | ProfileOther nat

datatype race_status = NoAccepted | RaceAccepted | DuplicationForbidden

record ('k, 'r, 'p) race_entry =
  re_Identity :: identity
  re_Result :: "('k, 'r, 'p) exec_result"
  re_Err :: err
  re_Accepted :: bool

text \<open>The journal; \<open>jn_changed\<close> is whether the channel of capacity one holds a notification.\<close>

record ('k, 'r, 'p) journal =
  jn_entries :: "('k, 'r, 'p) race_entry list"
  jn_changed :: bool

text \<open>\<open>rr_Journal\<close> is whether the pointer to the journal is set.\<close>

record ('k, 'r, 'p) race_result =
  rr_Status :: race_status
  rr_Winner :: "('k, 'r, 'p) exec_result"
  rr_Journal :: bool
  rr_NestedAttemptsKnown :: bool

record ('f, 'w, 'req, 'k, 'r, 'p) race =
  ra_Boundary :: "('f, 'w, 'req, 'k, 'r, 'p) boundary"
  ra_Workers :: int
  ra_Permissions :: permissions
  ra_Profile :: acceptance_profile
  ra_Accept :: "(ctx \<Rightarrow> ('k, 'r, 'p) exec_result \<Rightarrow> ('w, bool \<times> err) proc) option"
  ra_NestedAttemptsKnown :: bool

text \<open>\<open>raceControl\<close>; the queue is a closed channel filled with the plans.\<close>

record 'req control =
  kc_queue :: "'req step list"
  kc_err :: err
  kc_finalized :: bool

text \<open>The zero value of a result, the payload of the workers' results.\<close>

instantiation exec_result_ext :: (zero, zero, zero, zero) zero
begin

definition zero_exec_result_ext :: "('a, 'b, 'c, 'd) exec_result_ext" where
  "zero_exec_result_ext = \<lparr>xr_Route = zeroResult, xr_Admission = Denied, xr_RetryAt = 0, xr_Receipt = None,
     xr_Started = False, xr_BudgetExhausted = False, \<dots> = 0\<rparr>"

instance ..

end

section \<open>Journal and control\<close>

definition journal_append :: "('k, 'r, 'p) race_entry \<Rightarrow> ('k, 'r, 'p) journal \<Rightarrow> ('k, 'r, 'p) journal" where
  "journal_append entry j = \<lparr>jn_entries = jn_entries j @ [entry], jn_changed = True\<rparr>"

definition control_next :: "ctx \<Rightarrow> 'req control \<Rightarrow> ('h, 'x) world_scheme \<Rightarrow>
    (gerror + 'req step option) \<times> 'req control \<times> ('h, 'x) world_scheme" where
  "control_next ctx control w =
     (case kc_err control of
        Some x \<Rightarrow> (Inl x, control, w)
      | None \<Rightarrow>
          if kc_finalized control then (Inr None, control, w)
          else case ctx_err (tick w) ctx of
            Some x \<Rightarrow> (Inl x, control, tick w)
          | None \<Rightarrow>
              (case kc_queue control of
                 [] \<Rightarrow> (Inr None, control, tick w)
               | plan # rest \<Rightarrow> (Inr (Some plan), control\<lparr>kc_queue := rest\<rparr>, tick w)))"

definition control_observe :: "err \<Rightarrow> 'req control \<Rightarrow> 'req control" where
  "control_observe e control =
     (if \<not> isControlError e then control else control\<lparr>kc_err := errors_Join [kc_err control, e]\<rparr>)"

definition control_finalize :: "'req control \<Rightarrow> err \<times> 'req control" where
  "control_finalize control =
     (case kc_err control of Some x \<Rightarrow> (Some x, control) | None \<Rightarrow> (None, control\<lparr>kc_finalized := True\<rparr>))"

section \<open>Checks\<close>

definition allowsDuplication :: "permissions \<Rightarrow> bool" where
  "allowsDuplication p \<longleftrightarrow> pm_Replayable p \<and> pm_DuplicateCost p \<and> (pm_ReadOnly p \<or> pm_DuplicateEffects p)"

fun validate_plans :: "coordinator \<Rightarrow> string \<Rightarrow> identity list \<Rightarrow> 'req step list \<Rightarrow> err" where
  "validate_plans co operation seen [] = None"
| "validate_plans co operation seen (plan # plans) =
     (let i = sp_Identity plan in
      if id_Operation i = '''' \<or> id_Operation i \<noteq> operation \<or> id_Attempt i = '''' then Some ErrInvalidEvent
      else if i \<in> set seen then Some ErrInvalidEvent
      else if (case Snapshot co i of (_, _, e) \<Rightarrow> e = None) then Some ErrInvalidEvent
      else validate_plans co operation (i # seen) plans)"

definition race_validate ::
  "('f, 'w, 'req, 'k, 'r, 'p) race \<Rightarrow> coordinator option \<Rightarrow> 'req step list \<Rightarrow> err" where
  "race_validate race coordinator plans =
     (case coordinator of
        None \<Rightarrow> Some ErrInvalidBoundary
      | Some co \<Rightarrow>
          if ra_Workers race < 1 \<or> ra_Accept race = None \<or>
             (case ra_Profile race of ProfileOther _ \<Rightarrow> True | _ \<Rightarrow> False) \<or> plans = []
          then Some ErrInvalidBoundary
          else validate_plans co (id_Operation (sp_Identity (hd plans))) [] plans)"

definition accept ::
  "('f, ('f, 'x) exec_world_scheme, 'req, 'k, 'r, 'p) race \<Rightarrow> ctx \<Rightarrow> ('k, 'r, 'p) exec_result \<Rightarrow> err \<Rightarrow>
   (('f, 'x) exec_world_scheme, bool \<times> err) proc" where
  "accept race ctx result runErr =
     (if runErr \<noteq> None \<or> \<not> xr_Started result \<or> xr_Receipt result = None then ret (False, runErr)
      else if res_Action (xr_Route result) \<noteq> ActionStop \<or> \<not> res_HasPayload (xr_Route result) then ret (False, None)
      else seq (receipt_of result Receipt_Snapshot) (\<lambda>(event, _, e).
        case e of
          Some x \<Rightarrow> ret (False, Some x)
        | None \<Rightarrow>
            if ev_Committed event then ret (False, Some ErrInvalidEvent)
            else if ra_Profile race = CompleteOnly \<and> ev_Phase event \<noteq> Terminal then ret (False, None)
            else if ra_Profile race = EarlyOwned \<and> (res_Lifetime (xr_Route result) = None \<or> ev_Phase event < StreamOpened)
            then ret (False, None)
            else seq (ctx_Err ctx) (\<lambda>e.
              case e of
                Some x \<Rightarrow> ret (False, Some x)
              | None \<Rightarrow> seq (call_fn (ra_Accept race) (\<lambda>f. f ctx result)) (\<lambda>(accepted, e).
                  if e \<noteq> None \<or> \<not> accepted then ret (False, e)
                  else seq (receipt_of result Receipt_Snapshot) (\<lambda>(event, _, e).
                    case e of
                      Some x \<Rightarrow> ret (False, Some x)
                    | None \<Rightarrow>
                        if ev_Committed event then ret (False, Some ErrInvalidEvent)
                        else seq (ctx_Err ctx) (\<lambda>e.
                          case e of Some x \<Rightarrow> ret (False, Some x) | None \<Rightarrow> ret (True, None)))))))"

definition checkWinner :: "ctx \<Rightarrow> ('k, 'r, 'p) exec_result \<Rightarrow> (('f, 'x) exec_world_scheme, err) proc" where
  "checkWinner ctx winner =
     seq (ctx_Err ctx) (\<lambda>e.
       case e of
         Some x \<Rightarrow> ret (Some x)
       | None \<Rightarrow> seq (receipt_of winner Receipt_Snapshot) (\<lambda>(event, _, e).
           case e of
             Some x \<Rightarrow> ret (Some x)
           | None \<Rightarrow> if ev_Committed event then ret (Some ErrInvalidEvent) else ret None))"

text \<open>Closing a result that was not accepted, with the error of its settlement.\<close>

definition close_rejected ::
  "('f, ('f, 'x) exec_world_scheme) exec_host \<Rightarrow> ('k, 'r, 'p) exec_result \<Rightarrow> (('f, 'x) exec_world_scheme, err) proc" where
  "close_rejected host result =
     seq (Close (exec_hostfn host) (res_Lifetime (xr_Route result))) (\<lambda>closeErr.
       case xr_Receipt result of
         None \<Rightarrow> ret closeErr
       | Some r \<Rightarrow> seq (Receipt_Snapshot r) (\<lambda>(_, _, settlementErr). ret (errors_Join [closeErr, settlementErr])))"

section \<open>Workers\<close>

text \<open>
  Where a worker is: before \<open>next\<close>, inside the boundary, with its result, with the verdict on it, before the journal with an
  accepted result, before closing a rejected one, after closing it, after reporting the closing, after the journal, about to
  return the control block's failure, and about to return.
\<close>

datatype ('req, 'k, 'r, 'p) worker =
    WNext "err list"
  | WRun "'req step" "err list"
  | WRan "'req step" "('k, 'r, 'p) exec_result" err "err list"
  | WJudged "'req step" "('k, 'r, 'p) exec_result" err bool err "err list"
  | WAccepted "'req step" "('k, 'r, 'p) exec_result" err
  | WRejected "'req step" "('k, 'r, 'p) exec_result" err err "err list"
  | WClosed "'req step" "('k, 'r, 'p) exec_result" err err err "err list"
  | WReported "'req step" "('k, 'r, 'p) exec_result" err err err "err list"
  | WChecking "('k, 'r, 'p) exec_result" err err err "err list"
  | WStopping err
  | WDone "('k, 'r, 'p) exec_result basic_result" err

type_synonym ('f, 'x, 'req, 'k, 'r, 'p) worker_view =
  "('req, 'k, 'r, 'p) worker \<times> 'req control \<times> ('k, 'r, 'p) journal \<times> ('f, 'x) exec_world_scheme"

definition winning :: "('k, 'r, 'p) exec_result \<Rightarrow> ('k, 'r, 'p) exec_result basic_result" where
  "winning result = (BasicHandled result)\<lparr>res_Lifetime := res_Lifetime (xr_Route result), res_Match := res_Match (xr_Route result)\<rparr>"

text \<open>One step of a worker, with the context of its branch; \<open>None\<close> where it has none of its own or panics.\<close>

fun worker_act ::
  "('f, ('f, 'x) exec_world_scheme) exec_host \<Rightarrow>
   ('f, ('f, 'x) exec_world_scheme, 'req, 'k :: zero, 'r :: zero, 'p :: zero) race \<Rightarrow> ctx \<Rightarrow>
   ('f, 'x, 'req, 'k, 'r, 'p) worker_view \<Rightarrow> ('f, 'x, 'req, 'k, 'r, 'p) worker_view option" where
  "worker_act host race ctx (WNext failures, control, journal, w) =
     (case control_next ctx control w of
        (Inl x, control', w') \<Rightarrow> Some (WDone AbortResult (Some x), control', journal, w')
      | (Inr None, control', w') \<Rightarrow> Some (WDone (BasicNext BasicReasonNoMatch) (errors_Join failures), control', journal, w')
      | (Inr (Some plan), control', w') \<Rightarrow> Some (WRun plan failures, control', journal, w'))"
| "worker_act host race ctx (WRun plan failures, control, journal, w) = None"
| "worker_act host race ctx (WRan plan result runErr failures, control, journal, w) =
     (case accept race ctx result runErr w of
        (Ret (accepted, e), w') \<Rightarrow> Some (WJudged plan result runErr accepted e failures, control, journal, w')
      | (Panic, _) \<Rightarrow> None)"
| "worker_act host race ctx (WJudged plan result runErr accepted e failures, control, journal, w) =
     Some (if accepted then WAccepted plan result e else WRejected plan result runErr e failures,
       control_observe e control, journal, w)"
| "worker_act host race ctx (WAccepted plan result e, control, journal, w) =
     Some (WDone (winning result) None, control,
       journal_append \<lparr>re_Identity = sp_Identity plan, re_Result = result, re_Err = e, re_Accepted = True\<rparr> journal, w)"
| "worker_act host race ctx (WRejected plan result runErr e failures, control, journal, w) =
     (case close_rejected host result w of
        (Ret closeErr, w') \<Rightarrow>
          let e' = errors_Join [e, closeErr] in
          Some (WClosed plan result runErr e' closeErr (if e' \<noteq> None then failures @ [e'] else failures), control, journal, w')
      | (Panic, _) \<Rightarrow> None)"
| "worker_act host race ctx (WClosed plan result runErr e closeErr failures, control, journal, w) =
     Some (WReported plan result runErr e closeErr failures, control_observe closeErr control, journal, w)"
| "worker_act host race ctx (WReported plan result runErr e closeErr failures, control, journal, w) =
     Some (WChecking result runErr e closeErr failures, control,
       journal_append \<lparr>re_Identity = sp_Identity plan, re_Result = result, re_Err = e, re_Accepted = False\<rparr> journal, w)"
| "worker_act host race ctx (WChecking result runErr e closeErr failures, control, journal, w) =
     Some (if closeErr \<noteq> None \<or> (runErr \<noteq> None \<and> \<not> xr_Started result) \<or> kc_err control \<noteq> None
       then WStopping e else WNext failures, control, journal, w)"
| "worker_act host race ctx (WStopping e, control, journal, w) =
     Some (WDone AbortResult (errors_Join [e, kc_err control]), control, journal, w)"
| "worker_act host race ctx (WDone res e, control, journal, w) = None"

section \<open>Run\<close>

datatype ('k, 'r, 'p) race_main =
    RaceWaiting
  | RaceChecking "('k, 'r, 'p) exec_result basic_result"
  | RaceFinalizing "('k, 'r, 'p) exec_result basic_result"
  | RaceReturned "('k, 'r, 'p) race_result" err

record ('f, 'x, 'req, 'k, 'r, 'p) race_state =
  rs_first :: "(('f, 'x) exec_world_scheme, string, string, ('k, 'r, 'p) exec_result) first_state"
  rs_control :: "'req control"
  rs_journal :: "('k, 'r, 'p) journal"
  rs_workers :: "('req, 'k, 'r, 'p) worker list"
  rs_main :: "('k, 'r, 'p) race_main"

definition no_result ::
  "('f, 'w, 'req, 'k, 'r, 'p) race \<Rightarrow> bool \<Rightarrow> ('k :: zero, 'r :: zero, 'p :: zero) race_result" where
  "no_result race journal = \<lparr>rr_Status = NoAccepted, rr_Winner = empty_result, rr_Journal = journal,
     rr_NestedAttemptsKnown = ra_NestedAttemptsKnown race\<rparr>"

definition race_workers :: "('f, 'w, 'req, 'k, 'r, 'p) race \<Rightarrow> 'req step list \<Rightarrow> nat" where
  "race_workers race plans = nat (min (ra_Workers race) (int (length plans)))"

text \<open>
  \<open>Run\<close> up to the start of the workers. There is at least one worker and none is nil, so \<open>FirstSuccessfulPayload\<close> starts
  with its look at the context.
\<close>

definition race_start ::
  "('f, ('f, 'x) exec_world_scheme, 'req, 'k :: zero, 'r :: zero, 'p :: zero) race \<Rightarrow> ctx \<Rightarrow> nat option \<Rightarrow> 'req step list \<Rightarrow>
   ('f, 'x) exec_world_scheme \<Rightarrow>
   ((('k, 'r, 'p) race_result \<times> err) \<times> ('f, 'x) exec_world_scheme) + ('f, 'x, 'req, 'k, 'r, 'p) race_state" where
  "race_start race ctx coordinator plans w =
     (case race_validate race (map_option (xw_coords w) coordinator) plans of
        Some x \<Rightarrow> Inl ((no_result race False, Some x), w)
      | None \<Rightarrow>
          (case ctx_err (tick w) ctx of
             Some x \<Rightarrow> Inl ((no_result race False, Some x), tick w)
           | None \<Rightarrow>
               if 1 < length plans \<and> \<not> allowsDuplication (ra_Permissions race)
               then Inl (((no_result race False)\<lparr>rr_Status := DuplicationForbidden\<rparr>, None), tick w)
               else case NewRouteCall (Some ctx) () (tick w) of (call, w1) \<Rightarrow>
                 (case ctx_err (tick w1) ctx of
                    Some x \<Rightarrow> Inl ((no_result race True, Some x), tick w1)
                  | None \<Rightarrow> Inr \<lparr>rs_first = first_start (tick w1),
                      rs_control = \<lparr>kc_queue = plans, kc_err = None, kc_finalized = False\<rparr>,
                      rs_journal = \<lparr>jn_entries = [], jn_changed = False\<rparr>,
                      rs_workers = replicate (race_workers race plans) (WNext []), rs_main = RaceWaiting\<rparr>)))"

text \<open>\<open>errors.Join(\<dots>, winner.Lifetime.Close())\<close> on the way out with an error.\<close>

definition close_winner ::
  "('f, ('f, 'x) exec_world_scheme) exec_host \<Rightarrow> ('f, 'w, 'req, 'k :: zero, 'r :: zero, 'p :: zero) race \<Rightarrow>
   ('k, 'r, 'p) exec_result basic_result \<Rightarrow> err list \<Rightarrow> 'req control \<Rightarrow> ('f, 'x) exec_world_scheme \<Rightarrow>
   (('k, 'r, 'p) race_main \<times> 'req control \<times> ('f, 'x) exec_world_scheme) option" where
  "close_winner host race winner errs control w =
     (case Close (exec_hostfn host) (res_Lifetime winner) w of
        (Ret ce, w') \<Rightarrow> Some (RaceReturned (no_result race True) (errors_Join (errs @ [ce])), control, w')
      | (Panic, _) \<Rightarrow> None)"

text \<open>The steps of \<open>Run\<close> after \<open>FirstSuccessfulPayload\<close> has returned \<open>(winner, e)\<close>.\<close>

fun race_main_act ::
  "('f, ('f, 'x) exec_world_scheme) exec_host \<Rightarrow>
   ('f, ('f, 'x) exec_world_scheme, 'req, 'k :: zero, 'r :: zero, 'p :: zero) race \<Rightarrow> ctx \<Rightarrow>
   ('k, 'r, 'p) exec_result basic_result \<times> err \<Rightarrow> ('k, 'r, 'p) race_main \<Rightarrow> 'req control \<Rightarrow> ('f, 'x) exec_world_scheme \<Rightarrow>
   (('k, 'r, 'p) race_main \<times> 'req control \<times> ('f, 'x) exec_world_scheme) option" where
  "race_main_act host race ctx (winner, e) RaceWaiting control w =
     (case kc_err control of
        Some x \<Rightarrow> close_winner host race winner [Some x, e] control w
      | None \<Rightarrow>
          if errors_Is e ErrNoSuccessfulOutcome then Some (RaceReturned (no_result race True) None, control, w)
          else if e \<noteq> None then Some (RaceReturned (no_result race True) e, control, w)
          else Some (RaceChecking winner, control, w))"
| "race_main_act host race ctx _ (RaceChecking winner) control w =
     (case checkWinner ctx (res_Payload winner) w of
        (Ret (Some x), w') \<Rightarrow> close_winner host race winner [Some x] control w'
      | (Ret None, w') \<Rightarrow> Some (RaceFinalizing winner, control, w')
      | (Panic, _) \<Rightarrow> None)"
| "race_main_act host race ctx _ (RaceFinalizing winner) control w =
     (case control_finalize control of
        (Some x, control') \<Rightarrow> close_winner host race winner [Some x] control' w
      | (None, control') \<Rightarrow>
          Some (RaceReturned ((no_result race True)\<lparr>rr_Status := RaceAccepted, rr_Winner := res_Payload winner\<rparr>) None, control', w))"
| "race_main_act host race ctx _ (RaceReturned result e) control w = None"

section \<open>The machine\<close>

abbreviation rs_world :: "('f, 'x, 'req, 'k, 'r, 'p) race_state \<Rightarrow> ('f, 'x) exec_world_scheme" where
  "rs_world s \<equiv> fs_world (rs_first s)"

definition set_world :: "('f, 'x) exec_world_scheme \<Rightarrow> ('f, 'x, 'req, 'k, 'r, 'p) race_state \<Rightarrow> ('f, 'x, 'req, 'k, 'r, 'p) race_state" where
  "set_world w s = s\<lparr>rs_first := (rs_first s)\<lparr>fs_world := w\<rparr>\<rparr>"

definition busy :: "('f, 'x, 'req, 'k, 'r, 'p) race_state \<Rightarrow> nat \<Rightarrow> bool" where
  "busy s i \<longleftrightarrow> i < length (fs_branches (rs_first s)) \<and> fs_branches (rs_first s) ! i = BranchBusy"

text \<open>The steps of \<open>FirstSuccessfulPayload\<close> other than the return of a branch.\<close>

inductive race_step ::
  "('f, ('f, 'x) exec_world_scheme) exec_host \<Rightarrow>
   ('f, ('f, 'x) exec_world_scheme, 'req, 'k :: zero, 'r :: zero, 'p :: zero) race \<Rightarrow> ctx \<Rightarrow> nat \<Rightarrow> nat \<Rightarrow>
   ('f, 'x, 'req, 'k, 'r, 'p) race_state \<Rightarrow> ('f, 'x, 'req, 'k, 'r, 'p) race_state \<Rightarrow> bool" for host race ctx c n where
  race_first: "first_step (exec_hostfn host) ctx n (rs_first s) f \<Longrightarrow>
    (\<And>i. busy s i \<Longrightarrow> busy (s\<lparr>rs_first := f\<rparr>) i) \<Longrightarrow>
    race_step host race ctx c n s (s\<lparr>rs_first := f\<rparr>)"
| race_attempt: "busy s i \<Longrightarrow> i < length (rs_workers s) \<Longrightarrow> rs_workers s ! i = WRun plan failures \<Longrightarrow>
    NewRouteCall (Some (fs_contexts (rs_first s) ! i)) (sp_Request plan) u = (call, v) \<Longrightarrow>
    Run host (ra_Boundary race) call (Some c) (sp_Identity plan) v = Some (Ret (result, e), v') \<Longrightarrow>
    race_step host race ctx c n s (s\<lparr>rs_workers := (rs_workers s)[i := WRan plan result e failures]\<rparr>)"
| race_worker: "busy s i \<Longrightarrow> i < length (rs_workers s) \<Longrightarrow>
    worker_act host race (fs_contexts (rs_first s) ! i) (rs_workers s ! i, rs_control s, rs_journal s, rs_world s) =
      Some (worker, control, journal, w) \<Longrightarrow>
    race_step host race ctx c n s
      (set_world w (s\<lparr>rs_workers := (rs_workers s)[i := worker], rs_control := control, rs_journal := journal\<rparr>))"
| race_send: "busy s i \<Longrightarrow> i < length (rs_workers s) \<Longrightarrow> rs_workers s ! i = WDone res e \<Longrightarrow>
    race_step host race ctx c n s (s\<lparr>rs_first := send i res e (rs_first s)\<rparr>)"
| race_main: "fs_caller (rs_first s) = Gone (Ret out) winner \<Longrightarrow>
    race_main_act host race ctx out (rs_main s) (rs_control s) (rs_world s) = Some (main, control, w) \<Longrightarrow>
    race_step host race ctx c n s (set_world w (s\<lparr>rs_main := main, rs_control := control\<rparr>))"
| race_others: "world_le (rs_world s) w \<Longrightarrow> exec_le (rs_world s) w \<Longrightarrow> race_step host race ctx c n s (set_world w s)"

section \<open>Each plan once\<close>

text \<open>The plan a worker has taken and not yet entered into the journal.\<close>

fun held :: "('req, 'k, 'r, 'p) worker \<Rightarrow> identity list" where
  "held (WRun plan _) = [sp_Identity plan]"
| "held (WRan plan _ _ _) = [sp_Identity plan]"
| "held (WJudged plan _ _ _ _ _) = [sp_Identity plan]"
| "held (WAccepted plan _ _) = [sp_Identity plan]"
| "held (WRejected plan _ _ _ _) = [sp_Identity plan]"
| "held (WClosed plan _ _ _ _ _) = [sp_Identity plan]"
| "held (WReported plan _ _ _ _ _) = [sp_Identity plan]"
| "held _ = []"

definition plan_ids :: "'req control \<Rightarrow> ('k, 'r, 'p) journal \<Rightarrow> identity multiset" where
  "plan_ids control journal = mset (map sp_Identity (kc_queue control)) + mset (map re_Identity (jn_entries journal))"

definition race_ids :: "('f, 'x, 'req, 'k, 'r, 'p) race_state \<Rightarrow> identity multiset" where
  "race_ids s = plan_ids (rs_control s) (rs_journal s) + mset (concat (map held (rs_workers s)))"

lemma control_observe_simps [simp]: "kc_queue (control_observe e control) = kc_queue control"
  "kc_finalized (control_observe e control) = kc_finalized control"
  "kc_err control \<noteq> None \<Longrightarrow> kc_err (control_observe e control) \<noteq> None"
  by (auto simp: control_observe_def errors_Join_eq_None simp del: not_None_eq)

lemma control_next_cases:
  assumes "control_next ctx control w = (r, control', w')"
  obtains (refused) x where "r = Inl x" "control' = control"
  | (empty) "r = Inr None" "control' = control"
  | (plan) plan rest where "r = Inr (Some plan)" "kc_queue control = plan # rest" "control' = control\<lparr>kc_queue := rest\<rparr>"
      "kc_err control = None" "\<not> kc_finalized control"
proof (cases "kc_err control = None \<and> \<not> kc_finalized control \<and> ctx_err (tick w) ctx = None")
  case True
  show thesis
  proof (cases "kc_queue control")
    case Nil
    then show thesis using assms True by (intro empty) (simp_all add: control_next_def)
  next
    case (Cons plan rest)
    then show thesis using assms True by (intro plan [of plan rest]) (simp_all add: control_next_def)
  qed
next
  case False
  then consider x where "kc_err control = Some x" | "kc_err control = None" "kc_finalized control"
    | x where "kc_err control = None" "\<not> kc_finalized control" "ctx_err (tick w) ctx = Some x" by auto
  then show thesis
  proof cases
    case 1
    then show thesis using assms by (intro refused [of x]) (simp_all add: control_next_def)
  next
    case 2
    then show thesis using assms by (intro empty) (simp_all add: control_next_def)
  next
    case 3
    then show thesis using assms by (intro refused [of x]) (simp_all add: control_next_def)
  qed
qed

lemma worker_act_ids:
  assumes "worker_act host race ctx (worker, control, journal, w) = Some (worker', control', journal', w')"
  shows "plan_ids control' journal' + mset (held worker') = plan_ids control journal + mset (held worker)"
proof (cases worker)
  case (WNext failures)
  obtain r control1 w1 where cn: "control_next ctx control w = (r, control1, w1)" by (metis prod_cases3)
  from cn show ?thesis
    using assms WNext cn by (cases rule: control_next_cases) (auto simp: plan_ids_def)
qed (use assms in \<open>auto simp: plan_ids_def journal_append_def Let_def split: outcome.splits prod.splits if_splits\<close>)

lemma mset_held_update:
  "i < length ws \<Longrightarrow>
   mset (concat (map held (ws[i := v]))) + mset (held (ws ! i)) = mset (concat (map held ws)) + mset (held v)"
proof (induction ws arbitrary: i)
  case (Cons a ws)
  show ?case
  proof (cases i)
    case (Suc j)
    then show ?thesis using Cons.IH [of j] Cons.prems by (simp add: ac_simps)
  qed simp
qed simp

lemma mset_exchange:
  fixes X X' P P' a b :: "'a multiset"
  assumes "X' + a = X + b" "P' + b = P + a"
  shows "P' + X' = P + X"
proof -
  have "(P' + X') + a = (P' + b) + X" using assms(1) by (simp add: ac_simps)
  also have "\<dots> = (P + X) + a" using assms(2) by (simp add: ac_simps)
  finally show ?thesis by simp
qed

lemma close_winner_simps:
  assumes "close_winner host race winner errs control w = Some (main, control', w')"
  shows "control' = control" "\<exists>e. main = RaceReturned (no_result race True) e"
    "\<exists>e. Close (exec_hostfn host) (res_Lifetime winner) w = (Ret e, w')"
  using assms by (auto simp: close_winner_def split: prod.splits outcome.splits)

lemma race_main_act_control:
  assumes "race_main_act host race ctx out main control w = Some (main', control', w')"
  shows "kc_queue control' = kc_queue control \<and> kc_err control' = kc_err control \<and> (kc_finalized control \<longrightarrow> kc_finalized control')"
proof (cases "(host, race, ctx, out, main, control, w)" rule: race_main_act.cases)
  case (1 host race ctx winner e control w)
  then show ?thesis using assms by (auto dest: close_winner_simps(1) split: option.splits if_splits)
next
  case (2 host race ctx out winner control w)
  then show ?thesis using assms by (auto dest: close_winner_simps(1) split: option.splits prod.splits outcome.splits)
next
  case (3 host race ctx out winner control w)
  then show ?thesis using assms by (auto simp: control_finalize_def dest: close_winner_simps(1) split: option.splits prod.splits)
qed (use assms in simp)

lemma race_step_ids:
  assumes "race_step host race ctx c n s t"
  shows "race_ids t = race_ids s"
  using assms
proof cases
  case (race_attempt i plan failures u call v result e v')
  have "mset (concat (map held ((rs_workers s)[i := WRan plan result e failures]))) + mset (held (rs_workers s ! i)) =
      mset (concat (map held (rs_workers s))) + mset (held (WRan plan result e failures))"
    by (rule mset_held_update) (rule race_attempt)
  then show ?thesis using race_attempt(4) by (simp add: race_attempt(1) race_ids_def)
next
  case (race_worker i worker control journal w)
  have "mset (concat (map held ((rs_workers s)[i := worker]))) + mset (held (rs_workers s ! i)) =
      mset (concat (map held (rs_workers s))) + mset (held worker)"
    by (rule mset_held_update) (rule race_worker)
  from mset_exchange [OF this worker_act_ids [OF race_worker(4)]] show ?thesis
    by (simp add: race_worker(1) race_ids_def set_world_def)
next
  case (race_main out winner main control w)
  then show ?thesis using race_main_act_control [OF race_main(3)] by (simp add: race_ids_def plan_ids_def set_world_def)
qed (simp_all add: race_ids_def set_world_def)

section \<open>Nothing is started after the end\<close>

text \<open>A control block that refuses plans: it has observed a fatal error or is finalized.\<close>

definition refusing :: "'req control \<Rightarrow> bool" where
  "refusing control \<longleftrightarrow> kc_err control \<noteq> None \<or> kc_finalized control"

definition control_le :: "'req control \<Rightarrow> 'req control \<Rightarrow> bool" where
  "control_le a b \<longleftrightarrow> (\<exists>taken. kc_queue a = taken @ kc_queue b) \<and> (kc_err a \<noteq> None \<longrightarrow> kc_err b \<noteq> None) \<and>
     (kc_finalized a \<longrightarrow> kc_finalized b) \<and> (refusing a \<longrightarrow> kc_queue b = kc_queue a)"

lemma control_le_refusing: "control_le a b \<Longrightarrow> refusing a \<Longrightarrow> refusing b \<and> kc_queue b = kc_queue a"
  unfolding control_le_def refusing_def by blast

interpretation control_frame: frame_relation control_le
proof
  show "control_le a a" for a :: "'req control" by (simp add: control_le_def)
next
  fix a b c :: "'req control"
  assume ab: "control_le a b" and bc: "control_le b c"
  obtain x where x: "kc_queue a = x @ kc_queue b" using ab unfolding control_le_def by blast
  obtain y where y: "kc_queue b = y @ kc_queue c" using bc unfolding control_le_def by blast
  have "\<exists>z. kc_queue a = z @ kc_queue c" unfolding x y by (rule exI [of _ "x @ y"]) simp
  moreover have "refusing a \<longrightarrow> kc_queue c = kc_queue a" using control_le_refusing [OF ab] control_le_refusing [OF bc] by simp
  moreover have "kc_err a \<noteq> None \<longrightarrow> kc_err c \<noteq> None" "kc_finalized a \<longrightarrow> kc_finalized c"
    using ab bc unfolding control_le_def by blast+
  ultimately show "control_le a c" unfolding control_le_def by blast
qed

lemma control_le_observe: "control_le control (control_observe e control)"
  by (auto simp: control_le_def simp del: not_None_eq)

lemma worker_act_control:
  assumes "worker_act host race ctx (worker, control, journal, w) = Some (worker', control', journal', w')"
  shows "control_le control control'"
proof (cases worker)
  case (WNext failures)
  obtain r control1 w1 where cn: "control_next ctx control w = (r, control1, w1)" by (metis prod_cases3)
  from cn show ?thesis
    using assms WNext cn by (cases rule: control_next_cases) (auto simp: control_le_def refusing_def control_frame.frame_refl)
qed (use assms in \<open>auto simp: Let_def control_le_observe control_frame.frame_refl split: outcome.splits prod.splits if_splits\<close>)

lemma race_step_control:
  assumes "race_step host race ctx c n s t"
  shows "control_le (rs_control s) (rs_control t)"
  using assms
proof cases
  case (race_worker i worker control journal w)
  then show ?thesis using worker_act_control [OF race_worker(4)] by (simp add: set_world_def)
next
  case (race_main out winner main control w)
  then show ?thesis using race_main_act_control [OF race_main(3)] by (auto simp: control_le_def set_world_def)
qed (simp_all add: set_world_def control_frame.frame_refl)

lemma reaches_control:
  assumes "reaches (race_step host race ctx c n) s t"
  shows "control_le (rs_control s) (rs_control t)"
  using assms
proof (induction rule: reaches.induct)
  case (reaches_step t u)
  then show ?case using race_step_control control_frame.frame_trans by blast
qed (simp add: control_frame.frame_refl)

section \<open>The race inside \<open>FirstSuccessfulPayload\<close>\<close>

text \<open>What the theorems below ask of the host: its closures and \<open>Accept\<close> keep to the order of the world.\<close>

locale lawful_race =
  fixes host :: "('f, ('f, 'x) exec_world_scheme) exec_host"
    and race :: "('f, ('f, 'x) exec_world_scheme, 'req, 'k :: zero, 'r :: zero, 'p :: zero) race"
  assumes closures_lawful: "lawful_host (exec_hostfn host)"
    and accept_keeps: "ra_Accept race = Some f \<Longrightarrow> world_frame.keeps (f ctx result)"
begin

lemma keeps_snapshot: "world_frame.keeps (Receipt_Snapshot r :: (('f, 'x) exec_world_scheme, _) proc)"
  by (auto simp: world_frame.keeps_def Receipt_Snapshot_def coord_snapshot_def seq_def split: prod.split)

lemma keeps_receipt_snapshot: "world_frame.keeps (receipt_of result Receipt_Snapshot :: (('f, 'x) exec_world_scheme, _) proc)"
  using keeps_snapshot by (auto simp: world_frame.keeps_def receipt_of_def split: option.split)

lemma keeps_call_accept: "world_frame.keeps (call_fn (ra_Accept race) (\<lambda>f. f ctx result))"
  using accept_keeps by (auto simp: world_frame.keeps_def call_fn_def split: option.split)

lemmas world_rules = world_frame.keeps_if world_frame.keeps_seq world_frame.keeps_ret world_frame.keeps_prod world_frame.keeps_option
  keeps_ctx_Err keeps_snapshot keeps_receipt_snapshot keeps_call_accept keeps_Close [OF closures_lawful]

lemma keeps_accept: "world_frame.keeps (accept race ctx result runErr)"
  unfolding accept_def by (intro world_rules)

lemma keeps_checkWinner: "world_frame.keeps (checkWinner ctx winner :: (('f, 'x) exec_world_scheme, err) proc)"
  unfolding checkWinner_def by (intro world_rules)

lemma keeps_close_rejected: "world_frame.keeps (close_rejected host result)"
  unfolding close_rejected_def by (intro world_rules)

lemma worker_act_world:
  assumes "worker_act host race ctx (worker, control, journal, w) = Some (worker', control', journal', w')"
  shows "world_le w w'"
proof (cases worker)
  case (WNext failures)
  then show ?thesis using assms by (auto simp: control_next_def split: option.splits if_splits list.splits)
next
  case (WRan plan result runErr failures)
  then show ?thesis using assms world_frame.keepsD [OF keeps_accept] by (auto split: outcome.splits prod.splits)
next
  case (WRejected plan result runErr e failures)
  then show ?thesis using assms world_frame.keepsD [OF keeps_close_rejected] by (auto simp: Let_def split: outcome.splits prod.splits)
qed (use assms in \<open>auto split: if_splits\<close>)

lemma close_winner_world:
  assumes "close_winner host race winner errs control w = Some (main, control', w')"
  shows "world_le w w'"
  using close_winner_simps(3) [OF assms] world_frame.keepsD [OF keeps_Close [OF closures_lawful]] by blast

lemma race_main_act_world:
  assumes "race_main_act host race ctx out main control w = Some (main', control', w')"
  shows "world_le w w'"
proof (cases main)
  case RaceWaiting
  then show ?thesis using assms close_winner_world by (cases out) (auto split: option.splits if_splits)
next
  case (RaceChecking winner)
  obtain r w1 where cw: "checkWinner ctx (res_Payload winner) w = (r, w1)" by fastforce
  then have "world_le w w1" using world_frame.keepsD [OF keeps_checkWinner] by blast
  then show ?thesis
    using assms RaceChecking cw close_winner_world [of winner _ control w1] world_le_trans [of w w1]
    by (auto split: outcome.splits option.splits)
next
  case (RaceFinalizing winner)
  then show ?thesis using assms close_winner_world by (auto split: prod.splits option.splits)
qed (use assms in simp)

text \<open>Seen from \<open>FirstSuccessfulPayload\<close>, the workers are handlers that run and return.\<close>

lemma race_step_first:
  assumes "race_step host race ctx c n s t"
  shows "first_run (exec_hostfn host) ctx n (rs_first s) (rs_first t)"
proof -
  have moves: "first_run (exec_hostfn host) ctx n (rs_first s) ((rs_first s)\<lparr>fs_world := w\<rparr>)" if "world_le (rs_world s) w" for w
    using that by (rule others)
  have stays: "first_run (exec_hostfn host) ctx n (rs_first s) (rs_first s)" using moves [of "rs_world s"] by simp
  show ?thesis
    using assms
  proof cases
    case (race_first f)
    then show ?thesis by (simp add: own)
  next
    case (race_attempt i plan failures u call v result e v')
    then show ?thesis using stays by simp
  next
    case (race_worker i worker control journal w)
    then show ?thesis using moves [OF worker_act_world [OF race_worker(4)]] by (simp add: set_world_def)
  next
    case (race_send i res e)
    then show ?thesis by (simp add: busy_def own branch_returns)
  next
    case (race_main out winner main control w)
    then show ?thesis using moves [OF race_main_act_world [OF race_main(3)]] by (simp add: set_world_def)
  next
    case (race_others w)
    then show ?thesis using moves by (simp add: set_world_def)
  qed
qed

lemma race_reaches_first:
  assumes "reaches (race_step host race ctx c n) s t"
  shows "reaches (first_run (exec_hostfn host) ctx n) (rs_first s) (rs_first t)"
  using assms
proof (induction rule: reaches.induct)
  case (reaches_step t u)
  show ?case using reaches_step.IH race_step_first [OF reaches_step.hyps(2)] by (rule reaches.reaches_step)
qed (rule reaches_refl)

end

section \<open>What is accepted\<close>

definition acceptable :: "('f, 'w, 'req, 'k, 'r, 'p) race \<Rightarrow> ('k, 'r, 'p) exec_result \<Rightarrow> bool" where
  "acceptable race result \<longleftrightarrow> xr_Started result \<and> xr_Receipt result \<noteq> None \<and> res_Action (xr_Route result) = ActionStop \<and>
     res_HasPayload (xr_Route result) \<and> (ra_Profile race = EarlyOwned \<longrightarrow> res_Lifetime (xr_Route result) \<noteq> None)"

lemma Receipt_Snapshot_world: "\<exists>v. Receipt_Snapshot r w = (Ret v, w)"
  by (auto simp: Receipt_Snapshot_def coord_snapshot_def seq_def split: prod.split)

lemma Receipt_Snapshot_tick: "Receipt_Snapshot r w = (Ret v, w) \<Longrightarrow> Receipt_Snapshot r (tick w) = (Ret v, tick w)"
  by (auto simp: Receipt_Snapshot_def coord_snapshot_def seq_def tick_def split: prod.splits)

lemma receipt_of_snapshot:
  "receipt_of result Receipt_Snapshot w = (Ret v, w') \<Longrightarrow> \<exists>r. xr_Receipt result = Some r \<and> Receipt_Snapshot r w = (Ret v, w) \<and> w' = w"
proof (cases "xr_Receipt result")
  case (Some r)
  obtain u where "Receipt_Snapshot r w = (Ret u, w)" using Receipt_Snapshot_world by blast
  then show "receipt_of result Receipt_Snapshot w = (Ret v, w') \<Longrightarrow> ?thesis" using Some by (simp add: receipt_of_def)
qed (simp add: receipt_of_def)

text \<open>The look at the receipt and the context that \<open>accept\<close> ends with.\<close>

lemma last_look:
  assumes "seq (receipt_of result Receipt_Snapshot) (\<lambda>(event, _, e).
      case e of
        Some x \<Rightarrow> ret (False, Some x)
      | None \<Rightarrow>
          if ev_Committed event then ret (False, Some ErrInvalidEvent)
          else seq (ctx_Err ctx) (\<lambda>e. case e of Some x \<Rightarrow> ret (False, Some x) | None \<Rightarrow> ret (True, None))) w = (Ret (True, e), w')"
  shows "e = None \<and> (\<exists>r event remaining. xr_Receipt result = Some r \<and> Receipt_Snapshot r w' = (Ret (event, remaining, None), w') \<and>
    \<not> ev_Committed event)"
proof -
  obtain event remaining e0 w1 where s: "receipt_of result Receipt_Snapshot w = (Ret (event, remaining, e0), w1)"
    using assms by (auto elim!: seq_RetE)
  then obtain r where r: "xr_Receipt result = Some r" "Receipt_Snapshot r w = (Ret (event, remaining, e0), w)" "w1 = w"
    using receipt_of_snapshot by blast
  then have "e0 = None" "\<not> ev_Committed event" "w' = tick w" "e = None"
    using assms s by (auto split: option.splits if_splits)
  then show ?thesis using r Receipt_Snapshot_tick [OF r(2)] by auto
qed

lemma accept_True:
  assumes "accept race ctx result runErr w = (Ret (True, e), w')"
  shows "e = None" "runErr = None" "acceptable race result"
    and "\<exists>r event remaining. xr_Receipt result = Some r \<and> Receipt_Snapshot r w' = (Ret (event, remaining, None), w') \<and> \<not> ev_Committed event"
proof -
  have a: "runErr = None" "xr_Started result" "xr_Receipt result \<noteq> None" "res_Action (xr_Route result) = ActionStop"
      "res_HasPayload (xr_Route result)"
    using assms by (auto simp: accept_def split: if_splits)
  obtain event n e1 w1 where s: "receipt_of result Receipt_Snapshot w = (Ret (event, n, e1), w1)"
    using assms a by (auto simp: accept_def elim!: seq_RetE)
  have b: "e1 = None" "\<not> ev_Committed event" "\<not> (ra_Profile race = CompleteOnly \<and> ev_Phase event \<noteq> Terminal)"
      "\<not> (ra_Profile race = EarlyOwned \<and> (res_Lifetime (xr_Route result) = None \<or> ev_Phase event < StreamOpened))"
    using assms a s by (auto simp: accept_def simp del: phase_less_code split: option.splits if_splits)
  have c: "ctx_err (tick w1) ctx = None"
    using assms a s b by (auto simp: accept_def simp del: phase_less_code split: option.splits)
  obtain accepted e2 w2 where f: "call_fn (ra_Accept race) (\<lambda>f. f ctx result) (tick w1) = (Ret (accepted, e2), w2)"
    using assms a s b c by (auto simp: accept_def simp del: phase_less_code elim!: seq_RetE)
  have k: "seq (receipt_of result Receipt_Snapshot) (\<lambda>(event, _, e).
      case e of
        Some x \<Rightarrow> ret (False, Some x)
      | None \<Rightarrow>
          if ev_Committed event then ret (False, Some ErrInvalidEvent)
          else seq (ctx_Err ctx) (\<lambda>e. case e of Some x \<Rightarrow> ret (False, Some x) | None \<Rightarrow> ret (True, None))) w2 = (Ret (True, e), w')"
    using assms a s b c f by (auto simp: accept_def simp del: phase_less_code split: if_splits)
  from last_look [OF k] show "e = None"
    "\<exists>r event remaining. xr_Receipt result = Some r \<and> Receipt_Snapshot r w' = (Ret (event, remaining, None), w') \<and> \<not> ev_Committed event"
    by auto
  show "runErr = None" "acceptable race result" using a b by (auto simp: acceptable_def)
qed

definition won_entry ::
  "('f, 'w, 'req, 'k, 'r, 'p) race \<Rightarrow> ('k, 'r, 'p) journal \<Rightarrow> ('k, 'r, 'p) exec_result basic_result \<Rightarrow> bool" where
  "won_entry race journal res \<longleftrightarrow> (\<exists>en \<in> set (jn_entries journal). re_Accepted en \<and> re_Err en = None \<and>
     acceptable race (re_Result en) \<and> res = winning (re_Result en))"

fun judged :: "('f, 'w, 'req, 'k, 'r, 'p) race \<Rightarrow> ('k, 'r, 'p) journal \<Rightarrow> ('req, 'k, 'r, 'p) worker \<Rightarrow> bool" where
  "judged race journal (WJudged plan result runErr accepted e failures) = (accepted \<longrightarrow> e = None \<and> acceptable race result)"
| "judged race journal (WAccepted plan result e) = (e = None \<and> acceptable race result)"
| "judged race journal (WDone res e) = (e = None \<and> res_HasPayload res \<longrightarrow> won_entry race journal res)"
| "judged race journal _ = True"

lemma won_entry_mono: "won_entry race j res \<Longrightarrow> set (jn_entries j) \<subseteq> set (jn_entries j') \<Longrightarrow> won_entry race j' res"
  unfolding won_entry_def by blast

lemma judged_mono: "judged race j worker \<Longrightarrow> set (jn_entries j) \<subseteq> set (jn_entries j') \<Longrightarrow> judged race j' worker"
  by (cases worker) (auto intro: won_entry_mono)

lemma worker_act_judged:
  assumes "worker_act host race ctx (worker, control, journal, w) = Some (worker', control', journal', w')" "judged race journal worker"
  shows "judged race journal' worker'" "set (jn_entries journal) \<subseteq> set (jn_entries journal')"
proof -
  have "judged race journal' worker' \<and> set (jn_entries journal) \<subseteq> set (jn_entries journal')"
  proof (cases worker)
    case (WNext failures)
    then show ?thesis
      using assms by (auto simp: AbortResult_def BasicNext_def Next_def split: prod.splits sum.splits option.splits)
  next
    case (WRan plan result runErr failures)
    then show ?thesis using assms accept_True(1,3) by (fastforce split: outcome.splits prod.splits)
  next
    case (WAccepted plan result e)
    then show ?thesis using assms by (auto simp: journal_append_def won_entry_def)
  next
    case (WStopping e)
    then show ?thesis using assms by (auto simp: AbortResult_def)
  qed (use assms in \<open>auto simp: Let_def journal_append_def split: outcome.splits prod.splits if_splits\<close>)
  then show "judged race journal' worker'" "set (jn_entries journal) \<subseteq> set (jn_entries journal')" by auto
qed

section \<open>The invariant\<close>

definition life_spent :: "('h, 'x) world_scheme \<Rightarrow> nat option \<Rightarrow> bool" where
  "life_spent w life \<longleftrightarrow> (case life of None \<Rightarrow> True | Some l \<Rightarrow> lt_done (w_lifes w l))"

lemma released_spent: "released w c = life_spent w (res_Lifetime (fc_result c))"
  by (simp add: released_def life_spent_def)

lemma life_spent_le: "life_spent w life \<Longrightarrow> world_le w v \<Longrightarrow> life_spent v life"
  by (auto simp: life_spent_def world_le_def life_le_def split: option.splits)

text \<open>How far \<open>Run\<close> has come with what \<open>FirstSuccessfulPayload\<close> returned.\<close>

fun main_ok ::
  "(('f, 'x) exec_world_scheme, string, string, ('k, 'r, 'p) exec_result) first_state \<Rightarrow> 'req control \<Rightarrow> ('k, 'r, 'p) race_main \<Rightarrow> bool" where
  "main_ok f control RaceWaiting = True"
| "main_ok f control (RaceChecking v) = (\<exists>wn. fs_caller f = Gone (Ret (v, None)) wn)"
| "main_ok f control (RaceFinalizing v) = (\<exists>wn. fs_caller f = Gone (Ret (v, None)) wn)"
| "main_ok f control (RaceReturned res e) =
     (\<exists>v e0 wn. fs_caller f = Gone (Ret (v, e0)) wn \<and>
        (if rr_Status res = RaceAccepted then e = None \<and> e0 = None \<and> kc_finalized control \<and> rr_Winner res = res_Payload v
         else e0 = None \<longrightarrow> life_spent (fs_world f) (res_Lifetime v)))"

definition sent_ok ::
  "('f, 'w, 'req, 'k, 'r, 'p) race \<Rightarrow> ('k, 'r, 'p) journal \<Rightarrow>
   ('v, string, string, ('k, 'r, 'p) exec_result) first_state \<Rightarrow> bool" where
  "sent_ok race journal f \<longleftrightarrow> (\<forall>c \<in> set (fs_taken f @ fs_results f). successful c \<longrightarrow> won_entry race journal (fc_result c))"

definition race_inv ::
  "('f, ('f, 'x) exec_world_scheme, 'req, 'k :: zero, 'r :: zero, 'p :: zero) race \<Rightarrow> ('f, 'x, 'req, 'k, 'r, 'p) race_state \<Rightarrow> bool" where
  "race_inv race s \<longleftrightarrow> (\<forall>worker \<in> set (rs_workers s). judged race (rs_journal s) worker) \<and> sent_ok race (rs_journal s) (rs_first s) \<and>
     main_ok (rs_first s) (rs_control s) (rs_main s)"

lemma sent_ok_mono: "sent_ok race j f \<Longrightarrow> set (jn_entries j) \<subseteq> set (jn_entries j') \<Longrightarrow> sent_ok race j' f"
  unfolding sent_ok_def using won_entry_mono by blast

lemma main_ok_le:
  assumes "main_ok f control main" "world_le (fs_world f) (fs_world f')" "kc_finalized control \<longrightarrow> kc_finalized control'"
    "\<And>out wn. fs_caller f = Gone out wn \<Longrightarrow> fs_caller f' = Gone out wn"
  shows "main_ok f' control' main"
proof (cases main)
  case (RaceReturned res e)
  then obtain v e0 wn where v: "fs_caller f = Gone (Ret (v, e0)) wn"
      "if rr_Status res = RaceAccepted then e = None \<and> e0 = None \<and> kc_finalized control \<and> rr_Winner res = res_Payload v
         else e0 = None \<longrightarrow> life_spent (fs_world f) (res_Lifetime v)" using assms(1) by auto
  then show ?thesis using RaceReturned assms(3) assms(4) [OF v(1)] life_spent_le [OF _ assms(2)] by (auto split: if_splits)
qed (use assms(1,4) in auto)

lemma first_step_gone: "first_step hostfn ctx n s t \<Longrightarrow> fs_caller s = Gone out wn \<Longrightarrow> fs_caller t = Gone out wn"
  by (erule first_step.cases) (auto simp: send_def leave_def taking_def)

lemma first_run_gone: "first_run hostfn ctx n s t \<Longrightarrow> fs_caller s = Gone out wn \<Longrightarrow> fs_caller t = Gone out wn"
  by (erule first_run.cases) (auto dest: first_step_gone)

lemma first_step_world:
  assumes "lawful_host hostfn" "first_step hostfn ctx n s t"
  shows "world_le (fs_world s) (fs_world t)"
  using assms(2)
proof cases
  case (launch c w)
  then show ?thesis using world_le_WithCancel [of "fs_world s" ctx] by simp
next
  case (collects allErrors latest c cs allErrors' latest' w)
  then show ?thesis using world_frame.keepsD [OF keeps_collect_received [OF assms(1)] collects(4)] by simp
next
  case (decides allErrors latest c cs out winner w)
  then show ?thesis
    using world_le_trans [OF world_frame.keepsD [OF keeps_collect_received [OF assms(1)] decides(4)] world_le_cancel_others]
    by (simp add: leave_def)
next
  case (panics allErrors latest c cs w)
  then show ?thesis
    using world_le_trans [OF world_frame.keepsD [OF keeps_collect_received [OF assms(1)] panics(4)] world_le_cancel_others]
    by (simp add: leave_def)
next
  case (cancelled allErrors latest x w)
  then show ?thesis using world_le_trans [OF world_le_tick world_le_cancel_others] by (auto simp: leave_def)
next
  case (drains out winner c cs e w)
  then show ?thesis using world_frame.keepsD [OF keeps_Close [OF assms(1)] drains(4)] by simp
qed (auto simp: send_def leave_def world_le_cancel_others)

lemma first_run_world:
  assumes "lawful_host hostfn" "first_run hostfn ctx n s t"
  shows "world_le (fs_world s) (fs_world t)"
  using assms(2) by cases (use first_step_world [OF assms(1)] in auto)

text \<open>Without a return of a branch that is running, nothing successful is sent.\<close>

lemma first_step_sent:
  assumes "first_step hostfn ctx n f g" "sent_ok race j f"
    and "\<And>i. i < length (fs_branches f) \<Longrightarrow> fs_branches f ! i = BranchBusy \<Longrightarrow> fs_branches g ! i = BranchBusy"
  shows "sent_ok race j g"
  using assms(1)
proof cases
  case (branch_stops i x w)
  then show ?thesis using assms(2) by (auto simp: sent_ok_def send_def successful_def)
next
  case (branch_returns i res e)
  then have "fs_branches g ! i = BranchSent" by (simp add: send_def)
  then show ?thesis using assms(3) [OF branch_returns(2,3)] by simp
qed (use assms(2) in \<open>auto simp: sent_ok_def leave_def taking_def\<close>)

context lawful_race
begin

lemma race_main_act_ok:
  assumes "race_main_act host race ctx out main control (fs_world f) = Some (main', control', w')" "main_ok f control main"
    "fs_caller f = Gone (Ret out) wn"
  shows "main_ok (f\<lparr>fs_world := w'\<rparr>) control' main'"
proof -
  have spent: "life_spent w' (res_Lifetime v)"
    if cw: "close_winner host race v errs control0 w = Some (main', control', w')" for v errs control0 w
  proof -
    obtain e where "Close (exec_hostfn host) (res_Lifetime v) w = (Ret e, w')" using close_winner_simps(3) [OF cw] by blast
    then show ?thesis using Close_done [OF closures_lawful] by (cases "res_Lifetime v") (auto simp: life_spent_def)
  qed
  obtain v e where out: "out = (v, e)" by fastforce
  show ?thesis
  proof (cases main)
    case RaceWaiting
    then show ?thesis
      using assms out spent close_winner_simps(2) by (fastforce simp: no_result_def split: option.splits if_splits)
  next
    case (RaceChecking winner)
    then show ?thesis
      using assms out spent close_winner_simps(2) by (fastforce simp: no_result_def split: option.splits outcome.splits prod.splits)
  next
    case (RaceFinalizing winner)
    then show ?thesis
      using assms out spent close_winner_simps(2)
      by (fastforce simp: no_result_def control_finalize_def split: option.splits prod.splits)
  qed (use assms in simp)
qed

lemma race_inv_step:
  assumes inv: "race_inv race s" and step: "race_step host race ctx c n s t"
  shows "race_inv race t"
proof -
  note run = race_step_first [OF step]
  have fin: "kc_finalized (rs_control s) \<longrightarrow> kc_finalized (rs_control t)"
    using race_step_control [OF step] unfolding control_le_def by blast
  have "main_ok (rs_first s) (rs_control s) (rs_main s)" using inv by (simp add: race_inv_def)
  from main_ok_le [OF this first_run_world [OF closures_lawful run] fin first_run_gone [OF run]]
  have main: "main_ok (rs_first t) (rs_control t) (rs_main s)" .
  from step show ?thesis
  proof cases
    case (race_first f)
    have "sent_ok race (rs_journal s) f"
      by (rule first_step_sent [OF race_first(2)]) (use inv race_first(3) in \<open>simp_all add: race_inv_def busy_def\<close>)
    then show ?thesis using inv main by (simp add: race_first(1) race_inv_def)
  next
    case (race_attempt i plan failures u call v result e v')
    then show ?thesis using inv main by (auto simp: race_inv_def dest!: subsetD [OF set_update_subset_insert])
  next
    case (race_worker i worker control journal w)
    have "judged race (rs_journal s) (rs_workers s ! i)" using inv race_worker(3) by (simp add: race_inv_def)
    note j = worker_act_judged [OF race_worker(4) this]
    have "judged race journal x" if "x \<in> set (rs_workers s)" for x
      using judged_mono [OF _ j(2)] inv that by (auto simp: race_inv_def)
    moreover have "sent_ok race journal (rs_first s)" using sent_ok_mono [OF _ j(2)] inv by (auto simp: race_inv_def)
    ultimately show ?thesis
      using j(1) main
      by (auto simp: race_worker(1) race_inv_def set_world_def sent_ok_def dest!: subsetD [OF set_update_subset_insert])
  next
    case (race_send i res e)
    have "judged race (rs_journal s) (WDone res e)" using inv race_send(3,4) by (metis nth_mem race_inv_def)
    then have "sent_ok race (rs_journal s) (send i res e (rs_first s))"
      using inv by (auto simp: race_inv_def sent_ok_def send_def successful_def)
    then show ?thesis using inv main by (simp add: race_send(1) race_inv_def)
  next
    case (race_main out winner main' control w)
    then show ?thesis
      using inv race_main_act_ok [OF race_main(3) _ race_main(2)] by (auto simp: race_inv_def set_world_def sent_ok_def)
  next
    case (race_others w)
    then show ?thesis using inv main by (auto simp: race_inv_def set_world_def sent_ok_def)
  qed
qed

lemma race_inv_reachable: "reaches (race_step host race ctx c n) s t \<Longrightarrow> race_inv race s \<Longrightarrow> race_inv race t"
proof (induction rule: reaches.induct)
  case (reaches_step t u)
  show ?case by (rule race_inv_step [OF _ reaches_step.hyps(2)]) (rule reaches_step.IH [OF reaches_step.prems])
qed simp

end

section \<open>Properties\<close>

lemma validate_plans_distinct:
  "validate_plans co operation seen plans = None \<Longrightarrow> distinct (map sp_Identity plans) \<and> sp_Identity ` set plans \<inter> set seen = {}"
proof (induction plans arbitrary: seen)
  case (Cons plan plans)
  then have "validate_plans co operation (sp_Identity plan # seen) plans = None" "sp_Identity plan \<notin> set seen"
    by (auto simp: Let_def split: if_splits)
  then show ?case using Cons.IH [of "sp_Identity plan # seen"] by auto
qed simp

lemma race_start_Inr:
  assumes "race_start race ctx coordinator plans w = Inr s"
  shows "distinct (map sp_Identity plans)" "kc_queue (rs_control s) = plans" "jn_entries (rs_journal s) = []"
    "rs_workers s = replicate (race_workers race plans) (WNext [])" "rs_main s = RaceWaiting"
    "\<exists>v. rs_first s = first_start v \<and> world_le w v"
proof -
  have v: "race_validate race (map_option (xw_coords w) coordinator) plans = None"
    using assms by (auto simp: race_start_def split: option.splits if_splits prod.splits)
  then show "distinct (map sp_Identity plans)"
    using validate_plans_distinct by (auto simp: race_validate_def split: option.splits if_splits)
  obtain call w1 where n: "NewRouteCall (Some ctx) () (tick w) = (call, w1)" by fastforce
  then have "world_le w (tick w1)"
    using world_le_NewRouteCall [of "tick w" "Some ctx" "()"] world_le_trans [OF world_le_trans [OF world_le_tick]] by (metis snd_conv world_le_tick)
  moreover have "rs_first s = first_start (tick w1)" and "kc_queue (rs_control s) = plans" "jn_entries (rs_journal s) = []"
    "rs_workers s = replicate (race_workers race plans) (WNext [])" "rs_main s = RaceWaiting"
    using assms v n by (auto simp: race_start_def split: option.splits if_splits)
  ultimately show "kc_queue (rs_control s) = plans" "jn_entries (rs_journal s) = []"
    "rs_workers s = replicate (race_workers race plans) (WNext [])" "rs_main s = RaceWaiting"
    "\<exists>v. rs_first s = first_start v \<and> world_le w v" by auto
qed

text \<open>
  C23 (invariant). Every plan of a race is run at most once: in every interleaving, each plan is waiting in the queue, held by
  one worker, or entered once into the journal, and no two have the same identity.
\<close>

theorem race_runs_each_plan_once:
  assumes "race_start race ctx coordinator plans w = Inr s0" "reaches (race_step host race ctx c n) s0 s"
  shows "mset (map sp_Identity (kc_queue (rs_control s)) @ concat (map held (rs_workers s)) @ map re_Identity (jn_entries (rs_journal s))) =
      mset (map sp_Identity plans) \<and>
    distinct (map sp_Identity (kc_queue (rs_control s)) @ concat (map held (rs_workers s)) @ map re_Identity (jn_entries (rs_journal s)))"
proof -
  have "race_ids s = race_ids s0"
    using assms(2) by (induction rule: reaches.induct) (auto dest: race_step_ids)
  then have m: "mset (map sp_Identity (kc_queue (rs_control s)) @ concat (map held (rs_workers s)) @ map re_Identity (jn_entries (rs_journal s))) =
      mset (map sp_Identity plans)"
    using race_start_Inr(2-4) [OF assms(1)] by (simp add: race_ids_def plan_ids_def ac_simps)
  with mset_eq_imp_distinct_iff [OF m] race_start_Inr(1) [OF assms(1)] show ?thesis by blast
qed

text \<open>
  C22 (safety). Nothing is started after the end: once the control block has observed a fatal error or is finalized, no step of
  any goroutine takes another plan from the queue, and it stays so.
\<close>

theorem race_stops_authorizing:
  assumes "reaches (race_step host race ctx c n) s t" "refusing (rs_control s)"
  shows "kc_queue (rs_control t) = kc_queue (rs_control s) \<and> refusing (rs_control t)"
  using control_le_refusing [OF reaches_control [OF assms(1)] assms(2)] by simp

lemma race_inv_start:
  assumes "race_start race ctx coordinator plans w = Inr s"
  shows "race_inv race s"
  using race_start_Inr(3-6) [OF assms] by (auto simp: race_inv_def sent_ok_def first_start_def)

lemma race_first_inv:
  assumes "lawful_race host race" "race_start race ctx coordinator plans w = Inr s0" "ctx_within w ctx"
    "reaches (race_step host race ctx c n) s0 s"
  shows "first_inv ctx n (rs_first s)"
proof -
  obtain v where v: "rs_first s0 = first_start v" "world_le w v" using race_start_Inr(6) [OF assms(2)] by blast
  show ?thesis
    by (rule first_reachable [OF lawful_race.closures_lawful [OF assms(1)] ctx_within_le [OF assms(3) v(2)]])
      (use lawful_race.race_reaches_first [OF assms(1,4)] v(1) in simp)
qed

lemma explained_success:
  "explained ctx n w taken v None winner \<Longrightarrow> \<exists>c \<in> set taken. successful c \<and> v = fc_result c"
  by (auto simp: explained_def nobody_won_def faulty_def split: option.splits dest: sym [of "(v, None)"])

lemma race_start_unfinalized: "race_start race ctx coordinator plans w = Inr s \<Longrightarrow> \<not> kc_finalized (rs_control s)"
  by (auto simp: race_start_def split: option.splits if_splits prod.splits)

text \<open>The finalization is one step of \<open>Run\<close>, and with it \<open>Run\<close> returns.\<close>

lemma worker_act_finalized:
  assumes "worker_act host race ctx (worker, control, journal, w) = Some (worker', control', journal', w')"
  shows "kc_finalized control' = kc_finalized control"
proof (cases worker)
  case (WNext failures)
  obtain r control1 w1 where cn: "control_next ctx control w = (r, control1, w1)" by (metis prod_cases3)
  from cn show ?thesis using assms WNext cn by (cases rule: control_next_cases) auto
qed (use assms in \<open>auto simp: Let_def split: outcome.splits prod.splits if_splits\<close>)

lemma race_main_act_finalizes:
  assumes "race_main_act host race ctx out main control w = Some (main', control', w')" "\<not> kc_finalized control" "kc_finalized control'"
  shows "kc_err control = None \<and> kc_queue control' = kc_queue control \<and> (\<exists>res e. main' = RaceReturned res e)"
proof -
  have closing: "control' = control0" if "close_winner host race v errs control0 w0 = Some (main', control', w')" for v errs control0 w0
    using that by (auto simp: close_winner_def split: prod.splits outcome.splits)
  obtain v e where out: "out = (v, e)" by fastforce
  show ?thesis
  proof (cases main)
    case RaceWaiting
    then show ?thesis using assms out closing by (fastforce split: option.splits if_splits)
  next
    case (RaceChecking winner)
    then show ?thesis using assms out closing by (fastforce split: option.splits outcome.splits prod.splits)
  next
    case (RaceFinalizing winner)
    then show ?thesis using assms out closing by (fastforce simp: control_finalize_def split: option.splits)
  qed (use assms in simp)
qed

lemma race_step_finalizes:
  assumes "race_step host race ctx c n s t" "\<not> kc_finalized (rs_control s)" "kc_finalized (rs_control t)"
  shows "kc_err (rs_control s) = None \<and> kc_queue (rs_control t) = kc_queue (rs_control s) \<and> (\<exists>res e. rs_main t = RaceReturned res e)"
  using assms(1)
proof cases
  case (race_worker i worker control journal w)
  then show ?thesis using worker_act_finalized [OF race_worker(4)] assms(2,3) by (simp add: set_world_def)
next
  case (race_main out winner main control w)
  then show ?thesis using race_main_act_finalizes [OF race_main(3)] assms(2,3) by (simp add: set_world_def)
qed (use assms in \<open>simp_all add: set_world_def\<close>)

lemma race_step_returned: "race_step host race ctx c n s t \<Longrightarrow> rs_main s = RaceReturned res e \<Longrightarrow> rs_main t = RaceReturned res e"
  by (erule race_step.cases) (auto simp: set_world_def)

lemma reaches_returned:
  "reaches (race_step host race ctx c n) s t \<Longrightarrow> rs_main s = RaceReturned res e \<Longrightarrow> rs_main t = RaceReturned res e"
  by (induction rule: reaches.induct) (auto dest: race_step_returned)

lemma reaches_crossing:
  assumes "reaches step s t" "\<not> Q s" "Q t"
  shows "\<exists>u v. reaches step s u \<and> \<not> Q u \<and> step u v \<and> Q v \<and> reaches step v t"
  using assms by (induction rule: reaches.induct) (blast intro: reaches.intros)+

lemma race_finalized_once:
  assumes "reaches (race_step host race ctx c n) s t" "\<not> kc_finalized (rs_control s)" "kc_finalized (rs_control t)"
    "rs_main t = RaceReturned res e"
  shows "\<exists>before after. reaches (race_step host race ctx c n) s before \<and> race_step host race ctx c n before after \<and>
    reaches (race_step host race ctx c n) after t \<and> \<not> kc_finalized (rs_control before) \<and> kc_err (rs_control before) = None \<and>
    kc_finalized (rs_control after) \<and> rs_main after = RaceReturned res e \<and> kc_queue (rs_control t) = kc_queue (rs_control before)"
proof -
  obtain u v where uv: "reaches (race_step host race ctx c n) s u" "\<not> kc_finalized (rs_control u)" "race_step host race ctx c n u v"
    "kc_finalized (rs_control v)" "reaches (race_step host race ctx c n) v t"
    using reaches_crossing [OF assms(1), of "\<lambda>s. kc_finalized (rs_control s)"] assms(2,3) by blast
  note last = race_step_finalizes [OF uv(3,2,4)]
  then obtain res' e' where "rs_main v = RaceReturned res' e'" by blast
  moreover from this have "res' = res \<and> e' = e" using reaches_returned [OF uv(5)] assms(4) by fastforce
  moreover have "kc_queue (rs_control t) = kc_queue (rs_control v)"
    using control_le_refusing [OF reaches_control [OF uv(5)]] uv(4) by (simp add: refusing_def)
  ultimately show ?thesis using uv last by (intro exI [of _ u] exI [of _ v]) simp
qed

text \<open>
  C21 (safety). What a race returns as accepted has been accepted: the winner is the result of an entry of the journal that
  \<open>accept\<close> approved, of an attempt that was started and ended in a terminal result with a payload, owned if the profile asks
  for that. At the step that finalized the race and returned this result no fatal error had been observed, and from then on
  no plan is taken from the queue, whatever errors the other workers still observe.
\<close>

theorem race_winner_was_accepted:
  assumes "lawful_race host race" "race_start race ctx coordinator plans w = Inr s0" "ctx_within w ctx"
    "reaches (race_step host race ctx c n) s0 s" "rs_main s = RaceReturned res e" "rr_Status res = RaceAccepted"
  shows "e = None \<and> kc_finalized (rs_control s) \<and> acceptable race (rr_Winner res) \<and>
    (\<exists>en \<in> set (jn_entries (rs_journal s)). re_Accepted en \<and> re_Err en = None \<and> re_Result en = rr_Winner res) \<and>
    (\<exists>before after. reaches (race_step host race ctx c n) s0 before \<and> race_step host race ctx c n before after \<and>
      reaches (race_step host race ctx c n) after s \<and>
      \<not> kc_finalized (rs_control before) \<and> kc_err (rs_control before) = None \<and>
      kc_finalized (rs_control after) \<and> rs_main after = RaceReturned res e \<and>
      kc_queue (rs_control s) = kc_queue (rs_control before))"
proof -
  have inv: "race_inv race s" using lawful_race.race_inv_reachable [OF assms(1,4)] race_inv_start [OF assms(2)] by blast
  then obtain v wn where v: "fs_caller (rs_first s) = Gone (Ret (v, None)) wn" "rr_Winner res = res_Payload v"
    "e = None" "kc_finalized (rs_control s)" using assms(5,6) by (auto simp: race_inv_def)
  have "explained ctx n (rs_world s) (fs_taken (rs_first s)) v None wn"
    using race_first_inv [OF assms(1-4)] v(1) by (auto simp: first_inv_def inv_caller_def)
  then obtain c where "c \<in> set (fs_taken (rs_first s))" "successful c" "v = fc_result c" using explained_success by blast
  then have "won_entry race (rs_journal s) v" using inv by (auto simp: race_inv_def sent_ok_def)
  then show ?thesis
    using v(2-4) race_finalized_once [OF assms(4) race_start_unfinalized [OF assms(2)] v(4) assms(5)]
    by (auto simp: won_entry_def winning_def BasicHandled_def Handled_def)
qed

text \<open>
  C20 (safety). A race leaks nothing: when \<open>Run\<close> has returned, every result that was received from a worker is released, unless
  it is the winner that \<open>Run\<close> returned as accepted; a winner that \<open>Run\<close> turns down at the end, for a fatal error, the end of
  the context or committed output, is released like the others.
\<close>

theorem race_never_leaks:
  assumes "lawful_race host race" "race_start race ctx coordinator plans w = Inr s0" "ctx_within w ctx"
    "reaches (race_step host race ctx c n) s0 s" "rs_main s = RaceReturned res e" "r \<in> set (fs_taken (rs_first s))"
  shows "released (rs_world s) r \<or> rr_Status res = RaceAccepted \<and> rr_Winner res = res_Payload (fc_result r)"
proof -
  have inv: "race_inv race s" using lawful_race.race_inv_reachable [OF assms(1,4)] race_inv_start [OF assms(2)] by blast
  then obtain v e0 wn where v: "fs_caller (rs_first s) = Gone (Ret (v, e0)) wn"
    "if rr_Status res = RaceAccepted then e = None \<and> e0 = None \<and> kc_finalized (rs_control s) \<and> rr_Winner res = res_Payload v
         else e0 = None \<longrightarrow> life_spent (rs_world s) (res_Lifetime v)" using assms(5) by (auto simp: race_inv_def)
  have "released (rs_world s) r \<or> successful r \<and> v = fc_result r \<and> e0 = None"
    using race_first_inv [OF assms(1-4)] v(1) assms(6) by (auto simp: first_inv_def inv_caller_def)
  then show ?thesis using v(2) by (auto simp: released_spent split: if_splits)
qed

text \<open>
  A race of one plan over the example boundary of \<open>Boundary\<close>. The attempt's effects on the coordinator and the receipt come
  with a step of the others.
\<close>

definition demo_race :: "(nat, (nat, unit) exec_world_scheme, nat, nat, nat, nat) race" where
  "demo_race = \<lparr>ra_Boundary = demo_boundary, ra_Workers = 1,
     ra_Permissions = \<lparr>pm_Replayable = False, pm_DuplicateCost = False, pm_ReadOnly = False, pm_DuplicateEffects = False\<rparr>,
     ra_Profile = CompleteOnly, ra_Accept = Some (\<lambda>_ _. ret (True, None)), ra_NestedAttemptsKnown = True\<rparr>"

definition demo_plan :: "nat step" where
  "demo_plan = \<lparr>sp_Request = 1, sp_Identity = demo_identity ''a''\<rparr>"

lemma demo_closures_lawful: "lawful_host (exec_hostfn demo_host)"
proof -
  have "world_frame.keeps (exec_hostfn demo_host h)" for h
  proof (cases h)
    case (CloseReceipt r)
    show ?thesis
      by (rule world_frame.keepsI)
        (auto simp: CloseReceipt Receipt_close_def settle_def finishSettlement_def demo_host_def seq_def coord_snapshot_def coord_call_def
          upd_receipt_def set_err_def with_defer_def world_le_def life_le_def Let_def split: prod.split option.split outcome.split)
  qed (simp add: demo_host_def world_frame.keeps_ret)
  then show ?thesis by (simp add: lawful_host_def)
qed

interpretation demo_race: lawful_race demo_host demo_race
  by unfold_locales (auto simp: demo_race_def demo_closures_lawful world_frame.keeps_ret)

definition demo_race_start :: "(nat, unit, nat, nat, nat, nat) race_state" where
  "demo_race_start = (case race_start demo_race Background (Some 0) [demo_plan] demo_exec_world of Inr s \<Rightarrow> s)"

lemma demo_race_starts: "race_start demo_race Background (Some 0) [demo_plan] demo_exec_world = Inr demo_race_start"
  by (simp add: demo_race_start_def race_start_def race_validate_def demo_race_def demo_plan_def demo_exec_defs Snapshot_def ctx_err_def
      allowsDuplication_def NewRouteCall_def Let_def)

definition demo_world_after :: "(nat, unit) exec_world_scheme" where
  "demo_world_after = demo_exec_world\<lparr>w_step := 9, w_fresh := 60,
     xw_coords := (\<lambda>_. demo_coordinator)(0 := demo_coordinator\<lparr>co_events := [(''a'',
       \<lparr>ev_Identity = demo_identity ''a'', ev_Phase = Terminal, ev_Committed = False, ev_Outcome = Unknown\<rparr>)]\<rparr>),
     xw_receipts := (xw_receipts demo_exec_world)(50 := \<lparr>rt_coordinator = 0, rt_identity = demo_identity ''a'', rt_finish = Some 7,
       rt_cleanupContext = Some 3, rt_closed = True, rt_err = None\<rparr>)\<rparr>"

definition demo_result :: "(nat, nat, nat) exec_result" where
  "demo_result = \<lparr>xr_Route = Handled 1 0 5, xr_Admission = Admitted, xr_RetryAt = 0, xr_Receipt = Some 50, xr_Started = True,
     xr_BudgetExhausted = False\<rparr>"

lemma demo_race_world: "world_le (rs_world demo_race_start) demo_world_after" "exec_le (rs_world demo_race_start) demo_world_after"
proof -
  have w: "rs_world demo_race_start = demo_exec_world\<lparr>w_step := 2, w_fresh := 2, w_decisions := (\<lambda>_. [])(1 := [])\<rparr>"
    by (simp add: demo_race_start_def race_start_def race_validate_def demo_race_def demo_plan_def demo_exec_defs Snapshot_def ctx_err_def
        tick_def allowsDuplication_def NewRouteCall_def Let_def first_start_def numeral_2_eq_2)
  show "world_le (rs_world demo_race_start) demo_world_after"
    unfolding w by (simp add: world_le_def life_le_def demo_world_after_def demo_exec_world_def)
  show "exec_le (rs_world demo_race_start) demo_world_after"
    unfolding w
    by (auto simp: exec_le_def coord_le_def coord_inv_def std_contexts_def receipt_le_def receipt_ok_def recorded_def Let_def
        demo_world_after_def demo_exec_world_def demo_coordinator_def demo_identity_def validEvent_def)
qed

lemma demo_attempt:
  "\<exists>call v v'. NewRouteCall (Some (Ctx 60 None Background)) 1 (demo_exec_world\<lparr>w_fresh := 49\<rparr>) = (call, v) \<and>
     Run demo_host demo_boundary call (Some 0) (demo_identity ''a'') v = Some (Ret (demo_result, None), v')"
  by (simp add: demo_exec_defs NewRouteCall_def Run_def run_def lseq_def coord_call_def Begin_def Let_def new_receipt_def prepare_def seq_def
      ctx_err_def upd_receipt_def invoke_def Receipt_start_def Receipt_Snapshot_def coord_snapshot_def Snapshot_def Record_def
      Update_def validEvent_def dispatch_once_def ValidateRouteResult_def validateReturnedResult_def Handled_def demo_result_def
      Receipt_close_def settle_def finishSettlement_def with_defer_def set_err_def errors_Join_def tick_def zero_result_def)

text \<open>The states of the run, its world with a step count and the cancellations.\<close>

definition demo_world :: "nat \<Rightarrow> (nat \<Rightarrow> (nat \<times> gerror) option) \<Rightarrow> (nat, unit) exec_world_scheme" where
  "demo_world k m = demo_world_after\<lparr>w_cancel := m, w_fresh := 61, w_step := k\<rparr>"

definition demo_ctx :: ctx where
  "demo_ctx = Ctx 60 None Background"

abbreviation demo_control :: "nat control" where
  "demo_control \<equiv> \<lparr>kc_queue = [], kc_err = None, kc_finalized = False\<rparr>"

abbreviation demo_entries :: "(nat, nat, nat) journal" where
  "demo_entries \<equiv> \<lparr>jn_entries = [\<lparr>re_Identity = demo_identity ''a'', re_Result = demo_result, re_Err = None, re_Accepted = True\<rparr>],
     jn_changed = True\<rparr>"

text \<open>The first step of the worker, from then on inside its branch, and the last before it sends.\<close>

definition demo_inside :: "nat \<Rightarrow> (nat, nat, nat, nat) worker \<Rightarrow> nat control \<Rightarrow> (nat, nat, nat) journal \<Rightarrow>
    (nat, unit, nat, nat, nat, nat) race_state" where
  "demo_inside k wk control journal =
     \<lparr>rs_first = \<lparr>fs_world = demo_world k (\<lambda>_. None), fs_branches = [BranchBusy], fs_contexts = [demo_ctx], fs_results = [],
        fs_taken = [], fs_caller = Collecting [None] zeroResult\<rparr>,
      rs_control = control, rs_journal = journal, rs_workers = [wk], rs_main = RaceWaiting\<rparr>"

definition demo_after :: "nat \<Rightarrow> (nat, nat, nat) race_main \<Rightarrow> nat control \<Rightarrow> (nat, unit, nat, nat, nat, nat) race_state" where
  "demo_after k main control =
     \<lparr>rs_first = \<lparr>fs_world = demo_world k ((\<lambda>_. None)(60 := Some (13, ContextCanceled))), fs_branches = [BranchSent],
        fs_contexts = [demo_ctx], fs_results = [], fs_taken = [\<lparr>fc_index = 0, fc_result = winning demo_result, fc_err = None\<rparr>],
        fs_caller = Gone (Ret (winning demo_result, None)) None\<rparr>,
      rs_control = control, rs_journal = demo_entries, rs_workers = [WDone (winning demo_result) None], rs_main = main\<rparr>"

lemma demo_world_simps [simp]:
  "tick (demo_world k m) = demo_world (Suc k) m"
  "ctx_err (demo_world k (\<lambda>_. None)) demo_ctx = None"
  "ctx_err w Background = None"
  "Receipt_Snapshot 50 (demo_world k m) = (Ret (\<lparr>ev_Identity = demo_identity ''a'', ev_Phase = Terminal, ev_Committed = False,
     ev_Outcome = Unknown\<rparr>, 1, None), demo_world k m)"
  by (simp_all add: demo_world_def tick_def ctx_err_def demo_ctx_def Receipt_Snapshot_def coord_snapshot_def Snapshot_def
      demo_world_after_def demo_exec_world_def demo_coordinator_def demo_identity_def seq_def errors_Join_def)

lemma demo_race_opens:
  "reaches (race_step demo_host demo_race Background 0 1) demo_race_start
     (demo_inside 10 (WNext []) (demo_control\<lparr>kc_queue := [demo_plan]\<rparr>) \<lparr>jn_entries = [], jn_changed = False\<rparr>)"
proof -
  let ?R = "race_step demo_host demo_race Background 0 1"
  define begun where "begun w bs cs k = demo_race_start\<lparr>rs_first := \<lparr>fs_world = w, fs_branches = bs, fs_contexts = cs,
     fs_results = [], fs_taken = [], fs_caller = k\<rparr>\<rparr>" for w bs cs k
  have start: "rs_first demo_race_start = first_start (rs_world demo_race_start)" "rs_control demo_race_start = demo_control\<lparr>kc_queue := [demo_plan]\<rparr>"
    "rs_journal demo_race_start = \<lparr>jn_entries = [], jn_changed = False\<rparr>" "rs_workers demo_race_start = [WNext []]" "rs_main demo_race_start = RaceWaiting"
    by (simp_all add: demo_race_start_def race_start_def race_validate_def demo_race_def demo_plan_def demo_exec_defs Snapshot_def ctx_err_def
        allowsDuplication_def NewRouteCall_def Let_def first_start_def race_workers_def)
  have own: "?R (begun w bs cs k) (begun w' bs' cs' k')"
    if "first_step (exec_hostfn demo_host) Background 1 (rs_first (begun w bs cs k)) (rs_first (begun w' bs' cs' k'))" "bs = [] \<or> bs = [BranchReady]"
    for w bs cs k w' bs' cs' k'
    using race_step.race_first [OF that(1), where race = demo_race and c = 0] that(2) by (auto simp: begun_def busy_def)
  have "?R demo_race_start (begun demo_world_after [] [] Launching)"
    using race_step.race_others [OF demo_race_world, where host = demo_host and race = demo_race and ctx = Background and c = 0 and n = 1] start(1)
    by (simp add: begun_def set_world_def first_start_def) (metis first_state.update_convs(1))
  moreover have "?R (begun demo_world_after [] [] Launching) (begun (demo_world 9 (\<lambda>_. None)) [BranchReady] [demo_ctx] Launching)"
    using first_step.launch [of "rs_first (begun demo_world_after [] [] Launching)" 1 Background demo_ctx "demo_world 9 (\<lambda>_. None)"]
    by (intro own) (auto simp: begun_def WithCancel_def demo_world_def demo_world_after_def demo_exec_world_def demo_ctx_def)
  moreover have "?R (begun (demo_world 9 (\<lambda>_. None)) [BranchReady] [demo_ctx] Launching)
      (begun (demo_world 9 (\<lambda>_. None)) [BranchReady] [demo_ctx] (Collecting [None] zeroResult))"
    using first_step.launched [of "rs_first (begun (demo_world 9 (\<lambda>_. None)) [BranchReady] [demo_ctx] Launching)" 1]
    by (intro own) (auto simp: begun_def)
  moreover have "?R (begun (demo_world 9 (\<lambda>_. None)) [BranchReady] [demo_ctx] (Collecting [None] zeroResult))
      (begun (demo_world 10 (\<lambda>_. None)) [BranchBusy] [demo_ctx] (Collecting [None] zeroResult))"
    using first_step.branch_starts [of 0 "rs_first (begun (demo_world 9 (\<lambda>_. None)) [BranchReady] [demo_ctx] (Collecting [None] zeroResult))"
        "demo_world 10 (\<lambda>_. None)"]
    by (intro own) (auto simp: begun_def ctx_Err_def)
  ultimately have "reaches ?R demo_race_start (begun (demo_world 10 (\<lambda>_. None)) [BranchBusy] [demo_ctx] (Collecting [None] zeroResult))"
    by (meson reaches.intros)
  moreover have "begun (demo_world 10 (\<lambda>_. None)) [BranchBusy] [demo_ctx] (Collecting [None] zeroResult) =
      demo_inside 10 (WNext []) (demo_control\<lparr>kc_queue := [demo_plan]\<rparr>) \<lparr>jn_entries = [], jn_changed = False\<rparr>"
    using start by (simp add: begun_def demo_inside_def)
  ultimately show ?thesis by simp
qed

lemma demo_worker_run:
  "reaches (race_step demo_host demo_race Background 0 1)
     (demo_inside 10 (WNext []) (demo_control\<lparr>kc_queue := [demo_plan]\<rparr>) \<lparr>jn_entries = [], jn_changed = False\<rparr>)
     (demo_inside 13 (WDone (winning demo_result) None) demo_control demo_entries)"
proof -
  let ?R = "race_step demo_host demo_race Background 0 1"
  let ?no = "\<lparr>jn_entries = [], jn_changed = False\<rparr> :: (nat, nat, nat) journal"
  have busy: "busy (demo_inside k wk control journal) 0" for k wk control journal by (simp add: busy_def demo_inside_def)
  have act: "?R (demo_inside k wk control journal) (demo_inside k' wk' control' journal')"
    if "worker_act demo_host demo_race demo_ctx (wk, control, journal, demo_world k (\<lambda>_. None)) =
        Some (wk', control', journal', demo_world k' (\<lambda>_. None))" for k wk control journal k' wk' control' journal'
    using race_step.race_worker [OF busy, where host = demo_host and race = demo_race and c = 0 and n = 1 and ctx = Background] that
    by (simp add: demo_inside_def set_world_def)
  have "?R (demo_inside 10 (WNext []) (demo_control\<lparr>kc_queue := [demo_plan]\<rparr>) ?no) (demo_inside 11 (WRun demo_plan []) demo_control ?no)"
    by (rule act) (simp add: control_next_def)
  moreover have "?R (demo_inside 11 (WRun demo_plan []) demo_control ?no) (demo_inside 11 (WRan demo_plan demo_result None []) demo_control ?no)"
  proof -
    obtain call v v' where v: "NewRouteCall (Some demo_ctx) (sp_Request demo_plan) (demo_exec_world\<lparr>w_fresh := 49\<rparr>) = (call, v)"
      "Run demo_host (ra_Boundary demo_race) call (Some 0) (sp_Identity demo_plan) v = Some (Ret (demo_result, None), v')"
      using demo_attempt by (auto simp: demo_race_def demo_plan_def demo_ctx_def)
    show ?thesis
      using race_step.race_attempt [OF busy [of 11 "WRun demo_plan []" demo_control ?no] _ _ _ v(2), where n = 1 and ctx = Background] v(1)
      by (simp add: demo_inside_def)
  qed
  moreover have "?R (demo_inside 11 (WRan demo_plan demo_result None []) demo_control ?no)
      (demo_inside 13 (WJudged demo_plan demo_result None True None []) demo_control ?no)"
    by (rule act) (simp add: accept_def demo_race_def demo_result_def Handled_def seq_def receipt_of_def ctx_Err_def call_fn_def)
  moreover have "?R (demo_inside 13 (WJudged demo_plan demo_result None True None []) demo_control ?no)
      (demo_inside 13 (WAccepted demo_plan demo_result None) demo_control ?no)"
    by (rule act) (simp add: control_observe_def)
  moreover have "?R (demo_inside 13 (WAccepted demo_plan demo_result None) demo_control ?no)
      (demo_inside 13 (WDone (winning demo_result) None) demo_control demo_entries)"
    by (rule act) (simp add: journal_append_def demo_plan_def)
  ultimately show ?thesis by (meson reaches.intros)
qed

lemma demo_race_closes:
  "reaches (race_step demo_host demo_race Background 0 1)
     (demo_inside 13 (WDone (winning demo_result) None) demo_control demo_entries)
     (demo_after 14 (RaceReturned ((no_result demo_race True)\<lparr>rr_Status := RaceAccepted, rr_Winner := demo_result\<rparr>) None)
       (demo_control\<lparr>kc_finalized := True\<rparr>))"
proof -
  let ?R = "race_step demo_host demo_race Background 0 1"
  let ?s = "demo_inside 13 (WDone (winning demo_result) None) demo_control demo_entries"
  let ?t = "?s\<lparr>rs_first := send 0 (winning demo_result) None (rs_first ?s)\<rparr>"
  have win: "collect_received hostfn cs \<lparr>fc_index = 0, fc_result = winning demo_result, fc_err = None\<rparr> errs latest w =
      (Ret (Inl ((winning demo_result, None), None)), w)" for hostfn cs errs latest and w :: "(nat, unit) exec_world_scheme"
    by (simp add: collect_received_def validateReturnedResult_def winning_def BasicHandled_def Handled_def demo_result_def)
  have cancels: "cancel demo_ctx (demo_world 13 (\<lambda>_. None)) = demo_world 13 ((\<lambda>_. None)(60 := Some (13, ContextCanceled)))"
    using demo_world_simps(2) [of 13] by (simp add: demo_ctx_def) (simp add: demo_world_def)
  have "?R ?s ?t" by (rule race_step.race_send) (simp_all add: busy_def demo_inside_def)
  moreover have "?R ?t (demo_after 13 RaceWaiting demo_control)"
  proof -
    have "first_step (exec_hostfn demo_host) Background 1 (rs_first ?t) (rs_first (demo_after 13 RaceWaiting demo_control))"
      using first_step.decides [of "rs_first ?t" "[None]" zeroResult "\<lparr>fc_index = 0, fc_result = winning demo_result, fc_err = None\<rparr>" "[]"
          "exec_hostfn demo_host"] win cancels
      by (simp add: demo_inside_def demo_after_def send_def leave_def taking_def)
    from race_step.race_first [OF this] show ?thesis by (simp add: demo_inside_def demo_after_def busy_def send_def)
  qed
  moreover have main: "?R (demo_after k main control) (demo_after k' main' control')"
    if "\<And>m. race_main_act demo_host demo_race Background (winning demo_result, None) main control (demo_world k m) =
        Some (main', control', demo_world k' m)" for k main control k' main' control'
    using race_step.race_main [of "demo_after k main control" "(winning demo_result, None)" None demo_host demo_race Background] that
    by (simp add: demo_after_def set_world_def)
  have "?R (demo_after 13 RaceWaiting demo_control) (demo_after 13 (RaceChecking (winning demo_result)) demo_control)"
    by (rule main) (simp add: errors_Is_def)
  moreover have "?R (demo_after 13 (RaceChecking (winning demo_result)) demo_control) (demo_after 14 (RaceFinalizing (winning demo_result)) demo_control)"
    by (rule main) (simp add: checkWinner_def seq_def ctx_Err_def receipt_of_def winning_def BasicHandled_def Handled_def demo_result_def)
  moreover have "?R (demo_after 14 (RaceFinalizing (winning demo_result)) demo_control)
      (demo_after 14 (RaceReturned ((no_result demo_race True)\<lparr>rr_Status := RaceAccepted, rr_Winner := demo_result\<rparr>) None)
        (demo_control\<lparr>kc_finalized := True\<rparr>))"
    by (rule main) (simp add: control_finalize_def winning_def BasicHandled_def Handled_def)
  ultimately show ?thesis by (meson reaches.intros)
qed

definition demo_race_end :: "(nat, unit, nat, nat, nat, nat) race_state" where
  "demo_race_end = demo_after 14 (RaceReturned ((no_result demo_race True)\<lparr>rr_Status := RaceAccepted, rr_Winner := demo_result\<rparr>) None)
     (demo_control\<lparr>kc_finalized := True\<rparr>)"

lemma demo_race_run: "reaches (race_step demo_host demo_race Background 0 1) demo_race_start demo_race_end"
  unfolding demo_race_end_def
  by (rule reaches_trans [OF demo_race_closes reaches_trans [OF demo_worker_run demo_race_opens]])

lemma demo_race_end_simps:
  "rs_main demo_race_end = RaceReturned ((no_result demo_race True)\<lparr>rr_Status := RaceAccepted, rr_Winner := demo_result\<rparr>) None"
  "fs_taken (rs_first demo_race_end) = [\<lparr>fc_index = 0, fc_result = winning demo_result, fc_err = None\<rparr>]"
  "rs_control demo_race_end = demo_control\<lparr>kc_finalized := True\<rparr>" "rs_journal demo_race_end = demo_entries"
  "rs_workers demo_race_end = [WDone (winning demo_result) None]"
  by (simp_all add: demo_race_end_def demo_after_def)

theorem race_runs_each_plan_once_witness:
  "mset (map sp_Identity (kc_queue (rs_control demo_race_end)) @ concat (map held (rs_workers demo_race_end)) @
     map re_Identity (jn_entries (rs_journal demo_race_end))) = mset [demo_identity ''a'']"
  using race_runs_each_plan_once [OF demo_race_starts demo_race_run] by (simp add: demo_plan_def)

theorem race_stops_authorizing_witness:
  "\<exists>t. reaches (race_step demo_host demo_race Background 0 1) demo_race_end t \<and> kc_queue (rs_control t) = [] \<and> refusing (rs_control t)"
proof -
  have "refusing (rs_control demo_race_end)" by (simp add: demo_race_end_simps refusing_def)
  from race_stops_authorizing [OF reaches_refl this] show ?thesis by (metis demo_race_end_simps(3) control.select_convs(1) control.update_convs(3) reaches_refl)
qed

theorem race_winner_was_accepted_witness:
  "acceptable demo_race demo_result \<and>
   (\<exists>en \<in> set (jn_entries (rs_journal demo_race_end)). re_Accepted en \<and> re_Err en = None \<and> re_Result en = demo_result) \<and>
   (\<exists>before after. reaches (race_step demo_host demo_race Background 0 1) demo_race_start before \<and>
     race_step demo_host demo_race Background 0 1 before after \<and> reaches (race_step demo_host demo_race Background 0 1) after demo_race_end \<and>
     \<not> kc_finalized (rs_control before) \<and> kc_err (rs_control before) = None \<and> kc_finalized (rs_control after))"
  using race_winner_was_accepted [OF demo_race.lawful_race_axioms demo_race_starts _ demo_race_run demo_race_end_simps(1)] by auto

theorem race_never_leaks_witness:
  "race_start demo_race Background (Some 0) [demo_plan] demo_exec_world = Inr demo_race_start \<and>
   reaches (race_step demo_host demo_race Background 0 1) demo_race_start demo_race_end \<and>
   (\<exists>res. rs_main demo_race_end = RaceReturned res None \<and> rr_Status res = RaceAccepted \<and>
     (\<forall>r \<in> set (fs_taken (rs_first demo_race_end)). released (rs_world demo_race_end) r \<or> rr_Winner res = res_Payload (fc_result r)))"
  using race_never_leaks [OF demo_race.lawful_race_axioms demo_race_starts _ demo_race_run demo_race_end_simps(1)]
    demo_race_starts demo_race_run demo_race_end_simps(1) by auto

end
