(* ===== verification/Transient.thy ===== *)
theory Transient
  imports Attempt World "HOL-Library.Sublist"
begin

text \<open>
  The retry classifiers of the transport adapters: \<open>ext/grpc\<close>, \<open>ext/kafka\<close>, \<open>ext/mongo\<close>, \<open>ext/redis\<close>, \<open>ext/s3\<close> and \<open>ext/sql\<close>,
  each in its \<open>retry_policy.go\<close>, and the account \<open>ext/kafka/executor.go\<close> keeps of a published batch.

  The clients they classify for are not part of the repository: what the code asks of them (dynamic types of errors, error
  codes, sentinels, sessions) is a record of functions and constants per client, an argument of the definitions. \<open>errors.As\<close>
  itself is \<open>error_view\<close>: a depth-first search for the first error in the tree that the type's view accepts.
  \<open>err.Error()\<close> of an error is the parameter \<open>text\<close>.
\<close>

section \<open>The error tree\<close>

fun error_view :: "(gerror \<Rightarrow> 'a option) \<Rightarrow> gerror \<Rightarrow> 'a option" where
  "error_view view (Sentinel s) = view (Sentinel s)"
| "error_view view (Wrapf e d) = (case view (Wrapf e d) of Some x \<Rightarrow> Some x | None \<Rightarrow> error_view view e)"
| "error_view view (Joined es) =
     (case view (Joined es) of Some x \<Rightarrow> Some x | None \<Rightarrow> first_some (map (error_view view) es))"
| "error_view view (Typed n v es) =
     (case view (Typed n v es) of Some x \<Rightarrow> Some x | None \<Rightarrow> first_some (map (error_view view) es))"
| "error_view view (HostError n es) =
     (case view (HostError n es) of Some x \<Rightarrow> Some x | None \<Rightarrow> first_some (map (error_view view) es))"

lemma first_some_found: "first_some xs = Some y \<Longrightarrow> Some y \<in> set xs"
  by (induction xs rule: first_some.induct) auto

lemma error_view_found: "error_view view e = Some y \<Longrightarrow> \<exists>x. view x = Some y"
proof (induction view e rule: error_view.induct)
  case (3 view es)
  then show ?case by (auto split: option.splits dest!: first_some_found)
next
  case (4 view n v es)
  then show ?case by (auto split: option.splits dest!: first_some_found)
next
  case (5 view n es)
  then show ?case by (auto split: option.splits dest!: first_some_found)
qed (auto split: option.splits)

definition EOF :: gerror where
  "EOF = Sentinel ''EOF''"

text \<open>
  \<open>strings.ToLower\<close> on the bytes of a string, as far as ASCII letters go: besides the ASCII capitals, the Kelvin sign and
  the dotted capital I become ASCII letters. Other letters outside ASCII stay outside.
\<close>

definition ascii_lower :: "char \<Rightarrow> char" where
  "ascii_lower c = (if 65 \<le> (of_char c :: nat) \<and> (of_char c :: nat) \<le> 90 then char_of ((of_char c :: nat) + 32) else c)"

fun ToLower :: "string \<Rightarrow> string" where
  "ToLower [] = []"
| "ToLower (c # s) =
     (if c = CHR 0xE2 \<and> take 2 s = [CHR 0x84, CHR 0xAA] then CHR ''k'' # ToLower (drop 2 s)
      else if c = CHR 0xC4 \<and> take 1 s = [CHR 0xB0] then CHR ''i'' # ToLower (drop 1 s)
      else ascii_lower c # ToLower s)"

definition Contains :: "string \<Rightarrow> string \<Rightarrow> bool" where
  "Contains s sub = sublist sub s"

section \<open>gRPC\<close>

datatype grpc_code = CodeOK | CodeCanceled | CodeUnknown | CodeInvalidArgument | CodeDeadlineExceeded | CodeNotFound
  | CodeAlreadyExists | CodePermissionDenied | CodeResourceExhausted | CodeFailedPrecondition | CodeAborted | CodeOutOfRange
  | CodeUnimplemented | CodeInternal | CodeUnavailable | CodeDataLoss | CodeUnauthenticated | CodeOther nat

text \<open>\<open>status.FromError\<close> with the code of the status it finds.\<close>

definition grpc_IsTransientError :: "(gerror \<Rightarrow> grpc_code option) \<Rightarrow> err \<Rightarrow> bool" where
  "grpc_IsTransientError fromError e =
     (if e = None \<or> errors_Is e ErrInvalidConfig then False
      else if errors_Is e ContextCanceled \<or> errors_Is e DeadlineExceeded then False
      else case fromError (the e) of
        None \<Rightarrow> errors_Is e EOF
      | Some CodeUnavailable \<Rightarrow> True
      | Some CodeDeadlineExceeded \<Rightarrow> True
      | Some _ \<Rightarrow> False)"

section \<open>Kafka\<close>

text \<open>
  \<open>kafka.Error\<close> is an integer type; \<open>kafka.WriteErrors\<close> a slice of errors, one per message of a batch. \<open>ks_net\<close> is the view
  for \<open>net.Error\<close> with its \<open>Timeout()\<close>.
\<close>

record kafka_sdk =
  ks_WriteErrors :: "gerror \<Rightarrow> err list option"
  ks_Error :: "gerror \<Rightarrow> int option"
  ks_net :: "gerror \<Rightarrow> bool option"
  ks_Temporary :: "int \<Rightarrow> bool"
  ks_MessageSizeTooLarge :: int
  ks_UnknownTopicOrPartition :: int
  ks_InvalidMessage :: int
  ks_InvalidMessageSize :: int
  ks_TopicAuthorizationFailed :: int
  ks_ClusterAuthorizationFailed :: int
  ks_InvalidTopic :: int
  ks_RecordListTooLarge :: int

fun transient_loop :: "(err \<Rightarrow> bool option) \<Rightarrow> err list \<Rightarrow> bool option" where
  "transient_loop classify [] = Some True"
| "transient_loop classify (e # es) =
     (if e = None then Some False
      else case classify e of
        None \<Rightarrow> None
      | Some False \<Rightarrow> Some False
      | Some True \<Rightarrow> transient_loop classify es)"

definition allTransient :: "(err \<Rightarrow> bool option) \<Rightarrow> err list \<Rightarrow> bool option" where
  "allTransient classify batch = (if batch = [] then Some False else transient_loop classify batch)"

text \<open>The number bounds how deep batches are nested in each other; \<open>None\<close> is an answer that would need more.\<close>

fun kafka_IsTransientError :: "kafka_sdk \<Rightarrow> nat \<Rightarrow> err \<Rightarrow> bool option" where
  "kafka_IsTransientError sdk 0 e = None"
| "kafka_IsTransientError sdk (Suc n) e =
     (if e = None \<or> errors_Is e ErrInvalidConfig then Some False
      else if errors_Is e ContextCanceled \<or> errors_Is e DeadlineExceeded then Some False
      else case error_view (ks_WriteErrors sdk) (the e) of
        Some batch \<Rightarrow> allTransient (kafka_IsTransientError sdk n) batch
      | None \<Rightarrow>
          (case error_view (ks_Error sdk) (the e) of
             Some ke \<Rightarrow>
               if ke = ks_MessageSizeTooLarge sdk \<or> ke = ks_UnknownTopicOrPartition sdk \<or> ke = ks_InvalidMessage sdk \<or>
                  ke = ks_InvalidMessageSize sdk \<or> ke = ks_TopicAuthorizationFailed sdk \<or>
                  ke = ks_ClusterAuthorizationFailed sdk \<or> ke = ks_InvalidTopic sdk \<or> ke = ks_RecordListTooLarge sdk
               then Some False
               else Some (ks_Temporary sdk ke)
           | None \<Rightarrow>
               if error_view (ks_net sdk) (the e) = Some True then Some True
               else Some (errors_Is e EOF)))"

section \<open>MongoDB\<close>

text \<open>
  A \<open>mongo.WriteException\<close> is the codes of its write errors and of its write concern error. A session of the context may
  or may not offer its client session, and then has a transaction running or not.
\<close>

datatype mongo_session = OtherSession | WithClientSession bool

record 'req mongo_sdk =
  mg_ErrNoDocuments :: gerror
  mg_ErrClientDisconnected :: gerror
  mg_IsDuplicateKeyError :: "gerror \<Rightarrow> bool"
  mg_IsNetworkError :: "gerror \<Rightarrow> bool"
  mg_IsTimeout :: "gerror \<Rightarrow> bool"
  mg_WriteException :: "gerror \<Rightarrow> (int list \<times> int option) option"
  mg_SessionFromContext :: "ctx \<Rightarrow> mongo_session option"
  mg_MongoInTransaction :: "'req \<Rightarrow> bool option"

definition isMongoAuthOrValidationCode :: "int \<Rightarrow> bool" where
  "isMongoAuthOrValidationCode code \<longleftrightarrow> code = 13 \<or> code = 121 \<or> code = 66"

definition mongo_IsTransientError :: "'req mongo_sdk \<Rightarrow> err \<Rightarrow> bool" where
  "mongo_IsTransientError sdk e =
     (if e = None \<or> errors_Is e ErrInvalidConfig then False
      else if errors_Is e ContextCanceled \<or> errors_Is e DeadlineExceeded then False
      else if errors_Is e (mg_ErrNoDocuments sdk) then False
      else if mg_IsDuplicateKeyError sdk (the e) then False
      else if errors_Is e (mg_ErrClientDisconnected sdk) then True
      else if mg_IsNetworkError sdk (the e) \<or> mg_IsTimeout sdk (the e) then True
      else case error_view (mg_WriteException sdk) (the e) of
        Some (codes, concern) \<Rightarrow>
          if list_ex isMongoAuthOrValidationCode codes then False
          else if \<exists>c \<in> set_option concern. isMongoAuthOrValidationCode c then False
          else False
      | None \<Rightarrow> False)"

definition inMongoTransaction :: "'req mongo_sdk \<Rightarrow> ctx \<Rightarrow> bool" where
  "inMongoTransaction sdk ctx =
     (case mg_SessionFromContext sdk ctx of
        None \<Rightarrow> False
      | Some OtherSession \<Rightarrow> False
      | Some (WithClientSession running) \<Rightarrow> running)"

definition transactionFromRequest :: "'req mongo_sdk \<Rightarrow> 'req \<Rightarrow> bool" where
  "transactionFromRequest sdk req = (case mg_MongoInTransaction sdk req of None \<Rightarrow> False | Some b \<Rightarrow> b)"

section \<open>Redis\<close>

record redis_sdk =
  rd_Nil :: gerror
  rd_TxFailedErr :: gerror
  rd_net :: "gerror \<Rightarrow> bool option"

definition isRedisAuthOrSyntax :: "(gerror \<Rightarrow> string) \<Rightarrow> gerror \<Rightarrow> bool" where
  "isRedisAuthOrSyntax text e =
     (let msg = ToLower (text e) in
      Contains msg ''noauth'' \<or> Contains msg ''wrongpass'' \<or> Contains msg ''invalid password'' \<or> Contains msg ''noperm'' \<or>
      Contains msg ''syntax error'' \<or> Contains msg ''wrongtype'' \<or> Contains msg ''unknown command'')"

definition redis_IsTransientError :: "redis_sdk \<Rightarrow> (gerror \<Rightarrow> string) \<Rightarrow> err \<Rightarrow> bool" where
  "redis_IsTransientError sdk text e =
     (if e = None \<or> errors_Is e ErrInvalidConfig then False
      else if errors_Is e ContextCanceled \<or> errors_Is e DeadlineExceeded then False
      else if errors_Is e (rd_Nil sdk) then False
      else if errors_Is e (rd_TxFailedErr sdk) then True
      else if isRedisAuthOrSyntax text (the e) then False
      else if error_view (rd_net sdk) (the e) = Some True then True
      else if errors_Is e EOF then True
      else let msg = ToLower (text (the e)) in Contains msg ''connection reset'' \<or> Contains msg ''broken pipe'')"

section \<open>S3\<close>

text \<open>The views for \<open>smithy.APIError\<close> with its code, \<open>*smithyhttp.ResponseError\<close> with its status and \<open>net.Error\<close>.\<close>

record s3_sdk =
  s3_APIError :: "gerror \<Rightarrow> string option"
  s3_ResponseError :: "gerror \<Rightarrow> int option"
  s3_net :: "gerror \<Rightarrow> bool option"

definition s3_IsTransientError :: "s3_sdk \<Rightarrow> err \<Rightarrow> bool" where
  "s3_IsTransientError sdk e =
     (if e = None \<or> errors_Is e ErrInvalidConfig then False
      else if errors_Is e ContextCanceled \<or> errors_Is e DeadlineExceeded then False
      else if (case error_view (s3_APIError sdk) (the e) of
          None \<Rightarrow> False
        | Some code \<Rightarrow> code \<in> {''SlowDown'', ''Throttling'', ''ThrottlingException'', ''RequestLimitExceeded'', ''RequestTimeout'',
            ''RequestTimeoutException'', ''InternalError'', ''InternalFailure'', ''ServiceUnavailable''}) then True
      else case error_view (s3_ResponseError sdk) (the e) of
        Some status \<Rightarrow>
          if status \<in> {404, 403, 400} then False
          else status \<in> {429, 500, 502, 503, 504}
      | None \<Rightarrow> error_view (s3_net sdk) (the e) = Some True)"

section \<open>The policies\<close>

definition grpc_RetryPolicy ::
  "(gerror \<Rightarrow> grpc_code option) \<Rightarrow> ('req \<Rightarrow> gerror \<Rightarrow> event \<times> replay \<times> err) option \<Rightarrow> err \<Rightarrow> err \<Rightarrow> 'req \<Rightarrow> err \<Rightarrow> bool" where
  "grpc_RetryPolicy fromError evidence = RetryPredicate (Some (\<lambda>e. grpc_IsTransientError fromError (Some e))) evidence"

definition redis_RetryPolicy ::
  "redis_sdk \<Rightarrow> (gerror \<Rightarrow> string) \<Rightarrow> ('req \<Rightarrow> gerror \<Rightarrow> event \<times> replay \<times> err) option \<Rightarrow> err \<Rightarrow> err \<Rightarrow> 'req \<Rightarrow> err \<Rightarrow> bool" where
  "redis_RetryPolicy sdk text evidence = RetryPredicate (Some (\<lambda>e. redis_IsTransientError sdk text (Some e))) evidence"

definition s3_RetryPolicy ::
  "s3_sdk \<Rightarrow> ('req \<Rightarrow> gerror \<Rightarrow> event \<times> replay \<times> err) option \<Rightarrow> err \<Rightarrow> err \<Rightarrow> 'req \<Rightarrow> err \<Rightarrow> bool" where
  "s3_RetryPolicy sdk evidence = RetryPredicate (Some (\<lambda>e. s3_IsTransientError sdk (Some e))) evidence"

definition mongo_RetryPolicy ::
  "'req mongo_sdk \<Rightarrow> ctx \<Rightarrow> ('req \<Rightarrow> gerror \<Rightarrow> event \<times> replay \<times> err) option \<Rightarrow> err \<Rightarrow> err \<Rightarrow> 'req \<Rightarrow> err \<Rightarrow> bool" where
  "mongo_RetryPolicy sdk ctx evidence ctxErr1 ctxErr2 req e =
     (if inMongoTransaction sdk ctx \<or> transactionFromRequest sdk req then False
      else RetryPredicate (Some (\<lambda>x. mongo_IsTransientError sdk (Some x))) evidence ctxErr1 ctxErr2 req e)"

text \<open>
  \<open>depth\<close> is how deep batches are nested in an error: that bound is enough and the answer is the one of any larger bound, as
  shown below.
\<close>

definition kafka_transient :: "kafka_sdk \<Rightarrow> (gerror \<Rightarrow> nat) \<Rightarrow> gerror \<Rightarrow> bool" where
  "kafka_transient sdk depth e \<longleftrightarrow> kafka_IsTransientError sdk (Suc (depth e)) (Some e) = Some True"

definition kafka_RetryPolicy ::
  "kafka_sdk \<Rightarrow> (gerror \<Rightarrow> nat) \<Rightarrow> ('req \<Rightarrow> gerror \<Rightarrow> event \<times> replay \<times> err) option \<Rightarrow> err \<Rightarrow> err \<Rightarrow> 'req \<Rightarrow> err \<Rightarrow> bool" where
  "kafka_RetryPolicy sdk depth evidence = RetryPredicate (Some (kafka_transient sdk depth)) evidence"

section \<open>Properties\<close>

definition final_error :: "gerror \<Rightarrow> bool" where
  "final_error e \<longleftrightarrow> error_is e ErrInvalidConfig \<or> error_is e ErrInvalidEvent \<or> error_is e ErrInvalidHint \<or>
     error_is e ContextCanceled \<or> error_is e DeadlineExceeded"

definition repeat_evidenced :: "event \<Rightarrow> replay \<Rightarrow> bool" where
  "repeat_evidenced event r \<longleftrightarrow>
     validEvent event \<and> id_Operation (ev_Identity event) \<noteq> '''' \<and> id_Attempt (ev_Identity event) \<noteq> '''' \<and>
     (\<not> ev_Committed event \<or> rp_ResetProtocol r) \<and> (ev_Outcome event = NotExecuted \<or> rp_SafeDuplicate r) \<and>
     rp_Retryable r \<and> rp_Replayable r"

text \<open>What a policy made by \<open>RetryPredicate\<close> asks for, with the classifier of the provider.\<close>

definition granted_by ::
  "(gerror \<Rightarrow> bool) \<Rightarrow> ('req \<Rightarrow> gerror \<Rightarrow> event \<times> replay \<times> err) option \<Rightarrow> err \<Rightarrow> err \<Rightarrow> 'req \<Rightarrow> err \<Rightarrow> bool" where
  "granted_by transient evidence c1 c2 req e \<longleftrightarrow> c1 = None \<and> c2 = None \<and>
     (\<exists>x ev event r. e = Some x \<and> \<not> final_error x \<and> transient x \<and> evidence = Some ev \<and> ev req x = (event, r, None) \<and>
        repeat_evidenced event r \<and> \<not> rp_UseFallback r)"

lemma decide_retry:
  "(case decide event 1 r of (d, x) \<Rightarrow> x = None \<and> de_Action d = Retry) \<longleftrightarrow> repeat_evidenced event r \<and> \<not> rp_UseFallback r"
  by (cases "ev_Outcome event")
    (auto simp: decide_def repeat_evidenced_def validEvent_def zero_decision_def Let_def)

lemma RetryPredicate_iff: "RetryPredicate (Some transient) evidence c1 c2 req e \<longleftrightarrow> granted_by transient evidence c1 c2 req e"
proof (cases "c1 = None \<and> (\<exists>x ev. e = Some x \<and> evidence = Some ev \<and> \<not> final_error x \<and> transient x)")
  case True
  then obtain x ev where x: "c1 = None" "e = Some x" "evidence = Some ev" "\<not> final_error x" "transient x" by blast
  obtain event r evErr where ev: "ev req x = (event, r, evErr)" using prod_cases3 by blast
  have "RetryPredicate (Some transient) evidence c1 c2 req e \<longleftrightarrow>
      evErr = None \<and> (case Decide c2 event 1 r of (d, dErr) \<Rightarrow> dErr = None \<and> de_Action d = Retry)"
    using x ev by (simp add: RetryPredicate_def final_error_def)
  also have "\<dots> \<longleftrightarrow> evErr = None \<and> c2 = None \<and> repeat_evidenced event r \<and> \<not> rp_UseFallback r"
    unfolding decide_retry [symmetric] by (cases c2) (simp_all add: Decide_def)
  finally show ?thesis using x ev by (auto simp: granted_by_def)
next
  case False
  then show ?thesis by (auto simp: RetryPredicate_def granted_by_def final_error_def split: option.splits)
qed

text \<open>
  C30 (functional). The five policies that are built on \<open>attempt.RetryPredicate\<close> (\<open>ext/grpc\<close>, \<open>ext/kafka\<close>, \<open>ext/mongo\<close>,
  \<open>ext/redis\<close> and \<open>ext/s3\<close>) never repeat on a classification alone. Each grants a repetition exactly when the context is live
  before and after the evidence is gathered, the error is transient for the provider and neither a cancellation, a deadline
  nor a contract violation, and the host's evidence shows facts under which the attempt was not executed or may safely be
  duplicated, asking for a retry and not for a fallback; \<open>ext/mongo\<close> besides only outside a transaction. The policies of
  \<open>ext/sql\<close> and \<open>ext/http\<close> have other rules and are not meant here.
\<close>

theorem retry_policies_need_evidence:
  "(grpc_RetryPolicy fromError evidence c1 c2 req e \<longleftrightarrow>
      granted_by (\<lambda>x. grpc_IsTransientError fromError (Some x)) evidence c1 c2 req e) \<and>
   (kafka_RetryPolicy kafka depth evidence c1 c2 req e \<longleftrightarrow> granted_by (kafka_transient kafka depth) evidence c1 c2 req e) \<and>
   (mongo_RetryPolicy mongo ctx evidence c1 c2 req e \<longleftrightarrow>
      \<not> inMongoTransaction mongo ctx \<and> \<not> transactionFromRequest mongo req \<and>
      granted_by (\<lambda>x. mongo_IsTransientError mongo (Some x)) evidence c1 c2 req e) \<and>
   (redis_RetryPolicy redis text evidence c1 c2 req e \<longleftrightarrow>
      granted_by (\<lambda>x. redis_IsTransientError redis text (Some x)) evidence c1 c2 req e) \<and>
   (s3_RetryPolicy s3 evidence c1 c2 req e \<longleftrightarrow> granted_by (\<lambda>x. s3_IsTransientError s3 (Some x)) evidence c1 c2 req e)"
  by (simp add: grpc_RetryPolicy_def kafka_RetryPolicy_def mongo_RetryPolicy_def redis_RetryPolicy_def s3_RetryPolicy_def
      RetryPredicate_iff)

text \<open>With evidence of an attempt that was not executed, an unavailable server is asked again; without it, not.\<close>

theorem retry_policies_need_evidence_witness:
  "grpc_RetryPolicy (\<lambda>_. Some CodeUnavailable) (Some (\<lambda>_ _. (demo_terminal\<lparr>ev_Outcome := NotExecuted\<rparr>, demo_replay, None))) None None
     (0 :: nat) (Some (HostError 1 [])) \<and>
   \<not> grpc_RetryPolicy (\<lambda>_. Some CodeUnavailable) (Some (\<lambda>_ _. (demo_terminal\<lparr>ev_Outcome := Unknown\<rparr>,
       demo_replay\<lparr>rp_SafeDuplicate := False\<rparr>, None))) None None (0 :: nat) (Some (HostError 1 []))"
  using retry_policies_need_evidence [of "\<lambda>_. Some CodeUnavailable" _ None None "0 :: nat" "Some (HostError 1 [])"]
  by (simp add: granted_by_def final_error_def repeat_evidenced_def grpc_IsTransientError_def ErrInvalidConfig_def ErrInvalidEvent_def
      ErrInvalidHint_def ContextCanceled_def DeadlineExceeded_def demo_defs validEvent_def)

text \<open>How deep batches are nested: an error found inside a batch is less deep than the error the batch was found in.\<close>

definition nesting :: "kafka_sdk \<Rightarrow> (gerror \<Rightarrow> nat) \<Rightarrow> bool" where
  "nesting sdk depth \<longleftrightarrow>
     (\<forall>e batch x. error_view (ks_WriteErrors sdk) e = Some batch \<longrightarrow> Some x \<in> set batch \<longrightarrow> depth x < depth e)"

lemma transient_loop_returns:
  "(\<And>x. Some x \<in> set es \<Longrightarrow> \<exists>b. classify (Some x) = Some b) \<Longrightarrow>
   transient_loop classify es = Some (\<forall>e \<in> set es. \<exists>x. e = Some x \<and> classify (Some x) = Some True)"
proof (induction es)
  case (Cons e es)
  have IH: "transient_loop classify es = Some (\<forall>e \<in> set es. \<exists>x. e = Some x \<and> classify (Some x) = Some True)"
    by (rule Cons.IH) (simp add: Cons.prems)
  show ?case
  proof (cases e)
    case (Some x)
    then obtain b where "classify (Some x) = Some b" using Cons.prems [of x] by auto
    then show ?thesis using IH Some by (cases b) simp_all
  qed simp
qed simp

lemma kafka_returns:
  assumes "nesting sdk depth"
  shows "depth x < n \<Longrightarrow> \<exists>b. kafka_IsTransientError sdk n (Some x) = Some b"
proof (induction n arbitrary: x)
  case (Suc n)
  have "\<exists>b. allTransient (kafka_IsTransientError sdk n) batch = Some b" if "error_view (ks_WriteErrors sdk) x = Some batch" for batch
  proof -
    have "\<exists>b. kafka_IsTransientError sdk n (Some y) = Some b" if "Some y \<in> set batch" for y
      using assms Suc \<open>error_view (ks_WriteErrors sdk) x = Some batch\<close> that by (fastforce simp: nesting_def)
    then show ?thesis by (auto simp: allTransient_def transient_loop_returns)
  qed
  then show ?case by (auto split: option.splits)
qed simp

lemma transient_loop_mono:
  "transient_loop f es = Some b \<Longrightarrow> (\<And>e c. f e = Some c \<Longrightarrow> g e = Some c) \<Longrightarrow> transient_loop g es = Some b"
  by (induction es) (auto split: if_splits option.splits bool.splits)

lemma allTransient_mono:
  "allTransient f es = Some b \<Longrightarrow> (\<And>e c. f e = Some c \<Longrightarrow> g e = Some c) \<Longrightarrow> allTransient g es = Some b"
  by (cases "es = []") (auto simp: allTransient_def intro: transient_loop_mono)

lemma kafka_more: "kafka_IsTransientError sdk n e = Some b \<Longrightarrow> kafka_IsTransientError sdk (Suc n) e = Some b"
proof (induction n arbitrary: e b)
  case (Suc n)
  show ?case
  proof (cases "error_view (ks_WriteErrors sdk) (the e)")
    case (Some batch)
    have "allTransient (kafka_IsTransientError sdk (Suc n)) batch = Some b"
      if "allTransient (kafka_IsTransientError sdk n) batch = Some b"
      by (rule allTransient_mono [OF that Suc.IH])
    then show ?thesis
      using Suc.prems Some unfolding kafka_IsTransientError.simps(2) [of sdk "Suc n"] kafka_IsTransientError.simps(2) [of sdk n e]
      by (auto simp del: kafka_IsTransientError.simps split: if_splits)
  next
    case None
    then have "kafka_IsTransientError sdk (Suc (Suc n)) e = kafka_IsTransientError sdk (Suc n) e" by simp
    then show ?thesis using Suc.prems by simp
  qed
qed simp

lemma kafka_enough: "kafka_IsTransientError sdk n e = Some b \<Longrightarrow> n \<le> m \<Longrightarrow> kafka_IsTransientError sdk m e = Some b"
  by (induction m) (auto simp: le_Suc_eq simp del: kafka_IsTransientError.simps intro: kafka_more)

text \<open>
  Classifying a Kafka error always ends: a bound above the nesting of its batches gives an answer, and every
  such bound the same. For a batch the answer is the one of its messages: transient when there are some and each of them
  failed with a transient error.
\<close>

theorem kafka_classification_ends:
  assumes "nesting sdk depth" "depth x < n" "depth x < m"
  shows "\<exists>b. kafka_IsTransientError sdk n (Some x) = Some b \<and> kafka_IsTransientError sdk m (Some x) = Some b \<and>
    (\<forall>batch. \<not> final_error x \<and> error_view (ks_WriteErrors sdk) x = Some batch \<longrightarrow>
       (b \<longleftrightarrow> batch \<noteq> [] \<and> (\<forall>e \<in> set batch. \<exists>y. e = Some y \<and> kafka_IsTransientError sdk n (Some y) = Some True)))"
proof -
  obtain b where b: "kafka_IsTransientError sdk (Suc (depth x)) (Some x) = Some b" using kafka_returns [OF assms(1), of x] by blast
  have "b \<longleftrightarrow> batch \<noteq> [] \<and> (\<forall>e \<in> set batch. \<exists>y. e = Some y \<and> kafka_IsTransientError sdk n (Some y) = Some True)"
    if batch: "\<not> final_error x" "error_view (ks_WriteErrors sdk) x = Some batch" for batch
  proof -
    have known: "\<exists>c. kafka_IsTransientError sdk (depth x) (Some y) = Some c" if "Some y \<in> set batch" for y
      using assms(1) batch(2) that kafka_returns [OF assms(1), of y "depth x"] by (auto simp: nesting_def)
    have same: "kafka_IsTransientError sdk (depth x) (Some y) = kafka_IsTransientError sdk n (Some y)" if y: "Some y \<in> set batch" for y
    proof -
      obtain c where "kafka_IsTransientError sdk (depth x) (Some y) = Some c" using known [OF y] by blast
      from this kafka_enough [OF this, of n] show ?thesis using assms(2) by simp
    qed
    have "allTransient (kafka_IsTransientError sdk (depth x)) batch = Some b"
      using b batch by (simp add: final_error_def)
    then have "b \<longleftrightarrow> batch \<noteq> [] \<and> (\<forall>e \<in> set batch. \<exists>y. e = Some y \<and> kafka_IsTransientError sdk (depth x) (Some y) = Some True)"
      using transient_loop_returns [of batch "kafka_IsTransientError sdk (depth x)", OF known] by (auto simp: allTransient_def split: if_splits)
    moreover have "(\<exists>y. e = Some y \<and> kafka_IsTransientError sdk (depth x) (Some y) = Some True) \<longleftrightarrow>
        (\<exists>y. e = Some y \<and> kafka_IsTransientError sdk n (Some y) = Some True)" if "e \<in> set batch" for e
      using same that by (cases e) auto
    ultimately show ?thesis by blast
  qed
  then show ?thesis using kafka_enough [OF b] assms(2,3) by (intro exI [of _ b]) auto
qed

text \<open>A client whose only batch error is \<open>HostError 0\<close>, with one message that failed temporarily and one with an end of file.\<close>

definition demo_kafka :: kafka_sdk where
  "demo_kafka = \<lparr>ks_WriteErrors = (\<lambda>e. if e = HostError 0 [] then Some [Some (HostError 1 []), Some EOF] else None),
     ks_Error = (\<lambda>e. if e = HostError 1 [] then Some 7 else None), ks_net = (\<lambda>_. None), ks_Temporary = (\<lambda>c. c = 7),
     ks_MessageSizeTooLarge = 10, ks_UnknownTopicOrPartition = 3, ks_InvalidMessage = 2, ks_InvalidMessageSize = 4,
     ks_TopicAuthorizationFailed = 29, ks_ClusterAuthorizationFailed = 31, ks_InvalidTopic = 17, ks_RecordListTooLarge = 18\<rparr>"

lemma demo_kafka_nesting: "nesting demo_kafka (\<lambda>e. if error_view (ks_WriteErrors demo_kafka) e = None then 0 else 1)"
proof -
  have "batch = [Some (HostError 1 []), Some EOF]" if "error_view (ks_WriteErrors demo_kafka) e = Some batch" for e batch
    using error_view_found [OF that] by (auto simp: demo_kafka_def split: if_splits)
  then show ?thesis by (fastforce simp: nesting_def demo_kafka_def EOF_def)
qed

theorem kafka_classification_ends_witness:
  "\<exists>b. kafka_IsTransientError demo_kafka 2 (Some (HostError 0 [])) = Some b \<and>
     kafka_IsTransientError demo_kafka 5 (Some (HostError 0 [])) = Some b"
  using kafka_classification_ends [OF demo_kafka_nesting, of "HostError 0 []" 2 5] by (auto simp: demo_kafka_def)

end
