(* ===== verification/Adapters.thy ===== *)
theory Adapters
  imports Resilience Transient
begin

text \<open>
  The transport adapters that make handlers of third-party clients: \<open>ext/sql\<close>, \<open>ext/grpc\<close>, \<open>ext/redis\<close>, \<open>ext/mongo\<close>, \<open>ext/kafka\<close>
  and the handlers of \<open>ext/s3\<close>. What the clients do is an argument of the definitions: a procedure on the world per client call,
  and for a resource they return the host closure that closes it. A pointer or interface of a client is a value of a type
  with a zero, the nil pointer. Request data the adapters only pass on has a type of its own.
\<close>

section \<open>Ownership\<close>

text \<open>\<open>result.Lifetime = routery.NewLifetime(close)\<close> and the return of \<open>(result, e)\<close>.\<close>

definition owned ::
  "'p basic_result \<Rightarrow> 'h closure \<Rightarrow> err \<Rightarrow> (('h, 'x) world_scheme, 'p basic_result \<times> err) proc" where
  "owned result c e w = (case NewLifetime (Some c) w of (l, w1) \<Rightarrow> (Ret (result\<lparr>res_Lifetime := Some l\<rparr>, e), w1))"

section \<open>SQL\<close>

definition OperationQuery :: string where "OperationQuery = ''query''"
definition OperationExec :: string where "OperationExec = ''exec''"

definition ErrBadConn :: gerror where
  "ErrBadConn = Sentinel ''driver: bad connection''"

text \<open>An \<open>*ExecutionError\<close> as an error value; a nil pointer of that type has the payload \<open>VNil\<close>.\<close>

definition ExecutionError :: "string \<Rightarrow> bool \<Rightarrow> err \<Rightarrow> gerror" where
  "ExecutionError operation inTransaction e =
     Typed ''*routerysql.ExecutionError''
       (VComposite ''ExecutionError'' [VString ''Operation'' operation, VBool ''bool'' inTransaction])
       (case e of None \<Rightarrow> [] | Some x \<Rightarrow> [x])"

text \<open>\<open>Error\<close> of the struct behind the pointer, with the texts of other errors as an argument.\<close>

definition ExecutionError_Error :: "(gerror \<Rightarrow> string) \<Rightarrow> (string \<times> bool \<times> err) option \<Rightarrow> string" where
  "ExecutionError_Error text err =
     (case err of
        None \<Rightarrow> ''routery/ext/sql: execution error''
      | Some (operation, inTransaction, e) \<Rightarrow>
          let operation = (if operation = '''' then ''operation'' else operation) in
          case e of
            None \<Rightarrow>
              if inTransaction then ''routery/ext/sql: '' @ operation @ '' failed in transaction''
              else ''routery/ext/sql: '' @ operation @ '' failed''
          | Some x \<Rightarrow>
              if inTransaction then ''routery/ext/sql: '' @ operation @ '' failed in transaction: '' @ text x
              else ''routery/ext/sql: '' @ operation @ '' failed: '' @ text x)"

fun in_transaction :: "gval \<Rightarrow> bool option" where
  "in_transaction (VComposite _ [VString _ _, VBool _ b]) = Some b"
| "in_transaction _ = None"

definition sql_DefaultRetryPolicy :: "err \<Rightarrow> bool" where
  "sql_DefaultRetryPolicy e =
     (case e of
        None \<Rightarrow> False
      | Some x \<Rightarrow>
          if error_is x ContextCanceled \<or> error_is x DeadlineExceeded then False
          else case error_as ''*routerysql.ExecutionError'' x of
            None \<Rightarrow> False
          | Some (v, causes) \<Rightarrow>
              (case in_transaction v of
                 None \<Rightarrow> False
               | Some inTransaction \<Rightarrow>
                   if inTransaction then False else error_is (Typed ''*routerysql.ExecutionError'' v causes) ErrBadConn))"

type_synonym ('h, 'x, 'req) extractor =
  "ctx \<Rightarrow> 'req \<Rightarrow> (('h, 'x) world_scheme, string \<times> gval list \<times> err) proc"

type_synonym ('h, 'x, 'p) runner = "ctx \<Rightarrow> string \<Rightarrow> gval list \<Rightarrow> (('h, 'x) world_scheme, 'p \<times> err) proc"

definition newQueryRouteHandler ::
  "('p \<Rightarrow> 'h) \<Rightarrow> ('h, 'x, 'p) runner \<Rightarrow> bool \<Rightarrow> ('h, 'x, 'req) extractor option \<Rightarrow>
   ('h, 'x, 'req, string, string, 'p :: zero) handler" where
  "newQueryRouteHandler rows_Close runner inTransaction extractor =
     (case extractor of
        None \<Rightarrow> invalidRouteHandler (configError ''statement extractor is nil'')
      | Some extract \<Rightarrow> \<lambda>call. seq (extract (rc_Context call) (rc_Request call)) (\<lambda>(query, args, e).
          if e \<noteq> None then ret (AbortResult, e)
          else seq (runner (rc_Context call) query args) (\<lambda>(rows, queryErr).
            case queryErr of
              Some x \<Rightarrow> ret (AbortResult, Some (ExecutionError OperationQuery inTransaction (Some x)))
            | None \<Rightarrow> owned (BasicHandled rows) (HostFn (rows_Close rows)) None)))"

definition newExecRouteHandler ::
  "('h, 'x, 'p) runner \<Rightarrow> bool \<Rightarrow> ('h, 'x, 'req) extractor option \<Rightarrow>
   ('h, 'x, 'req, string, string, 'p :: zero) handler" where
  "newExecRouteHandler runner inTransaction extractor =
     (case extractor of
        None \<Rightarrow> invalidRouteHandler (configError ''statement extractor is nil'')
      | Some extract \<Rightarrow> \<lambda>call. seq (extract (rc_Context call) (rc_Request call)) (\<lambda>(query, args, e).
          if e \<noteq> None then ret (AbortResult, e)
          else seq (runner (rc_Context call) query args) (\<lambda>(result, execErr).
            case execErr of
              Some x \<Rightarrow> ret (AbortResult, Some (ExecutionError OperationExec inTransaction (Some x)))
            | None \<Rightarrow> ret (BasicHandled result, None))))"

text \<open>\<open>db\<close> and \<open>tx\<close> with their methods, \<open>None\<close> for a nil pointer.\<close>

definition NewDBQueryRouteHandler ::
  "('p \<Rightarrow> 'h) \<Rightarrow> ('h, 'x, 'p) runner option \<Rightarrow> ('h, 'x, 'req) extractor option \<Rightarrow> ('h, 'x, 'req, string, string, 'p :: zero) handler" where
  "NewDBQueryRouteHandler rows_Close db extractor =
     (case db of None \<Rightarrow> invalidRouteHandler (configError ''db is nil'') | Some r \<Rightarrow> newQueryRouteHandler rows_Close r False extractor)"

definition NewDBExecRouteHandler ::
  "('h, 'x, 'p) runner option \<Rightarrow> ('h, 'x, 'req) extractor option \<Rightarrow> ('h, 'x, 'req, string, string, 'p :: zero) handler" where
  "NewDBExecRouteHandler db extractor =
     (case db of None \<Rightarrow> invalidRouteHandler (configError ''db is nil'') | Some r \<Rightarrow> newExecRouteHandler r False extractor)"

definition NewTxQueryRouteHandler ::
  "('p \<Rightarrow> 'h) \<Rightarrow> ('h, 'x, 'p) runner option \<Rightarrow> ('h, 'x, 'req) extractor option \<Rightarrow> ('h, 'x, 'req, string, string, 'p :: zero) handler" where
  "NewTxQueryRouteHandler rows_Close tx extractor =
     (case tx of None \<Rightarrow> invalidRouteHandler (configError ''tx is nil'') | Some r \<Rightarrow> newQueryRouteHandler rows_Close r True extractor)"

definition NewTxExecRouteHandler ::
  "('h, 'x, 'p) runner option \<Rightarrow> ('h, 'x, 'req) extractor option \<Rightarrow> ('h, 'x, 'req, string, string, 'p :: zero) handler" where
  "NewTxExecRouteHandler tx extractor =
     (case tx of None \<Rightarrow> invalidRouteHandler (configError ''tx is nil'') | Some r \<Rightarrow> newExecRouteHandler r True extractor)"

section \<open>gRPC\<close>

definition NewUnaryRouteHandler ::
  "(ctx \<Rightarrow> 'req \<Rightarrow> (('h, 'x) world_scheme, 'p \<times> err) proc) option \<Rightarrow> ('h, 'x, 'req, string, string, 'p :: zero) handler" where
  "NewUnaryRouteHandler invoker =
     (case invoker of
        None \<Rightarrow> invalidRouteHandler (configError ''unary invoker is nil'')
      | Some invoke \<Rightarrow> \<lambda>call. seq (invoke (rc_Context call) (rc_Request call)) (\<lambda>(response, e).
          if e \<noteq> None then ret (AbortResult, e) else ret (BasicHandled response, None)))"

text \<open>A value of type \<open>any\<close> is a \<open>gval\<close>.\<close>

record ('h, 'x) interceptor_options =
  io_Attempts :: int
  io_Backoff :: int
  io_Predicate :: "('h, 'x, gval) retry_predicate option"

definition normalizeInterceptorOpts ::
  "('h, 'x) interceptor_options \<Rightarrow> int \<times> int \<times> ('h, 'x, gval) retry_predicate" where
  "normalizeInterceptorOpts opts =
     (if io_Attempts opts = 0 then 1 else io_Attempts opts, io_Backoff opts,
      case io_Predicate opts of None \<Rightarrow> (\<lambda>_ _ _. ret False) | Some p \<Rightarrow> p)"

text \<open>The invoker with the method, the reply, the connection and the call options it is called with.\<close>

definition RetryUnaryInterceptor ::
  "('h \<Rightarrow> (('h, 'x) world_scheme, err) proc) \<Rightarrow> ('h, 'x) interceptor_options \<Rightarrow> ctx \<Rightarrow> gval \<Rightarrow>
   (ctx \<Rightarrow> gval \<Rightarrow> (('h, 'x) world_scheme, err) proc) \<Rightarrow> (('h, 'x) world_scheme, err) proc" where
  "RetryUnaryInterceptor hostfn opts ctx req invoker =
     (case normalizeInterceptorOpts opts of (attempts, backoff, pred) \<Rightarrow>
        let base = (\<lambda>call. seq (invoker (rc_Context call) (rc_Request call)) (\<lambda>e.
              if e \<noteq> None then ret (AbortResult, e) else ret (BasicHandled (), None)));
            wrapped = ApplyRoute (Some base) [Some (RetryIf hostfn attempts backoff (Some pred))]
        in seq (InvokeRouteHandler (Some ctx) req (Some wrapped)) (\<lambda>(_, e). ret e))"

definition clientStreamFromResult :: "('p :: zero) basic_result \<Rightarrow> 'p \<times> err" where
  "clientStreamFromResult result =
     (if \<not> res_HasPayload result then (0, Some (configError ''stream interceptor did not return payload''))
      else (res_Payload result, None))"

definition RetryStreamInterceptor ::
  "('h \<Rightarrow> (('h, 'x) world_scheme, err) proc) \<Rightarrow> ('h, 'x) interceptor_options \<Rightarrow> ctx \<Rightarrow>
   (ctx \<Rightarrow> (('h, 'x) world_scheme, 'p \<times> err) proc) \<Rightarrow> (('h, 'x) world_scheme, ('p :: zero) \<times> err) proc" where
  "RetryStreamInterceptor hostfn opts ctx streamer =
     (case normalizeInterceptorOpts opts of (attempts, backoff, _) \<Rightarrow>
        let streamPred = (\<lambda>ctx _ e. case io_Predicate opts of Some p \<Rightarrow> p ctx VNil e | None \<Rightarrow> ret False);
            streamHandler = (\<lambda>call. seq (streamer (rc_Context call)) (\<lambda>(stream, e).
              if e \<noteq> None then ret (AbortResult, e) else ret (BasicHandled stream, None)));
            wrapped = ApplyRoute (Some streamHandler) [Some (RetryIf hostfn attempts backoff (Some streamPred))]
        in seq (InvokeRouteHandler (Some ctx) () (Some wrapped)) (\<lambda>(result, e).
             if e \<noteq> None then ret (0, e) else ret (clientStreamFromResult result)))"

section \<open>Redis\<close>

text \<open>\<open>cmd_Err\<close> is the method \<open>Err\<close> of a command, \<open>redis_Nil\<close> the client's sentinel for a missing key.\<close>

definition redis_NewRouteHandler ::
  "gerror \<Rightarrow> ('c \<Rightarrow> err) \<Rightarrow> (ctx \<Rightarrow> 'req \<Rightarrow> (('h, 'x) world_scheme, 'c option \<times> err) proc) option \<Rightarrow>
   (ctx \<Rightarrow> 'c \<Rightarrow> (('h, 'x) world_scheme, 'p \<times> err) proc) option \<Rightarrow> ('h, 'x, 'req, string, string, 'p :: zero) handler" where
  "redis_NewRouteHandler redis_Nil cmd_Err invoker scan =
     (case (invoker, scan) of
        (None, _) \<Rightarrow> invalidRouteHandler (configError ''command invoker is nil'')
      | (Some _, None) \<Rightarrow> invalidRouteHandler (configError ''scan result function is nil'')
      | (Some invoke, Some scanner) \<Rightarrow> \<lambda>call. seq (invoke (rc_Context call) (rc_Request call)) (\<lambda>(cmd, e).
          if e \<noteq> None then ret (AbortResult, e)
          else case cmd of
            None \<Rightarrow> ret (AbortResult, Some (configError ''command invoker returned nil command''))
          | Some c \<Rightarrow>
              if errors_Is (cmd_Err c) redis_Nil then ret (AbortResult, Some redis_Nil)
              else if cmd_Err c \<noteq> None then ret (AbortResult, cmd_Err c)
              else seq (scanner (rc_Context call) c) (\<lambda>(result, scanErr).
                if scanErr \<noteq> None then ret (AbortResult, scanErr) else ret (BasicHandled result, None))))"

text \<open>\<open>string_cmd\<close> is the result of a \<open>*redis.StringCmd\<close>, \<open>type_name\<close> what \<open>%T\<close> prints.\<close>

definition NewStringRouteHandler ::
  "gerror \<Rightarrow> ('c \<Rightarrow> err) \<Rightarrow> ('c \<Rightarrow> (string \<times> err) option) \<Rightarrow> ('c \<Rightarrow> string) \<Rightarrow>
   (ctx \<Rightarrow> 'req \<Rightarrow> (('h, 'x) world_scheme, 'c option \<times> err) proc) option \<Rightarrow> ('h, 'x, 'req, string, string, string) handler" where
  "NewStringRouteHandler redis_Nil cmd_Err string_cmd type_name invoker =
     redis_NewRouteHandler redis_Nil cmd_Err invoker (Some (\<lambda>_ cmd.
       case string_cmd cmd of
         None \<Rightarrow> ret ('''', Some (Typed ''*errors.errorString''
           (VString ''string'' (''routery/ext/redis: expected *redis.StringCmd, got '' @ type_name cmd)) []))
       | Some (s, e) \<Rightarrow> ret (s, e)))"

section \<open>MongoDB\<close>

record ('a, 'o) find_request =
  fr_Filter :: 'a
  fr_Options :: "'o option"

record ('a, 'o) insert_one_request =
  ir_Document :: 'a
  ir_Options :: "'o option"

record ('a, 'o) update_one_request =
  ur_Filter :: 'a
  ur_Update :: 'a
  ur_Options :: "'o option"

record ('a, 'o) delete_one_request =
  dq_Filter :: 'a
  dq_Options :: "'o option"

definition opts_of :: "'o option \<Rightarrow> 'o list" where
  "opts_of options = (case options of None \<Rightarrow> [] | Some o' \<Rightarrow> [o'])"

definition nilCollectionError :: gerror where
  "nilCollectionError = Wrapf ErrInvalidConfig ''collection is nil''"

text \<open>\<open>context.WithoutCancel\<close>: a context that is never done. Contexts carry no values here.\<close>

definition WithoutCancel :: "ctx \<Rightarrow> ctx" where
  "WithoutCancel c = Background"

text \<open>The part the handlers of results without resources share: \<open>(result, err)\<close> unless there is an error and no result.\<close>

definition mongo_result :: "('p :: zero) \<times> err \<Rightarrow> 'p basic_result \<times> err" where
  "mongo_result r = (case r of (result, e) \<Rightarrow> if e \<noteq> None \<and> result = 0 then (AbortResult, e) else (BasicHandled result, e))"

definition NewFindRouteHandler ::
  "('p \<Rightarrow> ctx \<Rightarrow> 'h) \<Rightarrow> (ctx \<Rightarrow> 'a \<Rightarrow> 'o list \<Rightarrow> (('h, 'x) world_scheme, 'p \<times> err) proc) option \<Rightarrow>
   ('h, 'x, ('a, 'o) find_request, string, string, 'p :: zero) handler" where
  "NewFindRouteHandler cursor_Close coll =
     (case coll of
        None \<Rightarrow> invalidRouteHandler nilCollectionError
      | Some run \<Rightarrow> \<lambda>call.
          seq (run (rc_Context call) (fr_Filter (rc_Request call)) (opts_of (fr_Options (rc_Request call)))) (\<lambda>(cursor, e).
            if e \<noteq> None \<and> cursor = 0 then ret (AbortResult, e)
            else if cursor \<noteq> 0
            then owned (BasicHandled cursor) (HostFn (cursor_Close cursor (WithoutCancel (rc_Context call)))) e
            else ret (BasicHandled cursor, e)))"

definition NewInsertOneRouteHandler ::
  "(ctx \<Rightarrow> 'a \<Rightarrow> 'o list \<Rightarrow> (('h, 'x) world_scheme, 'p \<times> err) proc) option \<Rightarrow>
   ('h, 'x, ('a, 'o) insert_one_request, string, string, 'p :: zero) handler" where
  "NewInsertOneRouteHandler coll =
     (case coll of
        None \<Rightarrow> invalidRouteHandler nilCollectionError
      | Some run \<Rightarrow> \<lambda>call.
          seq (run (rc_Context call) (ir_Document (rc_Request call)) (opts_of (ir_Options (rc_Request call))))
            (\<lambda>r. ret (mongo_result r)))"

definition NewUpdateOneRouteHandler ::
  "(ctx \<Rightarrow> 'a \<Rightarrow> 'a \<Rightarrow> 'o list \<Rightarrow> (('h, 'x) world_scheme, 'p \<times> err) proc) option \<Rightarrow>
   ('h, 'x, ('a, 'o) update_one_request, string, string, 'p :: zero) handler" where
  "NewUpdateOneRouteHandler coll =
     (case coll of
        None \<Rightarrow> invalidRouteHandler nilCollectionError
      | Some run \<Rightarrow> \<lambda>call.
          seq (run (rc_Context call) (ur_Filter (rc_Request call)) (ur_Update (rc_Request call)) (opts_of (ur_Options (rc_Request call))))
            (\<lambda>r. ret (mongo_result r)))"

definition NewDeleteOneRouteHandler ::
  "(ctx \<Rightarrow> 'a \<Rightarrow> 'o list \<Rightarrow> (('h, 'x) world_scheme, 'p \<times> err) proc) option \<Rightarrow>
   ('h, 'x, ('a, 'o) delete_one_request, string, string, 'p :: zero) handler" where
  "NewDeleteOneRouteHandler coll =
     (case coll of
        None \<Rightarrow> invalidRouteHandler nilCollectionError
      | Some run \<Rightarrow> \<lambda>call.
          seq (run (rc_Context call) (dq_Filter (rc_Request call)) (opts_of (dq_Options (rc_Request call))))
            (\<lambda>r. ret (mongo_result r)))"

section \<open>Kafka\<close>

text \<open>
  Byte slices are addresses of buffers in an extension of the world, \<open>None\<close> for a nil slice, so that copies and aliases differ.
  \<open>km_rest\<close> is the rest of a message, which is copied as it is.
\<close>

record 'h kafka_world = "'h world" +
  kw_bytes :: "nat \<Rightarrow> string"

record 'm kafka_message =
  km_Key :: "nat option"
  km_Value :: "nat option"
  km_Headers :: "(string \<times> nat option) list"
  km_rest :: 'm

definition bytes_Clone :: "nat option \<Rightarrow> ('h, 'x) kafka_world_scheme \<Rightarrow> nat option \<times> ('h, 'x) kafka_world_scheme" where
  "bytes_Clone b w =
     (case b of
        None \<Rightarrow> (None, w)
      | Some a \<Rightarrow> (Some (w_fresh w), w\<lparr>kw_bytes := (kw_bytes w)(w_fresh w := kw_bytes w a), w_fresh := Suc (w_fresh w)\<rparr>))"

fun clone_headers ::
  "(string \<times> nat option) list \<Rightarrow> ('h, 'x) kafka_world_scheme \<Rightarrow> (string \<times> nat option) list \<times> ('h, 'x) kafka_world_scheme" where
  "clone_headers [] w = ([], w)"
| "clone_headers ((key, value) # hs) w =
     (case bytes_Clone value w of (value', w1) \<Rightarrow>
        case clone_headers hs w1 of (hs', w2) \<Rightarrow> ((key, value') # hs', w2))"

fun cloneMessages ::
  "'m kafka_message list \<Rightarrow> ('h, 'x) kafka_world_scheme \<Rightarrow> 'm kafka_message list \<times> ('h, 'x) kafka_world_scheme" where
  "cloneMessages [] w = ([], w)"
| "cloneMessages (m # ms) w =
     (case bytes_Clone (km_Key m) w of (key, w1) \<Rightarrow>
        case bytes_Clone (km_Value m) w1 of (value, w2) \<Rightarrow>
        case clone_headers (km_Headers m) w2 of (headers, w3) \<Rightarrow>
        case cloneMessages ms w3 of (ms', w4) \<Rightarrow>
          (m\<lparr>km_Key := key, km_Value := value, km_Headers := headers\<rparr> # ms', w4))"

datatype message_state = MessageUnknown | Acknowledged | PermanentFailure | TransientFailure

record message_result =
  mr_Index :: nat
  mr_State :: message_state
  mr_Err :: err

datatype publish_result = PublishResult (pr_Messages: "message_result list")

instantiation publish_result :: zero
begin

definition zero_publish_result :: publish_result where
  "zero_publish_result = PublishResult []"

instance ..

end

text \<open>The body of the loop of \<open>publishResult\<close>; \<open>batch\<close> is the \<open>kafka.WriteErrors\<close> of the error, if it has some.\<close>

definition message_fact :: "kafka_sdk \<Rightarrow> (gerror \<Rightarrow> nat) \<Rightarrow> nat \<Rightarrow> err \<Rightarrow> err list option \<Rightarrow> nat \<Rightarrow> message_result" where
  "message_fact sdk depth count e batch index =
     (let full = (case batch of None \<Rightarrow> False | Some b \<Rightarrow> length b = count);
          messageErr = (if full then the batch ! index else e);
          state = (if e = None then Acknowledged else MessageUnknown);
          state = (if full \<and> messageErr = None then Acknowledged else state);
          state = (case messageErr of
              Some x \<Rightarrow>
                if batch = None \<or> full then
                  if kafka_transient sdk depth x then TransientFailure
                  else if error_view (ks_Error sdk) x \<noteq> None then PermanentFailure
                  else state
                else state
            | None \<Rightarrow> state)
      in \<lparr>mr_Index = index, mr_State = state, mr_Err = messageErr\<rparr>)"

definition publishResult :: "kafka_sdk \<Rightarrow> (gerror \<Rightarrow> nat) \<Rightarrow> nat \<Rightarrow> err \<Rightarrow> publish_result" where
  "publishResult sdk depth count e =
     (let batch = (case e of None \<Rightarrow> None | Some x \<Rightarrow> error_view (ks_WriteErrors sdk) x)
      in PublishResult (map (message_fact sdk depth count e batch) [0..<count]))"

text \<open>
  The dynamic type of the writer: a \<open>*kafka.Writer\<close>, possibly nil, with its \<open>Async\<close> and whether it requires no
  acknowledgements, or another implementation.
\<close>

datatype writer_type = KafkaWriter "(bool \<times> bool) option" | OtherWriter

definition NewProducerRouteHandler ::
  "kafka_sdk \<Rightarrow> (gerror \<Rightarrow> nat) \<Rightarrow>
   (writer_type \<times> (ctx \<Rightarrow> 'm kafka_message list \<Rightarrow> (('h, 'x) kafka_world_scheme, err) proc)) option \<Rightarrow>
   'm kafka_message list route_call \<Rightarrow> (('h, 'x) kafka_world_scheme, publish_result basic_result \<times> err) proc" where
  "NewProducerRouteHandler sdk depth writer =
     (case writer of
        None \<Rightarrow> invalidRouteHandler (configError ''kafka writer is nil'')
      | Some (type, WriteMessages) \<Rightarrow>
          if (case type of KafkaWriter None \<Rightarrow> True | KafkaWriter (Some (async, noAcks)) \<Rightarrow> async \<or> noAcks | OtherWriter \<Rightarrow> False)
          then invalidRouteHandler (configError ''writer must be synchronous with broker acknowledgements'')
          else (\<lambda>call w.
            if rc_Request call = [] then (Ret (BasicHandled (PublishResult []), None), w)
            else case cloneMessages (rc_Request call) w of (messages, w1) \<Rightarrow>
              seq (WriteMessages (rc_Context call) messages) (\<lambda>e.
                ret (BasicHandled (publishResult sdk depth (length (rc_Request call)) e), e)) w1))"

section \<open>S3\<close>

text \<open>
  A body: one of the host with its \<open>Close\<close>, one owned by a lifetime, or prepared bytes, whose \<open>Close\<close> does nothing.
\<close>

datatype 'h body = RawBody 'h | OwnedBody 'h nat | PreparedBody string

definition body_Close :: "('h \<Rightarrow> (('h, 'x) world_scheme, err) proc) \<Rightarrow> 'h body \<Rightarrow> (('h, 'x) world_scheme, err) proc" where
  "body_Close hostfn b =
     (case b of RawBody h \<Rightarrow> hostfn h | OwnedBody _ l \<Rightarrow> Close hostfn (Some l) | PreparedBody _ \<Rightarrow> ret None)"

record ('h, 'i) put_input =
  pi_Body :: "'h body option"
  pi_rest :: 'i

record ('h, 'x, 'i) put_request =
  pq_Input :: "('h, 'i) put_input"
  pq_BodyFactory :: "(ctx \<Rightarrow> (('h, 'x) world_scheme, 'h body option \<times> err) proc) option"

definition openBody ::
  "('h \<Rightarrow> (('h, 'x) world_scheme, err) proc) \<Rightarrow> ctx \<Rightarrow> (ctx \<Rightarrow> (('h, 'x) world_scheme, 'h body option \<times> err) proc) option \<Rightarrow>
   (('h, 'x) world_scheme, 'h body option \<times> err) proc" where
  "openBody hostfn ctx factory =
     (case factory of
        None \<Rightarrow> ret (Some (PreparedBody ''''), None)
      | Some build \<Rightarrow> seq (build ctx) (\<lambda>(body, e).
          if e \<noteq> None then
            (case body of
               None \<Rightarrow> ret (None, e)
             | Some b \<Rightarrow> seq (body_Close hostfn b) (\<lambda>ce. ret (None, errors_Join [e, ce])))
          else case body of
            None \<Rightarrow> ret (None, Some (configError ''nil factory body''))
          | Some b \<Rightarrow> ret (Some b, None)))"

text \<open>Closing the body the handler has opened, with the error it joins.\<close>

definition close_opened ::
  "('h \<Rightarrow> (('h, 'x) world_scheme, err) proc) \<Rightarrow> 'h body option \<Rightarrow> err \<Rightarrow> (('h, 'x) world_scheme, err) proc" where
  "close_opened hostfn body e =
     (case body of None \<Rightarrow> ret e | Some b \<Rightarrow> seq (body_Close hostfn b) (\<lambda>ce. ret (errors_Join [e, ce])))"

definition NewPutObjectRouteHandler ::
  "('h \<Rightarrow> (('h, 'x) world_scheme, err) proc) \<Rightarrow>
   (ctx \<Rightarrow> ('h, 'i) put_input \<Rightarrow> (('h, 'x) world_scheme, 'p option \<times> err) proc) option \<Rightarrow>
   ('h, 'x, ('h, 'x, 'i) put_request, string, string, 'p option) handler" where
  "NewPutObjectRouteHandler hostfn api =
     (case api of
        None \<Rightarrow> invalidRouteHandler (configError ''s3 PutObject client is nil'')
      | Some PutObject \<Rightarrow> \<lambda>call.
          if pi_Body (pq_Input (rc_Request call)) \<noteq> None
          then ret (AbortResult, Some (configError ''prepare PutObject body or provide a BodyFactory''))
          else seq (ctx_Err (rc_Context call)) (\<lambda>e.
            if e \<noteq> None then ret (AbortResult, e)
            else seq (openBody hostfn (rc_Context call) (pq_BodyFactory (rc_Request call))) (\<lambda>(body, openErr).
              if openErr \<noteq> None then ret (AbortResult, openErr)
              else let input = (pq_Input (rc_Request call))\<lparr>pi_Body := body\<rparr> in
                seq (ctx_Err (rc_Context call)) (\<lambda>e.
                  if e \<noteq> None then seq (close_opened hostfn body e) (\<lambda>e. ret (AbortResult, e))
                  else seq (PutObject (rc_Context call) input) (\<lambda>(output, e).
                    seq (close_opened hostfn body e) (\<lambda>e.
                      if output \<noteq> None then ret (BasicHandled output, e)
                      else if e \<noteq> None then ret (AbortResult, e)
                      else ret (BasicHandled output, None)))))))"

text \<open>The client's output has a body of the host; the handler returns the output with that body owned by a lifetime.\<close>

record ('b, 'o) get_output =
  gt_Body :: "'b option"
  gt_rest :: 'o

definition NewGetObjectRouteHandler ::
  "(ctx \<Rightarrow> 'i \<Rightarrow> (('h, 'x) world_scheme, ('h, 'o) get_output option \<times> err) proc) option \<Rightarrow>
   ('h, 'x, 'i, string, string, ('h body, 'o) get_output option) handler" where
  "NewGetObjectRouteHandler api =
     (case api of
        None \<Rightarrow> invalidRouteHandler (configError ''s3 GetObject client is nil'')
      | Some GetObject \<Rightarrow> \<lambda>call. seq (GetObject (rc_Context call) (rc_Request call)) (\<lambda>(output, e).
          case output of
            None \<Rightarrow> if e \<noteq> None then ret (AbortResult, e) else ret (BasicHandled None, e)
          | Some out \<Rightarrow>
              (case gt_Body out of
                 None \<Rightarrow> ret (BasicHandled (Some \<lparr>gt_Body = None, gt_rest = gt_rest out\<rparr>), e)
               | Some b \<Rightarrow> (\<lambda>w. case NewLifetime (Some (HostFn b)) w of (l, w1) \<Rightarrow>
                   (Ret ((BasicHandled (Some \<lparr>gt_Body = Some (OwnedBody b l), gt_rest = gt_rest out\<rparr>))\<lparr>res_Lifetime := Some l\<rparr>, e), w1)))))"

section \<open>Published batches\<close>

definition matching_batch :: "kafka_sdk \<Rightarrow> nat \<Rightarrow> err \<Rightarrow> err list option" where
  "matching_batch sdk count e =
     (case e of
        None \<Rightarrow> None
      | Some x \<Rightarrow> (case error_view (ks_WriteErrors sdk) x of None \<Rightarrow> None | Some b \<Rightarrow> if length b = count then Some b else None))"

text \<open>
  C32 (functional). What \<open>publishResult\<close> says of a batch: one fact per message, in order. A message is acknowledged exactly when
  no error is left for it: the write succeeded, or the client reported the batch message by message and this one without
  error. Only an error that classifies the message itself makes it a transient failure; a batch report of another length says
  nothing of single messages, and every one of them stays unknown.
\<close>

theorem publish_accounts_for_every_message:
  assumes "pr_Messages (publishResult sdk depth count e) = ms"
  shows "length ms = count \<and> (\<forall>i < count. mr_Index (ms ! i) = i \<and>
    mr_Err (ms ! i) = (case matching_batch sdk count e of None \<Rightarrow> e | Some b \<Rightarrow> b ! i) \<and>
    (mr_State (ms ! i) = Acknowledged \<longleftrightarrow> mr_Err (ms ! i) = None) \<and>
    (mr_State (ms ! i) = TransientFailure \<longleftrightarrow>
       (\<exists>x. mr_Err (ms ! i) = Some x \<and> kafka_transient sdk depth x \<and>
          (matching_batch sdk count e = None \<longrightarrow> error_view (ks_WriteErrors sdk) x = None))) \<and>
    (matching_batch sdk count e = None \<and> e \<noteq> None \<and> error_view (ks_WriteErrors sdk) (the e) \<noteq> None \<longrightarrow>
       mr_State (ms ! i) = MessageUnknown))"
  using assms
  by (auto simp: publishResult_def message_fact_def matching_batch_def Let_def split: option.splits if_splits)

theorem publish_accounts_for_every_message_witness:
  "\<exists>ms. pr_Messages (publishResult demo_kafka (\<lambda>_. 0) 2 (Some (HostError 0 []))) = ms \<and> length ms = 2 \<and>
     mr_State (ms ! 1) = TransientFailure"
proof -
  have "matching_batch demo_kafka 2 (Some (HostError 0 [])) = Some [Some (HostError 1 []), Some EOF]"
    by (simp add: matching_batch_def demo_kafka_def)
  moreover have "kafka_transient demo_kafka (\<lambda>_. 0) EOF"
    by (simp add: kafka_transient_def demo_kafka_def EOF_def ErrInvalidConfig_def ContextCanceled_def DeadlineExceeded_def)
  ultimately show ?thesis
    using publish_accounts_for_every_message [OF refl, of demo_kafka "\<lambda>_. 0" 2 "Some (HostError 0 [])"] by auto
qed

text \<open>What a message says, and which buffers it refers to.\<close>

definition slices :: "'m kafka_message \<Rightarrow> nat set" where
  "slices m = set_option (km_Key m) \<union> set_option (km_Value m) \<union> (\<Union>h \<in> set (km_Headers m). set_option (snd h))"

definition contents ::
  "(nat \<Rightarrow> string) \<Rightarrow> 'm kafka_message \<Rightarrow> string option \<times> string option \<times> (string \<times> string option) list \<times> 'm" where
  "contents bytes m = (map_option bytes (km_Key m), map_option bytes (km_Value m),
     map (\<lambda>(k, v). (k, map_option bytes v)) (km_Headers m), km_rest m)"

text \<open>\<open>extends w v\<close>: \<open>v\<close> has more buffers than \<open>w\<close> and the same old ones.\<close>

definition extends :: "('h, 'x) kafka_world_scheme \<Rightarrow> ('h, 'x) kafka_world_scheme \<Rightarrow> bool" where
  "extends w v \<longleftrightarrow> w_fresh w \<le> w_fresh v \<and> (\<forall>a < w_fresh w. kw_bytes v a = kw_bytes w a)"

interpretation buffers: frame_relation extends
  by unfold_locales (auto simp: extends_def)

definition news :: "('h, 'x) kafka_world_scheme \<Rightarrow> ('h, 'x) kafka_world_scheme \<Rightarrow> nat set \<Rightarrow> bool" where
  "news w v as \<longleftrightarrow> as \<subseteq> {w_fresh w..<w_fresh v}"

lemma news_Un: "news w v (A \<union> B) \<longleftrightarrow> news w v A \<and> news w v B"
  by (auto simp: news_def)

lemma news_mono: "news a b A \<Longrightarrow> extends w a \<Longrightarrow> extends b v \<Longrightarrow> news w v A"
  by (fastforce simp: news_def extends_def)

lemma bytes_Clone_fresh:
  assumes "bytes_Clone b w = (b', v)" "set_option b \<subseteq> {..<w_fresh w}"
  shows "extends w v" "news w v (set_option b')" "map_option (kw_bytes v) b' = map_option (kw_bytes w) b"
  using assms by (auto simp: bytes_Clone_def extends_def news_def split: option.splits)

lemma map_option_ext: "(\<And>a. a \<in> set_option b \<Longrightarrow> f a = g a) \<Longrightarrow> map_option f b = map_option g b"
  by (cases b) auto

lemma extends_bytes: "extends w v \<Longrightarrow> set_option b \<subseteq> {..<w_fresh w} \<Longrightarrow> map_option (kw_bytes v) b = map_option (kw_bytes w) b"
  by (rule map_option_ext) (auto simp: extends_def)

lemma extends_headers:
  "extends w v \<Longrightarrow> (\<Union>h \<in> set hs. set_option (snd h)) \<subseteq> {..<w_fresh w} \<Longrightarrow>
   map (\<lambda>(k, b). (k, map_option (kw_bytes v) b)) hs = map (\<lambda>(k, b). (k, map_option (kw_bytes w) b)) hs"
  using extends_bytes [of w v] by (auto simp: UN_subset_iff)

lemma clone_headers_fresh:
  assumes "clone_headers hs w = (hs', v)" "(\<Union>h \<in> set hs. set_option (snd h)) \<subseteq> {..<w_fresh w}"
  shows "extends w v \<and> news w v (\<Union>h \<in> set hs'. set_option (snd h)) \<and>
    map (\<lambda>(k, b). (k, map_option (kw_bytes v) b)) hs' = map (\<lambda>(k, b). (k, map_option (kw_bytes w) b)) hs"
  using assms
proof (induction hs arbitrary: w hs')
  case Nil
  then show ?case by (simp add: extends_def news_def)
next
  case (Cons h hs)
  obtain k b where h: "h = (k, b)" by fastforce
  obtain b' w1 where b: "bytes_Clone b w = (b', w1)" by fastforce
  obtain hs1 where hs: "clone_headers hs w1 = (hs1, v)" "hs' = (k, b') # hs1"
    using Cons.prems(1) h b by (auto split: prod.splits)
  have old: "set_option b \<subseteq> {..<w_fresh w}" "(\<Union>h \<in> set hs. set_option (snd h)) \<subseteq> {..<w_fresh w}" using Cons.prems(2) h by auto
  note c = bytes_Clone_fresh [OF b old(1)]
  have "(\<Union>h \<in> set hs. set_option (snd h)) \<subseteq> {..<w_fresh w1}" using old(2) c(1) by (fastforce simp: extends_def)
  note IH = Cons.IH [OF hs(1) this]
  have "map_option (kw_bytes v) b' = map_option (kw_bytes w1) b'"
    using IH c(2) by (intro extends_bytes) (auto simp: news_def)
  moreover have "map (\<lambda>(k, b). (k, map_option (kw_bytes w1) b)) hs = map (\<lambda>(k, b). (k, map_option (kw_bytes w) b)) hs"
    by (rule extends_headers [OF c(1) old(2)])
  moreover have "news w v (set_option b' \<union> (\<Union>h \<in> set hs1. set_option (snd h)))"
    using c(1,2) IH by (fastforce simp: news_def extends_def)
  ultimately show ?case using IH c hs(2) h buffers.frame_trans by (auto simp: news_def)
qed

lemma extends_contents: "extends w v \<Longrightarrow> slices m \<subseteq> {..<w_fresh w} \<Longrightarrow> contents (kw_bytes v) m = contents (kw_bytes w) m"
  by (simp add: contents_def slices_def extends_bytes extends_headers)

lemma cloneMessages_fresh:
  assumes "cloneMessages ms w = (ms', v)" "(\<Union>m \<in> set ms. slices m) \<subseteq> {..<w_fresh w}"
  shows "extends w v \<and> news w v (\<Union>m \<in> set ms'. slices m) \<and>
    map (contents (kw_bytes v)) ms' = map (contents (kw_bytes w)) ms"
  using assms
proof (induction ms arbitrary: w ms')
  case Nil
  then show ?case by (simp add: extends_def news_def)
next
  case (Cons m ms)
  obtain key w1 where k: "bytes_Clone (km_Key m) w = (key, w1)" by fastforce
  obtain val w2 where a: "bytes_Clone (km_Value m) w1 = (val, w2)" by fastforce
  obtain hs w3 where h: "clone_headers (km_Headers m) w2 = (hs, w3)" by fastforce
  obtain ms1 where ms: "cloneMessages ms w3 = (ms1, v)" "ms' = m\<lparr>km_Key := key, km_Value := val, km_Headers := hs\<rparr> # ms1"
    using Cons.prems(1) k a h by (auto split: prod.splits)
  have old: "slices m \<subseteq> {..<w_fresh w}" "(\<Union>m \<in> set ms. slices m) \<subseteq> {..<w_fresh w}" using Cons.prems(2) by auto
  have k': "extends w w1" "news w w1 (set_option key)" "map_option (kw_bytes w1) key = map_option (kw_bytes w) (km_Key m)"
    by (rule bytes_Clone_fresh [OF k]; use old(1) in \<open>auto simp: slices_def\<close>)+
  have a': "extends w1 w2" "news w1 w2 (set_option val)" "map_option (kw_bytes w2) val = map_option (kw_bytes w1) (km_Value m)"
    by (rule bytes_Clone_fresh [OF a]; use old(1) k'(1) in \<open>fastforce simp: slices_def extends_def\<close>)+
  have h': "extends w2 w3 \<and> news w2 w3 (\<Union>h \<in> set hs. set_option (snd h)) \<and>
      map (\<lambda>(k, b). (k, map_option (kw_bytes w3) b)) hs = map (\<lambda>(k, b). (k, map_option (kw_bytes w2) b)) (km_Headers m)"
    by (rule clone_headers_fresh [OF h]) (use old(1) k'(1) a'(1) in \<open>fastforce simp: slices_def extends_def\<close>)
  have r': "extends w3 v \<and> news w3 v (\<Union>m \<in> set ms1. slices m) \<and> map (contents (kw_bytes v)) ms1 = map (contents (kw_bytes w3)) ms"
    by (rule Cons.IH [OF ms(1)]) (use old(2) k'(1) a'(1) h' in \<open>fastforce simp: extends_def\<close>)
  have up: "extends w w2" "extends w w3" "extends w1 v" "extends w2 v"
    using k'(1) a'(1) h' r' buffers.frame_trans by blast+
  have at: "set_option key \<subseteq> {..<w_fresh w1}" "set_option val \<subseteq> {..<w_fresh w2}" "(\<Union>h \<in> set hs. set_option (snd h)) \<subseteq> {..<w_fresh w3}"
    using k'(2) a'(2) h' by (auto simp: news_def)
  have parts: "set_option (km_Value m) \<subseteq> {..<w_fresh w}" "(\<Union>h \<in> set (km_Headers m). set_option (snd h)) \<subseteq> {..<w_fresh w}"
    using old(1) by (auto simp: slices_def)
  have "contents (kw_bytes v) (hd ms') = contents (kw_bytes w) m"
    using extends_bytes [OF up(3) at(1)] k'(3) extends_bytes [OF up(4) at(2)] a'(3) extends_bytes [OF k'(1) parts(1)]
      extends_headers [OF conjunct1 [OF r'] at(3)] h' extends_headers [OF up(1) parts(2)] ms(2)
    by (simp add: contents_def)
  moreover have "map (contents (kw_bytes w3)) ms = map (contents (kw_bytes w)) ms"
    using old(2) by (simp add: UN_subset_iff extends_contents [OF up(2)])
  moreover have "news w v (slices (hd ms') \<union> (\<Union>m \<in> set ms1. slices m))"
    using news_mono [OF k'(2) buffers.frame_refl up(3)] news_mono [OF a'(2) k'(1) up(4)]
      news_mono [OF _ up(1), of w3 "\<Union>h \<in> set hs. set_option (snd h)" v] news_mono [OF _ up(2) buffers.frame_refl] h' r' ms(2)
    by (simp add: slices_def news_Un)
  ultimately show ?case using r' up(2) buffers.frame_trans ms(2) by (auto simp: news_def)
qed

text \<open>
  The writer gets copies: the messages handed to it say what the request says, and go on saying it whatever the
  owner of the request writes into the buffers it had before, since they refer only to buffers allocated for the call.
\<close>

theorem kafka_writer_gets_copies:
  assumes "cloneMessages ms w = (ms', v)" "(\<Union>m \<in> set ms. slices m) \<subseteq> {..<w_fresh w}"
    and "\<And>a. w_fresh w \<le> a \<Longrightarrow> bytes a = kw_bytes v a"
  shows "map (contents bytes) ms' = map (contents (kw_bytes w)) ms"
proof -
  note c = cloneMessages_fresh [OF assms(1,2)]
  have new: "bytes a = kw_bytes v a" if "m \<in> set ms'" "a \<in> slices m" for m a
    using c that assms(3) by (auto simp: news_def)
  have "contents bytes m = contents (kw_bytes v) m" if "m \<in> set ms'" for m
    using new [OF that] by (force simp: contents_def slices_def intro!: map_option_ext)
  then show ?thesis using c by (metis (mono_tags, lifting) map_eq_conv)
qed

definition demo_buffers :: "(nat, unit) kafka_world_scheme" where
  "demo_buffers = \<lparr>w_step = 0, w_clock = (\<lambda>_. 0), w_rand = (\<lambda>_. 0), w_cancel = (\<lambda>_. None), w_fresh = 2,
     w_lifes = (\<lambda>_. fresh_life), w_decisions = (\<lambda>_. []), w_counters = (\<lambda>_. 0),
     w_breakers = (\<lambda>_. \<lparr>cb_failures = 0, cb_state = cbClosed, cb_openedAt = 0, cb_probeInFlight = False, cb_generation = 0\<rparr>),
     w_semas = (\<lambda>_. \<lparr>sm_limit = 0, sm_used = 0\<rparr>), kw_bytes = (\<lambda>a. if a = 1 then ''payload'' else ''key'')\<rparr>"

theorem kafka_writer_gets_copies_witness:
  "\<exists>ms' v. cloneMessages [\<lparr>km_Key = Some 0, km_Value = Some 1, km_Headers = [(''h'', Some 0)], km_rest = ()\<rparr>] demo_buffers = (ms', v) \<and>
     map (contents ((kw_bytes v)(0 := ''changed'', 1 := ''changed''))) ms' =
       [(Some ''key'', Some ''payload'', [(''h'', Some ''key'')], ())]"
proof -
  let ?m = "\<lparr>km_Key = Some 0, km_Value = Some 1, km_Headers = [(''h'', Some 0)], km_rest = ()\<rparr>"
  obtain ms' v where c: "cloneMessages [?m] demo_buffers = (ms', v)" by fastforce
  have "map (contents ((kw_bytes v)(0 := ''changed'', 1 := ''changed''))) ms' = map (contents (kw_bytes demo_buffers)) [?m]"
    by (rule kafka_writer_gets_copies [OF c]) (auto simp: demo_buffers_def slices_def)
  then show ?thesis using c by (auto simp: contents_def demo_buffers_def)
qed

section \<open>Uploads\<close>

text \<open>A world that logs which bodies of the host have been closed, and in which closing one may report an error.\<close>

record 'h upload_world = "'h world" +
  uw_closed :: "'h list"

definition closing :: "('h \<Rightarrow> err) \<Rightarrow> 'h \<Rightarrow> (('h, 'x) upload_world_scheme, err) proc" where
  "closing report h w = (Ret (report h), w\<lparr>uw_closed := uw_closed w @ [h]\<rparr>)"

lemma body_Close_log: "body_Close (closing report) (RawBody h) w = (Ret (report h), w\<lparr>uw_closed := uw_closed w @ [h]\<rparr>)"
  by (simp add: body_Close_def closing_def)

lemma uw_closed_tick [simp]: "uw_closed (tick w) = uw_closed w"
  by (simp add: tick_def)

text \<open>
  C31 (safety). An upload owns its body: once the factory has handed a body over, with or without an error, every return of
  the handler has closed it exactly once, whether the context ended, the client failed or the object was stored.
\<close>

theorem put_object_closes_its_body:
  assumes "pi_Body (pq_Input req) = None" "pq_BodyFactory req = Some factory" "rc_Request call = req"
    and "ctx_err (tick w) (rc_Context call) = None"
    and "factory (rc_Context call) (tick w) = (Ret (Some (RawBody h), e), opened)" "uw_closed opened = uw_closed w"
    and "\<And>c i v. uw_closed (snd (PutObject c i v)) = uw_closed v"
    and "NewPutObjectRouteHandler (closing report) (Some PutObject) call w = (Ret out, w')"
  shows "uw_closed w' = uw_closed w @ [h]"
proof (cases e)
  case (Some x)
  then show ?thesis using assms by (auto simp: NewPutObjectRouteHandler_def openBody_def seq_def body_Close_log split: if_splits)
next
  case None
  have put: "uw_closed v' = uw_closed v" if "PutObject c i v = (r, v')" for c i v r v'
    using assms(7) [of c i v] that by simp
  show ?thesis
    using assms(1-6,8) None
    by (auto simp: NewPutObjectRouteHandler_def openBody_def close_opened_def seq_def body_Close_log Let_def
        split: if_splits prod.splits outcome.splits dest!: put)
qed

definition demo_upload :: "(nat, (nat, unit) upload_world_ext, unit) put_request route_call" where
  "demo_upload = \<lparr>rc_Context = Background,
     rc_Request = \<lparr>pq_Input = \<lparr>pi_Body = None, pi_rest = ()\<rparr>, pq_BodyFactory = Some (\<lambda>_. ret (Some (RawBody 4), None))\<rparr>,
     rc_Match = zeroRouteMatch, rc_state = None\<rparr>"

theorem put_object_closes_its_body_witness:
  "\<exists>w' out. NewPutObjectRouteHandler (closing (\<lambda>_. None)) (Some (\<lambda>_ _ v. (Ret (Some (1 :: nat), None), v))) demo_upload
       (world.extend idle_world \<lparr>uw_closed = []\<rparr>) = (Ret out, w') \<and> uw_closed w' = [4]"
proof -
  let ?w = "world.extend idle_world \<lparr>uw_closed = []\<rparr> :: (nat, unit) upload_world_scheme"
  let ?put = "\<lambda>_ _ v :: (nat, unit) upload_world_scheme. (Ret (Some (1 :: nat), None :: err), v)"
  have live: "ctx_err v Background = None" for v :: "(nat, unit) upload_world_scheme" by (simp add: ctx_err_def)
  have "\<exists>w' out. NewPutObjectRouteHandler (closing (\<lambda>_. None)) (Some ?put) demo_upload ?w = (Ret out, w')"
    by (simp add: NewPutObjectRouteHandler_def openBody_def close_opened_def seq_def body_Close_log demo_upload_def live Let_def)
  then obtain w' out where run: "NewPutObjectRouteHandler (closing (\<lambda>_. None)) (Some ?put) demo_upload ?w = (Ret out, w')" by blast
  have "uw_closed w' = uw_closed ?w @ [4]"
    by (rule put_object_closes_its_body [where factory = "\<lambda>_. ret (Some (RawBody 4), None)" and e = None and opened = "tick ?w",
          OF _ _ refl _ _ _ _ run]) (simp_all add: demo_upload_def live)
  then show ?thesis using run by (auto simp: world.defs)
qed

end
