(* ===== verification/Http.thy ===== *)
theory Http
  imports Adapters Schedule
begin

text \<open>
  \<open>ext/http\<close>: the retry policy, the \<open>Retry-After\<close> hint, request preparation and the handler over a client.

  Requests and responses are objects behind pointers, in heaps of an extension of the world. A body is the host's, empty, bytes
  the adapter has buffered, or the host's owned by a lifetime. What the host does is in the record \<open>http_host\<close>: the client,
  closing a body, the \<open>GetBody\<close> of a request it made. A body of the host delivers chunks, each with the error \<open>Read\<close> returns
  along with its last byte; \<open>read_chunk\<close> is one \<open>Read\<close> with a buffer of the given size. How large the buffers of \<open>io.ReadAll\<close>
  are is left open: they have room for at least one byte, \<open>room\<close> says how much more.
\<close>

section \<open>Data\<close>

datatype 'f http_body = NoBody | HostBody 'f | BytesBody string | OwnedHttpBody 'f nat

datatype 'f get_body = GetBytes string | HostGetBody 'f

record 'f http_request =
  rq_Method :: string
  rq_Body :: "'f http_body option"
  rq_GetBody :: "'f get_body option"
  rq_ContentLength :: int
  rq_Context :: ctx

text \<open>A response with the client's body and the lifetime that owns it, once the handler has wrapped it.\<close>

record 'f http_response =
  rp_StatusCode :: int
  rp_Body :: 'f
  rp_Owner :: nat

record 'f http_world = "'f world" +
  hw_requests :: "nat \<Rightarrow> 'f http_request"
  hw_responses :: "nat \<Rightarrow> 'f http_response"
  hw_sources :: "'f \<Rightarrow> (string \<times> err) list"

record ('f, 'w) http_host =
  hh_Do :: "nat \<Rightarrow> ('w, (int \<times> 'f option) option \<times> err) proc"
  hh_close :: "'f \<Rightarrow> ('w, err) proc"
  hh_getBody :: "'f \<Rightarrow> ('w, 'f http_body option \<times> err) proc"

definition new_request :: "'f http_request \<Rightarrow> ('f, 'x) http_world_scheme \<Rightarrow> nat \<times> ('f, 'x) http_world_scheme" where
  "new_request r w = (w_fresh w, w\<lparr>hw_requests := (hw_requests w)(w_fresh w := r), w_fresh := Suc (w_fresh w)\<rparr>)"

definition new_response :: "'f http_response \<Rightarrow> ('f, 'x) http_world_scheme \<Rightarrow> nat \<times> ('f, 'x) http_world_scheme" where
  "new_response r w = (w_fresh w, w\<lparr>hw_responses := (hw_responses w)(w_fresh w := r), w_fresh := Suc (w_fresh w)\<rparr>)"

text \<open>A \<open>*StatusError\<close> as an error value, with its fields; a nil pointer of that type has the payload \<open>VNil\<close>.\<close>

definition ptr :: "nat option \<Rightarrow> gval" where
  "ptr a = (case a of None \<Rightarrow> VNil | Some n \<Rightarrow> VRef ''ptr'' n)"

fun deref :: "gval \<Rightarrow> nat option" where
  "deref (VRef _ n) = Some n"
| "deref _ = None"

definition StatusError :: "nat option \<Rightarrow> nat option \<Rightarrow> int \<Rightarrow> gerror" where
  "StatusError request response code =
     Typed ''*routeryhttp.StatusError'' (VComposite ''StatusError'' [ptr request, ptr response, VInt ''int'' code]) []"

fun status_fields :: "gval \<Rightarrow> (nat option \<times> nat option \<times> int) option" where
  "status_fields (VComposite _ [request, response, VInt _ code]) = Some (deref request, deref response, code)"
| "status_fields _ = None"

section \<open>The retry policy\<close>

definition ErrUnexpectedEOF :: gerror where
  "ErrUnexpectedEOF = Sentinel ''unexpected EOF''"

definition IsRetryableStatus :: "int \<Rightarrow> bool" where
  "IsRetryableStatus code \<longleftrightarrow> code = 429 \<or> code = 502 \<or> code = 503 \<or> code = 504"

text \<open>
  \<open>strings.ToUpper\<close> on the bytes of a string, as far as ASCII letters go: besides the ASCII letters, the dotless i and the long
  s become ASCII capitals. Other letters outside ASCII stay outside.
\<close>

definition ascii_upper :: "char \<Rightarrow> char" where
  "ascii_upper c = (if 97 \<le> (of_char c :: nat) \<and> (of_char c :: nat) \<le> 122 then char_of ((of_char c :: nat) - 32) else c)"

fun ToUpper :: "string \<Rightarrow> string" where
  "ToUpper [] = []"
| "ToUpper (c # s) =
     (if c = CHR 0xC4 \<and> take 1 s = [CHR 0xB1] then CHR ''I'' # ToUpper (drop 1 s)
      else if c = CHR 0xC5 \<and> take 1 s = [CHR 0xBF] then CHR ''S'' # ToUpper (drop 1 s)
      else ascii_upper c # ToUpper s)"

definition normalizeMethod :: "'f http_request option \<Rightarrow> string" where
  "normalizeMethod request =
     (case request of
        None \<Rightarrow> ''GET''
      | Some r \<Rightarrow> if rq_Method r = '''' then ''GET'' else ToUpper (rq_Method r))"

definition isIdempotentMethod :: "string \<Rightarrow> bool" where
  "isIdempotentMethod m \<longleftrightarrow> m = ''GET'' \<or> m = ''HEAD'' \<or> m = ''OPTIONS'' \<or> m = ''PUT''"

definition isStatusMethodRetryable :: "'f http_request option \<Rightarrow> bool" where
  "isStatusMethodRetryable request = isIdempotentMethod (normalizeMethod request)"

definition isReplayableRequest :: "'f http_request option \<Rightarrow> bool" where
  "isReplayableRequest request =
     (case request of
        None \<Rightarrow> False
      | Some r \<Rightarrow> if rq_Body r = None \<or> rq_Body r = Some NoBody then True else rq_GetBody r \<noteq> None)"

lemma error_as_size: "error_as n x = Some (v, es) \<Longrightarrow> y \<in> set es \<Longrightarrow> size y < size x"
proof (induction n x rule: error_as.induct)
  case (3 n es')
  then show ?case by (fastforce dest!: first_some_found dest: size_list_estimation' [OF _ order_refl, of _ _ size])
next
  case (4 n m v' es')
  then show ?case
    by (auto split: if_splits dest!: first_some_found dest: size_list_estimation' [OF _ order_refl, of _ _ size])
      (fastforce dest: size_list_estimation' [OF _ order_refl, of _ _ size])
next
  case (5 n k es')
  then show ?case by (fastforce dest!: first_some_found dest: size_list_estimation' [OF _ order_refl, of _ _ size])
qed auto

text \<open>
  \<open>net\<close> is the view for \<open>net.Error\<close>. A \<open>*url.Error\<close> unwraps to its \<open>Err\<close>, which may be nil. A nil pointer of that type is
  not among the error values: its \<open>Unwrap\<close> reads \<open>Err\<close> and panics, so the walk of \<open>errors.Is\<close>, with which both policies begin,
  panics on it before this function is called, and an error of the model has the causes \<open>Unwrap\<close> returns.
\<close>

function isRetryableTransportError :: "(gerror \<Rightarrow> bool option) \<Rightarrow> err \<Rightarrow> bool" where
  "isRetryableTransportError net None = False"
| "isRetryableTransportError net (Some x) =
     (case error_as ''*url.Error'' x of
        Some (_, causes) \<Rightarrow> isRetryableTransportError net (case causes of [] \<Rightarrow> None | y # _ \<Rightarrow> Some y)
      | None \<Rightarrow>
          if error_is x EOF \<or> error_is x ErrUnexpectedEOF then True
          else error_view net x \<noteq> None)"
  by pat_completeness auto

termination
  by (relation "measure (\<lambda>(_, e). case e of None \<Rightarrow> 0 | Some x \<Rightarrow> Suc (size x))")
    (auto split: list.split dest: error_as_size)

definition shouldRetryStatus :: "'f http_request option \<Rightarrow> (nat \<Rightarrow> 'f http_request) \<Rightarrow> gval \<Rightarrow> bool" where
  "shouldRetryStatus req requests v =
     (case status_fields v of
        None \<Rightarrow> False
      | Some (request, _, code) \<Rightarrow>
          if \<not> IsRetryableStatus code then False
          else let effective = (case request of None \<Rightarrow> req | Some a \<Rightarrow> Some (requests a)) in
            isStatusMethodRetryable effective \<and> isReplayableRequest effective)"

definition shouldRetryTransport :: "(gerror \<Rightarrow> bool option) \<Rightarrow> 'f http_request option \<Rightarrow> err \<Rightarrow> bool" where
  "shouldRetryTransport net req e =
     (if e = None then False
      else if \<not> isIdempotentMethod (normalizeMethod req) then False
      else if \<not> isReplayableRequest req then False
      else isRetryableTransportError net e)"

text \<open>The request a pointer stands for.\<close>

definition request_at :: "('f, 'x) http_world_scheme \<Rightarrow> nat option \<Rightarrow> 'f http_request option" where
  "request_at w req = map_option (hw_requests w) req"

definition http_DefaultRetryPolicy ::
  "(gerror \<Rightarrow> bool option) \<Rightarrow> ctx \<Rightarrow> nat option \<Rightarrow> err \<Rightarrow> (('f, 'x) http_world_scheme, bool) proc" where
  "http_DefaultRetryPolicy net ctx req e =
     seq (ctx_Err ctx) (\<lambda>ce w.
       (Ret (if ce \<noteq> None then False
             else case e of
               None \<Rightarrow> False
             | Some x \<Rightarrow>
                 if error_is x ContextCanceled \<or> error_is x DeadlineExceeded then False
                 else case error_as ''*routeryhttp.StatusError'' x of
                   Some (v, _) \<Rightarrow> shouldRetryStatus (request_at w req) (hw_requests w) v
                 | None \<Rightarrow> shouldRetryTransport net (request_at w req) e), w))"

datatype replay_safety = UnsafeReplay | ProvenNotExecuted | VerifiedDeduplication | OtherSafety nat

text \<open>A typed nil \<open>*StatusError\<close> makes the code's access to its status panic.\<close>

definition http_RetryPolicy ::
  "(gerror \<Rightarrow> bool option) \<Rightarrow> (ctx \<Rightarrow> nat option \<Rightarrow> err \<Rightarrow> (('f, 'x) http_world_scheme, replay_safety) proc) option \<Rightarrow>
   ctx \<Rightarrow> nat option \<Rightarrow> err \<Rightarrow> (('f, 'x) http_world_scheme, bool) proc" where
  "http_RetryPolicy net evidence ctx request e =
     seq (http_DefaultRetryPolicy net ctx request e) (\<lambda>granted.
       if granted then ret True
       else case evidence of
         None \<Rightarrow> ret False
       | Some ev \<Rightarrow> seq (ctx_Err ctx) (\<lambda>ce w.
           if ce \<noteq> None \<or> e = None \<or> \<not> isReplayableRequest (request_at w request) \<or>
              errors_Is e ContextCanceled \<or> errors_Is e DeadlineExceeded
           then (Ret False, w)
           else
             let ask = seq (ev ctx request e) (\<lambda>safety. ret (safety = ProvenNotExecuted \<or> safety = VerifiedDeduplication)) in
             case error_as ''*routeryhttp.StatusError'' (the e) of
               Some (v, _) \<Rightarrow>
                 (case status_fields v of
                    None \<Rightarrow> (Panic, w)
                  | Some (_, _, code) \<Rightarrow> if \<not> IsRetryableStatus code then (Ret False, w) else ask w)
             | None \<Rightarrow> if \<not> isRetryableTransportError net e then (Ret False, w) else ask w))"

section \<open>The hint of a response\<close>

record hint_clock =
  hc_ReceivedAt :: int
  hc_Source :: string
  hc_Reference :: string
  hc_Uncertainty :: int

definition is_digit :: "char \<Rightarrow> bool" where
  "is_digit c \<longleftrightarrow> 48 \<le> (of_char c :: nat) \<and> (of_char c :: nat) \<le> 57"

definition decimalSeconds :: "string \<Rightarrow> bool" where
  "decimalSeconds value \<longleftrightarrow> value \<noteq> '''' \<and> list_all is_digit value"

text \<open>\<open>strconv.ParseUint(value, 10, 64)\<close> of a string of digits.\<close>

definition decimal :: "string \<Rightarrow> nat" where
  "decimal value = foldl (\<lambda>n c. 10 * n + (of_char c - 48)) 0 value"

definition ParseUint :: "string \<Rightarrow> nat option" where
  "ParseUint value = (if decimal value < 2 ^ 64 then Some (decimal value) else None)"

text \<open>\<open>parseTime\<close> is \<open>http.ParseTime\<close>, any function that reads dates.\<close>

definition retryAfterTime :: "(string \<Rightarrow> int option) \<Rightarrow> string \<Rightarrow> int \<Rightarrow> int \<times> err" where
  "retryAfterTime parseTime value receivedAt =
     (if decimalSeconds value then
        (case ParseUint value of
           None \<Rightarrow> (0, Some ErrInvalidHint)
         | Some seconds \<Rightarrow>
             if int seconds > (2 ^ 63 - 1) div 1000000000 then (0, Some ErrInvalidHint)
             else AddDelay receivedAt (int seconds * 1000000000))
      else case parseTime value of
        None \<Rightarrow> (0, Some ErrInvalidHint)
      | Some date \<Rightarrow> AddDelay date 0)"

definition is_blank :: "char \<Rightarrow> bool" where
  "is_blank c \<longleftrightarrow> c = CHR '' '' \<or> c = CHR 0x09"

definition strings_Trim :: "string \<Rightarrow> string" where
  "strings_Trim s = rev (dropWhile is_blank (rev (dropWhile is_blank s)))"

text \<open>\<open>values\<close> are the values of the header \<open>Retry-After\<close>.\<close>

definition RetryAfterHint :: "(string \<Rightarrow> int option) \<Rightarrow> string list \<Rightarrow> hint_clock \<Rightarrow> hint \<times> err" where
  "RetryAfterHint parseTime values clock =
     (let result = \<lparr>hi_Present = (values \<noteq> []), hi_NotBefore = 0, hi_Source = hc_Source clock, hi_Clock = hc_Reference clock,
            hi_Uncertainty = hc_Uncertainty clock\<rparr> in
      if \<not> hi_Present result then (result, None)
      else if length values \<noteq> 1 \<or> length (values ! 0) > 128 \<or> hc_Source clock = '''' \<or> hc_Reference clock = '''' \<or>
              hc_Uncertainty clock < 0
      then (result, Some ErrInvalidHint)
      else case AddDelay (hc_ReceivedAt clock) 0 of
        (_, Some e) \<Rightarrow> (result, Some e)
      | (_, None) \<Rightarrow>
          (case retryAfterTime parseTime (strings_Trim (values ! 0)) (hc_ReceivedAt clock) of
             (_, Some e) \<Rightarrow> (result, Some e)
           | (notBefore, None) \<Rightarrow>
               (case AddDelay notBefore (hc_Uncertainty clock) of
                  (_, Some e) \<Rightarrow> (result, Some e)
                | (_, None) \<Rightarrow> (result\<lparr>hi_NotBefore := notBefore\<rparr>, None))))"

section \<open>Reading a body\<close>

fun read_chunk :: "nat \<Rightarrow> (string \<times> err) list \<Rightarrow> (string \<times> err) \<times> (string \<times> err) list" where
  "read_chunk k [] = (('''', Some EOF), [])"
| "read_chunk k ((c, e) # cs) =
     (if length c \<le> k then ((c, e), cs) else ((take k c, None), (drop k c, e) # cs))"

text \<open>What a reader has left, each chunk counted once more than its bytes.\<close>

definition chunks_left :: "(string \<times> err) list \<Rightarrow> nat" where
  "chunks_left cs = (\<Sum>(c, e) \<leftarrow> cs. Suc (length c))"

lemma read_chunk_left:
  "read_chunk k cs = ((c, None), cs') \<Longrightarrow> k \<noteq> 0 \<Longrightarrow> chunks_left cs' < chunks_left cs"
  by (cases "(k, cs)" rule: read_chunk.cases) (auto simp: chunks_left_def split: if_splits)

lemma read_chunk_room:
  "((c, None), cs') = read_chunk (case limit of None \<Rightarrow> Suc k | Some n \<Rightarrow> min (Suc k) n) cs \<Longrightarrow> limit \<noteq> Some 0 \<Longrightarrow>
   chunks_left cs' < chunks_left cs"
  by (rule read_chunk_left [OF sym]) (auto split: option.splits)

text \<open>\<open>io.ReadAll\<close> of the reader or, with a limit, of an \<open>io.LimitReader\<close> around it, and what is left in the reader.\<close>

function read_all ::
  "(string \<Rightarrow> nat) \<Rightarrow> nat option \<Rightarrow> string \<Rightarrow> (string \<times> err) list \<Rightarrow> string \<times> err \<times> (string \<times> err) list" where
  "read_all room limit data cs =
     (if limit = Some 0 then (data, None, cs)
      else case read_chunk (case limit of None \<Rightarrow> Suc (room data) | Some n \<Rightarrow> min (Suc (room data)) n) cs of
        ((c, e), cs') \<Rightarrow>
          if e \<noteq> None then (data @ c, if e = Some EOF then None else e, cs')
          else read_all room (map_option (\<lambda>n. n - length c) limit) (data @ c) cs')"
  by pat_completeness auto

termination
  by (relation "measure (\<lambda>(_, _, _, cs). chunks_left cs)") (auto dest: read_chunk_room)

declare read_all.simps [simp del]

text \<open>\<open>io.ReadFull\<close> into one byte: whether it got one, the error otherwise.\<close>

fun read_one :: "(string \<times> err) list \<Rightarrow> bool \<times> err \<times> (string \<times> err) list" where
  "read_one [] = (False, Some EOF, [])"
| "read_one ((c, e) # cs) =
     (if c \<noteq> '''' then (True, None, if length c \<le> 1 then cs else (tl c, e) # cs)
      else if e \<noteq> None then (False, e, cs)
      else read_one cs)"

section \<open>Preparing a request\<close>

definition ErrReplayBodyTooLarge :: gerror where
  "ErrReplayBodyTooLarge = Sentinel ''routery/ext/http: replay body exceeds limit''"

text \<open>\<open>fmt.Errorf("%w: %w", routery.ErrInvalidConfig, ErrReplayBodyTooLarge)\<close>.\<close>

definition too_large :: gerror where
  "too_large = Typed ''*fmt.wrapErrors'' VNil [ErrInvalidConfig, ErrReplayBodyTooLarge]"

record http_options =
  ho_maxReplayBodyBytes :: int
  ho_err :: err

definition WithMaxReplayBodyBytes :: "int \<Rightarrow> http_options \<Rightarrow> http_options" where
  "WithMaxReplayBodyBytes maxBytes opts =
     (if maxBytes < 0 then opts\<lparr>ho_err := Some (configError ''max replay body bytes must be non-negative'')\<rparr>
      else opts\<lparr>ho_maxReplayBodyBytes := maxBytes\<rparr>)"

definition applyOptions :: "(http_options \<Rightarrow> http_options) option list \<Rightarrow> http_options" where
  "applyOptions handlerOptions =
     foldl (\<lambda>opts opt. case opt of None \<Rightarrow> opts | Some f \<Rightarrow> f opts) \<lparr>ho_maxReplayBodyBytes = 10 * 2 ^ 20, ho_err = None\<rparr> handlerOptions"

definition readAllLimited :: "(string \<Rightarrow> nat) \<Rightarrow> (string \<times> err) list \<Rightarrow> int \<Rightarrow> (gerror + string) \<times> (string \<times> err) list" where
  "readAllLimited room body maxReplayBodyBytes =
     (case read_all room (if maxReplayBodyBytes > 0 then Some (nat maxReplayBodyBytes) else None) '''' body of
        (bodyBytes, Some x, rest) \<Rightarrow> (Inl (Wrapf x ''routery/ext/http: read body''), rest)
      | (bodyBytes, None, rest) \<Rightarrow>
          if maxReplayBodyBytes > 0 \<and> int (length bodyBytes) = maxReplayBodyBytes
          then (case read_one rest of
              (True, _, rest') \<Rightarrow> (Inl too_large, rest')
            | (False, readErr, rest') \<Rightarrow>
                if readErr \<noteq> None \<and> \<not> errors_Is readErr EOF
                then (Inl (Wrapf (the readErr) ''routery/ext/http: read body''), rest')
                else (Inr bodyBytes, rest'))
          else (Inr bodyBytes, rest))"

text \<open>The chunks a body still has, and the body after reading some of them.\<close>

fun source_of :: "'f http_body \<Rightarrow> ('f, 'x) http_world_scheme \<Rightarrow> (string \<times> err) list" where
  "source_of NoBody w = []"
| "source_of (HostBody f) w = hw_sources w f"
| "source_of (BytesBody s) w = [(s, None)]"
| "source_of (OwnedHttpBody f l) w = hw_sources w f"

fun set_source :: "'f http_body \<Rightarrow> (string \<times> err) list \<Rightarrow> ('f, 'x) http_world_scheme \<Rightarrow> ('f, 'x) http_world_scheme" where
  "set_source (HostBody f) cs w = w\<lparr>hw_sources := (hw_sources w)(f := cs)\<rparr>"
| "set_source (OwnedHttpBody f l) cs w = w\<lparr>hw_sources := (hw_sources w)(f := cs)\<rparr>"
| "set_source _ cs w = w"

definition http_body_Close ::
  "('f, ('f, 'x) http_world_scheme) http_host \<Rightarrow> 'f http_body \<Rightarrow> (('f, 'x) http_world_scheme, err) proc" where
  "http_body_Close host b =
     (case b of
        NoBody \<Rightarrow> ret None
      | HostBody f \<Rightarrow> hh_close host f
      | BytesBody _ \<Rightarrow> ret None
      | OwnedHttpBody _ l \<Rightarrow> Close (hh_close host) (Some l))"

definition PrepareRequest ::
  "('f, ('f, 'x) http_world_scheme) http_host \<Rightarrow> (string \<Rightarrow> nat) \<Rightarrow> nat option \<Rightarrow> (http_options \<Rightarrow> http_options) option list \<Rightarrow>
   (('f, 'x) http_world_scheme, nat option \<times> err) proc" where
  "PrepareRequest host room request preparationOptions w =
     (case request of
        None \<Rightarrow> (Ret (None, Some (configError ''request is nil'')), w)
      | Some a \<Rightarrow>
          let opts = applyOptions preparationOptions; r = hw_requests w a in
          if ho_err opts \<noteq> None then (Ret (None, ho_err opts), w)
          else if rq_GetBody r \<noteq> None \<or> rq_Body r = None \<or> rq_Body r = Some NoBody
          then (case new_request r w of (p, w1) \<Rightarrow> (Ret (Some p, None), w1))
          else
            let body = the (rq_Body r) in
            case readAllLimited room (source_of body w) (ho_maxReplayBodyBytes opts) of (bytes, rest) \<Rightarrow>
              seq (http_body_Close host body) (\<lambda>closeErr w1.
                case bytes of
                  Inl x \<Rightarrow> (Ret (None, Some x), w1)
                | Inr bodyBytes \<Rightarrow>
                    if closeErr \<noteq> None then (Ret (None, Some (Wrapf (the closeErr) ''routery/ext/http: close original body'')), w1)
                    else (case new_request (r\<lparr>rq_Body := Some NoBody, rq_GetBody := Some (GetBytes bodyBytes),
                        rq_ContentLength := int (length bodyBytes)\<rparr>) w1 of (p, w2) \<Rightarrow> (Ret (Some p, None), w2)))
                (set_source body rest w))"

section \<open>The handler\<close>

definition get_body ::
  "('f, ('f, 'x) http_world_scheme) http_host \<Rightarrow> 'f get_body \<Rightarrow> (('f, 'x) http_world_scheme, 'f http_body option \<times> err) proc" where
  "get_body host g = (case g of GetBytes s \<Rightarrow> ret (Some (BytesBody s), None) | HostGetBody f \<Rightarrow> hh_getBody host f)"

definition cloneForAttempt ::
  "('f, ('f, 'x) http_world_scheme) http_host \<Rightarrow> ctx \<Rightarrow> nat \<Rightarrow> (('f, 'x) http_world_scheme, nat option \<times> err) proc" where
  "cloneForAttempt host ctx a w =
     (let r = hw_requests w a; cloned = r\<lparr>rq_Context := ctx\<rparr> in
      if rq_Body r \<noteq> None \<and> rq_Body r \<noteq> Some NoBody \<and> rq_GetBody r = None
      then (Ret (None, Some (configError ''body requires PrepareRequest before dispatch'')), w)
      else case rq_GetBody r of
        None \<Rightarrow> (case new_request cloned w of (p, w1) \<Rightarrow> (Ret (Some p, None), w1))
      | Some g \<Rightarrow>
          seq (get_body host g) (\<lambda>(body, e) w1.
            case e of
              Some x \<Rightarrow>
                if error_is x ErrReplayBodyTooLarge then (Ret (None, Some x), w1)
                else (Ret (None, Some (Wrapf x ''routery/ext/http: get body'')), w1)
            | None \<Rightarrow> (case new_request (cloned\<lparr>rq_Body := body\<rparr>) w1 of (p, w2) \<Rightarrow> (Ret (Some p, None), w2))) w)"

definition http_NewRouteHandler ::
  "('f, ('f, 'x) http_world_scheme) http_host \<Rightarrow> bool \<Rightarrow> nat option route_call \<Rightarrow>
   (('f, 'x) http_world_scheme, nat option basic_result \<times> err) proc" where
  "http_NewRouteHandler host client =
     (if \<not> client then invalidRouteHandler (configError ''http client is nil'')
      else (\<lambda>call.
        case rc_Request call of
          None \<Rightarrow> ret (AbortResult, Some (configError ''request is nil''))
        | Some request \<Rightarrow> seq (cloneForAttempt host (rc_Context call) request) (\<lambda>(attemptRequest, e).
            if e \<noteq> None then ret (AbortResult, e)
            else seq (hh_Do host (the attemptRequest)) (\<lambda>(response, executeErr).
              if executeErr \<noteq> None then
                (case response of
                   Some (_, Some f) \<Rightarrow> seq (hh_close host f) (\<lambda>_. ret (AbortResult, executeErr))
                 | _ \<Rightarrow> ret (AbortResult, executeErr))
              else case response of
                Some (code, Some f) \<Rightarrow> (\<lambda>w.
                  case NewLifetime (Some (HostFn f)) w of (life, w1) \<Rightarrow>
                  case new_response \<lparr>rp_StatusCode = code, rp_Body = f, rp_Owner = life\<rparr> w1 of (p, w2) \<Rightarrow>
                    if code < 200 \<or> code \<ge> 300
                    then (Ret (AbortResult\<lparr>res_Lifetime := Some life\<rparr>, Some (StatusError (Some request) (Some p) code)), w2)
                    else (Ret ((BasicHandled (Some p))\<lparr>res_Lifetime := Some life\<rparr>, None), w2))
              | _ \<Rightarrow> (\<lambda>w. (Panic, w))))))"

section \<open>What the retry policies grant\<close>

text \<open>The request a failure is about, and whether it is one of the failures that may pass.\<close>

definition effective_request :: "('f, 'x) http_world_scheme \<Rightarrow> nat option \<Rightarrow> gerror \<Rightarrow> 'f http_request option" where
  "effective_request w req x =
     (case error_as ''*routeryhttp.StatusError'' x of
        Some (v, _) \<Rightarrow>
          (case status_fields v of Some (Some a, _, _) \<Rightarrow> Some (hw_requests w a) | _ \<Rightarrow> request_at w req)
      | None \<Rightarrow> request_at w req)"

definition passing_failure :: "(gerror \<Rightarrow> bool option) \<Rightarrow> gerror \<Rightarrow> bool" where
  "passing_failure net x \<longleftrightarrow> \<not> error_is x ContextCanceled \<and> \<not> error_is x DeadlineExceeded \<and>
     (case error_as ''*routeryhttp.StatusError'' x of
        Some (v, _) \<Rightarrow> (case status_fields v of Some (_, _, code) \<Rightarrow> IsRetryableStatus code | None \<Rightarrow> False)
      | None \<Rightarrow> isRetryableTransportError net (Some x))"

lemma hw_tick [simp]: "hw_requests (tick w) = hw_requests w" "request_at (tick w) r = request_at w r"
  "effective_request (tick w) r x = effective_request w r x"
  by (auto simp: tick_def request_at_def effective_request_def split: option.split)

lemma default_policy_iff:
  "http_DefaultRetryPolicy net ctx req (Some x) w =
     (Ret (ctx_err (tick w) ctx = None \<and> passing_failure net x \<and>
        isIdempotentMethod (normalizeMethod (effective_request w req x)) \<and> isReplayableRequest (effective_request w req x)), tick w)"
  by (auto simp: http_DefaultRetryPolicy_def seq_def passing_failure_def effective_request_def shouldRetryStatus_def
      shouldRetryTransport_def isStatusMethodRetryable_def Let_def tick_def request_at_def split: option.splits)

text \<open>
  C27 (safety). A repetition over HTTP is safe: the policy grants it only for a failure that may pass (a status of the list or a
  broken transport, never a cancellation or a deadline) and a request whose body can be sent again, and then only if the
  request's method is idempotent or the host has given evidence that the attempt was not executed or is deduplicated.
\<close>

theorem http_retry_is_safe:
  assumes "http_RetryPolicy net evidence ctx req e w = (Ret True, w')"
  shows "\<exists>x. e = Some x \<and> passing_failure net x \<and>
    (ctx_err (tick w) ctx = None \<and> isIdempotentMethod (normalizeMethod (effective_request w req x)) \<and>
       isReplayableRequest (effective_request w req x) \<or>
     isReplayableRequest (request_at w req) \<and> ctx_err (tick (tick w)) ctx = None \<and>
       (\<exists>ev safety. evidence = Some ev \<and> ev ctx req e (tick (tick w)) = (Ret safety, w') \<and>
          (safety = ProvenNotExecuted \<or> safety = VerifiedDeduplication)))"
proof (cases e)
  case None
  then show ?thesis
    using assms by (auto simp: http_RetryPolicy_def http_DefaultRetryPolicy_def seq_def split: option.splits if_splits)
next
  case (Some x)
  show ?thesis
  proof (cases "ctx_err (tick w) ctx = None \<and> passing_failure net x \<and>
      isIdempotentMethod (normalizeMethod (effective_request w req x)) \<and> isReplayableRequest (effective_request w req x)")
    case True
    then show ?thesis using Some by simp
  next
    case False
    then have d: "http_DefaultRetryPolicy net ctx req (Some x) w = (Ret False, tick w)"
      using default_policy_iff [of net ctx req x w] by (simp only: HOL.simp_thms)
    show ?thesis
      using assms Some d
      by (auto simp: http_RetryPolicy_def passing_failure_def Let_def seq_def split: option.splits if_splits prod.splits outcome.splits)
  qed
qed

section \<open>The hint\<close>

lemma AddDelay_sum: "AddDelay base delay = (r, None) \<Longrightarrow> r = base + delay"
  by (auto simp: AddDelay_def Let_def split: if_splits)

text \<open>
  An accepted \<open>Retry-After\<close> is exact and usable: with delta seconds the hint is the time of receipt plus that
  many seconds, without overflow, otherwise the parsed date; and the schedule starts from it, later by the declared
  uncertainty of the clock.
\<close>

theorem retry_after_is_exact:
  assumes "RetryAfterHint parseTime values clock = (h, None)" "values \<noteq> []"
  shows "\<exists>field. values = [field] \<and> hintStart h = (hi_NotBefore h + hc_Uncertainty clock, None) \<and>
    (if decimalSeconds (strings_Trim field)
     then hi_NotBefore h = hc_ReceivedAt clock + int (decimal (strings_Trim field)) * 1000000000
     else parseTime (strings_Trim field) = Some (hi_NotBefore h))"
proof -
  obtain field where v: "values = [field]"
    using assms by (cases "values") (auto simp: RetryAfterHint_def Let_def split: if_splits)
  obtain nb where nb: "retryAfterTime parseTime (strings_Trim field) (hc_ReceivedAt clock) = (nb, None)" "hi_NotBefore h = nb"
    and "snd (AddDelay nb (hc_Uncertainty clock)) = None" "hi_Source h = hc_Source clock" "hi_Clock h = hc_Reference clock"
    "hi_Uncertainty h = hc_Uncertainty clock" "hc_Source clock \<noteq> ''''" "hc_Reference clock \<noteq> ''''"
    using assms v by (auto simp: RetryAfterHint_def Let_def split: if_splits prod.splits option.splits)
  moreover from this obtain t where "AddDelay nb (hc_Uncertainty clock) = (t, None)" by (cases "AddDelay nb (hc_Uncertainty clock)") auto
  ultimately have "hintStart h = (hi_NotBefore h + hc_Uncertainty clock, None)" using AddDelay_sum by (auto simp: hintStart_def)
  moreover have "if decimalSeconds (strings_Trim field)
      then nb = hc_ReceivedAt clock + int (decimal (strings_Trim field)) * 1000000000
      else parseTime (strings_Trim field) = Some nb"
    using nb(1) by (auto simp: retryAfterTime_def ParseUint_def split: option.splits if_splits dest!: AddDelay_sum)
  ultimately show ?thesis using v nb(2) by blast
qed

section \<open>Prepared bodies\<close>

text \<open>What a body delivers: its bytes up to the first error, and that error, the end of file included.\<close>

fun delivered :: "(string \<times> err) list \<Rightarrow> string \<times> gerror" where
  "delivered [] = ('''', EOF)"
| "delivered ((c, e) # cs) = (case e of Some x \<Rightarrow> (c, x) | None \<Rightarrow> (case delivered cs of (d, x) \<Rightarrow> (c @ d, x)))"

text \<open>A body that has nothing more after its first error.\<close>

fun sealed :: "(string \<times> err) list \<Rightarrow> bool" where
  "sealed [] = True"
| "sealed ((c, e) # cs) = (if e = None then sealed cs else cs = [])"

definition read_result :: "gerror \<Rightarrow> err" where
  "read_result x = (if x = EOF then None else Some x)"

lemma read_chunk_delivered:
  assumes "read_chunk k cs = ((c, e), cs')" "delivered cs = (d, x)" "sealed cs"
  shows "length c \<le> k \<and> sealed cs' \<and>
    (case e of Some y \<Rightarrow> c = d \<and> y = x \<and> cs' = [] | None \<Rightarrow> delivered cs' = (drop (length c) d, x) \<and> c = take (length c) d)"
  using assms by (cases "(k, cs)" rule: read_chunk.cases) (auto split: if_splits option.splits prod.splits)

lemma read_all_unlimited:
  "delivered cs = (d, x) \<Longrightarrow> sealed cs \<Longrightarrow> read_all room None data cs = (data @ d, read_result x, [])"
proof (induction "chunks_left cs" arbitrary: d data cs rule: less_induct)
  case less
  obtain c e cs' where r: "read_chunk (Suc (room data)) cs = ((c, e), cs')" by (metis prod.exhaust)
  note f = read_chunk_delivered [OF r less.prems]
  show ?case
  proof (cases e)
    case None
    then have "delivered cs' = (drop (length c) d, x)" "sealed cs'" "d = c @ drop (length c) d"
      using f by (simp_all, metis append_take_drop_id)
    then show ?thesis
      using less.hyps [of cs' "drop (length c) d" "data @ c"] read_chunk_left [of _ cs c cs'] r None by (subst read_all.simps) simp
  next
    case (Some y)
    then show ?thesis using f r by (subst read_all.simps) (simp add: read_result_def)
  qed
qed

lemma read_all_limited:
  "delivered cs = (d, x) \<Longrightarrow> sealed cs \<Longrightarrow> read_all room (Some n) data cs = (b, e, rest) \<Longrightarrow>
   (b = data @ d \<and> e = read_result x \<and> length d \<le> n \<and> rest = []) \<or>
   (b = data @ take n d \<and> e = None \<and> n \<le> length d \<and> delivered rest = (drop n d, x) \<and> sealed rest)"
proof (induction "chunks_left cs" arbitrary: d data cs n rule: less_induct)
  case less
  show ?case
  proof (cases n)
    case 0
    then show ?thesis using less.prems by (simp add: read_all.simps)
  next
    case (Suc m)
    obtain c y cs' where r: "read_chunk (min (Suc (room data)) n) cs = ((c, y), cs')" by (metis prod.exhaust)
    note f = read_chunk_delivered [OF r less.prems(1,2)]
    show ?thesis
    proof (cases y)
      case None
      then have c: "delivered cs' = (drop (length c) d, x)" "sealed cs'" "take (length c) d = c" "length c \<le> n" using f by auto
      then have d: "d = c @ drop (length c) d" by (metis append_take_drop_id)
      have "read_all room (Some (n - length c)) (data @ c) cs' = (b, e, rest)"
        using less.prems(3) r None Suc by (subst (asm) read_all.simps) simp
      moreover have "chunks_left cs' < chunks_left cs" using read_chunk_left [of _ cs c cs'] r None Suc by simp
      ultimately have "(b = (data @ c) @ drop (length c) d \<and> e = read_result x \<and> length (drop (length c) d) \<le> n - length c \<and> rest = []) \<or>
          (b = (data @ c) @ take (n - length c) (drop (length c) d) \<and> e = None \<and> n - length c \<le> length (drop (length c) d) \<and>
           delivered rest = (drop (n - length c) (drop (length c) d), x) \<and> sealed rest)"
        using less.hyps c(1,2) by blast
      moreover have "take n d = c @ take (n - length c) (drop (length c) d)" "length c \<le> length d"
        using c(3,4) by (metis append_take_drop_id le_add_diff_inverse take_add, metis nle_le take_all_iff)
      ultimately show ?thesis using c(4) d by auto
    next
      case (Some z)
      then show ?thesis using less.prems(3) f r Suc by (subst (asm) read_all.simps) (auto simp: read_result_def)
    qed
  qed
qed

lemma read_one_delivered:
  "delivered cs = (d, x) \<Longrightarrow> (if d = '''' then \<exists>rest. read_one cs = (False, Some x, rest) else \<exists>rest. read_one cs = (True, None, rest))"
  by (induction cs arbitrary: d rule: read_one.induct) (auto split: option.splits prod.splits if_splits)

lemma readAllLimited_result:
  assumes d: "delivered cs = (d, x)" "sealed cs" and r: "readAllLimited room cs m = (r, rest)"
  shows "r = Inr b \<Longrightarrow> b = d \<and> error_is x EOF \<and> (m \<le> 0 \<or> int (length d) \<le> m)"
    and "x = EOF \<Longrightarrow> m \<le> 0 \<or> int (length d) \<le> m \<Longrightarrow> r = Inr d"
    and "0 < m \<Longrightarrow> m < int (length d) \<Longrightarrow> r = Inl too_large"
proof -
  consider (free) "m \<le> 0" | (ended) "0 < m" "fst (read_all room (Some (nat m)) '''' cs) = d"
      "read_all room (Some (nat m)) '''' cs = (d, read_result x, [])" "length d \<le> nat m"
    | (cut) left where "0 < m" "read_all room (Some (nat m)) '''' cs = (take (nat m) d, None, left)" "nat m \<le> length d"
      "delivered left = (drop (nat m) d, x)"
    using read_all_limited [OF d, of room "nat m" "''''"] by (cases "read_all room (Some (nat m)) '''' cs") fastforce
  then have "(r = Inr b \<longrightarrow> b = d \<and> error_is x EOF \<and> (m \<le> 0 \<or> int (length d) \<le> m)) \<and>
      (x = EOF \<longrightarrow> m \<le> 0 \<or> int (length d) \<le> m \<longrightarrow> r = Inr d) \<and> (0 < m \<longrightarrow> m < int (length d) \<longrightarrow> r = Inl too_large)"
  proof cases
    case free
    then show ?thesis
      using r read_all_unlimited [OF d, of room "''''"] by (auto simp: readAllLimited_def read_result_def split: if_splits)
  next
    case ended
    then show ?thesis using r by (auto simp: readAllLimited_def read_result_def split: if_splits)
  next
    case cut
    then show ?thesis
      using r read_one_delivered [OF cut(4)]
      by (auto simp: readAllLimited_def nat_le_iff split: if_splits prod.splits)
  qed
  then show "r = Inr b \<Longrightarrow> b = d \<and> error_is x EOF \<and> (m \<le> 0 \<or> int (length d) \<le> m)"
    and "x = EOF \<Longrightarrow> m \<le> 0 \<or> int (length d) \<le> m \<Longrightarrow> r = Inr d"
    and "0 < m \<Longrightarrow> m < int (length d) \<Longrightarrow> r = Inl too_large" by blast+
qed

text \<open>
  C28 (roundtrip). A prepared request can be sent again and again: when \<open>PrepareRequest\<close> has consumed a streaming body, every
  attempt made from the prepared template gets a body with exactly the bytes the original delivered, however the buffers of
  the reader were sized, and its length; the body was read to its end and, where there is a limit, is within it.
\<close>

theorem prepared_body_is_the_original:
  assumes "rq_Body (hw_requests w a) = Some (HostBody f)" "rq_GetBody (hw_requests w a) = None"
    and "delivered (hw_sources w f) = (bytes, x)" "sealed (hw_sources w f)" "ho_maxReplayBodyBytes (applyOptions opts) = m"
    and "PrepareRequest host room (Some a) opts w = (Ret (Some p, e), w')"
    and "hw_requests v p = hw_requests w' p"
  shows "error_is x EOF \<and> (m \<le> 0 \<or> int (length bytes) \<le> m) \<and>
    (\<exists>q v'. cloneForAttempt host ctx p v = (Ret (Some q, None), v') \<and> rq_Body (hw_requests v' q) = Some (BytesBody bytes) \<and>
       rq_ContentLength (hw_requests v' q) = int (length bytes) \<and> rq_Method (hw_requests v' q) = rq_Method (hw_requests w a))"
proof -
  obtain r rest where l: "readAllLimited room (hw_sources w f) m = (r, rest)" by fastforce
  obtain bodyBytes w1 where b: "r = Inr bodyBytes"
    "new_request ((hw_requests w a)\<lparr>rq_Body := Some NoBody, rq_GetBody := Some (GetBytes bodyBytes),
       rq_ContentLength := int (length bodyBytes)\<rparr>) w1 = (p, w')"
    using assms(1,2,5,6) l
    by (auto simp: PrepareRequest_def Let_def seq_def split: if_splits sum.splits prod.splits outcome.splits)
  then have "bodyBytes = bytes" "error_is x EOF" "m \<le> 0 \<or> int (length bytes) \<le> m"
    using readAllLimited_result(1) [OF assms(3,4) l] by blast+
  moreover have "hw_requests v p = (hw_requests w a)\<lparr>rq_Body := Some NoBody, rq_GetBody := Some (GetBytes bodyBytes),
       rq_ContentLength := int (length bodyBytes)\<rparr>"
    using b(2) assms(7) by (auto simp: new_request_def)
  ultimately show ?thesis by (simp add: cloneForAttempt_def Let_def seq_def get_body_def new_request_def)
qed

section \<open>Responses\<close>

text \<open>
  C29 (functional). A response is owned and classified: when the client answers, the handler's result carries a new lifetime that
  closes the client's body, for a success and for a failure; a status outside 2xx is an abort whose error the default policy
  repeats exactly for the statuses of the list, an idempotent method and a body that can be sent again.
\<close>

theorem http_response_is_owned_and_classified:
  fixes w :: "('f, 'x) http_world_scheme"
  assumes "http_NewRouteHandler host True call w = (Ret (res, e), w')" "rc_Request call = Some a"
    and "cloneForAttempt host (rc_Context call) a w = (Ret (Some q, None), w1)" "hh_Do host q w1 = (Ret (Some (code, Some f), None), w2)"
  shows "\<exists>l. res_Lifetime res = Some l \<and> w_fresh w2 \<le> l \<and> lt_cleanup (w_lifes w' l) = Some (HostFn f) \<and> \<not> lt_done (w_lifes w' l) \<and>
    (if 200 \<le> code \<and> code < 300
     then e = None \<and> (\<exists>p. res_Payload res = Some p \<and> hw_responses w' p = \<lparr>rp_StatusCode = code, rp_Body = f, rp_Owner = l\<rparr>)
     else res_Action res = ActionAbort \<and>
       (\<forall>net ctx req. \<forall>v :: ('f, 'x) http_world_scheme. ctx_err (tick v) ctx = None \<longrightarrow> http_DefaultRetryPolicy net ctx req e v =
          (Ret (IsRetryableStatus code \<and> isIdempotentMethod (normalizeMethod (Some (hw_requests v a))) \<and>
             isReplayableRequest (Some (hw_requests v a))), tick v)))"
proof (cases "200 \<le> code \<and> code < 300")
  case True
  then show ?thesis
    using assms
    by (auto simp: http_NewRouteHandler_def seq_def NewLifetime_def new_response_def BasicHandled_def Handled_def)
next
  case False
  then obtain p where e: "e = Some (StatusError (Some a) (Some p) code)"
    using assms by (auto simp: http_NewRouteHandler_def seq_def NewLifetime_def new_response_def split: if_splits)
  have "passing_failure net (StatusError (Some a) (Some p) code) \<longleftrightarrow> IsRetryableStatus code" for net
    by (simp add: passing_failure_def StatusError_def ptr_def ContextCanceled_def DeadlineExceeded_def)
  moreover have "effective_request v req (StatusError (Some a) (Some p) code) = Some (hw_requests v a)"
    for v :: "('f, 'x) http_world_scheme" and req
    by (simp add: effective_request_def StatusError_def ptr_def)
  ultimately have "\<forall>net ctx req. \<forall>v :: ('f, 'x) http_world_scheme. ctx_err (tick v) ctx = None \<longrightarrow> http_DefaultRetryPolicy net ctx req e v =
      (Ret (IsRetryableStatus code \<and> isIdempotentMethod (normalizeMethod (Some (hw_requests v a))) \<and>
         isReplayableRequest (Some (hw_requests v a))), tick v)"
    using e by (simp add: default_policy_iff)
  then show ?thesis
    using assms False
    by (auto simp: http_NewRouteHandler_def seq_def NewLifetime_def new_response_def AbortResult_def split: if_splits)
qed

section \<open>Examples\<close>

text \<open>A host with one POST request whose body arrives in two chunks, and a client that answers 503.\<close>

definition demo_http :: "(nat, unit) http_world_scheme" where
  "demo_http = \<lparr>w_step = 0, w_clock = (\<lambda>_. 0), w_rand = (\<lambda>_. 0), w_cancel = (\<lambda>_. None), w_fresh = 1,
     w_lifes = (\<lambda>_. fresh_life), w_decisions = (\<lambda>_. []), w_counters = (\<lambda>_. 0),
     w_breakers = (\<lambda>_. \<lparr>cb_failures = 0, cb_state = cbClosed, cb_openedAt = 0, cb_probeInFlight = False, cb_generation = 0\<rparr>),
     w_semas = (\<lambda>_. \<lparr>sm_limit = 0, sm_used = 0\<rparr>),
     hw_requests = (\<lambda>_. \<lparr>rq_Method = ''POST'', rq_Body = Some (HostBody 7), rq_GetBody = None, rq_ContentLength = -1,
        rq_Context = Background\<rparr>),
     hw_responses = (\<lambda>_. \<lparr>rp_StatusCode = 0, rp_Body = 0, rp_Owner = 0\<rparr>),
     hw_sources = (\<lambda>_. [(''ab'', None), (''c'', Some EOF)])\<rparr>"

definition demo_client :: "(nat, (nat, unit) http_world_scheme) http_host" where
  "demo_client = \<lparr>hh_Do = (\<lambda>_. ret (Some (503, Some 9), None)), hh_close = (\<lambda>_. ret None), hh_getBody = (\<lambda>_. ret (Some NoBody, None))\<rparr>"

theorem prepared_body_is_the_original_witness:
  "\<exists>p w' q v'. PrepareRequest demo_client (\<lambda>_. 0) (Some 0) [] demo_http = (Ret (Some p, None), w') \<and>
     cloneForAttempt demo_client Background p w' = (Ret (Some q, None), v') \<and> rq_Body (hw_requests v' q) = Some (BytesBody ''abc'')"
proof -
  have "\<exists>p w'. PrepareRequest demo_client (\<lambda>_. 0) (Some 0) [] demo_http = (Ret (Some p, None), w')"
    by (simp add: PrepareRequest_def demo_http_def demo_client_def applyOptions_def Let_def readAllLimited_def seq_def http_body_Close_def
        new_request_def read_all.simps)
  then obtain p w' where p: "PrepareRequest demo_client (\<lambda>_. 0) (Some 0) [] demo_http = (Ret (Some p, None), w')" by blast
  have "\<exists>q v'. cloneForAttempt demo_client Background p w' = (Ret (Some q, None), v') \<and>
      rq_Body (hw_requests v' q) = Some (BytesBody ''abc'')"
    using prepared_body_is_the_original [OF _ _ _ _ refl p refl, of 7 "''abc''" EOF Background]
    by (auto simp: demo_http_def)
  then show ?thesis using p by blast
qed

text \<open>A POST without a body whose connection broke; the host knows that the server deduplicates it.\<close>

definition demo_post :: "(nat, unit) http_world_scheme" where
  "demo_post = demo_http\<lparr>hw_requests := \<lambda>_. \<lparr>rq_Method = ''POST'', rq_Body = Some NoBody, rq_GetBody = None, rq_ContentLength = 0,
     rq_Context = Background\<rparr>\<rparr>"

definition demo_dedup :: "ctx \<Rightarrow> nat option \<Rightarrow> err \<Rightarrow> ((nat, unit) http_world_scheme, replay_safety) proc" where
  "demo_dedup ctx request e = ret VerifiedDeduplication"

theorem http_retry_is_safe_witness:
  "http_RetryPolicy (\<lambda>_. None) (Some demo_dedup) Background (Some 3) (Some EOF) demo_post = (Ret True, tick (tick demo_post)) \<and>
   \<not> isIdempotentMethod (normalizeMethod (request_at demo_post (Some 3))) \<and>
   passing_failure (\<lambda>_. None) EOF \<and> isReplayableRequest (request_at demo_post (Some 3)) \<and>
   (\<exists>safety. demo_dedup Background (Some 3) (Some EOF) (tick (tick demo_post)) = (Ret safety, tick (tick demo_post)) \<and>
      (safety = ProvenNotExecuted \<or> safety = VerifiedDeduplication)) \<and>
   (\<exists>w'. http_RetryPolicy (\<lambda>_. None) None Background (Some 3) (Some EOF) demo_post = (Ret False, w'))"
proof -
  have post: "request_at demo_post (Some 3) =
      Some \<lparr>rq_Method = ''POST'', rq_Body = Some NoBody, rq_GetBody = None, rq_ContentLength = 0, rq_Context = Background\<rparr>"
    by (simp add: demo_post_def request_at_def)
  have post_method: "\<not> isIdempotentMethod (normalizeMethod (request_at demo_post (Some 3)))"
    by (simp add: post normalizeMethod_def isIdempotentMethod_def ascii_upper_def)
  have live: "ctx_err w Background = None" for w :: "(nat, unit) http_world_scheme" by (simp add: ctx_err_def)
  have eof: "error_as n EOF = None" "\<not> error_is EOF ContextCanceled" "\<not> error_is EOF DeadlineExceeded" "error_is EOF EOF" for n
    by (simp_all add: EOF_def ContextCanceled_def DeadlineExceeded_def)
  have denied: "http_DefaultRetryPolicy (\<lambda>_. None) Background (Some 3) (Some EOF) demo_post = (Ret False, tick demo_post)"
    unfolding default_policy_iff using post_method by (simp add: effective_request_def eof)
  have run: "http_RetryPolicy (\<lambda>_. None) (Some demo_dedup) Background (Some 3) (Some EOF) demo_post = (Ret True, tick (tick demo_post))"
    by (simp add: http_RetryPolicy_def denied seq_def live post demo_dedup_def eof isReplayableRequest_def Let_def errors_Is_def)
  have "\<exists>w'. http_RetryPolicy (\<lambda>_. None) None Background (Some 3) (Some EOF) demo_post = (Ret False, w')"
    by (simp add: http_RetryPolicy_def denied seq_def)
  then show ?thesis
    using http_retry_is_safe [OF run] run post_method by (auto simp: effective_request_def eof)
qed

theorem retry_after_is_exact_witness:
  "\<exists>h. RetryAfterHint (\<lambda>_. None) ['' 120''] \<lparr>hc_ReceivedAt = 1000000000, hc_Source = ''h'', hc_Reference = ''c'', hc_Uncertainty = 0\<rparr> = (h, None) \<and>
     hi_NotBefore h = 121000000000"
proof -
  let ?c = "\<lparr>hc_ReceivedAt = 1000000000, hc_Source = ''h'', hc_Reference = ''c'', hc_Uncertainty = 0\<rparr>"
  have trim: "strings_Trim '' 120'' = ''120''" by (simp add: strings_Trim_def is_blank_def)
  have dec: "decimalSeconds ''120''" "decimal ''120'' = 120" by (simp_all add: decimalSeconds_def is_digit_def decimal_def)
  have "\<exists>h. RetryAfterHint (\<lambda>_. None) ['' 120''] ?c = (h, None)"
    by (simp add: RetryAfterHint_def trim retryAfterTime_def dec ParseUint_def AddDelay_eq validTimestamp_iff timestamp_end_def ns_per_day_def)
  then obtain h where h: "RetryAfterHint (\<lambda>_. None) ['' 120''] ?c = (h, None)" by blast
  from retry_after_is_exact [OF this] have "hi_NotBefore h = 121000000000" by (simp add: trim dec)
  with h show ?thesis by blast
qed

theorem http_response_is_owned_and_classified_witness:
  "\<exists>res e w' l. http_NewRouteHandler demo_client True \<lparr>rc_Context = Background, rc_Request = Some 0, rc_Match = zeroRouteMatch, rc_state = None\<rparr>
       (demo_http\<lparr>hw_requests := \<lambda>_. \<lparr>rq_Method = ''GET'', rq_Body = None, rq_GetBody = None, rq_ContentLength = 0, rq_Context = Background\<rparr>\<rparr>) =
       (Ret (res, e), w') \<and> res_Lifetime res = Some l \<and> lt_cleanup (w_lifes w' l) = Some (HostFn 9) \<and>
     http_DefaultRetryPolicy (\<lambda>_. None) Background None e w' = (Ret True, tick w')"
proof -
  let ?w = "demo_http\<lparr>hw_requests := \<lambda>_. \<lparr>rq_Method = ''GET'', rq_Body = None, rq_GetBody = None, rq_ContentLength = 0, rq_Context = Background\<rparr>\<rparr>"
  let ?call = "\<lparr>rc_Context = Background, rc_Request = Some 0, rc_Match = zeroRouteMatch, rc_state = None\<rparr>"
  have "\<exists>q w1. cloneForAttempt demo_client Background 0 ?w = (Ret (Some q, None), w1)" by (simp add: cloneForAttempt_def new_request_def Let_def)
  then obtain q w1 where c: "cloneForAttempt demo_client Background 0 ?w = (Ret (Some q, None), w1)" by blast
  have d: "hh_Do demo_client q w1 = (Ret (Some (503, Some 9), None), w1)" by (simp add: demo_client_def)
  have "\<exists>res e w'. http_NewRouteHandler demo_client True ?call ?w = (Ret (res, e), w') \<and> rq_Method (hw_requests w' 0) = ''GET'' \<and>
      rq_Body (hw_requests w' 0) = None"
    by (simp add: http_NewRouteHandler_def seq_def cloneForAttempt_def new_request_def NewLifetime_def new_response_def Let_def
        demo_client_def)
  then obtain res e w' where run: "http_NewRouteHandler demo_client True ?call ?w = (Ret (res, e), w')"
    "rq_Method (hw_requests w' 0) = ''GET''" "rq_Body (hw_requests w' 0) = None" by blast
  have live: "ctx_err (tick w') Background = None" by (simp add: ctx_err_def)
  from http_response_is_owned_and_classified [OF run(1) _ _ d] c run(2,3) live show ?thesis
    using run(1) by (auto simp: IsRetryableStatus_def isIdempotentMethod_def normalizeMethod_def ascii_upper_def isReplayableRequest_def)
qed

end
