(* ===== verification/Upload.thy ===== *)
theory Upload
  imports Http
begin

text \<open>
  \<open>ext/s3/prepare.go\<close>: buffering an upload body once, so that every attempt can send it. The body is a reader of the host that
  delivers chunks, as in \<open>Http\<close>, and may be a closer as well. \<open>checkedReader\<close> looks at the context before every read.
\<close>

section \<open>Operations\<close>

record 'f stream_world = "'f world" +
  sw_sources :: "'f \<Rightarrow> (string \<times> err) list"

text \<open>The body with whether it implements \<open>io.Closer\<close>.\<close>

record ('f, 'i) upload_input =
  ui_Body :: "('f \<times> bool) option"
  ui_rest :: 'i

text \<open>\<open>io.ReadAll\<close> of an \<open>io.LimitReader\<close> around the checked reader.\<close>

function read_checked ::
  "(string \<Rightarrow> nat) \<Rightarrow> ctx \<Rightarrow> nat \<Rightarrow> string \<Rightarrow> (string \<times> err) list \<Rightarrow> ('h, 'x) world_scheme \<Rightarrow>
   string \<times> err \<times> (string \<times> err) list \<times> ('h, 'x) world_scheme" where
  "read_checked room ctx limit data cs w =
     (if limit = 0 then (data, None, cs, w)
      else case ctx_err (tick w) ctx of
        Some x \<Rightarrow> (data, if x = EOF then None else Some x, cs, tick w)
      | None \<Rightarrow>
          (case read_chunk (min (Suc (room data)) limit) cs of
             ((c, e), cs') \<Rightarrow>
               if e \<noteq> None then (data @ c, if e = Some EOF then None else e, cs', tick w)
               else read_checked room ctx (limit - length c) (data @ c) cs' (tick w)))"
  by pat_completeness auto

termination
  by (relation "measure (\<lambda>(_, _, _, _, cs, _). chunks_left cs)") (auto dest: read_chunk_left [OF sym])

declare read_checked.simps [simp del]

text \<open>The factory of a prepared request.\<close>

definition prepared_factory :: "string \<Rightarrow> ctx \<Rightarrow> (('f, 'x) world_scheme, 'f body option \<times> err) proc" where
  "prepared_factory data ctx =
     seq (ctx_Err ctx) (\<lambda>e. if e \<noteq> None then ret (None, e) else ret (Some (PreparedBody data), None))"

type_synonym ('f, 'x, 'i) upload_result = "('f, ('f, 'x) stream_world_ext, 'i) put_request option \<times> err"

definition preparePut ::
  "(string \<Rightarrow> nat) \<Rightarrow> ctx \<Rightarrow> ('f, 'i) upload_input \<Rightarrow> int \<Rightarrow> (('f, 'x) stream_world_scheme, ('f, 'x, 'i) upload_result) proc" where
  "preparePut room ctx input maxBytes =
     (if maxBytes < 0 \<or> maxBytes = 2 ^ 63 - 1 then ret (None, Some (configError ''invalid upload buffer limit''))
      else seq (ctx_Err ctx) (\<lambda>e.
        if e \<noteq> None then ret (None, e)
        else let request = \<lparr>pq_Input = \<lparr>pi_Body = None, pi_rest = ui_rest input\<rparr>, pq_BodyFactory = None\<rparr> in
          case ui_Body input of
            None \<Rightarrow> ret (Some request, None)
          | Some (f, _) \<Rightarrow> (\<lambda>w.
              case read_checked room ctx (nat (maxBytes + 1)) '''' (sw_sources w f) w of (data, e, rest, w1) \<Rightarrow>
              let w2 = w1\<lparr>sw_sources := (sw_sources w1)(f := rest)\<rparr> in
              if e \<noteq> None then (Ret (None, e), w2)
              else if int (length data) > maxBytes then (Ret (None, Some (configError ''upload exceeds buffer limit'')), w2)
              else seq (ctx_Err ctx) (\<lambda>e.
                if e \<noteq> None then ret (None, e)
                else ret (Some (request\<lparr>pq_BodyFactory := Some (prepared_factory data)\<rparr>), None)) w2)))"

text \<open>The zero request that goes with an error is \<open>None\<close>.\<close>

definition prepareAndClose ::
  "('f \<Rightarrow> (('f, 'x) stream_world_scheme, err) proc) \<Rightarrow> (string \<Rightarrow> nat) \<Rightarrow> ctx \<Rightarrow> ('f, 'i) upload_input \<Rightarrow> int \<Rightarrow> 'f \<Rightarrow>
   (('f, 'x) stream_world_scheme, ('f, 'x, 'i) upload_result) proc" where
  "prepareAndClose hostfn room ctx input maxBytes closer =
     seq (preparePut room ctx input maxBytes) (\<lambda>(request, e).
     seq (hostfn closer) (\<lambda>closeErr.
       let e = errors_Join [e, closeErr] in if e \<noteq> None then ret (None, e) else ret (request, None)))"

definition PreparePutRequest ::
  "('f \<Rightarrow> (('f, 'x) stream_world_scheme, err) proc) \<Rightarrow> (string \<Rightarrow> nat) \<Rightarrow> ctx \<Rightarrow> ('f, 'i) upload_input option \<Rightarrow> int \<Rightarrow>
   (('f, 'x) stream_world_scheme, ('f, 'x, 'i) upload_result) proc" where
  "PreparePutRequest hostfn room ctx input maxBytes =
     (case input of
        None \<Rightarrow> ret (None, Some (configError ''nil PutObject input''))
      | Some i \<Rightarrow>
          (case ui_Body i of
             Some (f, True) \<Rightarrow> prepareAndClose hostfn room ctx i maxBytes f
           | _ \<Rightarrow> preparePut room ctx i maxBytes))"

section \<open>Prepared uploads\<close>

text \<open>Without an error, and with a context whose errors are not the end of file, the checked reader reads what the body delivers.\<close>

lemma read_checked_delivered:
  fixes w :: "('h, 'x) world_scheme"
  assumes "\<And>v :: ('h, 'x) world_scheme. ctx_err v ctx \<noteq> Some EOF"
  shows "delivered cs = (d, x) \<Longrightarrow> sealed cs \<Longrightarrow> read_checked room ctx n data cs w = (b, None, rest, w') \<Longrightarrow>
    b = data @ take n d \<and> (length d < n \<longrightarrow> x = EOF)"
proof (induction "chunks_left cs" arbitrary: d data cs n w rule: less_induct)
  case less
  show ?case
  proof (cases n)
    case 0
    then show ?thesis using less.prems by (simp add: read_checked.simps)
  next
    case (Suc m)
    have live: "ctx_err (tick w) ctx = None"
      using less.prems(3) assms [of "tick w"] Suc by (subst (asm) read_checked.simps) (auto split: option.splits if_splits)
    obtain c y cs' where r: "read_chunk (min (Suc (room data)) n) cs = ((c, y), cs')" by (metis prod.exhaust)
    note f = read_chunk_delivered [OF r less.prems(1,2)]
    show ?thesis
    proof (cases y)
      case None
      then have c: "delivered cs' = (drop (length c) d, x)" "sealed cs'" "take (length c) d = c" "length c \<le> n" using f by auto
      have "read_checked room ctx (n - length c) (data @ c) cs' (tick w) = (b, None, rest, w')"
        using less.prems(3) r None Suc live by (subst (asm) read_checked.simps) simp
      moreover have "chunks_left cs' < chunks_left cs" using read_chunk_left [of _ cs c cs'] r None Suc by simp
      ultimately have "b = (data @ c) @ take (n - length c) (drop (length c) d) \<and> (length (drop (length c) d) < n - length c \<longrightarrow> x = EOF)"
        using less.hyps c(1,2) by blast
      moreover have "take n d = c @ take (n - length c) (drop (length c) d)"
        using c(3,4) by (metis append_take_drop_id le_add_diff_inverse take_add)
      ultimately show ?thesis using c(4) by auto
    next
      case (Some z)
      then have "c = d" "z = x" "length c \<le> n" using f by auto
      then show ?thesis
        using less.prems(3) r Suc live Some by (subst (asm) read_checked.simps) (auto split: if_splits)
    qed
  qed
qed

lemma preparePut_reads:
  fixes w :: "('f, 'x) stream_world_scheme"
  assumes "ui_Body input = Some (f, k)" "delivered (sw_sources w f) = (bytes, x)" "sealed (sw_sources w f)"
    and "\<And>v :: ('f, 'x) stream_world_scheme. ctx_err v ctx \<noteq> Some EOF"
    and "preparePut room ctx input maxBytes w = (Ret (Some req, None), w')"
  shows "x = EOF \<and> int (length bytes) \<le> maxBytes \<and> pi_Body (pq_Input req) = None \<and> pi_rest (pq_Input req) = ui_rest input \<and>
    pq_BodyFactory req = Some (prepared_factory bytes)"
proof -
  have ok: "0 \<le> maxBytes" using assms(5) by (auto simp: preparePut_def split: if_splits)
  have sources: "sw_sources (tick w) = sw_sources w" by (simp add: tick_def)
  obtain data rest w1 where r: "read_checked room ctx (nat (maxBytes + 1)) '''' (sw_sources w f) (tick w) = (data, None, rest, w1)"
    "int (length data) \<le> maxBytes" "req = \<lparr>pq_Input = \<lparr>pi_Body = None, pi_rest = ui_rest input\<rparr>, pq_BodyFactory = Some (prepared_factory data)\<rparr>"
    using assms(1,5) sources
    by (auto simp: preparePut_def seq_def Let_def split: if_splits prod.splits option.splits)
  from read_checked_delivered [OF assms(4) assms(2,3) r(1)] have d: "data = take (nat (maxBytes + 1)) bytes"
    "length bytes < nat (maxBytes + 1) \<Longrightarrow> x = EOF" by auto
  have "length bytes < nat (maxBytes + 1)"
  proof (rule ccontr)
    assume "\<not> ?thesis"
    then have "length data = nat (maxBytes + 1)" using d(1) by simp
    then show False using r(2) ok by simp
  qed
  then show ?thesis using d r(3) ok by auto
qed

text \<open>
  A prepared upload can be sent again and again: when \<open>PreparePutRequest\<close> has read the body, within the limit and to its end,
  every attempt with a live context opens a body with exactly the bytes that were delivered.
\<close>

theorem prepared_upload_is_the_original:
  fixes w :: "('f, 'x) stream_world_scheme"
  assumes "ui_Body input = Some (f, k)" "delivered (sw_sources w f) = (bytes, x)" "sealed (sw_sources w f)"
    and "\<And>v :: ('f, 'x) stream_world_scheme. ctx_err v ctx \<noteq> Some EOF"
    and "PreparePutRequest hostfn room ctx (Some input) maxBytes w = (Ret (Some req, e), w')"
    and "ctx_err (tick v) c = None"
  shows "x = EOF \<and> int (length bytes) \<le> maxBytes \<and> pi_rest (pq_Input req) = ui_rest input \<and>
    openBody hostfn c (pq_BodyFactory req) v = (Ret (Some (PreparedBody bytes), None), tick v)"
proof -
  obtain w1 where "preparePut room ctx input maxBytes w = (Ret (Some req, None), w1)"
  proof (cases k)
    case True
    then show ?thesis
      using that assms(1,5)
      by (auto simp: PreparePutRequest_def prepareAndClose_def seq_def Let_def split: prod.splits outcome.splits if_splits)
  next
    case False
    then have p: "preparePut room ctx input maxBytes w = (Ret (Some req, e), w')" using assms(1,5) by (simp add: PreparePutRequest_def)
    then have "e = None"
      by (auto simp: preparePut_def seq_def Let_def split: if_splits option.splits prod.splits)
    with p that show ?thesis by blast
  qed
  from preparePut_reads [OF assms(1-4) this] show ?thesis using assms(6) by (simp add: openBody_def prepared_factory_def seq_def)
qed

end
