(* ===== verification/Observability.thy ===== *)
theory Observability
  imports Handlers Diverging
begin

text \<open>
  The observers around a handler: \<open>observability/logging.go\<close>, \<open>metrics.go\<close> and \<open>payload_meta.go\<close>, and the spans of
  \<open>ext/otel/tracing.go\<close>. Callbacks, hooks and the tracer belong to the host: they are procedures on the world. What Go's
  \<open>reflect\<close> and \<open>%T\<close> say of a payload is its dynamic type: the parameters \<open>reflected\<close> (the kind of the value and whether it is
  nil, \<open>None\<close> for no value) and \<open>type_name\<close>.
\<close>

section \<open>Payload metadata\<close>

record payload_meta =
  pm_Shape :: string
  pm_Fingerprint :: string

datatype reflect_kind = KPointer | KMap | KSlice | KInterface | KChan | KFunc | KOther string

definition isNilValue :: "('p \<Rightarrow> (reflect_kind \<times> bool) option) \<Rightarrow> 'p \<Rightarrow> bool" where
  "isNilValue reflected payload =
     (case reflected payload of
        None \<Rightarrow> True
      | Some (kind, isNil) \<Rightarrow> if kind \<in> {KPointer, KMap, KSlice, KInterface, KChan, KFunc} then isNil else False)"

definition DefaultPayloadMeta ::
  "('p \<Rightarrow> (reflect_kind \<times> bool) option) \<Rightarrow> ('p \<Rightarrow> string) \<Rightarrow> ('k, 'r, 'p) route_result \<Rightarrow> payload_meta" where
  "DefaultPayloadMeta reflected type_name result =
     (if res_Action result = ActionNext \<or> \<not> res_HasPayload result then \<lparr>pm_Shape = ''empty'', pm_Fingerprint = ''''\<rparr>
      else \<lparr>pm_Shape = (if isNilValue reflected (res_Payload result) then ''nil'' else type_name (res_Payload result)),
        pm_Fingerprint = ''''\<rparr>)"

definition resolvePayloadMeta ::
  "('p \<Rightarrow> (reflect_kind \<times> bool) option) \<Rightarrow> ('p \<Rightarrow> string) \<Rightarrow> ('k, 'r, 'p) route_result \<Rightarrow>
   (('k, 'r, 'p) route_result \<Rightarrow> ('w, payload_meta) proc) option \<Rightarrow> ('w, payload_meta) proc" where
  "resolvePayloadMeta reflected type_name result payloadMeta =
     (case payloadMeta of None \<Rightarrow> ret (DefaultPayloadMeta reflected type_name result) | Some f \<Rightarrow> f result)"

section \<open>Logging\<close>

record ('k, 'r) observed_outcome =
  ob_Action :: route_action
  ob_Kind :: 'k
  ob_Reason :: 'r
  ob_Match :: route_match

record ('req, 'k, 'r) log_event =
  le_Name :: string
  le_StartTime :: int
  le_Duration :: int
  le_Request :: 'req
  le_Outcome :: "('k, 'r) observed_outcome"
  le_PayloadMeta :: payload_meta
  le_Err :: err

definition outcome_of :: "('k, 'r, 'p) route_result \<Rightarrow> ('k, 'r) observed_outcome" where
  "outcome_of result = \<lparr>ob_Action = res_Action result, ob_Kind = res_Kind result, ob_Reason = res_Reason result, ob_Match = res_Match result\<rparr>"

text \<open>\<open>time.Now()\<close>, an observation of the clock.\<close>

definition Now :: "(('h, 'x) world_scheme, int) proc" where
  "Now w = (Ret (time_Now w), tick w)"

text \<open>The route metadata of the call, when the result has none.\<close>

definition fill_match :: "'req route_call \<Rightarrow> ('k, 'r, 'p) route_result \<Rightarrow> ('k, 'r, 'p) route_result" where
  "fill_match call result =
     (if rm_RouteID (res_Match result) = '''' \<and> rm_Path (res_Match result) = [] then WithMatch result (rc_Match call) else result)"

text \<open>What the observers do with what the handler returned: its canonical form, with the metadata of the call.\<close>

definition canonical :: "'req route_call \<Rightarrow> ('k, 'r, 'p) route_result \<times> err \<Rightarrow> ('k, 'r, 'p) route_result \<times> err" where
  "canonical call out = (case out of (result, e) \<Rightarrow>
     case ValidateRouteResult result e of (result', e') \<Rightarrow> (fill_match call result', e'))"

definition Logging ::
  "('p \<Rightarrow> (reflect_kind \<times> bool) option) \<Rightarrow> ('p \<Rightarrow> string) \<Rightarrow> string \<Rightarrow>
   (ctx \<Rightarrow> ('req, 'k, 'r) log_event \<Rightarrow> (('h, 'x) world_scheme, unit) proc) option \<Rightarrow>
   (('k, 'r, 'p) route_result \<Rightarrow> (('h, 'x) world_scheme, payload_meta) proc) option \<Rightarrow>
   ('h, 'x, 'req, 'k :: zero, 'r :: zero, 'p :: zero) middleware" where
  "Logging reflected type_name name handler payloadMeta next =
     (case next of
        None \<Rightarrow> Some (invalidRouteHandler (configError ''logging middleware requires non-nil next route handler''))
      | Some h \<Rightarrow>
          (case handler of
             None \<Rightarrow> Some h
           | Some emit \<Rightarrow> Some (\<lambda>call.
               seq Now (\<lambda>start.
               seq (h call) (\<lambda>out.
               case canonical call out of (result, handleErr) \<Rightarrow>
               seq Now (\<lambda>finish.
               seq (resolvePayloadMeta reflected type_name result payloadMeta) (\<lambda>meta.
               seq (emit (rc_Context call) \<lparr>le_Name = name, le_StartTime = start, le_Duration = finish - start,
                   le_Request = rc_Request call, le_Outcome = outcome_of result, le_PayloadMeta = meta, le_Err = handleErr\<rparr>) (\<lambda>_.
               ret (result, handleErr)))))))))"

section \<open>Metrics\<close>

record ('w, 'k, 'r, 'p) metrics_hooks =
  mh_OnStart :: "(ctx \<Rightarrow> string \<Rightarrow> route_match \<Rightarrow> ('w, unit) proc) option"
  mh_OnComplete :: "(ctx \<Rightarrow> string \<Rightarrow> int \<Rightarrow> ('k, 'r) observed_outcome \<Rightarrow> payload_meta \<Rightarrow> err \<Rightarrow> ('w, unit) proc) option"
  mh_PayloadMeta :: "(('k, 'r, 'p) route_result \<Rightarrow> ('w, payload_meta) proc) option"

definition Metrics ::
  "('p \<Rightarrow> (reflect_kind \<times> bool) option) \<Rightarrow> ('p \<Rightarrow> string) \<Rightarrow> string \<Rightarrow>
   (('h, 'x) world_scheme, 'k, 'r, 'p) metrics_hooks \<Rightarrow> ('h, 'x, 'req, 'k :: zero, 'r :: zero, 'p :: zero) middleware" where
  "Metrics reflected type_name name hooks next =
     (case next of
        None \<Rightarrow> Some (invalidRouteHandler (configError ''metrics middleware requires non-nil next route handler''))
      | Some h \<Rightarrow>
          if mh_OnStart hooks = None \<and> mh_OnComplete hooks = None then Some h
          else Some (\<lambda>call.
            seq (case mh_OnStart hooks of None \<Rightarrow> ret () | Some f \<Rightarrow> f (rc_Context call) name (rc_Match call)) (\<lambda>_.
            seq Now (\<lambda>start.
            seq (h call) (\<lambda>out.
            case canonical call out of (result, handleErr) \<Rightarrow>
            (case mh_OnComplete hooks of
               None \<Rightarrow> ret (result, handleErr)
             | Some f \<Rightarrow>
                 seq (resolvePayloadMeta reflected type_name result (mh_PayloadMeta hooks)) (\<lambda>meta.
                 seq Now (\<lambda>finish.
                 seq (f (rc_Context call) name (finish - start) (outcome_of result) meta handleErr) (\<lambda>_.
                 ret (result, handleErr))))))))))"

section \<open>Tracing\<close>

record ('w, 's) tracer =
  tr_Start :: "ctx \<Rightarrow> string \<Rightarrow> ('w, ctx \<times> 's) proc"
  tr_SetStatus :: "'s \<Rightarrow> string \<Rightarrow> ('w, unit) proc"
  tr_SetAttributes :: "'s \<Rightarrow> string \<times> gval \<Rightarrow> ('w, unit) proc"
  tr_End :: "'s \<Rightarrow> ('w, unit) proc"

fun action_text :: "route_action \<Rightarrow> string" where
  "action_text ActionNext = ''next''"
| "action_text ActionStop = ''stop''"
| "action_text ActionAbort = ''abort''"
| "action_text (OtherAction s) = s"

fun set_attributes :: "('w, 's) tracer \<Rightarrow> 's \<Rightarrow> (string \<times> gval) list \<Rightarrow> ('w, unit) proc" where
  "set_attributes tracer sp [] = ret ()"
| "set_attributes tracer sp (attr # attrs) =
     seq (if fst attr \<noteq> ''routery.action'' then tr_SetAttributes tracer sp attr else ret ()) (\<lambda>_. set_attributes tracer sp attrs)"

definition setProjectedAttributes ::
  "('w, 's) tracer \<Rightarrow> 's \<Rightarrow> (('k, 'r) observed_outcome \<times> err \<Rightarrow> ('w, (string \<times> gval) list) proc) option \<Rightarrow>
   ('k, 'r) observed_outcome \<times> err \<Rightarrow> ('w, unit) proc" where
  "setProjectedAttributes tracer sp projection result =
     (case projection of None \<Rightarrow> ret () | Some f \<Rightarrow> seq (f result) (set_attributes tracer sp))"

definition Tracing ::
  "(('h, 'x) world_scheme, 's) tracer option \<Rightarrow> string \<Rightarrow>
   (('k, 'r) observed_outcome \<times> err \<Rightarrow> (('h, 'x) world_scheme, (string \<times> gval) list) proc) option \<Rightarrow>
   ('h, 'x, 'req, 'k :: zero, 'r :: zero, 'p :: zero) middleware" where
  "Tracing tracer spanName projection next =
     (case tracer of
        None \<Rightarrow> Some (\<lambda>_. ret (AbortResult, Some (configError ''nil tracer'')))
      | Some tr \<Rightarrow>
          (case next of
             None \<Rightarrow> Some (\<lambda>_. ret (AbortResult, Some (configError ''tracing middleware requires non-nil next route handler'')))
           | Some h \<Rightarrow> Some (\<lambda>call.
               seq (tr_Start tr (rc_Context call) (if spanName = '''' then ''routery.handle'' else spanName)) (\<lambda>(ctx, sp).
                 with_defer
                   (seq (h (WithContext call (Some ctx))) (\<lambda>out.
                    case canonical call out of (result, e) \<Rightarrow>
                    seq (if e \<noteq> None then tr_SetStatus tr sp ''route failed'' else ret ()) (\<lambda>_.
                    seq (setProjectedAttributes tr sp projection (outcome_of result, e)) (\<lambda>_.
                    seq (tr_SetAttributes tr sp (''routery.action'', VString ''string'' (action_text (res_Action result)))) (\<lambda>_.
                    ret (result, e))))))
                   (tr_End tr sp)))))"

section \<open>Observers change nothing\<close>

text \<open>A callback is harmless for a relation of worlds when it returns and keeps to the relation.\<close>

definition harmless :: "('w \<Rightarrow> 'w \<Rightarrow> bool) \<Rightarrow> ('w, 'a) proc \<Rightarrow> bool" where
  "harmless R p \<longleftrightarrow> (\<forall>w. \<exists>a w'. p w = (Ret a, w') \<and> R w w')"

text \<open>The observers of the three files with such callbacks; spans are addresses.\<close>

inductive observer ::
  "(('h, 'x) world_scheme \<Rightarrow> ('h, 'x) world_scheme \<Rightarrow> bool) \<Rightarrow>
   ('h, 'x, 'req, 'k :: zero, 'r :: zero, 'p :: zero) middleware \<Rightarrow> bool" for R where
  logging: "(\<And>c event. harmless R (emit c event)) \<Longrightarrow> (\<And>f result. payloadMeta = Some f \<Longrightarrow> harmless R (f result)) \<Longrightarrow>
    observer R (Logging reflected type_name name (Some emit) payloadMeta)"
| metrics: "mh_OnStart hooks \<noteq> None \<or> mh_OnComplete hooks \<noteq> None \<Longrightarrow>
    (\<And>f c m. mh_OnStart hooks = Some f \<Longrightarrow> harmless R (f c name m)) \<Longrightarrow>
    (\<And>f c d res meta e. mh_OnComplete hooks = Some f \<Longrightarrow> harmless R (f c name d res meta e)) \<Longrightarrow>
    (\<And>f result. mh_PayloadMeta hooks = Some f \<Longrightarrow> harmless R (f result)) \<Longrightarrow>
    observer R (Metrics reflected type_name name hooks)"
| tracing: "(\<And>c n. harmless R (tr_Start (tr :: (('h, 'x) world_scheme, nat) tracer) c n)) \<Longrightarrow>
    (\<And>s x. harmless R (tr_SetStatus tr s x)) \<Longrightarrow>
    (\<And>s a. harmless R (tr_SetAttributes tr s a)) \<Longrightarrow> (\<And>s. harmless R (tr_End tr s)) \<Longrightarrow>
    (\<And>f result. projection = Some f \<Longrightarrow> harmless R (f result)) \<Longrightarrow>
    observer R (Tracing (Some tr) name projection)"

text \<open>The canonical form of what a handler did: a panic stays a panic.\<close>

definition canonical_outcome ::
  "'req route_call \<Rightarrow> (('k, 'r, 'p) route_result \<times> err) outcome \<Rightarrow> (('k, 'r, 'p) route_result \<times> err) outcome" where
  "canonical_outcome call v = (case v of Ret out \<Rightarrow> Ret (canonical call out) | Panic \<Rightarrow> Panic)"

text \<open>
  A procedure goes through a handler when it calls it once, in a context of its own, and apart from this keeps to the relation;
  what it makes of the call is the canonical form.
\<close>

definition through ::
  "(('h, 'x) world_scheme \<Rightarrow> ('h, 'x) world_scheme \<Rightarrow> bool) \<Rightarrow> ('h, 'x, 'req, 'k, 'r, 'p) handler \<Rightarrow> 'req route_call \<Rightarrow>
   (('h, 'x) world_scheme, ('k, 'r, 'p) route_result \<times> err) proc \<Rightarrow> bool" where
  "through R h call m \<longleftrightarrow> (\<forall>w r w'. m w = (r, w') \<longrightarrow>
     (\<exists>c v out v'. R w v \<and> h (call\<lparr>rc_Context := c\<rparr>) v = (out, v') \<and> R v' w' \<and> r = canonical_outcome call out))"

definition gives :: "('w \<Rightarrow> 'w \<Rightarrow> bool) \<Rightarrow> ('w, 'a) proc \<Rightarrow> 'a \<Rightarrow> bool" where
  "gives R m x \<longleftrightarrow> (\<forall>w. \<exists>w'. m w = (Ret x, w') \<and> R w w')"

lemma validate_fill:
  "ValidateRouteResult s e' = (r, e) \<Longrightarrow> ValidateRouteResult (fill_match call r) e = (fill_match call r, e)"
  by (cases "res_Action s"; cases e')
    (auto simp: ValidateRouteResult_def validateReturnedResult_def fill_match_def WithMatch_def split: option.splits)

lemma fill_fill: "fill_match call (fill_match call r) = fill_match call r"
  by (simp add: fill_match_def WithMatch_def)

lemma canonical_idem [simp]: "canonical call (canonical call out) = canonical call out"
proof -
  obtain result e where out: "out = (result, e)" by fastforce
  obtain r e' where v: "ValidateRouteResult result e = (r, e')" by fastforce
  show ?thesis using validate_fill [OF v, of call] by (simp add: canonical_def out v fill_fill)
qed

lemma canonical_context [simp]: "canonical (call\<lparr>rc_Context := c\<rparr>) out = canonical call out"
  by (auto simp: canonical_def fill_match_def split: prod.split)

lemma canonical_outcome_idem [simp]: "canonical_outcome call (canonical_outcome call v) = canonical_outcome call v"
  by (simp add: canonical_outcome_def split: outcome.split)

lemma canonical_keeps:
  "canonical call (result, e) = (result', e') \<Longrightarrow>
   res_Lifetime result' = res_Lifetime result \<and> res_Payload result' = res_Payload result \<and> (e \<noteq> None \<longrightarrow> e' = e)"
  by (cases "res_Action result"; cases e)
    (auto simp: canonical_def ValidateRouteResult_def validateReturnedResult_def fill_match_def WithMatch_def split: if_splits)

text \<open>The interface to the worlds: a relation that may be chained and that looks at the clock keep to.\<close>

locale observing = frame_relation R for R :: "('h, 'x) world_scheme \<Rightarrow> ('h, 'x) world_scheme \<Rightarrow> bool" +
  assumes tick_keeps: "R w (tick w)"
begin

lemma harmless_ret: "harmless R (ret a)" "harmless R (Pair (Ret a))"
  by (simp_all add: harmless_def frame_refl)

lemma harmless_Now: "harmless R Now"
  by (simp add: harmless_def Now_def tick_keeps)

lemma harmlessE:
  assumes "harmless R p"
  obtains a w' where "p w = (Ret a, w')" "R w w'"
  using assms unfolding harmless_def by blast

lemma harmless_seq: "harmless R p \<Longrightarrow> (\<And>a. harmless R (f a)) \<Longrightarrow> harmless R (seq p f)"
  unfolding harmless_def [of R "seq p f"]
proof
  fix w
  assume p: "harmless R p" and f: "\<And>a. harmless R (f a)"
  obtain a w1 where 1: "p w = (Ret a, w1)" "R w w1" using p by (rule harmlessE)
  moreover obtain b w2 where 2: "f a w1 = (Ret b, w2)" "R w1 w2" using f by (rule harmlessE)
  ultimately show "\<exists>a w'. seq p f w = (Ret a, w') \<and> R w w'" using frame_trans [OF 1(2) 2(2)] by (simp add: seq_def)
qed

lemma gives_ret: "gives R (ret x) x" "gives R (Pair (Ret x)) x"
  by (simp_all add: gives_def frame_refl)

lemma gives_seq:
  assumes "harmless R p" "\<And>a. gives R (f a) x"
  shows "gives R (seq p f) x"
  unfolding gives_def
proof
  fix w
  obtain a w1 where 1: "p w = (Ret a, w1)" "R w w1" using assms(1) by (rule harmlessE)
  moreover obtain w2 where 2: "f a w1 = (Ret x, w2)" "R w1 w2" using assms(2) unfolding gives_def by blast
  ultimately show "\<exists>w'. seq p f w = (Ret x, w') \<and> R w w'" using frame_trans [OF 1(2) 2(2)] by (simp add: seq_def)
qed

lemma through_seq:
  assumes "harmless R p" "\<And>a. through R h call (f a)"
  shows "through R h call (seq p f)"
  unfolding through_def
proof (intro allI impI)
  fix w r w'
  assume run: "seq p f w = (r, w')"
  obtain a w1 where a: "p w = (Ret a, w1)" "R w w1" using assms(1) by (rule harmlessE)
  then have "f a w1 = (r, w')" using run by (simp add: seq_def)
  then obtain c v out v' where "R w1 v" "h (call\<lparr>rc_Context := c\<rparr>) v = (out, v')" "R v' w'" "r = canonical_outcome call out"
    using assms(2) unfolding through_def by blast
  then show "\<exists>c v out v'. R w v \<and> h (call\<lparr>rc_Context := c\<rparr>) v = (out, v') \<and> R v' w' \<and> r = canonical_outcome call out"
    using frame_trans [OF a(2)] by blast
qed

lemma through_call:
  assumes "\<And>out. gives R (f out) (canonical call out)"
  shows "through R h call (seq (h (call\<lparr>rc_Context := c\<rparr>)) f)"
  unfolding through_def
proof (intro allI impI)
  fix w r w'
  assume run: "seq (h (call\<lparr>rc_Context := c\<rparr>)) f w = (r, w')"
  obtain v w1 where v: "h (call\<lparr>rc_Context := c\<rparr>) w = (v, w1)" by fastforce
  have "R w1 w' \<and> r = canonical_outcome call v"
  proof (cases v)
    case (Ret out)
    obtain w2 where "f out w1 = (Ret (canonical call out), w2)" "R w1 w2" using assms unfolding gives_def by blast
    then show ?thesis using run v Ret by (simp add: canonical_outcome_def)
  next
    case Panic
    then show ?thesis using run v by (simp add: canonical_outcome_def frame_refl)
  qed
  then show "\<exists>c v out v'. R w v \<and> h (call\<lparr>rc_Context := c\<rparr>) v = (out, v') \<and> R v' w' \<and> r = canonical_outcome call out"
    using v frame_refl by blast
qed

lemma through_defer:
  assumes "through R h call m" "harmless R d"
  shows "through R h call (with_defer m d)"
  unfolding through_def
proof (intro allI impI)
  fix w r w'
  assume run: "with_defer m d w = (r, w')"
  obtain r1 w1 where m: "m w = (r1, w1)" by fastforce
  moreover obtain a w2 where "d w1 = (Ret a, w2)" "R w1 w2" using assms(2) by (rule harmlessE)
  ultimately have "r = r1" "R w1 w'" using run by (auto simp: with_defer_def)
  moreover obtain c v out v' where "R w v" "h (call\<lparr>rc_Context := c\<rparr>) v = (out, v')" "R v' w1" "r1 = canonical_outcome call out"
    using assms(1) m unfolding through_def by blast
  ultimately show "\<exists>c v out v'. R w v \<and> h (call\<lparr>rc_Context := c\<rparr>) v = (out, v') \<and> R v' w' \<and> r = canonical_outcome call out"
    using frame_trans by blast
qed

lemma through_trans:
  assumes "\<And>c. through R h call (g (call\<lparr>rc_Context := c\<rparr>))" "through R g call m"
  shows "through R h call m"
  unfolding through_def
proof (intro allI impI)
  fix w r w'
  assume "m w = (r, w')"
  then obtain c v out v' where g: "R w v" "g (call\<lparr>rc_Context := c\<rparr>) v = (out, v')" "R v' w'" "r = canonical_outcome call out"
    using assms(2) unfolding through_def by blast
  then obtain c1 u out1 u' where "R v u" "h (call\<lparr>rc_Context := c1\<rparr>) u = (out1, u')" "R u' v'" "out = canonical_outcome call out1"
    using assms(1) unfolding through_def by blast
  then show "\<exists>c v out v'. R w v \<and> h (call\<lparr>rc_Context := c\<rparr>) v = (out, v') \<and> R v' w' \<and> r = canonical_outcome call out"
    using g frame_trans by (metis canonical_outcome_idem)
qed

lemma harmless_meta:
  "(\<And>f. payloadMeta = Some f \<Longrightarrow> harmless R (f result)) \<Longrightarrow> harmless R (resolvePayloadMeta reflected type_name result payloadMeta)"
  by (auto simp: resolvePayloadMeta_def harmless_ret split: option.split)

lemma harmless_attributes:
  assumes "\<And>s a. harmless R (tr_SetAttributes tr s a)"
  shows "harmless R (set_attributes tr sp attrs)"
  by (induction attrs) (auto intro!: harmless_seq harmless_ret assms)

lemma observer_through:
  assumes "observer R mw"
  shows "\<exists>g. mw (Some h) = Some g \<and> (\<forall>c. through R h call (g (call\<lparr>rc_Context := c\<rparr>)))"
  using assms
proof cases
  case (logging emit payloadMeta reflected type_name name)
  have "gives R (case canonical call out of (result, handleErr) \<Rightarrow> seq Now (\<lambda>finish.
      seq (resolvePayloadMeta reflected type_name result payloadMeta) (\<lambda>meta. seq (emit cx (event result handleErr finish meta)) (\<lambda>_.
      ret (result, handleErr))))) (canonical call out)" for out cx event
    by (auto split: prod.split
        intro!: gives_seq [OF harmless_Now] gives_seq [OF harmless_meta] gives_seq [OF logging(2)] logging(3) gives_ret)
  then show ?thesis
    unfolding logging(1) Logging_def by (auto intro!: through_seq [OF harmless_Now] through_call)
next
  case (metrics hooks name reflected type_name)
  have start: "harmless R (case mh_OnStart hooks of None \<Rightarrow> ret () | Some f \<Rightarrow> f ctx name m)" for ctx m
    using metrics(3) by (auto simp: harmless_ret split: option.split)
  have "gives R (case canonical call out of (result, handleErr) \<Rightarrow>
      (case mh_OnComplete hooks of None \<Rightarrow> ret (result, handleErr)
       | Some f \<Rightarrow> seq (resolvePayloadMeta reflected type_name result (mh_PayloadMeta hooks)) (\<lambda>meta. seq Now (\<lambda>finish.
           seq (f cx name (finish - s0) (outcome_of result) meta handleErr) (\<lambda>_. ret (result, handleErr)))))) (canonical call out)"
    for out cx s0
    by (auto split: prod.split option.split
        intro!: gives_seq [OF harmless_meta] gives_seq [OF harmless_Now] gives_seq [OF metrics(4)] metrics(5) gives_ret)
  moreover have "\<not> (mh_OnStart hooks = None \<and> mh_OnComplete hooks = None)" using metrics(2) by blast
  ultimately show ?thesis
    unfolding metrics(1) Metrics_def
    by (auto simp del: not_None_eq intro!: through_seq [OF start] through_seq [OF harmless_Now] through_call)
next
  case (tracing tr projection name)
  have project: "harmless R (setProjectedAttributes tr sp projection x)" for sp x
    using tracing(6) by (cases x) (auto simp: setProjectedAttributes_def harmless_ret split: option.split
        intro!: harmless_seq harmless_attributes tracing(4))
  have status: "harmless R (if e \<noteq> None then tr_SetStatus tr sp ''route failed'' else ret ())" for sp and e :: err
    using tracing(3) by (simp add: harmless_ret)
  have "gives R (case canonical call out of (result, e) \<Rightarrow>
      seq (if e \<noteq> None then tr_SetStatus tr sp ''route failed'' else ret ()) (\<lambda>_.
      seq (setProjectedAttributes tr sp projection (outcome_of result, e)) (\<lambda>_.
      seq (tr_SetAttributes tr sp (''routery.action'', VString ''string'' (action_text (res_Action result)))) (\<lambda>_.
      ret (result, e))))) (canonical call out)" for out sp
    by (cases "canonical call out")
      (simp only: prod.case, intro gives_seq [OF status] gives_seq [OF project] gives_seq [OF tracing(4)] gives_ret)
  note inside = through_call [where h = h and call = call, OF this]
  show ?thesis
    unfolding tracing(1) Tracing_def
    by (auto simp: WithContext_def withContext_def simp del: not_None_eq intro!: through_seq [OF tracing(2)] through_defer [OF _ tracing(5)] inside)
qed

lemma observers_through:
  assumes "list_all (observer R) mws" "mws \<noteq> []"
  shows "through R h call (apply_loop h (map Some mws) (call\<lparr>rc_Context := c\<rparr>))"
  using assms
proof (induction mws arbitrary: h c)
  case (Cons mw mws)
  obtain g where g: "mw (Some h) = Some g" "\<And>c. through R h call (g (call\<lparr>rc_Context := c\<rparr>))"
    using observer_through [of mw h call] Cons.prems(1) by auto
  show ?case
  proof (cases "mws = []")
    case False
    then have "through R g call (apply_loop g (map Some mws) (call\<lparr>rc_Context := c\<rparr>))" using Cons by auto
    then show ?thesis using through_trans [where h = h and g = g and call = call, OF g(2)] by (simp add: g(1))
  qed (simp add: g)
qed simp

end

text \<open>The order of the worlds is such a relation, and so is equality of a part of the world that the clock does not touch.\<close>

interpretation world_observing: observing world_le
  by unfold_locales (rule world_le_tick)

interpretation same_counters: observing "\<lambda>w v. w_counters w = w_counters v"
  by unfold_locales (auto simp: tick_def)

text \<open>
  C33 (equivalence). Observers are transparent for every handler, whatever it does to the world and however it ends: in a stack
  of one or more active loggers, metrics and tracers the handler is called exactly once, in some context, everything else that
  happens stays within the relation the callbacks keep to, and the call returns the canonical form of the handler's answer, or
  panics when the handler panics. The canonical form has the resource and the payload of the answer, and its error if it has one.
\<close>

theorem observers_are_transparent:
  assumes "observing R" "list_all (observer R) mws" "mws \<noteq> []" "ApplyRoute (Some h) (map Some mws) call w = (r, w')"
  shows "\<exists>c v out v'. R w v \<and> h (call\<lparr>rc_Context := c\<rparr>) v = (out, v') \<and> R v' w' \<and>
    (case out of
       Panic \<Rightarrow> r = Panic
     | Ret (result, e) \<Rightarrow>
         r = Ret (canonical call (result, e)) \<and>
         res_Lifetime (fst (canonical call (result, e))) = res_Lifetime result \<and>
         res_Payload (fst (canonical call (result, e))) = res_Payload result \<and> (e \<noteq> None \<longrightarrow> snd (canonical call (result, e)) = e))"
proof -
  have "through R h call (apply_loop h (map Some (rev mws)) (call\<lparr>rc_Context := rc_Context call\<rparr>))"
    by (rule observing.observers_through [OF assms(1)]) (use assms(2,3) in simp_all)
  then obtain c v out v' where "R w v" "h (call\<lparr>rc_Context := c\<rparr>) v = (out, v')" "R v' w'" "r = canonical_outcome call out"
    using assms(4) unfolding through_def by (simp add: ApplyRoute_def rev_map) blast
  then show ?thesis
    using canonical_keeps [OF surjective_pairing]
    by (intro exI [of _ c] exI [of _ v] exI [of _ out] exI [of _ v']) (auto simp: canonical_outcome_def split: outcome.split)
qed

text \<open>A handler that counts its calls, with a logger and metrics around it.\<close>

definition counting_handler :: "(nat, unit, unit, nat, nat, nat) handler" where
  "counting_handler call w = (Ret (Handled 1 0 5, None), w\<lparr>w_counters := (w_counters w)(0 := w_counters w 0 + 1)\<rparr>)"

definition demo_observers :: "(nat, unit, unit, nat, nat, nat) middleware list" where
  "demo_observers = [Logging (\<lambda>_. None) (\<lambda>_. '''') ''log'' (Some (\<lambda>_ _. ret ())) None,
     Metrics (\<lambda>_. None) (\<lambda>_. '''') ''m'' \<lparr>mh_OnStart = Some (\<lambda>_ _ _. ret ()), mh_OnComplete = None, mh_PayloadMeta = None\<rparr>]"

definition demo_observed_call :: "unit route_call" where
  "demo_observed_call = \<lparr>rc_Context = Background, rc_Request = (), rc_Match = zeroRouteMatch\<lparr>rm_RouteID := ''r''\<rparr>, rc_state = None\<rparr>"

theorem observers_are_transparent_witness:
  "\<exists>w'. ApplyRoute (Some counting_handler) (map Some demo_observers) demo_observed_call (idle_world :: nat world) =
     (Ret ((Handled 1 0 5)\<lparr>res_Match := zeroRouteMatch\<lparr>rm_RouteID := ''r''\<rparr>\<rparr>, None), w') \<and>
   w_counters w' 0 = w_counters (idle_world :: nat world) 0 + 1"
proof -
  have obs: "list_all (observer (\<lambda>w v. w_counters w = w_counters v)) demo_observers" "demo_observers \<noteq> []"
    by (auto simp: demo_observers_def intro!: observer.intros same_counters.harmless_ret)
  obtain r w' where run: "ApplyRoute (Some counting_handler) (map Some demo_observers) demo_observed_call (idle_world :: nat world) = (r, w')"
    by fastforce
  have "canonical demo_observed_call (Handled 1 0 5, None) =
      ((Handled (1 :: nat) (0 :: nat) (5 :: nat))\<lparr>res_Match := zeroRouteMatch\<lparr>rm_RouteID := ''r''\<rparr>\<rparr>, None)"
    by (simp add: canonical_def ValidateRouteResult_def validateReturnedResult_def fill_match_def WithMatch_def Handled_def zeroRouteMatch_def
        demo_observed_call_def)
  with observers_are_transparent [OF same_counters.observing_axioms obs run]
  have "r = Ret ((Handled 1 0 5)\<lparr>res_Match := zeroRouteMatch\<lparr>rm_RouteID := ''r''\<rparr>\<rparr>, None)"
    and "w_counters w' = (w_counters (idle_world :: nat world))(0 := w_counters (idle_world :: nat world) 0 + 1)"
    by (auto simp: counting_handler_def)
  with run show ?thesis by simp
qed

end
