(* ===== verification/Spec2Isabelle.thy ===== *)
theory Spec2Isabelle
  imports Schedule Quota Fingerprint Lifetime_Machine Resilience Circuit_Breaker Bulkhead
    Route_Build Router Routing Decision_Table Registry Binding Projection Policy_Selection Model_Policy
    Sequence_Proofs First_Success Race Upload Observability
begin

text \<open>
  A verification library for \<^emph>\<open>routery\<close>, a Go library of typed request routing and of policies around single attempts.

  \<^bold>\<open>The program.\<close> The root package routes: a handler takes a \<open>RouteCall\<close> and returns a \<open>RouteResult\<close> (stop, next, abort),
  possibly with a \<open>Lifetime\<close> that owns resources. Handlers are combined by \<open>Chain\<close>, tables, decision tables, retry, timeout,
  breaker and bulkhead; a \<open>RouteTable\<close> is compiled by \<open>Build\<close> into a router; the registry rebuilds such a router on every
  change; projections turn results into values of the caller. The packages under \<open>policy\<close> decide what may be attempted:
  \<open>selection\<close> and \<open>model\<close> choose a candidate, \<open>attempt\<close> keeps the facts of one logical operation on a coordinator and
  decides on repeats and when they may start, \<open>quota\<close> reserves and settles, and \<open>execution\<close> puts them together: a boundary
  runs one physical attempt, a sequence repeats it while the coordinator authorizes that, a race runs several plans at once
  and accepts one of them. \<open>observability\<close> puts callbacks around handlers; the packages under \<open>ext\<close> make handlers of transport
  clients, say which of their failures may be retried, and prepare requests that can be sent again.

  \<^bold>\<open>How it is modelled.\<close> Errors are values of \<open>gerror\<close> with Go's \<open>errors.Is\<close> and \<open>errors.Join\<close> (\<open>Routery_Prelude\<close>). Code that
  touches shared objects is a procedure \<open>'w \<Rightarrow> 'a outcome \<times> 'w\<close> that returns or panics, over a world (\<open>World\<close>) with the heap of
  lifetimes, cancellations of contexts, counters, breakers and semaphores; pointers are addresses from a counter, so that
  aliasing is kept. Time is a stream read at every observation. Host callbacks are parameters and may do anything to the world
  unless a theorem says otherwise. Loops over a list are \<open>early_loop\<close> (\<open>Loops\<close>); loops without a bound are \<open>loop_forever\<close>
  (\<open>Diverging\<close>), where \<open>None\<close> is a call that never returns, and that they return is proved. One definition
  uses fuel, the classification of Kafka errors, which recurses into batches nested in an error of a client: that a bound above
  the nesting gives an answer, and every such bound the same, is \<open>kafka_classification_ends\<close>. The recursion over shared tables,
  \<open>Build\<close>, has a measure (the tables not yet visited), reading a body the bytes and chunks left. Integers of the code that are counters,
  lengths and nanoseconds are \<open>int\<close> or \<open>nat\<close>, with the bounds the code checks (a timestamp is the nanoseconds since the start of
  year 1, and \<open>AddDelay\<close> adds a duration of at most 292 years to one before year 10000, where Go's \<open>Add\<close> is exact); where it saturates, wraps or rounds
  (\<open>Fingerprint\<close>'s SHA-256, the round robin counter, the \<open>float64\<close> scores of \<open>Policy_Selection\<close> and \<open>Model_Policy\<close> with their
  infinities and \<open>NaN\<close>) the operation is written out. Code that starts goroutines or is called by many of them is a step relation
  over its shared state (\<open>Lifetime_Machine\<close>, \<open>Circuit_Breaker\<close>, \<open>Bulkhead\<close>, \<open>First_Success\<close>, \<open>Race\<close>): one step is what one
  goroutine does between two operations on shared objects.

  \<^bold>\<open>Theories and sources\<close> (paths under \<open>src/\<close>):
  \<^item> \<open>Routery_Prelude\<close>, \<open>Loops\<close>, \<open>Diverging\<close>, \<open>World\<close>: errors, outcomes, loops, frame relations, contexts; \<open>lifetime.go\<close> and
    \<open>discard.go\<close> as procedures. \<open>Lifetime_Machine\<close>: \<open>lifetime.go\<close> as a step relation of concurrent callers.
  \<^item> \<open>Outcome\<close>: \<open>outcome.go\<close>, \<open>route_match.go\<close>, \<open>routery.go\<close>. \<open>Handlers\<close>: \<open>route_handler.go\<close>, \<open>invoke.go\<close>, \<open>chain.go\<close>.
  \<^item> \<open>Topology_Key\<close>, \<open>Route_Table\<close>, \<open>Route_Build\<close>, \<open>Router\<close>, \<open>Routing\<close>: \<open>topology_key.go\<close>, \<open>route_table.go\<close>, \<open>router.go\<close>,
    \<open>sink.go\<close>; \<open>Decision_Table\<close>, \<open>Registry\<close>, \<open>Binding\<close>, \<open>Projection\<close>: the files of the same names; \<open>Fingerprint\<close>: \<open>snapshot.go\<close>.
  \<^item> \<open>Resilience\<close>: \<open>routers.go\<close> and the sequential combinators of \<open>smart.go\<close>; \<open>First_Success\<close>: the parallel one; \<open>Circuit_Breaker\<close>, \<open>Bulkhead\<close>: the files of the same
    names, each with the machine of all calls that share one.
  \<^item> \<open>Attempt\<close>, \<open>Schedule\<close>: \<open>policy/attempt\<close>; \<open>Quota\<close>: \<open>policy/quota/quota.go\<close>; \<open>Policy_Selection\<close>: \<open>policy/selection.go\<close> and
    \<open>policy/affinity.go\<close>; \<open>Model_Policy\<close>: \<open>policy/model/model.go\<close>.
  \<^item> \<open>Boundary\<close>, \<open>Sequence\<close> (definitions) and \<open>Sequence_Proofs\<close>: \<open>policy/execution/boundary.go\<close> and \<open>sequence.go\<close>. Coordinators and
    receipts are in heaps of an extension of the world; what a callback may do is the order \<open>exec_le\<close> on worlds, and
    \<open>lawful_boundary\<close> and \<open>lawful_sequence\<close> state that callbacks keep to it. \<open>Race\<close>: \<open>policy/execution/race.go\<close>.
  \<^item> \<open>Observability\<close>: \<open>observability/*\<close> and \<open>ext/otel/tracing.go\<close>. \<open>Transient\<close>: the \<open>retry_policy.go\<close> of gRPC, Kafka, MongoDB,
    Redis and S3; \<open>Adapters\<close>: their handlers and those of \<open>ext/sql\<close>, with its policy; \<open>Http\<close>: \<open>retry_policy.go\<close>,
    \<open>retry_hint.go\<close> and \<open>executor.go\<close> of \<open>ext/http\<close>; \<open>Upload\<close>: \<open>ext/s3/prepare.go\<close>. The clients are arguments: procedures for
    their calls, views for the dynamic types of their errors.

  \<^bold>\<open>What is shown.\<close>
  \<^item> Routing: \<open>Build\<close> returns the compiled tree of the declared tables or the error of the first fault, terminates and rejects
    mount cycles; dispatch selects the best declared route and gives canonical results; chains and decision tables refine their
    first terminal handler and first matching case; equal fingerprints mean equal topologies as long as SHA-256 does not
    collide on them.
  \<^item> Ownership: lifetimes release exactly once under every interleaving; chains and projections close what they discard.
  \<^item> Registry: every reachable registry is consistent with its snapshot, changes are all or nothing.
  \<^item> Resilience: retry is bounded and spaced, round robin is fair; with any number of concurrent calls the breaker has one probe,
    and the permits of a bulkhead are those of the calls inside it and of the open lifetimes of their results.
  \<^item> Policies: selection takes the best eligible candidate and is bound to the inputs it was made for; the coordinator's facts
    only move forward and a repeat is authorized by comparing and setting them; quota sessions finalize once.
  \<^item> Execution: a boundary accounts for every attempt, a sequence ends, stays within its budget and has every repeat authorized.
  \<^item> Concurrency: the outcome of \<open>FirstSuccessfulPayload\<close> is explained by the results in completion order, everything but the
    winner is released and cancelled, and it ends when its handlers do; a race runs each plan at most once, starts nothing
    after a fatal error or its finalization, returns only what was accepted, if no fatal error came before, and leaks nothing.
  \<^item> Adapters: observers call any handler once and change nothing; the policies of gRPC, Kafka, MongoDB, Redis and S3 repeat exactly
    on evidence of the host, the one of HTTP only on such evidence or for an idempotent request, and only if it can be sent
    again (the policy of \<open>ext/sql\<close> is modelled and has no theorem); prepared bodies are the original bytes; bodies and responses are closed or owned; a published batch
    is accounted for message by message.

  Interfaces are locales: \<open>frame_relation\<close> (orders that procedures keep) is interpreted by the lifetime, coordinator, buffer and
  execution orders and by what leaves a bulkhead's permits alone, its extension \<open>observing\<close> (looks at the clock keep to it) by the
  order of worlds, \<open>lifetime_blind\<close> by the execution order, \<open>invariant_system\<close> by the state machines, and the laws of hosts (\<open>lawful_boundary\<close>, \<open>lawful_sequence\<close>, \<open>lawful_race\<close>) on the
  boundary, sequence and race the witnesses run.

  \<^bold>\<open>Not modelled.\<close>
  \<^item> The waiting of a receipt's methods while another caller settles it (\<open>lock\<close>, \<open>lockAuthorization\<close>): the model has the
    sequential reading.
  \<^item> \<open>ext/http/roundtripper.go\<close>: the body it returns closes lifetimes whose cleanup may close bodies of further round trippers,
    a cycle of closures and lifetimes the closure type of \<open>World\<close> leaves out. The parsing of dates in \<open>http.ParseTime\<close> is a
    parameter of the hint.
  \<^item> \<open>policy/quota/quotatest\<close>: a test suite over \<open>testing.T\<close>. Package documentation files.
\<close>

section \<open>Routes built and dispatched\<close>

text \<open>
  C1 (functional). From declaration to dispatch: when a table builds, the context is live and the matchers before the
  chosen route answer cleanly, the router hands the request to the declared route that matches with the best key (longest
  prefix, priority, declaration order, as configured), whatever the order of declaration, and returns that handler's result
  with the route's metadata. No other handler runs.
\<close>

theorem Dispatch_selects_best_route:
  assumes "Build tabs (Some t) = Inr router" "tb_routes (tabs ! t) = pre @ e # post"
    "best_route (tb_longestPrefixWins (tabs ! t)) call pre e post" "en_sub e = None" "en_handler e = Some h"
    and "NewRouteCall (Some c) req w = (call, w1)" "done_at w1 c = None"
    and "answers call (en_matcher e) data True" "m = entry_match (en_id e) (en_priority e) (en_matcher e) [] 0 data"
    and "\<And>v. \<exists>v'. h (withMatch call m) v = (Ret (res, None), v')" "res_Action res = ActionStop"
  shows "\<exists>v v'. h (withMatch call m) v = (Ret (res, None), v') \<and>
    Dispatch hostfn router (Some c) req w = (Ret (WithMatch res m, None), v')"
  using assms by (rule Dispatch_best)

text \<open>
  Two prefix routes, \<open>/\<close> declared first and with the higher priority, \<open>/api\<close> second: with the longest-prefix policy the
  key \<open>/api/x\<close> goes to the second.
\<close>

definition by_request :: "string \<Rightarrow> ((nat, unit) world_scheme, gval \<times> bool) proc" where
  "by_request req = ret (VString ''string'' req, True)"

definition prefix_entry ::
  "string \<Rightarrow> int \<Rightarrow> string \<Rightarrow> nat \<Rightarrow> (nat, unit, string, nat, nat, nat) route_entry" where
  "prefix_entry i priority pfx payload = \<lparr>en_id = i, en_priority = priority,
     en_handler = Some (\<lambda>call. ret (Handled 1 0 payload, None)), en_sub = None,
     en_matcher = prefixMatcher (Some by_request) (VString ''string'' pfx)\<rparr>"

definition prefix_tables :: "(nat, unit, string, nat, nat, nat) tables" where
  "prefix_tables = [\<lparr>tb_routes = [prefix_entry ''root'' 9 ''/'' 1, prefix_entry ''api'' 1 ''/api'' 2],
     tb_fallback = None, tb_longestPrefixWins = True\<rparr>]"

lemma prefix_tables_build: "\<exists>router. Build prefix_tables (Some 0) = Inr router"
  by (simp add: Build_def prefix_tables_def prefix_entry_def validateConfiguration_def prefixMatcher_def Let_def finish_build_def)

theorem Dispatch_selects_best_route_witness:
  "\<exists>router w' m. Build prefix_tables (Some 0) = Inr router \<and>
     Dispatch (\<lambda>_. ret None) router (Some Background) ''/api/x'' idle_world =
       (Ret (WithMatch (Handled 1 0 2) m, None), w') \<and> rm_RouteID m = ''api'' \<and> rm_Remainder m = ''/x''"
proof -
  obtain router where router: "Build prefix_tables (Some 0) = Inr router" using prefix_tables_build by blast
  let ?e = "prefix_entry ''api'' 1 ''/api'' 2"
  let ?h = "\<lambda>call :: string route_call. ret (Handled 1 0 2, None) :: ((nat, unit) world_scheme, (nat, nat, nat) route_result \<times> err) proc"
  let ?data = "zero_match_data\<lparr>md_key := ''/api/x'', md_prefix := ''/api'', md_remainder := ''/x''\<rparr>"
  obtain call :: "string route_call" and w1 :: "(nat, unit) world_scheme"
    where call: "NewRouteCall (Some Background) ''/api/x'' idle_world = (call, w1)" by fastforce
  have req: "rc_Request call = ''/api/x''" using call by (auto simp: NewRouteCall_def)
  have tab: "tb_routes (prefix_tables ! 0) = [prefix_entry ''root'' 9 ''/'' 1] @ ?e # []"
    "tb_longestPrefixWins (prefix_tables ! 0)" by (simp_all add: prefix_tables_def)
  have best: "best_route (tb_longestPrefixWins (prefix_tables ! 0)) call [prefix_entry ''root'' 9 ''/'' 1] ?e []"
    using tab(2) by (simp add: best_route_def declared_key_def route_key_def prefix_entry_def prefixMatcher_def Let_def
        prefixString_def routeGroup_def)
  have ans: "answers call (en_matcher ?e) ?data True"
    using req by (simp add: answers_def prefix_entry_def prefixMatcher_def Let_def prefixString_def by_request_def
        HasPrefix_def TrimPrefix_def seq_def)
  have "\<exists>v v'. ?h (withMatch call (entry_match (en_id ?e) (en_priority ?e) (en_matcher ?e) [] 0 ?data)) v =
      (Ret (Handled 1 0 2, None), v') \<and>
    Dispatch (\<lambda>_. ret None) router (Some Background) ''/api/x'' idle_world =
      (Ret (WithMatch (Handled 1 0 2) (entry_match (en_id ?e) (en_priority ?e) (en_matcher ?e) [] 0 ?data), None), v')"
  proof (rule Dispatch_selects_best_route [OF router tab(1) best _ _ call _ ans refl])
    show "en_sub ?e = None" "en_handler ?e = Some ?h" by (simp_all add: prefix_entry_def)
  qed (simp_all add: Handled_def)
  moreover have "rm_RouteID (entry_match (en_id ?e) (en_priority ?e) (en_matcher ?e) [] 0 ?data) = ''api''"
    "rm_Remainder (entry_match (en_id ?e) (en_priority ?e) (en_matcher ?e) [] 0 ?data) = ''/x''"
    by (simp_all add: prefix_entry_def entry_match_def)
  ultimately show ?thesis using router by metis
qed

end
